(* ===== verification/Flow_Prelude.thy ===== *)
theory Flow_Prelude
  imports Main "HOL-Library.Word" "HOL-Library.List_Lexorder" "HOL-Library.Char_ord"
    "HOL-Library.Multiset"
begin

text \<open>
  Shared vocabulary of the development: machine integers, strings, results, the
  standard-library containers of the Rust sources (\<open>BTreeMap\<close>, \<open>BTreeSet\<close>, the
  \<open>entry(..).or_default().push(..)\<close> idiom) and the generic lemmas every component uses.

  A Rust \<open>String\<close> is its sequence of UTF-8 bytes, so \<open>length\<close> is \<open>str::len\<close> and the
  lexicographic order of \<open>List_Lexorder\<close> is the byte order of \<open>Ord for str\<close>.  A
  \<open>BTreeMap\<close> is an association list with strictly increasing keys, a \<open>HashSet\<close> a HOL set
  and a \<open>HashMap\<close> a HOL map: their iteration order is never observed by the code that
  is modelled that way.
\<close>

type_synonym u16 = "16 word"
type_synonym u32 = "32 word"
type_synonym u64 = "64 word"
type_synonym datetime = int  \<comment> \<open>nanoseconds since the epoch\<close>
type_synonym ('e, 'a) result = "'e + 'a"
type_synonym ('k, 'v) btree = "('k \<times> 'v) list"

abbreviation Ok :: "'a \<Rightarrow> ('e, 'a) result" where "Ok \<equiv> Inr"
abbreviation Err :: "'e \<Rightarrow> ('e, 'a) result" where "Err \<equiv> Inl"

named_theorems bt_simps "equations of the ordered-map operations"
named_theorems flow_splits "case splits of the error-handling combinators"

section \<open>Results: the \<open>?\<close> operator\<close>

fun and_then :: "('e, 'a) result \<Rightarrow> ('a \<Rightarrow> ('e, 'b) result) \<Rightarrow> ('e, 'b) result" where
  "and_then (Inl e) f = Inl e"
| "and_then (Inr x) f = f x"

fun ok_or :: "'a option \<Rightarrow> 'e \<Rightarrow> ('e, 'a) result" where
  "ok_or None e = Inl e"
| "ok_or (Some x) e = Inr x"

fun map_err :: "('e \<Rightarrow> 'f) \<Rightarrow> ('e, 'a) result \<Rightarrow> ('f, 'a) result" where
  "map_err f (Inl e) = Inl (f e)"
| "map_err f (Inr x) = Inr x"

fun unwrap_or :: "'a option \<Rightarrow> 'a \<Rightarrow> 'a" where
  "unwrap_or None d = d"
| "unwrap_or (Some x) d = x"

lemma and_then_cong [fundef_cong]:
  "r = r' \<Longrightarrow> (\<And>x. r' = Inr x \<Longrightarrow> f x = g x) \<Longrightarrow> and_then r f = and_then r' g"
  by (cases r') simp_all

lemma and_then_Ok [simp]: "and_then r f = Inr y \<longleftrightarrow> (\<exists>x. r = Inr x \<and> f x = Inr y)"
  by (cases r) simp_all

lemma and_then_Err: "and_then r f = Inl e \<longleftrightarrow> r = Inl e \<or> (\<exists>x. r = Inr x \<and> f x = Inl e)"
  by (cases r) auto

lemma and_then_ErrE [elim!]:
  assumes "and_then r f = Inl e"
  obtains "r = Inl e" | x where "r = Inr x" "f x = Inl e"
  using assms by (cases r) auto

lemma map_err_Ok: "map_err f r = Inr x \<longleftrightarrow> r = Inr x"
  by (cases r) simp_all

lemma ok_or_Ok [simp]: "ok_or x e = Inr y \<longleftrightarrow> x = Some y"
  by (cases x) simp_all

lemma ok_or_Err [simp]: "ok_or x e = Inl e' \<longleftrightarrow> x = None \<and> e' = e"
  by (cases x) auto

section \<open>Ordered maps (\<open>BTreeMap\<close>)\<close>

fun bt_get :: "'k \<Rightarrow> ('k, 'v) btree \<Rightarrow> 'v option" where
  "bt_get k [] = None"
| "bt_get k ((k', v) # m) = (if k' = k then Some v else bt_get k m)"

fun bt_insert :: "'k::linorder \<Rightarrow> 'v \<Rightarrow> ('k, 'v) btree \<Rightarrow> ('k, 'v) btree" where
  "bt_insert k v [] = [(k, v)]"
| "bt_insert k v ((k', v') # m) =
     (if k' < k then (k', v') # bt_insert k v m
      else if k' = k then (k, v) # m
      else (k, v) # (k', v') # m)"

definition bt_remove :: "'k \<Rightarrow> ('k, 'v) btree \<Rightarrow> ('k, 'v) btree" where
  "bt_remove k m = filter (\<lambda>e. fst e \<noteq> k) m"

definition bt_wf :: "('k::linorder, 'v) btree \<Rightarrow> bool" where
  "bt_wf m \<longleftrightarrow> sorted_wrt (<) (map fst m)"

text \<open>Collecting an iterator of pairs into a \<open>BTreeMap\<close>: later entries win.\<close>

definition bt_of_list :: "('k::linorder \<times> 'v) list \<Rightarrow> ('k, 'v) btree" where
  "bt_of_list kvs = fold (\<lambda>(k, v) m. bt_insert k v m) kvs []"

lemma bt_get_insert [simp, bt_simps]:
  "bt_get k (bt_insert k' v m) = (if k = k' then Some v else bt_get k m)"
  by (induction m) auto

lemma bt_keys_insert [simp, bt_simps]:
  "set (map fst (bt_insert k v m)) = insert k (set (map fst m))"
proof (induction m)
  case (Cons e m)
  then show ?case by (cases e) (simp add: insert_commute)
qed simp

lemma bt_fst_image_insert [simp]: "fst ` set (bt_insert k v m) = insert k (fst ` set m)"
  using bt_keys_insert [of k v m] by simp

lemma bt_wf_Nil [simp, intro]: "bt_wf []"
  by (simp add: bt_wf_def)

lemma bt_wf_Cons [bt_simps]: "bt_wf ((k, v) # m) \<longleftrightarrow> (\<forall>k' \<in> fst ` set m. k < k') \<and> bt_wf m"
  by (auto simp: bt_wf_def)

lemma bt_wf_insert [simp, intro]: "bt_wf m \<Longrightarrow> bt_wf (bt_insert k v m)"
  by (induction m) (force simp: bt_wf_Cons)+

lemma bt_get_remove [simp, bt_simps]: "bt_get k (bt_remove k' m) = (if k = k' then None else bt_get k m)"
  by (induction m) (auto simp: bt_remove_def)

lemma bt_wf_remove [simp, intro]: "bt_wf m \<Longrightarrow> bt_wf (bt_remove k m)"
  by (induction m) (auto simp: bt_remove_def bt_wf_Cons)

lemma bt_get_None_iff: "bt_get k m = None \<longleftrightarrow> k \<notin> fst ` set m"
proof (induction m)
  case (Cons e m)
  then show ?case by (cases e) auto
qed simp

lemma bt_get_distinct: "distinct (map fst m) \<Longrightarrow> e \<in> set m \<Longrightarrow> bt_get (fst e) m = Some (snd e)"
  by (induction m) force+

lemma bt_get_Some_mem: "bt_get k m = Some v \<Longrightarrow> (k, v) \<in> set m"
  by (induction m) (auto split: if_splits)

lemma bt_get_mem: "bt_wf m \<Longrightarrow> (k, v) \<in> set m \<Longrightarrow> bt_get k m = Some v"
  by (induction m) (force simp: bt_wf_Cons)+

text \<open>Two ordered maps with the same lookups are the same list: a \<open>BTreeMap\<close> is determined by
  its content, whatever the order of insertions.\<close>

lemma bt_wf_Cons_min:
  "bt_wf ((k, v) # m) \<Longrightarrow> bt_get k' ((k, v) # m) \<noteq> None \<Longrightarrow> k \<le> k'"
  by (auto simp: bt_wf_Cons dest!: bt_get_Some_mem split: if_splits)

lemma bt_ext:
  assumes "bt_wf m" "bt_wf m'" "\<And>k. bt_get k m = bt_get k m'"
  shows "m = m'"
  using assms
proof (induction m arbitrary: m')
  case Nil
  then show ?case by (cases m') (auto split: if_splits, metis option.distinct(1))
next
  case (Cons e m)
  obtain k v where e: "e = (k, v)" by force
  with Cons.prems(3) [of k] obtain k' v' m'' where m': "m' = (k', v') # m''"
    by (cases m') auto
  have "k \<le> k'"
    using bt_wf_Cons_min [of k v m k'] Cons.prems(1) Cons.prems(3) [of k'] e m' by simp
  moreover have "k' \<le> k"
    using bt_wf_Cons_min [of k' v' m'' k] Cons.prems(2) Cons.prems(3) [of k, symmetric] e m'
    by simp
  ultimately have k: "k' = k" by simp
  with Cons.prems(3) [of k] e m' have v: "v' = v" by simp
  have "bt_get j m = bt_get j m''" for j
  proof (cases "j = k")
    case True
    with Cons.prems(1,2) e m' k show ?thesis
      by (metis bt_get_None_iff bt_wf_Cons order_less_irrefl)
  next
    case False
    with Cons.prems(3) [of j] e m' k show ?thesis by simp
  qed
  then have "m = m''"
    using Cons.IH Cons.prems(1,2) e m' by (simp add: bt_wf_Cons)
  with e m' k v show ?case by simp
qed

lemma bt_insert_commute:
  "bt_wf m \<Longrightarrow> k \<noteq> k' \<Longrightarrow> bt_insert k v (bt_insert k' v' m) = bt_insert k' v' (bt_insert k v m)"
  by (rule bt_ext) auto

lemma bt_fold_wf: "bt_wf m \<Longrightarrow> bt_wf (fold (\<lambda>(k, v). bt_insert k v) kvs m)"
  by (induction kvs arbitrary: m) auto

lemma bt_wf_of_list [simp, intro]: "bt_wf (bt_of_list kvs)"
  unfolding bt_of_list_def by (rule bt_fold_wf) simp

lemma bt_wf_map [simp]: "bt_wf (map (\<lambda>(k, v). (k, f k v)) m) \<longleftrightarrow> bt_wf m"
  by (simp add: bt_wf_def comp_def case_prod_unfold)

lemma bt_get_map: "bt_get k (map (\<lambda>(k, v). (k, f k v)) m) = map_option (f k) (bt_get k m)"
  by (induction m) auto

section \<open>Hash maps as association lists: \<open>map.entry(k).or_default().push(x)\<close>\<close>

text \<open>Where a \<open>HashMap\<close> has to be finite and computable it is an association list read with
  \<open>bt_get\<close>; the order of its entries is not observed.\<close>

fun entry_push :: "'k \<Rightarrow> 'v \<Rightarrow> ('k \<times> 'v list) list \<Rightarrow> ('k \<times> 'v list) list" where
  "entry_push k x [] = [(k, [x])]"
| "entry_push k x ((k', xs) # m) =
     (if k' = k then (k', xs @ [x]) # m else (k', xs) # entry_push k x m)"

definition group_by :: "('v \<Rightarrow> 'k) \<Rightarrow> 'v list \<Rightarrow> ('k \<times> 'v list) list" where
  "group_by key xs = fold (\<lambda>x m. entry_push (key x) x m) xs []"

lemma bt_get_entry_push:
  "bt_get k (entry_push k' x m) =
     (if k = k' then Some ((case bt_get k m of None \<Rightarrow> [] | Some xs \<Rightarrow> xs) @ [x]) else bt_get k m)"
  by (induction m) auto

lemma group_fold:
  "bt_get k (fold (\<lambda>x m. entry_push (key x) x m) xs m) =
     (if filter (\<lambda>x. key x = k) xs = [] then bt_get k m
      else Some ((case bt_get k m of None \<Rightarrow> [] | Some ys \<Rightarrow> ys) @ filter (\<lambda>x. key x = k) xs))"
  by (induction xs arbitrary: m) (auto simp: bt_get_entry_push)

lemma group_by_eq:
  "bt_get k (group_by key xs) =
     (if filter (\<lambda>x. key x = k) xs = [] then None else Some (filter (\<lambda>x. key x = k) xs))"
  by (simp add: group_by_def group_fold)

lemma group_by_mem: "bt_get k (group_by key xs) = Some ys \<Longrightarrow> set ys \<subseteq> {x \<in> set xs. key x = k}"
  by (auto simp: group_by_eq split: if_splits)

lemma entry_push_keys: "fst ` set (entry_push k x m) = insert k (fst ` set m)"
proof (induction m)
  case (Cons g m)
  then show ?case by (cases g) (simp add: insert_commute)
qed simp

lemma entry_push_groups:
  "distinct (map fst m) \<and> (\<forall>g \<in> set m. snd g \<noteq> []) \<Longrightarrow>
     distinct (map fst (entry_push k x m)) \<and> (\<forall>g \<in> set (entry_push k x m). snd g \<noteq> [])"
proof (induction m)
  case (Cons g m)
  then show ?case by (cases g) (auto simp: entry_push_keys)
qed simp

lemma group_by_groups:
  "distinct (map fst (group_by key xs)) \<and> (\<forall>g \<in> set (group_by key xs). snd g \<noteq> [])"
proof -
  have "distinct (map fst m) \<and> (\<forall>g \<in> set m. snd g \<noteq> []) \<Longrightarrow>
      distinct (map fst (fold (\<lambda>x m. entry_push (key x) x m) xs m))
      \<and> (\<forall>g \<in> set (fold (\<lambda>x m. entry_push (key x) x m) xs m). snd g \<noteq> [])" for m
  proof (induction xs arbitrary: m)
    case (Cons x xs)
    from Cons.IH [OF entry_push_groups [OF Cons.prems]] show ?case by simp
  qed simp
  from this [of "[]"] show ?thesis by (simp add: group_by_def)
qed

text \<open>\<open>get_mut(k)\<close> followed by an update, and \<open>entry(k).or_insert_with(d)\<close> followed by an update.\<close>

fun hm_modify :: "'k \<Rightarrow> ('v \<Rightarrow> 'v) \<Rightarrow> ('k \<times> 'v) list \<Rightarrow> ('k \<times> 'v) list" where
  "hm_modify k f [] = []"
| "hm_modify k f ((k', v) # m) = (if k' = k then (k', f v) # m else (k', v) # hm_modify k f m)"

definition hm_entry :: "'k \<Rightarrow> 'v \<Rightarrow> ('v \<Rightarrow> 'v) \<Rightarrow> ('k \<times> 'v) list \<Rightarrow> ('k \<times> 'v) list" where
  "hm_entry k d f m = (if bt_get k m = None then m @ [(k, f d)] else hm_modify k f m)"

lemma bt_get_modify: "bt_get k (hm_modify k' f m) = (if k = k' then map_option f (bt_get k m) else bt_get k m)"
  by (induction m) auto

lemma bt_get_append: "bt_get k (m @ m') = (case bt_get k m of None \<Rightarrow> bt_get k m' | Some v \<Rightarrow> Some v)"
  by (induction m) auto

lemma bt_get_entry:
  "bt_get k (hm_entry k' d f m) =
     (if k = k' then Some (f (case bt_get k m of None \<Rightarrow> d | Some v \<Rightarrow> v)) else bt_get k m)"
  by (auto simp: hm_entry_def bt_get_modify bt_get_append split: option.split)

section \<open>Decimal rendering of naturals (\<open>Display\<close> for unsigned integers)\<close>

definition digit_char :: "nat \<Rightarrow> char" where
  "digit_char d = char_of (48 + d)"

fun show_nat :: "nat \<Rightarrow> string" where
  "show_nat n = (if n < 10 then [digit_char n] else show_nat (n div 10) @ [digit_char (n mod 10)])"

declare show_nat.simps [simp del]

lemma show_nat_nonempty [simp]: "show_nat n \<noteq> []"
  by (subst show_nat.simps) simp

section \<open>File names\<close>

text \<open>
  Names that are one component of a path, so that joining them to a directory stays in it and different
  names give different files.
\<close>

definition path_name :: "string \<Rightarrow> bool" where
  "path_name n \<longleftrightarrow> n \<noteq> [] \<and> CHR ''/'' \<notin> set n \<and> n \<noteq> ''.'' \<and> n \<noteq> ''..''"

lemma path_name_nonempty [dest]: "path_name n \<Longrightarrow> n \<noteq> []"
  by (simp add: path_name_def)

section \<open>UTF-8\<close>

text \<open>Continuation bytes \<open>10xxxxxx\<close>, and \<open>str::is_char_boundary\<close>: slicing a string elsewhere panics.\<close>

definition is_continuation :: "char \<Rightarrow> bool" where
  "is_continuation c \<longleftrightarrow> CHR 0x80 \<le> c \<and> c \<le> CHR 0xBF"

definition is_char_boundary :: "string \<Rightarrow> nat \<Rightarrow> bool" where
  "is_char_boundary s i \<longleftrightarrow> i = length s \<or> (i < length s \<and> \<not> is_continuation (s ! i))"

section \<open>Lists\<close>

lemma sorted_wrt_less_distinct: "sorted_wrt (<) (xs :: 'a::linorder list) \<Longrightarrow> distinct xs"
  by (induction xs) auto

lemma bt_wf_keys: "bt_wf m \<Longrightarrow> map fst m = sorted_list_of_set (fst ` set m)"
  by (metis bt_wf_def list.set_map sorted_list_of_set.idem_if_sorted_distinct sorted_wrt_less_distinct
      strict_sorted_imp_sorted)

lemma find_Some_mem: "List.find P xs = Some x \<Longrightarrow> x \<in> set xs \<and> P x"
  by (induction xs) (auto split: if_splits)

section \<open>Words\<close>

lemma unat_of_nat_u32: "n < 2 ^ 32 \<Longrightarrow> unat (of_nat n :: u32) = n"
  by (simp add: unat_of_nat)

lemma unat_of_nat_u64: "n < 2 ^ 64 \<Longrightarrow> unat (of_nat n :: u64) = n"
  by (simp add: unat_of_nat)

end
