(* ===== verification/F64.thy ===== *)
theory F64
  imports Complex_Main Flow_Prelude
begin

text \<open>
  The IEEE-754 binary64 arithmetic behind Rust's \<open>f64\<close>, as far as the engine uses it.  A
  finite value is the rational it denotes (the two zeros are identified: no comparison of
  the modelled code tells them apart), every operation is the exact rational operation
  followed by \<open>f64_round\<close>, rounding to nearest with ties to even, with gradual underflow
  below \<open>2 ^ (-1022)\<close> and overflow to infinity at \<open>2 ^ 1024\<close>.
\<close>

datatype f64 = Fin rat | PosInf | NegInf | NaN

section \<open>Rounding\<close>

fun nat_log2 :: "nat \<Rightarrow> nat" where
  "nat_log2 n = (if n < 2 then 0 else Suc (nat_log2 (n div 2)))"

declare nat_log2.simps [simp del]

definition floor_log2 :: "rat \<Rightarrow> int" where
  "floor_log2 q =
     (let (n, d) = quotient_of q; e = int (nat_log2 (nat n)) - int (nat_log2 (nat d))
      in if 2 powi e \<le> q then e else e - 1)"

definition round_half_even :: "rat \<Rightarrow> int" where
  "round_half_even x =
     (let f = \<lfloor>x\<rfloor>; r = x - of_int f
      in if r < 1 / 2 then f else if 1 / 2 < r then f + 1 else if even f then f else f + 1)"

definition f64_round :: "rat \<Rightarrow> f64" where
  "f64_round q =
     (if q = 0 then Fin 0
      else let a = \<bar>q\<bar>; e = max (floor_log2 a) (- 1022); u = 2 powi (e - 52);
               r = of_int (round_half_even (a / u)) * u
           in if 2 ^ 1024 \<le> r then (if 0 < q then PosInf else NegInf)
              else Fin (if 0 < q then r else - r))"

section \<open>Operations\<close>

fun f64_add :: "f64 \<Rightarrow> f64 \<Rightarrow> f64" where
  "f64_add (Fin a) (Fin b) = f64_round (a + b)"
| "f64_add NaN _ = NaN"
| "f64_add _ NaN = NaN"
| "f64_add PosInf NegInf = NaN"
| "f64_add NegInf PosInf = NaN"
| "f64_add PosInf _ = PosInf"
| "f64_add _ PosInf = PosInf"
| "f64_add NegInf _ = NegInf"
| "f64_add _ NegInf = NegInf"

fun f64_neg :: "f64 \<Rightarrow> f64" where
  "f64_neg (Fin a) = Fin (- a)"
| "f64_neg PosInf = NegInf"
| "f64_neg NegInf = PosInf"
| "f64_neg NaN = NaN"

definition f64_sub :: "f64 \<Rightarrow> f64 \<Rightarrow> f64" where
  "f64_sub a b = f64_add a (f64_neg b)"

fun f64_abs :: "f64 \<Rightarrow> f64" where
  "f64_abs (Fin a) = Fin \<bar>a\<bar>"
| "f64_abs NegInf = PosInf"
| "f64_abs x = x"

fun f64_lt :: "f64 \<Rightarrow> f64 \<Rightarrow> bool" where
  "f64_lt (Fin a) (Fin b) = (a < b)"
| "f64_lt NaN _ = False"
| "f64_lt _ NaN = False"
| "f64_lt PosInf _ = False"
| "f64_lt _ NegInf = False"
| "f64_lt NegInf _ = True"
| "f64_lt _ PosInf = True"

fun f64_eq :: "f64 \<Rightarrow> f64 \<Rightarrow> bool" where
  "f64_eq NaN _ = False"
| "f64_eq x y = (x = y)"

definition f64_le :: "f64 \<Rightarrow> f64 \<Rightarrow> bool" where
  "f64_le a b \<longleftrightarrow> f64_lt a b \<or> f64_eq a b"

fun f64_sgn :: "f64 \<Rightarrow> int" where
  "f64_sgn (Fin a) = (if 0 < a then 1 else if a < 0 then - 1 else 0)"
| "f64_sgn PosInf = 1"
| "f64_sgn NegInf = - 1"
| "f64_sgn NaN = 0"

definition f64_mul :: "f64 \<Rightarrow> f64 \<Rightarrow> f64" where
  "f64_mul a b =
     (case (a, b) of
        (Fin x, Fin y) \<Rightarrow> f64_round (x * y)
      | _ \<Rightarrow> (if f64_sgn a * f64_sgn b = 0 then NaN
              else if 0 < f64_sgn a * f64_sgn b then PosInf else NegInf))"

text \<open>The \<open>as u64\<close> cast truncates towards zero and saturates; \<open>NaN\<close> becomes zero.\<close>

fun f64_to_u64 :: "f64 \<Rightarrow> u64" where
  "f64_to_u64 (Fin a) = (if a \<le> 0 then 0 else if 2 ^ 64 \<le> a then - 1 else of_int \<lfloor>a\<rfloor>)"
| "f64_to_u64 PosInf = - 1"
| "f64_to_u64 NegInf = 0"
| "f64_to_u64 NaN = 0"

text \<open>\<open>f64::EPSILON\<close> is \<open>2 ^ (-52)\<close>.\<close>

definition f64_epsilon :: f64 where
  "f64_epsilon = Fin (1 / 2 ^ 52)"

text \<open>Conversion of an integer to \<open>f64\<close>: the \<open>as f64\<close> cast rounds to nearest.\<close>

definition f64_of_int :: "int \<Rightarrow> f64" where
  "f64_of_int n = f64_round (of_int n)"

section \<open>Integers of up to 53 bits are exact\<close>

lemma nat_log2_bounds: "0 < n \<Longrightarrow> 2 ^ nat_log2 n \<le> n \<and> n < 2 ^ Suc (nat_log2 n)"
proof (induction n rule: nat_log2.induct)
  case (1 n)
  show ?case
  proof (cases "n < 2")
    case True
    moreover from True have "nat_log2 n = 0" by (subst nat_log2.simps) simp
    ultimately show ?thesis using 1(2) by simp
  next
    case False
    then have IH: "2 ^ nat_log2 (n div 2) \<le> n div 2" "n div 2 < 2 ^ Suc (nat_log2 (n div 2))"
      using 1 by simp_all
    from False have eq: "nat_log2 n = Suc (nat_log2 (n div 2))"
      by (subst nat_log2.simps) simp
    show ?thesis unfolding eq using IH by simp linarith
  qed
qed

lemma floor_log2_of_nat:
  assumes "0 < n"
  shows "floor_log2 (of_nat n) = int (nat_log2 n)"
proof -
  have l1: "nat_log2 (Suc 0) = 0" by (subst nat_log2.simps) simp
  have "(2::rat) powi int (nat_log2 n) \<le> of_nat n"
    using nat_log2_bounds [OF assms] by (metis of_nat_le_iff of_nat_numeral of_nat_power power_int_of_nat)
  then show ?thesis by (simp add: floor_log2_def l1 Let_def del: power_int_of_nat)
qed

lemma round_half_even_of_int [simp]: "round_half_even (of_int k) = k"
  by (simp add: round_half_even_def)

lemma round_half_even_ge: "of_int k \<le> x \<Longrightarrow> k \<le> round_half_even x"
proof -
  assume "of_int k \<le> x"
  then have "k \<le> \<lfloor>x\<rfloor>" by (simp add: le_floor_iff)
  then show ?thesis by (simp add: round_half_even_def Let_def)
qed

lemma f64_round_0 [simp]: "f64_round 0 = Fin 0"
  by (simp add: f64_round_def)

lemma f64_round_neg: "f64_round (- q) = f64_neg (f64_round q)"
  by (auto simp: f64_round_def Let_def)

lemma f64_round_nat_scale:
  assumes "0 < n"
  shows "f64_round (of_nat n) =
    (let u = 2 powi (int (nat_log2 n) - 52); r = of_int (round_half_even (of_nat n / u)) * u
     in if 2 ^ 1024 \<le> r then PosInf else Fin r)"
  using assms by (simp add: f64_round_def floor_log2_of_nat Let_def)

lemma f64_round_nat:
  assumes "n \<le> 2 ^ 53"
  shows "f64_round (of_nat n) = Fin (of_nat n)"
proof (cases "n = 0")
  case False
  define e where "e = nat_log2 n"
  define u :: rat where "u = 2 powi (int e - 52)"
  have b: "2 ^ e \<le> n" "n < 2 ^ Suc e"
    using False nat_log2_bounds [of n] by (auto simp: e_def)
  have u0: "u \<noteq> 0" by (simp add: u_def)
  have "\<exists>k. (of_nat n :: rat) / u = of_int k"
  proof (cases "e \<le> 52")
    case True
    then have "u = 1 / 2 ^ (52 - e)"
      by (simp add: u_def power_int_def power_one_over nat_diff_distrib' flip: nat_int_comparison)
    then have "(of_nat n :: rat) / u = of_nat (n * 2 ^ (52 - e))"
      by simp
    then show ?thesis by (metis of_int_of_nat_eq)
  next
    case False
    with assms b(1) have "(2::nat) ^ e \<le> 2 ^ 53" by linarith
    then have "e \<le> 53" by (metis one_less_numeral_iff power_increasing_iff semiring_norm(76))
    with False have "e = 53" by simp
    with b(1) assms have "n = 2 ^ 53" by simp
    moreover have "u = 2" using \<open>e = 53\<close> by (simp add: u_def)
    ultimately have "(of_nat n :: rat) / u = of_int (2 ^ 52)" by simp
    then show ?thesis by blast
  qed
  then obtain k where k: "(of_nat n :: rat) / u = of_int k" by blast
  have "(of_nat n :: rat) \<le> of_nat (2 ^ 53)" using assms by (simp only: of_nat_le_iff)
  also have "\<dots> = (2 :: rat) ^ 53" by simp
  also have "\<dots> < 2 ^ 1024" by (rule power_strict_increasing) simp_all
  finally have lt: "\<not> (2 ^ 1024 :: rat) \<le> of_nat n" by (simp only: not_le)
  have "of_int k * u = of_nat n" using k u0 by (simp add: field_simps)
  with lt k False show ?thesis
    by (simp add: f64_round_nat_scale Let_def flip: e_def u_def)
qed simp

lemma f64_of_int_exact:
  assumes "\<bar>n\<bar> \<le> 2 ^ 53"
  shows "f64_of_int n = Fin (of_int n)"
proof -
  have p: "f64_round (of_nat (nat \<bar>n\<bar>)) = Fin (of_nat (nat \<bar>n\<bar>))"
    by (rule f64_round_nat) (use assms in simp)
  show ?thesis
  proof (cases "0 \<le> n")
    case True
    with p show ?thesis by (simp add: f64_of_int_def of_nat_nat)
  next
    case False
    then have "f64_round (- of_int n) = Fin (- of_int n)"
      using p by (simp add: of_nat_nat)
    then show ?thesis
      using f64_round_neg [of "- of_int n"] by (simp add: f64_of_int_def)
  qed
qed

text \<open>A nonzero integer never rounds to something smaller than one.\<close>

lemma f64_round_nat_ge_1:
  assumes "0 < n"
  shows "f64_round (of_nat n) = PosInf \<or> (\<exists>r \<ge> 1. f64_round (of_nat n) = Fin r)"
proof -
  define e where "e = nat_log2 n"
  define u :: rat where "u = 2 powi (int e - 52)"
  have u0: "0 < u" by (simp add: u_def)
  have scale: "2 ^ 52 * u = 2 ^ e"
    by (simp add: u_def power_int_diff)
  have "(2 ^ e :: rat) \<le> of_nat n"
    using nat_log2_bounds [OF assms] by (metis e_def of_nat_le_iff of_nat_numeral of_nat_power)
  then have "of_int (2 ^ 52) \<le> (of_nat n :: rat) / u"
    using u0 scale by (simp add: field_simps)
  then have "2 ^ 52 \<le> round_half_even (of_nat n / u)" by (rule round_half_even_ge)
  then have "(of_int (2 ^ 52) :: rat) \<le> of_int (round_half_even (of_nat n / u))"
    by (simp only: of_int_le_iff)
  then have "of_int (2 ^ 52) * u \<le> of_int (round_half_even (of_nat n / u)) * u"
    using u0 by (intro mult_right_mono) simp_all
  then have "2 ^ e \<le> of_int (round_half_even (of_nat n / u)) * u" using scale by simp
  then have "1 \<le> of_int (round_half_even (of_nat n / u)) * u"
    using one_le_power [of "2 :: rat" e] by linarith
  then show ?thesis
    using assms by (simp add: f64_round_nat_scale Let_def flip: e_def u_def)
qed

lemma f64_abs_neg: "f64_abs (f64_neg x) = f64_abs x"
  by (cases x) simp_all

lemma f64_sub_int_close:
  assumes "\<bar>m\<bar> \<le> 2 ^ 53" "\<bar>n\<bar> \<le> 2 ^ 53"
  shows "f64_lt (f64_abs (f64_sub (f64_of_int m) (f64_of_int n))) f64_epsilon \<longleftrightarrow> m = n"
    and "f64_le f64_epsilon (f64_abs (f64_sub (f64_of_int m) (f64_of_int n))) \<longleftrightarrow> m \<noteq> n"
proof -
  have sub: "f64_sub (f64_of_int m) (f64_of_int n) = f64_round (of_int (m - n))"
    using assms by (simp add: f64_of_int_exact f64_sub_def)
  have "m = n \<or> (\<exists>r \<ge> 1. f64_abs (f64_round (of_int (m - n))) = Fin r)
    \<or> f64_abs (f64_round (of_int (m - n))) = PosInf"
  proof (cases "m \<le> n")
    case True
    then have "(of_int (m - n) :: rat) = - of_nat (nat (n - m))" by (simp add: of_nat_nat)
    then have "f64_abs (f64_round (of_int (m - n))) = f64_abs (f64_round (of_nat (nat (n - m))))"
      by (simp only: f64_round_neg f64_abs_neg)
    then show ?thesis
      using True f64_round_nat_ge_1 [of "nat (n - m)"] by auto
  next
    case False
    then have "(of_int (m - n) :: rat) = of_nat (nat (m - n))" by (simp add: of_nat_nat)
    then show ?thesis
      using False f64_round_nat_ge_1 [of "nat (m - n)"] by auto
  qed
  with sub show "f64_lt (f64_abs (f64_sub (f64_of_int m) (f64_of_int n))) f64_epsilon \<longleftrightarrow> m = n"
    and "f64_le f64_epsilon (f64_abs (f64_sub (f64_of_int m) (f64_of_int n))) \<longleftrightarrow> m \<noteq> n"
    by (auto simp: f64_epsilon_def f64_le_def)
qed

end
