(* ===== verification/Json.thy ===== *)
theory Json
  imports F64
begin

text \<open>
  The data model of \<open>serde_json::Value\<close>, which every port, configuration and event of the
  engine carries.  The enum and its total accessors (\<open>get\<close>, \<open>as_str\<close>, \<open>as_u64\<close>, ...) are the
  documented public interface of the type; an object is a \<open>BTreeMap\<close>, as in the build the
  workspace configures (the \<open>preserve_order\<close> feature is off).  Parsing and printing JSON
  text is not modelled here: components that use it take it as a parameter.
\<close>

datatype json_number = PosInt u64 | NegInt u64 | Float f64

datatype json =
    JNull
  | JBool bool
  | JNumber json_number
  | JString string
  | JArray "json list"
  | JObject "(string \<times> json) list"

type_synonym json_map = "(string, json) btree"

section \<open>Accessors\<close>

fun num_as_f64 :: "json_number \<Rightarrow> f64" where
  "num_as_f64 (PosInt n) = f64_of_int (uint n)"
| "num_as_f64 (NegInt n) = f64_of_int (sint n)"
| "num_as_f64 (Float x) = x"

fun jget :: "json \<Rightarrow> string \<Rightarrow> json option" where
  "jget (JObject m) k = bt_get k m"
| "jget _ k = None"

fun as_str :: "json \<Rightarrow> string option" where
  "as_str (JString s) = Some s"
| "as_str _ = None"

fun as_bool :: "json \<Rightarrow> bool option" where
  "as_bool (JBool b) = Some b"
| "as_bool _ = None"

fun as_u64 :: "json \<Rightarrow> u64 option" where
  "as_u64 (JNumber (PosInt n)) = Some n"
| "as_u64 _ = None"

fun as_f64 :: "json \<Rightarrow> f64 option" where
  "as_f64 (JNumber n) = Some (num_as_f64 n)"
| "as_f64 _ = None"

fun as_array :: "json \<Rightarrow> json list option" where
  "as_array (JArray xs) = Some xs"
| "as_array _ = None"

text \<open>\<open>config.get(key).and_then(|v| v.as_str())\<close>, the idiom of every configuration reader.\<close>

definition get_str :: "json \<Rightarrow> string \<Rightarrow> string option" where
  "get_str v k = Option.bind (jget v k) as_str"

definition empty_object :: json where
  "empty_object = JObject []"

text \<open>The \<open>json!\<close> object literal: keys inserted one by one into an empty map.\<close>

definition json_object :: "(string \<times> json) list \<Rightarrow> json" where
  "json_object kvs = JObject (bt_of_list kvs)"

section \<open>Well-formed values: every object is an ordered map\<close>

fun json_wf :: "json \<Rightarrow> bool" where
  "json_wf (JArray xs) = list_all json_wf xs"
| "json_wf (JObject m) = (bt_wf m \<and> list_all (\<lambda>e. json_wf (snd e)) m)"
| "json_wf _ = True"

lemma jget_wf: "json_wf v \<Longrightarrow> jget v k = Some w \<Longrightarrow> json_wf w"
  by (cases v) (auto simp: list_all_iff dest!: bt_get_Some_mem)

lemma list_all_bt_insert:
  "P (k, v) \<Longrightarrow> list_all P m \<Longrightarrow> list_all P (bt_insert k v m)"
  by (induction m) auto

lemma list_all_bt_fold:
  "list_all P kvs \<Longrightarrow> list_all P m \<Longrightarrow> list_all P (fold (\<lambda>(k, v). bt_insert k v) kvs m)"
  by (induction kvs arbitrary: m) (auto intro: list_all_bt_insert)

lemma json_wf_object: "list_all (\<lambda>e. json_wf (snd e)) kvs \<Longrightarrow> json_wf (json_object kvs)"
  by (simp add: json_object_def) (simp add: bt_of_list_def list_all_bt_fold)

end
