(* ===== verification/Flow_Types.thy ===== *)
theory Flow_Types
  imports Json
begin

text \<open>
  The data types of \<open>types/mod.rs\<close>, \<open>types/graph.rs\<close>, \<open>types/execution.rs\<close>,
  \<open>types/triggers.rs\<close>, \<open>types/llm.rs\<close>, \<open>errors.rs\<close> and the result structs of \<open>traits.rs\<close>: structs as records in the
  field order of the source, enums as datatypes with the source's variants, the \<open>Default\<close>
  implementations and the \<open>Display\<close> of node errors.  A field whose name occurs in several
  structs carries a short prefix of its struct.  Serde attributes concern only the JSON text
  and are not modelled.
\<close>

section \<open>Ports and node metadata (\<open>types/mod.rs\<close>)\<close>

definition GRAPH_SCHEMA_VERSION :: u16 where "GRAPH_SCHEMA_VERSION = 1"

definition WRITE_EVENT_SCHEMA_VERSION :: u16 where "WRITE_EVENT_SCHEMA_VERSION = 1"

datatype port_type =
    PtString | PtNumber | PtBool | PtJson
  | PtList port_type | PtMap port_type
  | PtBinary | PtAny | PtCustom string

datatype sensitivity = SensNone | Pii | Masked | Secret | SensCustom string

record port_def =
  port_name :: string
  port_ty :: port_type
  port_required :: bool
  port_default :: "json option"
  port_description :: "string option"
  port_sensitivity :: sensitivity

record node_ui_hints =
  icon :: "string option"
  color :: "string option"
  dynamic_ports :: bool

record retry_policy =
  max_attempts :: u32
  backoff_ms :: u64
  backoff_multiplier :: f64
  retryable_errors :: "string list option"

definition retry_policy_default :: retry_policy where
  "retry_policy_default =
     \<lparr>max_attempts = 1, backoff_ms = 1000, backoff_multiplier = Fin 2, retryable_errors = None\<rparr>"

record execution_hints =
  timeout_ms :: u64
  retry :: retry_policy
  max_concurrency :: "u32 option"

definition execution_hints_default :: execution_hints where
  "execution_hints_default =
     \<lparr>timeout_ms = 30000, retry = retry_policy_default, max_concurrency = None\<rparr>"

record node_meta =
  meta_node_type :: string
  label :: string
  category :: string
  meta_inputs :: "port_def list"
  meta_outputs :: "port_def list"
  config_schema :: json
  ui :: node_ui_hints
  execution :: execution_hints

datatype node_error =
    Retryable string
  | Fatal string
  | Timeout u64
  | Validation string

fun node_error_to_string :: "node_error \<Rightarrow> string" where
  "node_error_to_string (Retryable message) = ''retryable: '' @ message"
| "node_error_to_string (Fatal message) = ''fatal: '' @ message"
| "node_error_to_string (Timeout elapsed_ms) = ''timeout after '' @ show_nat (unat elapsed_ms) @ ''ms''"
| "node_error_to_string (Validation message) = ''validation: '' @ message"

section \<open>Graphs (\<open>types/graph.rs\<close>)\<close>

record edge_condition =
  cond_expression :: string
  cond_label :: "string option"

record edge =
  edge_id :: string
  from_node :: string
  from_port :: string
  to_node :: string
  to_port :: string
  edge_cond :: "edge_condition option"

record node_instance =
  instance_id :: string
  node_type :: string
  node_config :: json
  position :: "(f64 \<times> f64) option"

datatype tool_type =
    ToolNode string
  | ToolHttp string string "(string, string) btree"
  | ToolMcp string string

record tool_def =
  tool_name :: string
  tool_description :: string
  tool_parameters :: json
  tool_kind :: tool_type
  tool_metadata :: json_map

record graph_def =
  graph_schema_version :: u16
  graph_id :: string
  graph_name :: string
  graph_version :: string
  nodes :: "node_instance list"
  edges :: "edge list"
  graph_metadata :: json_map
  tool_definitions :: "(string, tool_def) btree"

record type_field =
  tf_name :: string
  tf_field_type :: port_type
  tf_description :: string
  tf_required :: bool
  tf_sensitivity :: sensitivity
  tf_example :: "json option"

record type_def =
  td_name :: string
  td_description :: string
  td_fields :: "type_field list"
  td_example :: "json option"

section \<open>Triggers (\<open>types/triggers.rs\<close>)\<close>

record replay_substitutions =
  config_overrides :: json_map
  input_override :: "json option"
  secret_overrides :: "(string, string) btree"

datatype trigger_source =
    SrcApi string
  | SrcCron string datetime
  | SrcFlow string string
  | SrcQueue string string
  | SrcManual string
  | SrcCustom string json
  | SrcReplay string string replay_substitutions

record trigger_event =
  te_flow_id :: string
  te_version_id :: "string option"
  te_inputs :: json
  te_source :: trigger_source
  idempotency_key :: "string option"

section \<open>LLM calls (\<open>types/llm.rs\<close>)\<close>

record llm_request =
  lq_provider :: string
  lq_model :: string
  lq_messages :: json
  lq_tools :: "json list option"
  lq_temperature :: "f64 option"
  lq_top_p :: "f64 option"
  lq_max_tokens :: "u32 option"
  lq_stop_sequences :: "string list option"
  lq_response_format :: "json option"
  lq_seed :: "u64 option"
  lq_extra_params :: json_map

record llm_tool_call =
  tc_id :: string
  tc_tool_name :: string
  tc_arguments :: json

record llm_cost =
  input_cost_usd :: f64
  output_cost_usd :: f64
  total_cost_usd :: f64
  pricing_source :: string

record llm_response =
  lr_content :: json
  lr_tool_calls :: "llm_tool_call list option"
  lr_model_used :: string
  lr_input_tokens :: "u32 option"
  lr_output_tokens :: "u32 option"
  lr_total_tokens :: "u32 option"
  lr_finish_reason :: string
  lr_latency_ms :: u64
  lr_provider_request_id :: "string option"
  lr_cost :: "llm_cost option"

record llm_run_summary =
  total_llm_calls :: u32
  total_input_tokens :: u64
  total_output_tokens :: u64
  summary_cost_usd :: "f64 option"
  models_used :: "string list"
  tools_invoked :: "string list"

record llm_invocation_record =
  li_run_id :: string
  li_node_id :: string
  li_request :: llm_request
  li_response :: llm_response
  li_timestamp :: datetime

datatype llm_chunk =
    TextDelta string
  | ToolCallDelta u32 "string option" "string option" string
  | Usage "u32 option" "u32 option"
  | Done string

section \<open>Runs, versions and tags (\<open>types/execution.rs\<close>)\<close>

datatype run_status = Pending | Running | Completed | Failed | Cancelled | Interrupted

record execution_id =
  exec_run_id :: string
  execution_hash :: "string option"

record flow_version =
  fv_version_id :: string
  fv_flow_id :: string
  fv_graph :: graph_def
  fv_created_at :: datetime
  fv_created_by :: "string option"
  fv_message :: "string option"

record flow_head =
  fh_flow_id :: string
  fh_name :: string
  fh_current_version_id :: string
  fh_updated_at :: datetime

record run_record =
  rr_run_id :: string
  rr_flow_id :: string
  rr_version_id :: string
  rr_status :: run_status
  rr_triggered_by :: trigger_source
  rr_config_hash :: "string option"
  rr_parent_run_id :: "string option"
  rr_replay_config :: "json option"
  rr_llm_summary :: "llm_run_summary option"
  rr_started_at :: "datetime option"
  rr_completed_at :: "datetime option"
  rr_duration_ms :: "u64 option"
  rr_inputs :: json

definition run_record_default :: run_record where
  "run_record_default =
     \<lparr>rr_run_id = [], rr_flow_id = [], rr_version_id = [], rr_status = Pending,
      rr_triggered_by = SrcManual ''local'', rr_config_hash = None, rr_parent_run_id = None,
      rr_replay_config = None, rr_llm_summary = None, rr_started_at = None,
      rr_completed_at = None, rr_duration_ms = None, rr_inputs = JNull\<rparr>"

record flow_tag =
  ft_flow_id :: string
  ft_tag :: string
  ft_version_id :: string
  ft_updated_at :: datetime

section \<open>Query results of a run store (\<open>traits.rs\<close>)\<close>

record run_filter =
  rf_flow_id :: "string option"
  rf_status :: "run_status option"
  rf_version_id :: "string option"
  rf_parent_run_id :: "string option"
  rf_limit :: "nat option"
  rf_offset :: "nat option"

record run_page =
  page_runs :: "run_record list"
  page_total :: nat

record node_run_result =
  nr_node_id :: string
  nr_status :: string
  nr_inputs :: json
  nr_outputs :: "json option"
  nr_error :: "string option"
  nr_duration_ms :: "u64 option"
  nr_attempts :: u32

record edge_run_result =
  er_edge_id :: string
  er_condition :: "string option"
  er_result :: bool
  er_data_summary :: json

record node_attempt_detail =
  ad_attempt :: u32
  ad_fan_out_index :: "u32 option"
  ad_inputs :: json
  ad_outputs :: "json option"
  ad_error :: "string option"
  ad_duration_ms :: "u64 option"

record node_run_detail =
  rd_node_id :: string
  rd_attempts :: "node_attempt_detail list"

record custom_event_record =
  ce_run_id :: string
  ce_node_id :: "string option"
  ce_name :: string
  ce_data :: json
  ce_seq :: u64

section \<open>Errors (\<open>errors.rs\<close>)\<close>

datatype secrets_error = SecretNotFound string | SecretsProviderError string

datatype state_error = StateStoreError string

datatype flow_store_error = FlowNotFoundErr string | FlowStoreError string

datatype run_store_error = RunNotFound string | RunStoreError string

datatype trigger_error = TriggerConfig string | TriggerRuntime string

end
