(* ===== verification/Write_Events.thy ===== *)
theory Write_Events
  imports Flow_Types
begin

text \<open>
  \<open>write_event.rs\<close>: the event enum that every piece of execution data passes through, with its
  sequence number, run identifier and criticality.  Constructor arguments are in the field
  order of the source.
\<close>

datatype write_event =
    RunStarted u64 u16 string string string json trigger_source "string option" "string option" datetime
  | RunCompleted u64 u16 string run_status u64 "llm_run_summary option" datetime
  | NodeStarted u64 u16 string string json "u32 option" u32 datetime
  | NodeCompleted u64 u16 string string json "u32 option" u64 datetime
  | NodeFailed u64 u16 string string string bool u32 datetime
  | EdgeEvaluated u64 u16 string string "string option" bool json datetime
  | Checkpoint u64 u16 string string json datetime
  | LlmInvocation u64 u16 string string llm_request llm_response datetime
  | LlmStreamChunk u64 u16 string string llm_chunk datetime
  | ToolInvocation u64 u16 string string json json u64 datetime
  | StepRecorded u64 u16 string string json datetime
  | Custom u64 u16 string "string option" string json datetime
  | TopologyHint u64 u16 string "string list" "(string \<times> string) list" datetime

fun ev_seq :: "write_event \<Rightarrow> u64" where
  "ev_seq (RunStarted s _ _ _ _ _ _ _ _ _) = s"
| "ev_seq (RunCompleted s _ _ _ _ _ _) = s"
| "ev_seq (NodeStarted s _ _ _ _ _ _ _) = s"
| "ev_seq (NodeCompleted s _ _ _ _ _ _ _) = s"
| "ev_seq (NodeFailed s _ _ _ _ _ _ _) = s"
| "ev_seq (EdgeEvaluated s _ _ _ _ _ _ _) = s"
| "ev_seq (Checkpoint s _ _ _ _ _) = s"
| "ev_seq (LlmInvocation s _ _ _ _ _ _) = s"
| "ev_seq (LlmStreamChunk s _ _ _ _ _) = s"
| "ev_seq (ToolInvocation s _ _ _ _ _ _ _) = s"
| "ev_seq (StepRecorded s _ _ _ _ _) = s"
| "ev_seq (Custom s _ _ _ _ _ _) = s"
| "ev_seq (TopologyHint s _ _ _ _ _) = s"

fun ev_set_seq :: "u64 \<Rightarrow> write_event \<Rightarrow> write_event" where
  "ev_set_seq n (RunStarted _ a b c d e f g h i) = RunStarted n a b c d e f g h i"
| "ev_set_seq n (RunCompleted _ a b c d e f) = RunCompleted n a b c d e f"
| "ev_set_seq n (NodeStarted _ a b c d e f g) = NodeStarted n a b c d e f g"
| "ev_set_seq n (NodeCompleted _ a b c d e f g) = NodeCompleted n a b c d e f g"
| "ev_set_seq n (NodeFailed _ a b c d e f g) = NodeFailed n a b c d e f g"
| "ev_set_seq n (EdgeEvaluated _ a b c d e f g) = EdgeEvaluated n a b c d e f g"
| "ev_set_seq n (Checkpoint _ a b c d e) = Checkpoint n a b c d e"
| "ev_set_seq n (LlmInvocation _ a b c d e f) = LlmInvocation n a b c d e f"
| "ev_set_seq n (LlmStreamChunk _ a b c d e) = LlmStreamChunk n a b c d e"
| "ev_set_seq n (ToolInvocation _ a b c d e f g) = ToolInvocation n a b c d e f g"
| "ev_set_seq n (StepRecorded _ a b c d e) = StepRecorded n a b c d e"
| "ev_set_seq n (Custom _ a b c d e f) = Custom n a b c d e f"
| "ev_set_seq n (TopologyHint _ a b c d e) = TopologyHint n a b c d e"

fun ev_run_id :: "write_event \<Rightarrow> string" where
  "ev_run_id (RunStarted _ _ r _ _ _ _ _ _ _) = r"
| "ev_run_id (RunCompleted _ _ r _ _ _ _) = r"
| "ev_run_id (NodeStarted _ _ r _ _ _ _ _) = r"
| "ev_run_id (NodeCompleted _ _ r _ _ _ _ _) = r"
| "ev_run_id (NodeFailed _ _ r _ _ _ _ _) = r"
| "ev_run_id (EdgeEvaluated _ _ r _ _ _ _ _) = r"
| "ev_run_id (Checkpoint _ _ r _ _ _) = r"
| "ev_run_id (LlmInvocation _ _ r _ _ _ _) = r"
| "ev_run_id (LlmStreamChunk _ _ r _ _ _) = r"
| "ev_run_id (ToolInvocation _ _ r _ _ _ _ _) = r"
| "ev_run_id (StepRecorded _ _ r _ _ _) = r"
| "ev_run_id (Custom _ _ r _ _ _ _) = r"
| "ev_run_id (TopologyHint _ _ r _ _ _) = r"

fun is_critical :: "write_event \<Rightarrow> bool" where
  "is_critical (LlmStreamChunk _ _ _ _ _ _) = False"
| "is_critical (Custom _ _ _ _ _ _ _) = False"
| "is_critical (TopologyHint _ _ _ _ _ _) = False"
| "is_critical _ = True"

lemma ev_seq_set_seq [simp]: "ev_seq (ev_set_seq n e) = n"
  by (cases e) simp_all

lemma ev_set_seq_seq [simp]: "ev_set_seq (ev_seq e) e = e"
  by (cases e) simp_all

lemma ev_set_seq_twice [simp]: "ev_set_seq n (ev_set_seq m e) = ev_set_seq n e"
  by (cases e) simp_all

lemma ev_run_id_set_seq [simp]: "ev_run_id (ev_set_seq n e) = ev_run_id e"
  by (cases e) simp_all

lemma is_critical_set_seq [simp]: "is_critical (ev_set_seq n e) = is_critical e"
  by (cases e) simp_all

end
