(* ===== verification/Redaction.thy ===== *)
theory Redaction
  imports Write_Events
begin

text \<open>
  Redaction of events before they are persisted: the \<open>Redactor\<close> trait of \<open>traits.rs\<close> as a
  locale, \<open>defaults/redactor.rs\<close> as its interpretation, and \<open>redact_event\<close> and \<open>redact_ports\<close>
  of \<open>write_pipeline.rs\<close> as its clients.  \<open>None\<close> is a panic: slicing a string inside a code
  point.
\<close>

section \<open>Redacting events (\<open>write_pipeline.rs\<close>)\<close>

record redactor_ops =
  redact :: "string \<Rightarrow> sensitivity \<Rightarrow> json \<Rightarrow> json option"
  redact_llm_messages :: "json \<Rightarrow> sensitivity \<Rightarrow> json option"

text \<open>Rebuilding an object entry by entry.\<close>

fun redact_entries :: "(string \<Rightarrow> json \<Rightarrow> json option) \<Rightarrow> json_map \<Rightarrow> json_map \<Rightarrow> json_map option" where
  "redact_entries f [] out = Some out"
| "redact_entries f ((k, v) # m) out =
     (case f k v of None \<Rightarrow> None | Some v' \<Rightarrow> redact_entries f m (bt_insert k v' out))"

definition port_sens :: "port_def list \<Rightarrow> string \<Rightarrow> sensitivity" where
  "port_sens ports k =
     (case List.find (\<lambda>p. port_name p = k) ports of
        None \<Rightarrow> SensNone
      | Some p \<Rightarrow> port_sensitivity p)"

fun redact_ports :: "redactor_ops \<Rightarrow> port_def list \<Rightarrow> json \<Rightarrow> json option" where
  "redact_ports R ports (JObject m) =
     map_option JObject (redact_entries (\<lambda>k v. redact R k (port_sens ports k) v) m [])"
| "redact_ports R ports other = Some other"

definition messages_sens :: "(string \<rightharpoonup> node_meta) \<Rightarrow> string \<Rightarrow> sensitivity" where
  "messages_sens meta nid =
     (case meta nid of
        None \<Rightarrow> SensNone
      | Some m \<Rightarrow> (case List.find (\<lambda>p. port_name p = ''messages'') (meta_inputs m) of
                    None \<Rightarrow> SensNone
                  | Some p \<Rightarrow> port_sensitivity p))"

fun redact_event :: "redactor_ops \<Rightarrow> (string \<rightharpoonup> node_meta) \<Rightarrow> write_event \<Rightarrow> write_event option" where
  "redact_event R meta (NodeStarted s sv r nid inputs fo a ts) =
     (case meta nid of
        None \<Rightarrow> Some (NodeStarted s sv r nid inputs fo a ts)
      | Some m \<Rightarrow> map_option (\<lambda>i. NodeStarted s sv r nid i fo a ts)
                    (redact_ports R (meta_inputs m) inputs))"
| "redact_event R meta (NodeCompleted s sv r nid outputs fo d ts) =
     (case meta nid of
        None \<Rightarrow> Some (NodeCompleted s sv r nid outputs fo d ts)
      | Some m \<Rightarrow> map_option (\<lambda>out. NodeCompleted s sv r nid out fo d ts)
                    (redact_ports R (meta_outputs m) outputs))"
| "redact_event R meta (LlmInvocation s sv r nid req resp ts) =
     (case redact_llm_messages R (lq_messages req) (messages_sens meta nid) of
        None \<Rightarrow> None
      | Some ms \<Rightarrow>
          map_option (\<lambda>c. LlmInvocation s sv r nid (req\<lparr>lq_messages := ms\<rparr>) (resp\<lparr>lr_content := c\<rparr>) ts)
            (redact_llm_messages R (lr_content resp) (messages_sens meta nid)))"
| "redact_event R meta (Custom s sv r (Some nid) name data ts) =
     (case meta nid of
        None \<Rightarrow> Some (Custom s sv r (Some nid) name data ts)
      | Some m \<Rightarrow>
          if list_ex (\<lambda>p. port_sensitivity p \<noteq> SensNone) (meta_outputs m)
          then map_option (\<lambda>d. Custom s sv r (Some nid) name d ts) (redact R name Pii data)
          else Some (Custom s sv r (Some nid) name data ts))"
| "redact_event R meta other = Some other"

section \<open>The default redactor (\<open>defaults/redactor.rs\<close>)\<close>

definition mask_string :: "string \<Rightarrow> json option" where
  "mask_string s =
     (if is_char_boundary s (length s - 4)
      then Some (JString (''****'' @ drop (length s - 4) s))
      else None)"

fun default_redact :: "string \<Rightarrow> sensitivity \<Rightarrow> json \<Rightarrow> json option" where
  "default_redact field SensNone v = Some v"
| "default_redact field Secret v = Some (JString ''[REDACTED]'')"
| "default_redact field Masked (JString s) =
     (if 4 \<le> length s then mask_string s else Some (JString ''[MASKED]''))"
| "default_redact field Masked v = Some (JString ''[MASKED]'')"
| "default_redact field Pii v = Some (JString ''[PII_REDACTED]'')"
| "default_redact field (SensCustom _) v = Some (JString ''[CUSTOM_REDACTED]'')"

fun redact_message :: "sensitivity \<Rightarrow> json \<Rightarrow> json option" where
  "redact_message sens (JObject m) =
     map_option JObject
       (redact_entries (\<lambda>k v. if k = ''content'' then default_redact ''content'' sens v else Some v) m [])"
| "redact_message sens other = Some other"

definition default_redact_llm_messages :: "json \<Rightarrow> sensitivity \<Rightarrow> json option" where
  "default_redact_llm_messages messages sens =
     (if sens = SensNone then Some messages
      else case messages of
             JArray arr \<Rightarrow> map_option JArray (those (map (redact_message sens) arr))
           | other \<Rightarrow> default_redact ''llm_messages'' sens other)"

definition default_redactor :: redactor_ops where
  "default_redactor =
     \<lparr>redact = default_redact, redact_llm_messages = default_redact_llm_messages\<rparr>"

section \<open>Contract\<close>

text \<open>
  What redaction may show of a value, as an equivalence: all of a public one, nothing of a secret,
  personal or custom one, and of a masked one the last four bytes of a text of four bytes or more.
\<close>

definition long_text :: "json \<Rightarrow> string option" where
  "long_text v = (case v of JString s \<Rightarrow> if 4 \<le> length s then Some s else None | _ \<Rightarrow> None)"

fun same_view :: "sensitivity \<Rightarrow> json \<Rightarrow> json \<Rightarrow> bool" where
  "same_view SensNone v w \<longleftrightarrow> v = w"
| "same_view Masked v w \<longleftrightarrow>
     map_option (\<lambda>s. drop (length s - 4) s) (long_text v) = map_option (\<lambda>s. drop (length s - 4) s) (long_text w)"
| "same_view _ v w \<longleftrightarrow> True"

text \<open>What the pipeline relies on: public data passes unchanged, and the redaction of a value does not
  depend on more than may be shown of it.\<close>

locale redactor =
  fixes R :: redactor_ops
  assumes public: "redact R f SensNone v = Some v"
    and public_llm: "redact_llm_messages R ms SensNone = Some ms"
    and hides: "same_view s v w \<Longrightarrow> redact R f s v = redact R f s w"
begin

lemma redact_event_no_meta: "redact_event R (\<lambda>_. None) e = Some e"
proof (cases e)
  case (Custom s sv r nid n d ts)
  then show ?thesis by (cases nid) simp_all
qed (simp_all add: messages_sens_def public_llm)

lemma redact_entries_noninterference:
  assumes "map fst m = map fst m'"
    and "list_all2 (\<lambda>(k, v) (k', v'). same_view (port_sens ports k) v v') m m'"
  shows "redact_entries (\<lambda>k v. redact R k (port_sens ports k) v) m out
    = redact_entries (\<lambda>k v. redact R k (port_sens ports k) v) m' out"
  using assms(2,1)
proof (induction m m' arbitrary: out rule: list_all2_induct)
  case (Cons x xs y ys)
  obtain k v v' where x: "x = (k, v)" "y = (k, v')" using Cons.prems by (cases x; cases y) auto
  have "redact R k (port_sens ports k) v = redact R k (port_sens ports k) v'"
    using Cons.hyps(1) hides x by auto
  with Cons x show ?case by (simp split: option.split)
qed simp

end

lemma default_redact_Masked:
  "default_redact f Masked v =
     (case long_text v of None \<Rightarrow> Some (JString ''[MASKED]'') | Some s \<Rightarrow> mask_string s)"
  by (cases v) (simp_all add: long_text_def)

lemma mask_string_last:
  assumes "4 \<le> length s"
  shows "mask_string s = (if is_continuation (hd (drop (length s - 4) s)) then None
    else Some (JString (''****'' @ drop (length s - 4) s)))"
  using assms by (auto simp: mask_string_def is_char_boundary_def hd_drop_conv_nth)

lemma long_text_length: "long_text v = Some s \<Longrightarrow> 4 \<le> length s"
  by (simp add: long_text_def split: json.splits if_splits)

lemma default_redact_view: "same_view s v w \<Longrightarrow> default_redact f s v = default_redact f s w"
proof (cases s)
  case Masked
  assume "same_view s v w"
  with Masked show ?thesis
    by (cases "long_text v"; cases "long_text w")
       (auto simp: default_redact_Masked mask_string_last dest!: long_text_length)
qed auto

lemma default_redact_tells:
  "default_redact f s v = Some x \<Longrightarrow> default_redact f s w = Some x \<Longrightarrow> same_view s v w"
  by (cases s) (auto simp: default_redact_Masked mask_string_last long_text_length
      split: option.splits if_splits)

interpretation default_r: redactor default_redactor
  by unfold_locales (simp_all add: default_redactor_def default_redact_llm_messages_def default_redact_view)

section \<open>What redaction keeps\<close>

lemma redact_event_keeps:
  assumes "redact_event R meta e = Some e'"
  shows "ev_seq e' = ev_seq e" "ev_run_id e' = ev_run_id e" "is_critical e' = is_critical e"
  using assms by (cases "(R, meta, e)" rule: redact_event.cases; auto split: option.splits if_splits)+

lemma redact_entries_wf:
  "redact_entries f m out = Some m' \<Longrightarrow> bt_wf out \<Longrightarrow> bt_wf m'"
  by (induction m arbitrary: out) (auto split: option.splits)

lemma redact_entries_get:
  assumes "bt_wf m" "redact_entries f m out = Some m'"
  shows "bt_get k m' = (case bt_get k m of None \<Rightarrow> bt_get k out | Some v \<Rightarrow> f k v)"
  using assms
proof (induction m arbitrary: out)
  case (Cons e m)
  obtain k' v where e: "e = (k', v)" by force
  with Cons.prems obtain v' where v': "f k' v = Some v'"
    and r: "redact_entries f m (bt_insert k' v' out) = Some m'" by (auto split: option.splits)
  have wf: "bt_wf m" and "bt_get k' m = None"
    using Cons.prems(1) e by (auto simp: bt_wf_Cons bt_get_None_iff)
  with Cons.IH [OF wf r] v' e show ?case by (auto split: option.split)
qed simp

lemma redact_entries_defined: "redact_entries f m out = Some m' \<Longrightarrow> (k, v) \<in> set m \<Longrightarrow> f k v \<noteq> None"
  by (induction m arbitrary: out) (auto split: option.splits)

lemma masked_again:
  assumes "4 \<le> length s" "mask_string s = Some v"
  shows "default_redact f Masked v = Some v"
proof -
  have b: "is_char_boundary s (length s - 4)" and v: "v = JString (''****'' @ drop (length s - 4) s)"
    using assms(2) by (auto simp: mask_string_def split: if_splits)
  have len: "length (''****'' @ drop (length s - 4) s) = 8" using assms(1) by simp
  have "is_char_boundary (''****'' @ drop (length s - 4) s) 4"
    using b assms(1) by (auto simp: is_char_boundary_def nth_append)
  moreover have "drop 4 (''****'' @ drop (length s - 4) s) = drop (length s - 4) s" by simp
  ultimately have "mask_string (''****'' @ drop (length s - 4) s) = Some v"
    unfolding mask_string_def len v by simp
  with len v show ?thesis by simp
qed

section \<open>Properties\<close>

definition ports_agree :: "port_def list \<Rightarrow> (string, json) btree \<Rightarrow> (string, json) btree \<Rightarrow> bool" where
  "ports_agree ports = list_all2 (\<lambda>(k, v) (k', v'). same_view (port_sens ports k) v v')"

text \<open>(C18) What port redaction reveals: two objects with the same keys are redacted to the same value if
  and, when the redaction does not panic, only if they agree on every public port and, on every masked
  port, on whether it is a text of at least four bytes and on its last four bytes; the values of ports
  declared secret, personal or custom-sensitive have no influence.\<close>

theorem redact_ports_noninterference:
  assumes "bt_wf m" "bt_wf m'" "map fst m = map fst m'"
  shows "(ports_agree ports m m' \<longrightarrow> redact_ports default_redactor ports (JObject m) = redact_ports default_redactor ports (JObject m'))
    \<and> (redact_ports default_redactor ports (JObject m) \<noteq> None
       \<and> redact_ports default_redactor ports (JObject m) = redact_ports default_redactor ports (JObject m') \<longrightarrow> ports_agree ports m m')"
proof -
  let ?f = "\<lambda>k v. redact default_redactor k (port_sens ports k) v"
  have "ports_agree ports m m'" if some: "redact_entries ?f m [] = Some r" "redact_entries ?f m' [] = Some r" for r
    unfolding ports_agree_def list_all2_iff
  proof (intro conjI ballI)
    show "length m = length m'" using assms(3) by (metis length_map)
    fix e
    assume "e \<in> set (zip m m')"
    then obtain k v k' v' where e: "e = ((k, v), (k', v'))" "(k, v) \<in> set m" "(k', v') \<in> set m'"
      by (metis set_zip_leftD set_zip_rightD surj_pair)
    have "k = k'"
      using \<open>e \<in> set (zip m m')\<close> assms(3) unfolding e(1) in_set_zip by (metis fst_conv nth_map snd_conv)
    moreover have "?f k v = bt_get k r" "?f k' v' = bt_get k' r"
      using redact_entries_get [OF assms(1) some(1), of k] redact_entries_get [OF assms(2) some(2), of k']
        bt_get_mem [OF assms(1) e(2)] bt_get_mem [OF assms(2) e(3)] by simp_all
    ultimately have "same_view (port_sens ports k) v v'"
      using redact_entries_defined [OF some(1) e(2)] default_redact_tells [of k "port_sens ports k" v]
      by (auto simp: default_redactor_def)
    with e(1) show "case e of (x, y) \<Rightarrow> (case x of (k, v) \<Rightarrow> \<lambda>(k', v'). same_view (port_sens ports k) v v') y" by simp
  qed
  moreover have "redact_entries ?f m [] = redact_entries ?f m' []" if "ports_agree ports m m'"
    using default_r.redact_entries_noninterference [OF assms(3), of ports "[]"] that unfolding ports_agree_def by blast
  ultimately show ?thesis
    by (cases "redact_entries ?f m []"; cases "redact_entries ?f m' []") auto
qed

definition secret_port :: port_def where
  "secret_port = \<lparr>port_name = ''key'', port_ty = PtString, port_required = True, port_default = None,
     port_description = None, port_sensitivity = Secret\<rparr>"

definition card_port :: port_def where
  "card_port = secret_port\<lparr>port_name := ''card'', port_sensitivity := Masked\<rparr>"

theorem redact_ports_noninterference_witness:
  "redact_ports default_redactor [secret_port, card_port] (JObject [(''card'', JString ''111234''), (''key'', JString ''a'')])
   = redact_ports default_redactor [secret_port, card_port] (JObject [(''card'', JString ''991234''), (''key'', JString ''b'')])
   \<and> redact_ports default_redactor [secret_port, card_port] (JObject [(''card'', JString ''991235''), (''key'', JString ''b'')])
   \<noteq> redact_ports default_redactor [secret_port, card_port] (JObject [(''card'', JString ''111234''), (''key'', JString ''a'')])"
proof -
  let ?m = "\<lambda>card key. [(''card'', JString card), (''key'', JString key)]"
  have wf: "bt_wf (?m c k)" for c k by (simp add: bt_wf_def)
  have sens: "port_sens [secret_port, card_port] ''card'' = Masked" "port_sens [secret_port, card_port] ''key'' = Secret"
    by (simp_all add: port_sens_def secret_port_def card_port_def)
  have keys: "map fst (?m c k) = map fst (?m c' k')" for c k c' k' by simp
  have agree: "ports_agree [secret_port, card_port] (?m ''111234'' ''a'') (?m ''991234'' ''b'')"
    and disagree: "\<not> ports_agree [secret_port, card_port] (?m ''991235'' ''b'') (?m ''111234'' ''a'')"
    by (simp_all add: ports_agree_def sens long_text_def)
  have defined: "redact_ports default_redactor [secret_port, card_port] (JObject (?m ''991235'' ''b'')) \<noteq> None" by code_simp
  note same = redact_ports_noninterference [OF wf wf keys, THEN conjunct1, rule_format, OF agree]
  note reveals = redact_ports_noninterference [OF wf wf keys, of "[secret_port, card_port]" "''991235''" "''b''" "''111234''" "''a''",
      THEN conjunct2]
  from defined disagree reveals
  have "redact_ports default_redactor [secret_port, card_port] (JObject (?m ''991235'' ''b''))
      \<noteq> redact_ports default_redactor [secret_port, card_port] (JObject (?m ''111234'' ''a''))"
    by blast
  with same show ?thesis by (rule conjI)
qed

text \<open>Port redaction, port by port: the redacted object is an ordered map with the same keys, and
  the value of a port is the redaction of its value under the sensitivity of the first port
  definition with that name (public when there is none).\<close>

theorem redact_ports_pointwise:
  assumes "bt_wf m" and "redact_ports R ports (JObject m) = Some v"
  shows "\<exists>m'. v = JObject m' \<and> bt_wf m'
    \<and> (\<forall>k. bt_get k m' = Option.bind (bt_get k m) (redact R k (port_sens ports k)))"
proof -
  from assms(2) obtain m' where v: "v = JObject m'"
    and r: "redact_entries (\<lambda>k v. redact R k (port_sens ports k) v) m [] = Some m'" by auto
  have "bt_get k m' = Option.bind (bt_get k m) (redact R k (port_sens ports k))" for k
    using redact_entries_get [OF assms(1) r, of k] by (cases "bt_get k m") auto
  with v redact_entries_wf [OF r] show ?thesis by auto
qed

theorem redact_ports_pointwise_witness:
  "\<exists>m'. JObject [(''id'', JNull), (''key'', JString ''[REDACTED]'')] = JObject m' \<and> bt_wf m'"
proof -
  have "redact_ports default_redactor [secret_port] (JObject [(''id'', JNull), (''key'', JString ''a'')])
    = Some (JObject [(''id'', JNull), (''key'', JString ''[REDACTED]'')])"
    by (simp add: default_redactor_def port_sens_def secret_port_def)
  moreover have "bt_wf [(''id'', JNull), (''key'', JString ''a'')]" by (simp add: bt_wf_def)
  ultimately show ?thesis using redact_ports_pointwise by blast
qed

text \<open>Redacting twice, as happens to critical events that are buffered again after a failed
  write: every rule of the default redactor is idempotent except that the placeholder of a
  masked short string or non-string is itself masked the second time, to \<open>****KED]\<close>.\<close>

theorem default_redact_twice:
  "Option.bind (default_redact f s v) (default_redact f s) =
     (if s = Masked \<and> default_redact f s v = Some (JString ''[MASKED]'')
      then Some (JString ''****KED]'') else default_redact f s v)"
proof (cases "s = Masked")
  case True
  have ph: "default_redact f Masked (JString ''[MASKED]'') = Some (JString ''****KED]'')"
    by (simp add: mask_string_def is_char_boundary_def is_continuation_def)
  have star: "mask_string t \<noteq> Some (JString ''[MASKED]'')" for t by (simp add: mask_string_def)
  show ?thesis
  proof (cases "\<exists>t. v = JString t \<and> 4 \<le> length t")
    case True
    then obtain t where t: "v = JString t" "4 \<le> length t" by blast
    with star [of t] masked_again [OF t(2)] \<open>s = Masked\<close> show ?thesis
      by (cases "mask_string t") simp_all
  next
    case False
    then have "default_redact f Masked v = Some (JString ''[MASKED]'')" by (cases v) auto
    with ph \<open>s = Masked\<close> show ?thesis by simp
  qed
next
  case False
  then show ?thesis by (cases s) simp_all
qed

text \<open>Redaction never touches what the store relies on: the sequence number, the run and the
  criticality of an event stay.\<close>

theorem redact_event_keeps_identity:
  assumes "redact_event R meta e = Some e'"
  shows "ev_seq e' = ev_seq e \<and> ev_run_id e' = ev_run_id e \<and> is_critical e' = is_critical e"
  using redact_event_keeps [OF assms] by simp

theorem redact_event_keeps_identity_witness:
  "redact_event default_redactor (\<lambda>_. None) (Checkpoint 7 1 ''r'' ''n'' JNull 0)
     = Some (Checkpoint 7 1 ''r'' ''n'' JNull 0)
   \<and> is_critical (Checkpoint 7 1 ''r'' ''n'' JNull 0)"
  using redact_event_keeps_identity [of default_redactor "\<lambda>_. None" "Checkpoint 7 1 ''r'' ''n'' JNull 0"]
  by simp

text \<open>Without node metadata the default redactor changes no event at all.  The session layer
  builds its pipeline with empty metadata, so in every run started through it events are
  persisted unredacted.\<close>

theorem redaction_without_metadata_is_identity:
  "redact_event default_redactor (\<lambda>_. None) e = Some e"
  by (rule default_r.redact_event_no_meta)

end
