(* ===== verification/Write_Pipeline.thy ===== *)
theory Write_Pipeline
  imports Redaction
begin

text \<open>
  \<open>write_handle.rs\<close> and the flush loop of \<open>write_pipeline.rs\<close> as one state machine.  Writers
  take a sequence number first and reach their channel later, so the two halves of \<open>write\<close> and
  \<open>try_write\<close> are separate steps that interleave freely with other writers and with the loop.
  One iteration of the loop is a biased \<open>select\<close> followed by the adaptive flush; the outcome of
  each call of the run store is given by the oracle \<open>pc_store_ok\<close>, a failed call storing nothing
  (the contract of \<open>RunStore::write_batch\<close>).
\<close>

section \<open>Configuration and state\<close>

record pipeline_config =
  batch_size :: nat
  flush_interval_ms :: u64

definition pipeline_config_default :: pipeline_config where
  "pipeline_config_default = \<lparr>batch_size = 500, flush_interval_ms = 100\<rparr>"

record pipe_ctx =
  pc_config :: pipeline_config
  pc_critical_cap :: nat
  pc_advisory_cap :: nat
  pc_redact :: "write_event \<Rightarrow> write_event option"
  pc_store_ok :: "nat \<Rightarrow> bool"

datatype loop_pc = AtSelect | AtAdaptive | Stopped

record pipe_state =
  ps_seq :: u64
  ps_sending :: "write_event list"
  ps_try_sending :: "write_event list"
  ps_critical :: "write_event list"
  ps_advisory :: "write_event list"
  ps_handles :: bool
  ps_shutdown :: bool
  ps_critical_open :: bool
  ps_advisory_open :: bool
  ps_batch :: "write_event list"
  ps_calls :: nat
  ps_written :: "write_event list list"
  ps_pc :: loop_pc
  ps_issued :: "write_event list"
  ps_try_issued :: "write_event list"

text \<open>\<open>ps_issued\<close> and \<open>ps_try_issued\<close> record, for the statements below, every event given to \<open>write\<close>
  and to \<open>try_write\<close>, with its number; \<open>ps_written\<close> the batches the store has accepted.\<close>

definition pipe_init :: pipe_state where
  "pipe_init =
     \<lparr>ps_seq = 1, ps_sending = [], ps_try_sending = [], ps_critical = [], ps_advisory = [],
      ps_handles = True, ps_shutdown = False, ps_critical_open = True, ps_advisory_open = True,
      ps_batch = [], ps_calls = 0, ps_written = [], ps_pc = AtSelect, ps_issued = [],
      ps_try_issued = []\<rparr>"

section \<open>The write handle\<close>

definition next_seq :: "pipe_state \<Rightarrow> u64 \<times> pipe_state" where
  "next_seq st = (ps_seq st, st\<lparr>ps_seq := ps_seq st + 1\<rparr>)"

definition write_start :: "write_event \<Rightarrow> pipe_state \<Rightarrow> pipe_state" where
  "write_start e st =
     (case next_seq st of (n, st1) \<Rightarrow>
        st1\<lparr>ps_sending := ps_sending st1 @ [ev_set_seq n e], ps_issued := ps_issued st1 @ [ev_set_seq n e]\<rparr>)"

datatype send_result = Sent | Closed | Full | Waiting

definition remove_nth :: "nat \<Rightarrow> 'a list \<Rightarrow> 'a list" where
  "remove_nth i xs = take i xs @ drop (Suc i) xs"

text \<open>The \<open>send(event).await\<close> of the \<open>i\<close>-th writer that is waiting: closed once the loop has dropped
  its receiver, waiting while the channel is full.\<close>

definition write_finish :: "pipe_ctx \<Rightarrow> nat \<Rightarrow> pipe_state \<Rightarrow> send_result \<times> pipe_state" where
  "write_finish ctx i st =
     (if ps_pc st = Stopped then (Closed, st\<lparr>ps_sending := remove_nth i (ps_sending st)\<rparr>)
      else if pc_critical_cap ctx \<le> length (ps_critical st) then (Waiting, st)
      else (Sent, st\<lparr>ps_sending := remove_nth i (ps_sending st),
                    ps_critical := ps_critical st @ [ps_sending st ! i]\<rparr>))"

definition try_write_start :: "write_event \<Rightarrow> pipe_state \<Rightarrow> pipe_state" where
  "try_write_start e st =
     (case next_seq st of (n, st1) \<Rightarrow>
        st1\<lparr>ps_try_sending := ps_try_sending st1 @ [ev_set_seq n e],
            ps_try_issued := ps_try_issued st1 @ [ev_set_seq n e]\<rparr>)"

definition try_write_finish :: "pipe_ctx \<Rightarrow> nat \<Rightarrow> pipe_state \<Rightarrow> send_result \<times> pipe_state" where
  "try_write_finish ctx i st =
     (let st1 = st\<lparr>ps_try_sending := remove_nth i (ps_try_sending st)\<rparr>
      in if ps_pc st = Stopped then (Closed, st1)
         else if pc_advisory_cap ctx \<le> length (ps_advisory st) then (Full, st1)
         else (Sent, st1\<lparr>ps_advisory := ps_advisory st @ [ps_try_sending st ! i]\<rparr>))"

section \<open>The flush loop\<close>

text \<open>\<open>flush_batch\<close>: a panic of the redactor ends the task with the batch lost.\<close>

definition flush_batch :: "pipe_ctx \<Rightarrow> pipe_state \<Rightarrow> pipe_state" where
  "flush_batch ctx st =
     (case those (map (pc_redact ctx) (ps_batch st)) of
        None \<Rightarrow> st\<lparr>ps_batch := [], ps_pc := Stopped\<rparr>
      | Some redacted \<Rightarrow>
          if pc_store_ok ctx (ps_calls st)
          then st\<lparr>ps_batch := [], ps_calls := ps_calls st + 1, ps_written := ps_written st @ [redacted]\<rparr>
          else if pc_store_ok ctx (ps_calls st + 1)
          then st\<lparr>ps_batch := [], ps_calls := ps_calls st + 2, ps_written := ps_written st @ [redacted]\<rparr>
          else st\<lparr>ps_batch := filter is_critical redacted, ps_calls := ps_calls st + 2\<rparr>)"

definition flush_nonempty :: "pipe_ctx \<Rightarrow> pipe_state \<Rightarrow> pipe_state" where
  "flush_nonempty ctx st = (if ps_batch st \<noteq> [] then flush_batch ctx st else st)"

definition drain_critical :: "pipe_state \<Rightarrow> pipe_state" where
  "drain_critical st = st\<lparr>ps_batch := ps_batch st @ ps_critical st, ps_critical := []\<rparr>"

definition drain_advisory :: "pipe_state \<Rightarrow> pipe_state" where
  "drain_advisory st = st\<lparr>ps_batch := ps_batch st @ ps_advisory st, ps_advisory := []\<rparr>"

definition flush_full :: "pipe_ctx \<Rightarrow> pipe_state \<Rightarrow> pipe_state" where
  "flush_full ctx st =
     (if batch_size (pc_config ctx) \<le> length (ps_batch st) then flush_batch ctx st else st)"

definition stop :: "pipe_state \<Rightarrow> pipe_state" where
  "stop st = st\<lparr>ps_pc := Stopped\<rparr>"

text \<open>The end of a \<open>select\<close> arm: the loop goes on to the adaptive flush, unless it has stopped.\<close>

definition to_adaptive :: "pipe_state \<Rightarrow> pipe_state" where
  "to_adaptive st = (if ps_pc st = Stopped then st else st\<lparr>ps_pc := AtAdaptive\<rparr>)"

definition on_shutdown :: "pipe_ctx \<Rightarrow> pipe_state \<Rightarrow> pipe_state" where
  "on_shutdown ctx st = stop (flush_nonempty ctx (drain_advisory (drain_critical st)))"

text \<open>Receiving pushes the head of the channel and then drains both channels, which together is
  draining the channel that was received from first.\<close>

definition on_critical :: "pipe_ctx \<Rightarrow> pipe_state \<Rightarrow> pipe_state" where
  "on_critical ctx st =
     (if ps_critical st \<noteq> [] then
        to_adaptive (flush_full ctx (drain_advisory (drain_critical st)))
      else
        (let st1 = st\<lparr>ps_critical_open := False\<rparr>
         in if \<not> ps_advisory_open st1 then stop (flush_nonempty ctx st1) else to_adaptive st1))"

definition on_advisory :: "pipe_ctx \<Rightarrow> pipe_state \<Rightarrow> pipe_state" where
  "on_advisory ctx st =
     (if ps_advisory st \<noteq> [] then
        to_adaptive (flush_full ctx (drain_critical (drain_advisory st)))
      else
        (let st1 = st\<lparr>ps_advisory_open := False\<rparr>
         in if \<not> ps_critical_open st1 then stop (flush_nonempty ctx st1) else to_adaptive st1))"

definition on_tick :: "pipe_ctx \<Rightarrow> pipe_state \<Rightarrow> pipe_state" where
  "on_tick ctx st = to_adaptive (flush_nonempty ctx st)"

text \<open>When an arm is ready: a channel is, if it holds an event or all senders are gone.\<close>

definition critical_ready :: "pipe_state \<Rightarrow> bool" where
  "critical_ready st \<longleftrightarrow> ps_critical_open st \<and> (ps_critical st \<noteq> [] \<or> \<not> ps_handles st)"

definition advisory_ready :: "pipe_state \<Rightarrow> bool" where
  "advisory_ready st \<longleftrightarrow> ps_advisory_open st \<and> (ps_advisory st \<noteq> [] \<or> \<not> ps_handles st)"

definition select_step :: "pipe_ctx \<Rightarrow> pipe_state \<Rightarrow> pipe_state" where
  "select_step ctx st =
     (if ps_shutdown st then on_shutdown ctx st
      else if critical_ready st then on_critical ctx st
      else if advisory_ready st then on_advisory ctx st
      else on_tick ctx st)"

definition adaptive_step :: "pipe_ctx \<Rightarrow> pipe_state \<Rightarrow> pipe_state" where
  "adaptive_step ctx st =
     (let st1 = st\<lparr>ps_pc := AtSelect\<rparr>
      in if ps_batch st \<noteq> [] \<and> length (ps_batch st) < 10 \<and> ps_critical st = [] \<and> ps_advisory st = []
         then flush_batch ctx st1 else st1)"

section \<open>Steps\<close>

inductive pipe_step :: "pipe_ctx \<Rightarrow> pipe_state \<Rightarrow> pipe_state \<Rightarrow> bool" for ctx where
  do_write: "ps_handles st \<Longrightarrow> pipe_step ctx st (write_start e st)"
| do_send: "i < length (ps_sending st) \<Longrightarrow> pipe_step ctx st (snd (write_finish ctx i st))"
| do_try_write: "ps_handles st \<Longrightarrow> pipe_step ctx st (try_write_start e st)"
| do_try_send: "i < length (ps_try_sending st) \<Longrightarrow> pipe_step ctx st (snd (try_write_finish ctx i st))"
| drop_handles: "ps_sending st = [] \<Longrightarrow> ps_try_sending st = [] \<Longrightarrow>
    pipe_step ctx st (st\<lparr>ps_handles := False\<rparr>)"
| shutdown: "pipe_step ctx st (st\<lparr>ps_shutdown := True\<rparr>)"
| do_select: "ps_pc st = AtSelect \<Longrightarrow> pipe_step ctx st (select_step ctx st)"
| do_adaptive: "ps_pc st = AtAdaptive \<Longrightarrow> pipe_step ctx st (adaptive_step ctx st)"

inductive pipe_reachable :: "pipe_ctx \<Rightarrow> pipe_state \<Rightarrow> bool" for ctx where
  init: "pipe_reachable ctx pipe_init"
| step: "pipe_reachable ctx st \<Longrightarrow> pipe_step ctx st st' \<Longrightarrow> pipe_reachable ctx st'"

section \<open>What the pipeline needs of redaction\<close>

locale event_redactor =
  fixes red :: "write_event \<Rightarrow> write_event option"
  assumes keeps: "red e = Some e' \<Longrightarrow> ev_seq e' = ev_seq e \<and> is_critical e' = is_critical e"
begin

lemma those_keeps:
  "those (map red es) = Some es' \<Longrightarrow>
     map ev_seq es' = map ev_seq es \<and> map is_critical es' = map is_critical es"
proof (induction es arbitrary: es')
  case (Cons e es)
  then obtain e' es'' where "red e = Some e'" "those (map red es) = Some es''" "es' = e' # es''"
    by (auto split: option.splits)
  with Cons.IH keeps show ?case by simp
qed simp

end

interpretation pipe_redactor: event_redactor "redact_event R meta" for R meta
  by unfold_locales (simp add: redact_event_keeps)

section \<open>Where events are\<close>

definition seqs :: "write_event list \<Rightarrow> u64 multiset" where
  "seqs es = mset (map ev_seq es)"

definition everything :: "pipe_state \<Rightarrow> write_event list" where
  "everything st = ps_sending st @ ps_try_sending st @ ps_critical st @ ps_advisory st
     @ ps_batch st @ concat (ps_written st)"

definition critical_seqs :: "write_event list \<Rightarrow> u64 set" where
  "critical_seqs es = ev_seq ` {e \<in> set es. is_critical e}"

definition held :: "pipe_state \<Rightarrow> u64 set" where
  "held st = critical_seqs (ps_sending st) \<union> critical_seqs (ps_critical st)
     \<union> critical_seqs (ps_batch st) \<union> critical_seqs (concat (ps_written st))"

lemma seqs_simps [simp]:
  "seqs [] = {#}" "seqs (e # es) = add_mset (ev_seq e) (seqs es)" "seqs (es @ es') = seqs es + seqs es'"
  by (simp_all add: seqs_def)

lemma critical_seqs_simps [simp]:
  "critical_seqs [] = {}" "critical_seqs (es @ es') = critical_seqs es \<union> critical_seqs es'"
  "critical_seqs (e # es) = (if is_critical e then insert (ev_seq e) (critical_seqs es) else critical_seqs es)"
  "critical_seqs (filter is_critical es) = critical_seqs es"
  by (auto simp: critical_seqs_def)

lemma seqs_filter: "seqs (filter P es) \<subseteq># seqs es"
  by (simp add: seqs_def image_mset_subseteq_mono)

lemma remove_nth_split:
  assumes "i < length xs"
  shows "seqs xs = add_mset (ev_seq (xs ! i)) (seqs (remove_nth i xs))"
    and "critical_seqs xs = critical_seqs [xs ! i] \<union> critical_seqs (remove_nth i xs)"
proof -
  have xs: "xs = take i xs @ xs ! i # drop (Suc i) xs" using assms by (rule id_take_nth_drop)
  show "seqs xs = add_mset (ev_seq (xs ! i)) (seqs (remove_nth i xs))"
    by (subst xs) (simp only: seqs_simps remove_nth_def union_mset_add_mset_right)
  show "critical_seqs xs = critical_seqs [xs ! i] \<union> critical_seqs (remove_nth i xs)"
    by (subst xs) (auto simp: remove_nth_def simp del: append_take_drop_id)
qed

definition pipe_ok :: "pipe_ctx \<Rightarrow> bool" where
  "pipe_ok ctx \<longleftrightarrow> (\<exists>R meta. pc_redact ctx = redact_event R meta)"

lemma those_redact:
  assumes "pipe_ok ctx" "those (map (pc_redact ctx) es) = Some es'"
  shows "seqs es' = seqs es" "critical_seqs es' = critical_seqs es"
proof -
  from assms obtain R meta where "those (map (redact_event R meta) es) = Some es'"
    by (auto simp: pipe_ok_def)
  from pipe_redactor.those_keeps [OF this]
  have m: "map ev_seq es' = map ev_seq es" "map is_critical es' = map is_critical es" by simp_all
  then show "seqs es' = seqs es" by (simp add: seqs_def)
  have "length es' = length es" using m(1) by (rule map_eq_imp_length_eq)
  then show "critical_seqs es' = critical_seqs es"
    using m by (induction es' es rule: list_induct2) auto
qed

text \<open>The parts of the state an arm of the loop works on: it moves events from the channels into the
  batch and from the batch to the store.\<close>

definition loop_frame :: "pipe_state \<Rightarrow> pipe_state \<Rightarrow> bool" where
  "loop_frame st st' \<longleftrightarrow>
     ps_seq st' = ps_seq st \<and> ps_sending st' = ps_sending st \<and> ps_try_sending st' = ps_try_sending st
     \<and> ps_issued st' = ps_issued st \<and> ps_try_issued st' = ps_try_issued st
     \<and> seqs (everything st') \<subseteq># seqs (everything st)
     \<and> (ps_pc st' \<noteq> Stopped \<longrightarrow> ps_pc st \<noteq> Stopped \<and> held st \<subseteq> held st')"

lemma loop_frame_refl [simp]: "loop_frame st st"
  by (simp add: loop_frame_def)

lemma loop_frame_trans: "loop_frame a b \<Longrightarrow> loop_frame b c \<Longrightarrow> loop_frame a c"
  by (auto simp: loop_frame_def intro: subset_mset.trans)

lemma flush_batch_frame:
  assumes "pipe_ok ctx" "ps_pc st \<noteq> Stopped"
  shows "loop_frame st (flush_batch ctx st)"
proof (cases "those (map (pc_redact ctx) (ps_batch st))")
  case None
  then show ?thesis by (simp add: flush_batch_def loop_frame_def everything_def)
next
  case (Some redacted)
  note r = those_redact [OF assms(1) Some]
  have "seqs (filter is_critical redacted) \<subseteq># seqs (ps_batch st)"
    using seqs_filter [of is_critical redacted] r(1) by simp
  with Some r assms(2) show ?thesis
    by (auto simp: flush_batch_def loop_frame_def everything_def held_def ac_simps
        intro: subset_mset.add_mono)
qed

lemma flush_frames:
  assumes "pipe_ok ctx" "ps_pc st \<noteq> Stopped"
  shows "loop_frame st (flush_nonempty ctx st)" "loop_frame st (flush_full ctx st)"
  using flush_batch_frame [OF assms] by (simp_all add: flush_nonempty_def flush_full_def)

lemma drain_frames:
  "loop_frame st (drain_critical st)" "loop_frame st (drain_advisory st)"
  "ps_pc (drain_critical st) = ps_pc st" "ps_pc (drain_advisory st) = ps_pc st"
  by (auto simp: loop_frame_def drain_critical_def drain_advisory_def everything_def held_def ac_simps)

lemma stop_frame: "loop_frame st (stop st)"
  by (simp add: loop_frame_def stop_def everything_def)

lemma to_adaptive_frame: "loop_frame st (to_adaptive st)"
  by (auto simp: loop_frame_def to_adaptive_def everything_def held_def)

lemma select_frame:
  assumes "pipe_ok ctx" "ps_pc st \<noteq> Stopped"
  shows "loop_frame st (select_step ctx st)"
proof -
  note fr = flush_frames [OF assms(1)]
  have da: "loop_frame st (drain_advisory (drain_critical st))"
    "loop_frame st (drain_critical (drain_advisory st))"
    by (blast intro: loop_frame_trans drain_frames)+
  have open_frame: "loop_frame st (st\<lparr>ps_critical_open := False\<rparr>)" "loop_frame st (st\<lparr>ps_advisory_open := False\<rparr>)"
    using assms(2) by (simp_all add: loop_frame_def everything_def held_def)
  have "loop_frame st (on_shutdown ctx st)"
    unfolding on_shutdown_def
    by (rule loop_frame_trans [OF loop_frame_trans [OF da(1) fr(1)] stop_frame])
       (simp add: drain_frames assms(2))
  moreover have "loop_frame st (on_tick ctx st)"
    unfolding on_tick_def by (rule loop_frame_trans [OF fr(1) [OF assms(2)] to_adaptive_frame])
  moreover have "loop_frame st (on_critical ctx st)"
    unfolding on_critical_def Let_def
    using loop_frame_trans [OF loop_frame_trans [OF da(1) fr(2)] to_adaptive_frame]
      loop_frame_trans [OF loop_frame_trans [OF open_frame(1) fr(1)] stop_frame]
      loop_frame_trans [OF open_frame(1) to_adaptive_frame] assms(2)
    by (simp add: drain_frames)
  moreover have "loop_frame st (on_advisory ctx st)"
    unfolding on_advisory_def Let_def
    using loop_frame_trans [OF loop_frame_trans [OF da(2) fr(2)] to_adaptive_frame]
      loop_frame_trans [OF loop_frame_trans [OF open_frame(2) fr(1)] stop_frame]
      loop_frame_trans [OF open_frame(2) to_adaptive_frame] assms(2)
    by (simp add: drain_frames)
  ultimately show ?thesis by (simp add: select_step_def)
qed

lemma adaptive_frame:
  assumes "pipe_ok ctx" "ps_pc st = AtAdaptive"
  shows "loop_frame st (adaptive_step ctx st)"
proof -
  have "loop_frame st (st\<lparr>ps_pc := AtSelect\<rparr>)"
    using assms(2) by (simp add: loop_frame_def everything_def held_def)
  moreover have "loop_frame (st\<lparr>ps_pc := AtSelect\<rparr>) (flush_batch ctx (st\<lparr>ps_pc := AtSelect\<rparr>))"
    by (rule flush_batch_frame [OF assms(1)]) simp
  ultimately show ?thesis by (auto simp: adaptive_step_def Let_def intro: loop_frame_trans)
qed

section \<open>Invariants\<close>

definition issued_count :: "pipe_state \<Rightarrow> nat" where
  "issued_count st = length (ps_issued st) + length (ps_try_issued st)"

definition number_inv :: "pipe_state \<Rightarrow> bool" where
  "number_inv st \<longleftrightarrow>
     ps_seq st = of_nat (Suc (issued_count st))
     \<and> seqs (ps_issued st @ ps_try_issued st) = mset (map of_nat [1..<Suc (issued_count st)])
     \<and> (\<exists>ns. map ev_seq (ps_issued st) = map of_nat ns \<and> sorted_wrt (<) ns
           \<and> (\<forall>n \<in> set ns. n \<le> issued_count st))"

definition place_inv :: "pipe_state \<Rightarrow> bool" where
  "place_inv st \<longleftrightarrow>
     seqs (everything st) \<subseteq># seqs (ps_issued st @ ps_try_issued st)
     \<and> (ps_pc st \<noteq> Stopped \<longrightarrow> critical_seqs (ps_issued st) \<subseteq> held st)"

lemma number_inv_init: "number_inv pipe_init"
  by (simp add: number_inv_def pipe_init_def issued_count_def)

lemma place_inv_init: "place_inv pipe_init"
  by (simp add: place_inv_def pipe_init_def everything_def held_def)

lemma number_inv_write:
  assumes "number_inv st"
  shows "number_inv (write_start e st)"
proof -
  obtain ns where ns: "map ev_seq (ps_issued st) = map of_nat ns" "sorted_wrt (<) ns"
    "\<forall>n \<in> set ns. n \<le> issued_count st" using assms by (auto simp: number_inv_def)
  let ?n = "Suc (issued_count st)"
  have cnt: "issued_count (write_start e st) = ?n"
    by (simp add: issued_count_def write_start_def next_seq_def)
  have "map ev_seq (ps_issued (write_start e st)) = map of_nat (ns @ [?n])
    \<and> sorted_wrt (<) (ns @ [?n]) \<and> (\<forall>n \<in> set (ns @ [?n]). n \<le> ?n)"
    using ns assms by (force simp: number_inv_def write_start_def next_seq_def sorted_wrt_append)
  moreover have "ps_seq (write_start e st) = of_nat (Suc ?n)"
    "seqs (ps_issued (write_start e st) @ ps_try_issued (write_start e st)) = mset (map of_nat [1..<Suc ?n])"
    using assms by (simp_all add: number_inv_def write_start_def next_seq_def)
  ultimately show ?thesis unfolding number_inv_def cnt by blast
qed

lemma number_inv_try_write:
  assumes "number_inv st"
  shows "number_inv (try_write_start e st)"
proof -
  have "issued_count (try_write_start e st) = Suc (issued_count st)"
    by (simp add: issued_count_def try_write_start_def next_seq_def)
  with assms show ?thesis
    by (fastforce simp: number_inv_def try_write_start_def next_seq_def intro: le_SucI)
qed

lemma number_inv_cong:
  "ps_seq st' = ps_seq st \<Longrightarrow> ps_issued st' = ps_issued st \<Longrightarrow> ps_try_issued st' = ps_try_issued st \<Longrightarrow>
   number_inv st' = number_inv st"
  by (simp add: number_inv_def issued_count_def)

lemma number_inv_step:
  assumes "pipe_ok ctx" "number_inv st" "pipe_step ctx st st'"
  shows "number_inv st'"
  using assms(3)
proof cases
  case (do_write e)
  with assms(2) number_inv_write show ?thesis by simp
next
  case (do_try_write e)
  with assms(2) number_inv_try_write show ?thesis by simp
next
  case do_select
  with select_frame [OF assms(1), of st] assms(2) show ?thesis
    by (auto simp: loop_frame_def intro: number_inv_cong [THEN iffD2])
next
  case do_adaptive
  with adaptive_frame [OF assms(1), of st] assms(2) show ?thesis
    by (auto simp: loop_frame_def intro: number_inv_cong [THEN iffD2])
qed (use assms(2) in \<open>auto simp: write_finish_def try_write_finish_def Let_def
  intro: number_inv_cong [THEN iffD2]\<close>)

lemma place_inv_loop:
  assumes "place_inv st" "loop_frame st st'"
  shows "place_inv st'"
  using assms by (auto simp: place_inv_def loop_frame_def intro: subset_mset.trans)

lemma place_inv_step:
  assumes "pipe_ok ctx" "place_inv st" "pipe_step ctx st st'"
  shows "place_inv st'"
  using assms(3)
proof cases
  case (do_write e)
  with assms(2) show ?thesis
    by (auto simp: write_start_def next_seq_def place_inv_def everything_def held_def
        critical_seqs_def subset_eq)
next
  case (do_try_write e)
  with assms(2) show ?thesis
    by (auto simp: try_write_start_def next_seq_def place_inv_def everything_def held_def)
next
  case (do_send i)
  note r = remove_nth_split [OF do_send(2)]
  from assms(2) show ?thesis
    unfolding do_send(1)
    by (auto simp: write_finish_def place_inv_def everything_def held_def r
        dest: mset_subset_eq_insertD subset_mset.less_imp_le)
next
  case (do_try_send i)
  note r = remove_nth_split [OF do_try_send(2)]
  from assms(2) show ?thesis
    unfolding do_try_send(1)
    by (auto simp: try_write_finish_def place_inv_def everything_def held_def r Let_def
        dest: mset_subset_eq_insertD subset_mset.less_imp_le)
next
  case do_select
  with select_frame [OF assms(1), of st] place_inv_loop [OF assms(2)] show ?thesis by simp
next
  case do_adaptive
  with adaptive_frame [OF assms(1), of st] place_inv_loop [OF assms(2)] show ?thesis by simp
qed (use assms(2) in \<open>simp_all add: place_inv_def everything_def held_def\<close>)

lemma pipe_invariants:
  assumes "pipe_ok ctx" "pipe_reachable ctx st"
  shows "number_inv st" "place_inv st"
proof -
  from assms(2) have "number_inv st \<and> place_inv st"
    by (induction rule: pipe_reachable.induct)
       (auto intro: number_inv_init place_inv_init number_inv_step place_inv_step assms(1))
  then show "number_inv st" "place_inv st" by simp_all
qed

lemma written_seqs:
  assumes "place_inv st"
  shows "seqs (concat (ps_written st)) \<subseteq># seqs (ps_issued st @ ps_try_issued st)"
proof -
  have "seqs (concat (ps_written st)) \<subseteq># seqs (everything st)" by (simp add: everything_def)
  then show ?thesis using assms by (auto simp: place_inv_def intro: subset_mset.trans)
qed

lemma seqs_distinct: "seqs es \<subseteq># seqs es' \<Longrightarrow> distinct (map ev_seq es') \<Longrightarrow> distinct (map ev_seq es)"
  unfolding seqs_def subset_mset.le_iff_add
  by (metis distinct_append ex_mset mset_append mset_eq_imp_distinct_iff)

lemma issued_distinct:
  assumes "number_inv st" "issued_count st < 2 ^ 64"
  shows "distinct (map ev_seq (ps_issued st @ ps_try_issued st))"
proof -
  have "inj_on (of_nat :: nat \<Rightarrow> u64) {1..<Suc (issued_count st)}"
  proof (rule inj_onI)
    fix x y :: nat
    assume "x \<in> {1..<Suc (issued_count st)}" "y \<in> {1..<Suc (issued_count st)}"
      and eq: "(of_nat x :: u64) = of_nat y"
    then have "x < 2 ^ 64" "y < 2 ^ 64" using assms(2) by auto
    with eq show "x = y" using unat_of_nat_u64 by metis
  qed
  then have "distinct (map (of_nat :: nat \<Rightarrow> u64) [1..<Suc (issued_count st)])"
    by (simp add: distinct_map del: upt_Suc)
  moreover have "mset (map ev_seq (ps_issued st @ ps_try_issued st))
      = mset (map (of_nat :: nat \<Rightarrow> u64) [1..<Suc (issued_count st)])"
    using assms(1) unfolding number_inv_def seqs_def by blast
  ultimately show ?thesis by (rule mset_eq_imp_distinct_iff [THEN iffD2, rotated])
qed

section \<open>A concrete pipeline\<close>

definition demo_pipe :: "bool \<Rightarrow> pipe_ctx" where
  "demo_pipe ok =
     \<lparr>pc_config = pipeline_config_default, pc_critical_cap = 1, pc_advisory_cap = 1,
      pc_redact = redact_event default_redactor (\<lambda>_. None), pc_store_ok = (\<lambda>_. ok)\<rparr>"

definition demo_event :: write_event where
  "demo_event = Checkpoint 0 1 ''r'' ''n'' JNull 0"

text \<open>One event is written and reaches its channel, then the pipeline is told to shut down.\<close>

definition demo_pipe_mid :: "bool \<Rightarrow> pipe_state" where
  "demo_pipe_mid ok =
     (snd (write_finish (demo_pipe ok) 0 (write_start demo_event pipe_init)))\<lparr>ps_shutdown := True\<rparr>"

lemma demo_pipe_ok: "pipe_ok (demo_pipe ok)"
  by (auto simp: pipe_ok_def demo_pipe_def)

lemma demo_pipe_ok_store: "pc_store_ok (demo_pipe ok) n = ok"
  by (simp add: demo_pipe_def)

lemma demo_pipe_mid_reachable: "pipe_reachable (demo_pipe ok) (demo_pipe_mid ok)"
proof -
  have "pipe_reachable (demo_pipe ok) (write_start demo_event pipe_init)"
    by (rule pipe_reachable.step [OF pipe_reachable.init pipe_step.do_write]) (simp add: pipe_init_def)
  then have "pipe_reachable (demo_pipe ok) (snd (write_finish (demo_pipe ok) 0 (write_start demo_event pipe_init)))"
    by (rule pipe_reachable.step [OF _ pipe_step.do_send])
       (simp add: write_start_def next_seq_def pipe_init_def)
  then show ?thesis
    unfolding demo_pipe_mid_def by (rule pipe_reachable.step [OF _ pipe_step.shutdown])
qed

lemmas demo_pipe_defs = demo_pipe_mid_def demo_pipe_def demo_event_def write_finish_def write_start_def
  next_seq_def pipe_init_def remove_nth_def

lemma demo_pipe_mid_simps:
  "ps_pc (demo_pipe_mid ok) = AtSelect" "ps_shutdown (demo_pipe_mid ok)" "ps_batch (demo_pipe_mid ok) = []"
  "ps_critical (demo_pipe_mid ok) = [ev_set_seq 1 demo_event]" "ps_advisory (demo_pipe_mid ok) = []"
  "ps_sending (demo_pipe_mid ok) = []" "ps_issued (demo_pipe_mid ok) = [ev_set_seq 1 demo_event]"
  "ps_try_issued (demo_pipe_mid ok) = []" "ps_written (demo_pipe_mid ok) = []" "ps_calls (demo_pipe_mid ok) = 0"
  by (simp_all add: demo_pipe_defs)

section \<open>Properties\<close>

text \<open>(C16) Sequence numbers: in every reachable state, as long as fewer than \<open>2 ^ 64\<close> events have been
  written, all events given to \<open>write\<close> and \<open>try_write\<close> carry distinct numbers, whatever the
  interleaving of the writers.\<close>

theorem sequence_numbers_unique:
  assumes "pipe_ok ctx" and "pipe_reachable ctx st" and "issued_count st < 2 ^ 64"
  shows "distinct (map ev_seq (ps_issued st @ ps_try_issued st))"
  using issued_distinct [OF pipe_invariants(1) [OF assms(1,2)] assms(3)] .

theorem sequence_numbers_unique_witness:
  "distinct (map ev_seq (ps_issued (demo_pipe_mid True) @ ps_try_issued (demo_pipe_mid True)))"
  by (rule sequence_numbers_unique [OF demo_pipe_ok demo_pipe_mid_reachable])
     (simp add: issued_count_def demo_pipe_mid_simps)

text \<open>(C5) No critical event is lost while the pipeline runs (invariant I2): as long as the flush loop has
  not stopped, every critical event given to \<open>write\<close> is still with its writer, in the channel, in
  the batch or in a batch the store accepted, whatever calls of the store fail.\<close>

theorem critical_events_kept_while_running:
  assumes "pipe_ok ctx" and "pipe_reachable ctx st" and "ps_pc st \<noteq> Stopped"
    and "e \<in> set (ps_issued st)" and "is_critical e"
  shows "\<exists>e' \<in> set (ps_sending st @ ps_critical st @ ps_batch st @ concat (ps_written st)).
    is_critical e' \<and> ev_seq e' = ev_seq e"
proof -
  have "ev_seq e \<in> critical_seqs (ps_issued st)" using assms(4,5) by (auto simp: critical_seqs_def)
  with pipe_invariants(2) [OF assms(1,2)] assms(3) have "ev_seq e \<in> held st"
    by (auto simp: place_inv_def)
  then show ?thesis by (auto simp: held_def critical_seqs_def)
qed

theorem critical_events_kept_while_running_witness:
  "\<exists>e' \<in> set (ps_sending (demo_pipe_mid False) @ ps_critical (demo_pipe_mid False)
      @ ps_batch (demo_pipe_mid False) @ concat (ps_written (demo_pipe_mid False))).
     is_critical e' \<and> ev_seq e' = 1"
  using critical_events_kept_while_running [OF demo_pipe_ok demo_pipe_mid_reachable,
      of False "ev_set_seq 1 demo_event"]
  by (simp add: demo_pipe_mid_simps) (simp add: demo_event_def)

text \<open>Nothing is stored twice: in every reachable state the events in the batches the store
  accepted carry distinct sequence numbers, although failed batches are tried again.\<close>

theorem stored_at_most_once:
  assumes "pipe_ok ctx" and "pipe_reachable ctx st" and "issued_count st < 2 ^ 64"
  shows "distinct (map ev_seq (concat (ps_written st)))"
proof -
  note inv = pipe_invariants [OF assms(1,2)]
  have "seqs (concat (ps_written st)) \<subseteq># seqs (ps_issued st @ ps_try_issued st)"
    by (rule written_seqs [OF inv(2)])
  then show ?thesis using issued_distinct [OF inv(1) assms(3)] by (rule seqs_distinct)
qed

theorem stored_at_most_once_witness:
  "distinct (map ev_seq (concat (ps_written (demo_pipe_mid True))))"
  by (rule stored_at_most_once [OF demo_pipe_ok demo_pipe_mid_reachable])
     (simp add: issued_count_def demo_pipe_mid_simps)

text \<open>(C17) Graceful shutdown: if the store accepts the final batch at the first or the second call and
  redaction does not panic, then when the loop has stopped every critical event given to \<open>write\<close>
  is in a batch the store accepted, except those whose writer is still waiting for the channel
  and will be told that it is closed.\<close>

theorem graceful_shutdown_stores_all:
  assumes "pipe_ok ctx" and "pipe_reachable ctx st" and "ps_pc st = AtSelect" and "ps_shutdown st"
    and "pc_store_ok ctx (ps_calls st) \<or> pc_store_ok ctx (ps_calls st + 1)"
    and "those (map (pc_redact ctx) (ps_batch st @ ps_critical st @ ps_advisory st)) \<noteq> None"
  shows "ps_pc (select_step ctx st) = Stopped
    \<and> critical_seqs (ps_issued st) \<subseteq>
        critical_seqs (ps_sending st) \<union> critical_seqs (concat (ps_written (select_step ctx st)))"
proof -
  let ?st = "drain_advisory (drain_critical st)"
  have b: "ps_batch ?st = ps_batch st @ ps_critical st @ ps_advisory st"
    and f: "ps_calls ?st = ps_calls st" "ps_written ?st = ps_written st"
    by (simp_all add: drain_advisory_def drain_critical_def)
  obtain red where red: "those (map (pc_redact ctx) (ps_batch ?st)) = Some red"
    using assms(6) b by auto
  have crit: "critical_seqs red = critical_seqs (ps_batch st @ ps_critical st @ ps_advisory st)"
    using those_redact(2) [OF assms(1) red] b by simp
  have sel: "select_step ctx st = stop (flush_nonempty ctx ?st)"
    using assms(4) by (simp add: select_step_def on_shutdown_def)
  have "critical_seqs (ps_batch st @ ps_critical st @ ps_advisory st) \<union> critical_seqs (concat (ps_written st))
    \<subseteq> critical_seqs (concat (ps_written (select_step ctx st)))"
  proof (cases "ps_batch ?st = []")
    case True
    with b show ?thesis by (simp add: sel flush_nonempty_def stop_def f)
  next
    case False
    with red crit assms(5) f show ?thesis
      by (auto simp: sel flush_nonempty_def flush_batch_def stop_def)
  qed
  moreover have "critical_seqs (ps_issued st) \<subseteq> held st"
    using pipe_invariants(2) [OF assms(1,2)] assms(3) by (simp add: place_inv_def)
  ultimately show ?thesis by (auto simp: sel stop_def held_def)
qed

theorem graceful_shutdown_stores_all_witness:
  "critical_seqs (ps_issued (demo_pipe_mid True))
   \<subseteq> critical_seqs (concat (ps_written (select_step (demo_pipe True) (demo_pipe_mid True))))"
proof -
  have "pc_store_ok (demo_pipe True) n" for n by (simp add: demo_pipe_def)
  moreover have "those (map (pc_redact (demo_pipe True)) (ps_batch (demo_pipe_mid True)
      @ ps_critical (demo_pipe_mid True) @ ps_advisory (demo_pipe_mid True))) \<noteq> None"
    by (simp add: demo_pipe_mid_simps) (simp add: demo_pipe_def default_r.redact_event_no_meta)
  ultimately show ?thesis
    using graceful_shutdown_stores_all [OF demo_pipe_ok demo_pipe_mid_reachable, of True]
    by (simp add: demo_pipe_mid_simps)
qed

text \<open>The limit of invariant I2: when the store refuses the final batch twice the loop stops all the
  same, and a critical event that had reached its channel is neither stored nor reported back to
  its writer.\<close>

theorem shutdown_can_lose_critical_events:
  "\<exists>ctx st e. pipe_ok ctx \<and> pipe_reachable ctx st \<and> ps_pc st = Stopped \<and> ps_sending st = []
     \<and> e \<in> set (ps_issued st) \<and> is_critical e \<and> ev_seq e \<notin> set (map ev_seq (concat (ps_written st)))"
proof -
  let ?st = "select_step (demo_pipe False) (demo_pipe_mid False)"
  have r: "pipe_reachable (demo_pipe False) ?st"
    by (rule pipe_reachable.step [OF demo_pipe_mid_reachable pipe_step.do_select])
       (simp add: demo_pipe_mid_simps)
  have "those (map (pc_redact (demo_pipe False)) [ev_set_seq 1 demo_event]) = Some [ev_set_seq 1 demo_event]"
    by (simp add: demo_pipe_def default_r.redact_event_no_meta)
  then have "ps_pc ?st = Stopped \<and> ps_sending ?st = [] \<and> ps_issued ?st = [ev_set_seq 1 demo_event]
      \<and> ps_written ?st = []"
    by (simp add: select_step_def on_shutdown_def stop_def flush_nonempty_def flush_batch_def
        drain_critical_def drain_advisory_def demo_pipe_mid_simps) (simp add: demo_pipe_def)
  with r demo_pipe_ok [of False] show ?thesis
    by (intro exI [of _ "demo_pipe False"] exI [of _ ?st] exI [of _ "ev_set_seq 1 demo_event"])
       (simp add: demo_event_def)
qed

end
