(* ===== verification/Rust_Text.thy ===== *)
theory Rust_Text
  imports Flow_Prelude
begin

text \<open>
  The text operations of the Rust standard library that several components use.  A \<open>String\<close> is the
  list of its UTF-8 bytes; \<open>utf8_valid\<close> is the invariant of the type, and the operations that cut a
  string do so at character boundaries.
\<close>

section \<open>Options and slices\<close>

fun or_else :: "'a option \<Rightarrow> 'a option \<Rightarrow> 'a option" where
  "or_else (Some x) y = Some x"
| "or_else None y = y"

fun list_first :: "'a list \<Rightarrow> 'a option" where
  "list_first [] = None"
| "list_first (x # xs) = Some x"

fun list_last :: "'a list \<Rightarrow> 'a option" where
  "list_last [] = None"
| "list_last (x # xs) = Some (last (x # xs))"

section \<open>Searching\<close>

fun contains_str :: "string \<Rightarrow> string \<Rightarrow> bool" where
  "contains_str pat [] \<longleftrightarrow> pat = []"
| "contains_str pat (c # s) \<longleftrightarrow> take (length pat) (c # s) = pat \<or> contains_str pat s"

definition strip_prefix :: "string \<Rightarrow> string \<Rightarrow> string option" where
  "strip_prefix pre s = (if take (length pre) s = pre then Some (drop (length pre) s) else None)"

text \<open>The text before the first occurrence of a pattern, and the text after it.\<close>

fun split_once :: "string \<Rightarrow> string \<Rightarrow> string \<times> string option" where
  "split_once pat [] = ([], None)"
| "split_once pat (c # s) =
     (if take (length pat) (c # s) = pat then ([], Some (drop (length pat) (c # s)))
      else case split_once pat s of (before, after) \<Rightarrow> (c # before, after))"

fun trim_end_matches :: "char \<Rightarrow> string \<Rightarrow> string" where
  "trim_end_matches c s = rev (dropWhile (\<lambda>x. x = c) (rev s))"

section \<open>White space\<close>

text \<open>\<open>split_whitespace\<close> on UTF-8: the length in bytes of the \<open>White_Space\<close> character a string starts
  with, zero if there is none.\<close>

definition white_space_bytes :: "string list" where
  "white_space_bytes =
     map (\<lambda>n. [char_of n]) [9, 10, 11, 12, 13, 32 :: nat]
     @ map (map char_of) [[0xC2, 0x85], [0xC2, 0xA0], [0xE1, 0x9A, 0x80 :: nat]]
     @ map (\<lambda>n. [CHR 0xE2, CHR 0x80, char_of (0x80 + n)]) [0..<11]
     @ map (map char_of) [[0xE2, 0x80, 0xA8], [0xE2, 0x80, 0xA9], [0xE2, 0x80, 0xAF], [0xE2, 0x81, 0x9F],
         [0xE3, 0x80, 0x80 :: nat]]"

definition white_space_len :: "string \<Rightarrow> nat" where
  "white_space_len s =
     (case List.find (\<lambda>w. take (length w) s = w) white_space_bytes of None \<Rightarrow> 0 | Some w \<Rightarrow> length w)"

fun split_words :: "string \<Rightarrow> string \<Rightarrow> string list" where
  "split_words cur [] = (if cur = [] then [] else [cur])"
| "split_words cur (c # s) =
     (case white_space_len (c # s) of
        0 \<Rightarrow> split_words (cur @ [c]) s
      | Suc n \<Rightarrow> (if cur = [] then [] else [cur]) @ split_words [] (drop n s))"

definition split_whitespace :: "string \<Rightarrow> string list" where
  "split_whitespace s = split_words [] s"

text \<open>\<open>str::trim\<close>.\<close>

fun trim_start :: "string \<Rightarrow> string" where
  "trim_start [] = []"
| "trim_start (c # s) = (case white_space_len (c # s) of 0 \<Rightarrow> c # s | Suc n \<Rightarrow> trim_start (drop n s))"

definition white_space_end_len :: "string \<Rightarrow> nat" where
  "white_space_end_len r =
     (case List.find (\<lambda>w. take (length w) r = rev w) white_space_bytes of None \<Rightarrow> 0 | Some w \<Rightarrow> length w)"

fun trim_reversed :: "string \<Rightarrow> string" where
  "trim_reversed [] = []"
| "trim_reversed (c # s) = (case white_space_end_len (c # s) of 0 \<Rightarrow> c # s | Suc n \<Rightarrow> trim_reversed (drop n s))"

definition trim :: "string \<Rightarrow> string" where
  "trim s = rev (trim_reversed (rev (trim_start s)))"

section \<open>UTF-8\<close>

text \<open>
  \<open>String::from_utf8_lossy\<close>: the scan of \<open>Utf8Chunks\<close>.  A step consumes a valid character, or the
  longest prefix of one that is broken off, which becomes U+FFFD.  A byte past the end reads as zero.
\<close>

definition byte_at :: "string \<Rightarrow> nat \<Rightarrow> nat" where
  "byte_at s i = (if i < length s then of_char (s ! i) else 0)"

definition is_cont :: "nat \<Rightarrow> bool" where
  "is_cont b \<longleftrightarrow> 0x80 \<le> b \<and> b < 0xC0"

definition second_of_3 :: "nat \<Rightarrow> nat \<Rightarrow> bool" where
  "second_of_3 b b1 \<longleftrightarrow> is_cont b1 \<and> (b = 0xE0 \<longrightarrow> 0xA0 \<le> b1) \<and> (b = 0xED \<longrightarrow> b1 < 0xA0)"

definition second_of_4 :: "nat \<Rightarrow> nat \<Rightarrow> bool" where
  "second_of_4 b b1 \<longleftrightarrow> is_cont b1 \<and> (b = 0xF0 \<longrightarrow> 0x90 \<le> b1) \<and> (b = 0xF4 \<longrightarrow> b1 < 0x90)"

definition utf8_step :: "string \<Rightarrow> bool \<times> nat" where
  "utf8_step s =
     (let b = byte_at s 0; b1 = byte_at s 1; b2 = byte_at s 2; b3 = byte_at s 3
      in if b < 0x80 then (True, 1)
         else if 0xC2 \<le> b \<and> b \<le> 0xDF then (if is_cont b1 then (True, 2) else (False, 1))
         else if 0xE0 \<le> b \<and> b \<le> 0xEF then
           (if second_of_3 b b1 then if is_cont b2 then (True, 3) else (False, 2) else (False, 1))
         else if 0xF0 \<le> b \<and> b \<le> 0xF4 then
           (if second_of_4 b b1 then if is_cont b2 then if is_cont b3 then (True, 4) else (False, 3) else (False, 2)
            else (False, 1))
         else (False, 1))"

definition replacement_character :: string where
  "replacement_character = [CHR 0xEF, CHR 0xBF, CHR 0xBD]"

fun from_utf8_lossy :: "string \<Rightarrow> string" where
  "from_utf8_lossy [] = []"
| "from_utf8_lossy (c # s) =
     (case utf8_step (c # s) of (ok, n) \<Rightarrow>
        (if ok then take n (c # s) else replacement_character) @ from_utf8_lossy (drop (n - 1) s))"

fun utf8_valid :: "string \<Rightarrow> bool" where
  "utf8_valid [] \<longleftrightarrow> True"
| "utf8_valid (c # s) \<longleftrightarrow> (case utf8_step (c # s) of (ok, n) \<Rightarrow> ok \<and> utf8_valid (drop (n - 1) s))"

text \<open>A valid step reads only bytes of the string, the first of which is not a continuation byte
  while all others are.\<close>

lemma byte_at_append: "byte_at s i \<noteq> 0 \<Longrightarrow> i < length s \<and> byte_at (s @ t) i = byte_at s i"
  by (auto simp: byte_at_def nth_append split: if_splits)

lemma is_cont_nonzero: "is_cont b \<Longrightarrow> b \<noteq> 0"
  by (simp add: is_cont_def)

lemma utf8_step_cases:
  assumes "utf8_step s = (True, n)"
  shows "n = 1 \<and> byte_at s 0 < 0x80 \<or> n = 2 \<and> 0xC0 \<le> byte_at s 0 \<and> is_cont (byte_at s 1)
    \<or> n = 3 \<and> 0xC0 \<le> byte_at s 0 \<and> is_cont (byte_at s 1) \<and> is_cont (byte_at s 2)
    \<or> n = 4 \<and> 0xC0 \<le> byte_at s 0 \<and> is_cont (byte_at s 1) \<and> is_cont (byte_at s 2) \<and> is_cont (byte_at s 3)"
  using assms by (auto simp: utf8_step_def Let_def second_of_3_def second_of_4_def split: if_splits)

lemma cont_in_range: "is_cont (byte_at s i) \<Longrightarrow> i < length s"
  using is_cont_nonzero byte_at_append by blast

lemma utf8_step_valid:
  assumes "utf8_step s = (True, n)" "s \<noteq> []"
  shows "0 < n" "n \<le> length s" "\<not> is_cont (byte_at s 0)" "0 < i \<Longrightarrow> i < n \<Longrightarrow> is_cont (byte_at s i)"
proof -
  note c = utf8_step_cases [OF assms(1)]
  from c show "0 < n" by auto
  from c show "\<not> is_cont (byte_at s 0)" by (auto simp: is_cont_def)
  have "Suc 0 \<le> length s" using assms(2) by (cases s) simp_all
  with c show "n \<le> length s" by (auto dest!: cont_in_range)
  assume "0 < i" "i < n"
  moreover from this c have "i = 1 \<or> i = 2 \<or> i = 3" by auto
  ultimately show "is_cont (byte_at s i)" using c by auto
qed

lemma utf8_step_append:
  assumes "utf8_step s = (True, n)" "s \<noteq> []"
  shows "utf8_step (s @ t) = (True, n)"
proof -
  have "byte_at (s @ t) 0 = byte_at s 0" using assms(2) by (simp add: byte_at_def nth_append)
  moreover have "is_cont (byte_at s i) \<Longrightarrow> byte_at (s @ t) i = byte_at s i" for i
    using is_cont_nonzero byte_at_append by blast
  ultimately show ?thesis
    using assms(1) by (auto simp: utf8_step_def Let_def second_of_3_def second_of_4_def split: if_splits)
qed

lemma drop_pred: "0 < n \<Longrightarrow> drop (n - 1) s = drop n (c # s)"
  by (cases n) simp_all

lemma utf8_valid_step:
  "s \<noteq> [] \<Longrightarrow> utf8_valid s \<longleftrightarrow> fst (utf8_step s) \<and> utf8_valid (drop (snd (utf8_step s)) s)"
proof (cases s)
  case (Cons c r)
  then show ?thesis
    using utf8_step_valid(1) [of s] drop_pred [of "snd (utf8_step s)" r c]
    by (cases "utf8_step s") auto
qed simp

lemma lossy_step:
  assumes "utf8_step s = (True, n)" "s \<noteq> []"
  shows "from_utf8_lossy s = take n s @ from_utf8_lossy (drop n s)"
proof (cases s)
  case (Cons c r)
  then show ?thesis using assms drop_pred [OF utf8_step_valid(1) [OF assms], of r c] by simp
qed (use assms in simp)

lemma utf8_valid_induct [consumes 1, case_names empty step]:
  assumes "utf8_valid s" "P []"
    and "\<And>s n. s \<noteq> [] \<Longrightarrow> utf8_step s = (True, n) \<Longrightarrow> utf8_valid (drop n s) \<Longrightarrow> P (drop n s) \<Longrightarrow> P s"
  shows "P s"
  using assms(1)
proof (induction s rule: length_induct)
  case (1 s)
  show ?case
  proof (cases "s = []")
    case False
    with 1(2) obtain n where n: "utf8_step s = (True, n)" "utf8_valid (drop n s)"
      using utf8_valid_step by (cases "utf8_step s") auto
    then have "length (drop n s) < length s" using utf8_step_valid(1,2) False by fastforce
    with 1(1) n show ?thesis using assms(3) [OF False n] by blast
  qed (use assms(2) in simp)
qed

text \<open>Decoding keeps valid text, also in front of other bytes, and always yields valid text.\<close>

lemma lossy_append:
  assumes "utf8_valid s"
  shows "from_utf8_lossy (s @ t) = s @ from_utf8_lossy t"
  using assms
proof (induction rule: utf8_valid_induct)
  case (step s n)
  have "n \<le> length s" using utf8_step_valid(2) step by blast
  then have "from_utf8_lossy (s @ t) = take n s @ from_utf8_lossy (drop n s @ t)"
    using lossy_step [OF utf8_step_append [OF step(2,1)]] step(1) by simp
  also have "\<dots> = s @ from_utf8_lossy t" using step.IH by (metis append.assoc append_take_drop_id)
  finally show ?case .
qed simp

lemma lossy_valid [simp]: "utf8_valid s \<Longrightarrow> from_utf8_lossy s = s"
  using lossy_append [of s "[]"] by simp

lemma utf8_valid_append:
  assumes "utf8_valid s"
  shows "utf8_valid (s @ t) \<longleftrightarrow> utf8_valid t"
  using assms
proof (induction rule: utf8_valid_induct)
  case (step s n)
  have "n \<le> length s" using utf8_step_valid(2) step by blast
  then show ?case using utf8_valid_step [of "s @ t"] utf8_step_append [OF step(2,1)] step by simp
qed simp

lemma utf8_step_take:
  assumes "utf8_step s = (True, n)" "s \<noteq> []"
  shows "utf8_valid (take n s)"
proof -
  note v = utf8_step_valid(1,2) [OF assms]
  have "byte_at (take n s) i = byte_at s i" if "i < n" for i
    using that v(2) by (simp add: byte_at_def)
  moreover have "byte_at (take n s) i = 0" if "n \<le> i" for i using that by (simp add: byte_at_def)
  ultimately have "utf8_step (take n s) = (True, n)"
    using utf8_step_cases [OF assms(1)] assms(1) v(1)
    by (auto simp: utf8_step_def Let_def second_of_3_def second_of_4_def split: if_splits)
  then show ?thesis using utf8_valid_step [of "take n s"] v assms(2) by simp
qed

lemma utf8_valid_replacement: "utf8_valid replacement_character"
  by code_simp

lemma utf8_valid_lossy: "utf8_valid (from_utf8_lossy s)"
proof (induction s rule: from_utf8_lossy.induct)
  case (2 c s)
  obtain ok n where n: "utf8_step (c # s) = (ok, n)" by force
  then show ?case
    using 2 [OF n [symmetric]] utf8_step_take [of "c # s" n] utf8_valid_replacement utf8_valid_append
    by (auto split: if_splits)
qed simp

text \<open>A string is cut at a character boundary where the rest does not start with a continuation byte.\<close>

lemma utf8_valid_cut:
  assumes "utf8_valid (l @ r)" "r = [] \<or> \<not> is_cont (byte_at r 0)"
  shows "utf8_valid l \<and> utf8_valid r"
  using assms
proof (induction "l @ r" arbitrary: l rule: utf8_valid_induct)
  case (step n l)
  show ?case
  proof (cases "l = []")
    case False
    have n: "n \<le> length l"
    proof (rule ccontr)
      assume "\<not> n \<le> length l"
      then have "is_cont (byte_at (l @ r) (length l))" "r \<noteq> []"
        using utf8_step_valid [OF step(2) step(1)] False by (auto simp: not_le)
      then show False using step.prems by (simp add: byte_at_def nth_append)
    qed
    then have "utf8_valid (drop n l) \<and> utf8_valid r" using step(4) [of "drop n l"] step.prems by simp
    moreover have "utf8_valid (take n l)" using utf8_step_take [OF step(2,1)] n by simp
    ultimately show ?thesis using utf8_valid_append [of "take n l" "drop n l"] by simp
  qed (use step utf8_valid_step [of r] in simp)
qed simp

text \<open>ASCII text is valid, and \<open>trim\<close> keeps text between graphic characters.\<close>

lemma ascii_utf8: "list_all (\<lambda>c. of_char c < (0x80 :: nat)) s \<Longrightarrow> utf8_valid s"
  by (induction s) (simp_all add: utf8_step_def byte_at_def)

definition ascii_graphic :: "char \<Rightarrow> bool" where
  "ascii_graphic c \<longleftrightarrow> 0x20 < (of_char c :: nat) \<and> (of_char c :: nat) < 0x7F"

lemma white_space_not_graphic:
  "w \<in> set white_space_bytes \<Longrightarrow> w \<noteq> [] \<and> \<not> ascii_graphic (hd w) \<and> \<not> ascii_graphic (last w)"
proof -
  have "list_all (\<lambda>w. w \<noteq> [] \<and> \<not> ascii_graphic (hd w) \<and> \<not> ascii_graphic (last w)) white_space_bytes" by code_simp
  then show "w \<in> set white_space_bytes \<Longrightarrow> ?thesis" by (simp add: list_all_iff)
qed

lemma white_space_graphic:
  assumes "ascii_graphic c"
  shows "white_space_len (c # s) = 0" "white_space_end_len (c # s) = 0"
proof -
  have "take (length w) (c # s) \<noteq> w \<and> take (length w) (c # s) \<noteq> rev w" if "w \<in> set white_space_bytes" for w
    using white_space_not_graphic [OF that] assms by (cases w; cases "rev w") (auto simp: last_rev hd_rev [symmetric])
  then show "white_space_len (c # s) = 0" "white_space_end_len (c # s) = 0"
    by (auto simp: white_space_len_def white_space_end_len_def find_Some_iff split: option.split)
qed

lemma trim_graphic:
  assumes "s \<noteq> []" "ascii_graphic (hd s)" "ascii_graphic (last s)"
  shows "trim s = s"
proof -
  have "trim_start s = s" using assms by (cases s) (simp_all add: white_space_graphic)
  moreover have "trim_reversed (rev s) = rev s"
    using assms by (cases "rev s") (simp_all add: white_space_graphic last_rev hd_rev [symmetric])
  ultimately show ?thesis by (simp add: trim_def)
qed

end
