(* ===== verification/Versioning.thy ===== *)
theory Versioning
  imports Flow_Types Rust_Text
begin

text \<open>
  \<open>versioning.rs\<close> and \<open>defaults/file_flow_store.rs\<close>: version and configuration hashes, the
  save/retrieve service over a flow store, and the file-backed flow store.  SHA-256, the JSON
  printer and parser and the Unicode upper-case mapping are parameters.  The contract of a flow
  store is a locale over two finite maps (versions and heads); that versions are content-addressed,
  and immutable as long as the store does not report a stored document absent, is proved from it once
  and holds for the file store.  The file store reports a document absent when the stat call behind
  \<open>exists()\<close> fails, and a save then rewrites a stored version (\<open>failed_stat_rewrites_version\<close>).
\<close>

section \<open>Hashes\<close>

definition is_secret_key :: "(string \<Rightarrow> string) \<Rightarrow> string \<Rightarrow> bool" where
  "is_secret_key to_uppercase key \<longleftrightarrow>
     (let upper = to_uppercase key
      in contains_str ''SECRET'' upper \<or> contains_str ''KEY'' upper \<or> contains_str ''PASSWORD'' upper)"

text \<open>The object is rebuilt by inserting its entries one by one; the key path is passed along as in the
  source, which decides by the last key alone.\<close>

fun sanitize_value :: "(string \<Rightarrow> string) \<Rightarrow> json \<Rightarrow> string \<Rightarrow> json" where
  "sanitize_value up (JObject m) key_path =
     JObject (bt_of_list (map (\<lambda>e. (fst e,
       if is_secret_key up (fst e) then JString ''[SECRET_PLACEHOLDER]''
       else sanitize_value up (snd e)
              (if key_path = [] then fst e else key_path @ ''.'' @ fst e))) m))"
| "sanitize_value up (JArray xs) key_path = JArray (map (\<lambda>v. sanitize_value up v key_path) xs)"
| "sanitize_value up v key_path = v"

definition sanitize_secrets :: "(string \<Rightarrow> string) \<Rightarrow> json \<Rightarrow> json" where
  "sanitize_secrets up v = sanitize_value up v []"

text \<open>What the hashes use of the libraries: upper case, SHA-256 in hexadecimal, and the three JSON
  printers.\<close>

record 'b hash_lib =
  to_uppercase :: "string \<Rightarrow> string"
  sha256_hex :: "'b \<Rightarrow> string"
  graph_to_vec :: "graph_def \<Rightarrow> 'b"
  json_to_string :: "json \<Rightarrow> string"
  jsons_to_vec :: "json list \<Rightarrow> 'b"

definition compute_version_id :: "'b hash_lib \<Rightarrow> graph_def \<Rightarrow> string" where
  "compute_version_id lib g = sha256_hex lib (graph_to_vec lib g)"

definition compute_config_hash :: "'b hash_lib \<Rightarrow> graph_def \<Rightarrow> string" where
  "compute_config_hash lib g =
     (let configs = map (\<lambda>n. sanitize_secrets (to_uppercase lib) (node_config n)) (nodes g);
          configs = sort_key (json_to_string lib) configs
      in sha256_hex lib (jsons_to_vec lib configs))"

section \<open>The versioning service\<close>

text \<open>The \<open>FlowStore\<close> trait; \<open>'io\<close> is the outcome of the system calls of an operation.\<close>

record ('io, 's) flow_store_ops =
  fso_put_version :: "'io \<Rightarrow> flow_version \<Rightarrow> 's \<Rightarrow> (flow_store_error, unit) result \<times> 's"
  fso_put_head :: "'io \<Rightarrow> flow_head \<Rightarrow> 's \<Rightarrow> (flow_store_error, unit) result \<times> 's"
  fso_get_head :: "'io \<Rightarrow> string \<Rightarrow> 's \<Rightarrow> (flow_store_error, flow_head option) result"
  fso_get_version :: "'io \<Rightarrow> string \<Rightarrow> 's \<Rightarrow> (flow_store_error, flow_version option) result"
  fso_list_versions :: "'io \<Rightarrow> string \<Rightarrow> nat \<Rightarrow> nat \<Rightarrow> 's \<Rightarrow> (flow_store_error, flow_version list) result"

definition new_version ::
  "'b hash_lib \<Rightarrow> datetime \<Rightarrow> string \<Rightarrow> graph_def \<Rightarrow> string option \<Rightarrow> string option \<Rightarrow> flow_version" where
  "new_version lib now flow_id graph created_by message =
     \<lparr>fv_version_id = compute_version_id lib graph, fv_flow_id = flow_id, fv_graph = graph,
      fv_created_at = now, fv_created_by = created_by, fv_message = message\<rparr>"

definition new_head :: "'b hash_lib \<Rightarrow> datetime \<Rightarrow> string \<Rightarrow> string \<Rightarrow> graph_def \<Rightarrow> flow_head" where
  "new_head lib now flow_id name graph =
     \<lparr>fh_flow_id = flow_id, fh_name = name, fh_current_version_id = compute_version_id lib graph,
      fh_updated_at = now\<rparr>"

definition versioning_save ::
  "'b hash_lib \<Rightarrow> ('io, 's) flow_store_ops \<Rightarrow> 'io \<Rightarrow> datetime \<Rightarrow> datetime \<Rightarrow> string \<Rightarrow> string \<Rightarrow> graph_def
   \<Rightarrow> string option \<Rightarrow> string option \<Rightarrow> 's \<Rightarrow> (flow_store_error, flow_version) result \<times> 's" where
  "versioning_save lib ops io now1 now2 flow_id name graph created_by message s =
     (case fso_get_version ops io (compute_version_id lib graph) s of
        Inl e \<Rightarrow> (Inl e, s)
      | Inr (Some existing) \<Rightarrow> (Inr existing, s)
      | Inr None \<Rightarrow>
          let version = new_version lib now1 flow_id graph created_by message
          in case fso_put_version ops io version s of
               (Inl e, s1) \<Rightarrow> (Inl e, s1)
             | (Inr _, s1) \<Rightarrow>
                 (case fso_put_head ops io (new_head lib now2 flow_id name graph) s1 of
                    (Inl e, s2) \<Rightarrow> (Inl e, s2)
                  | (Inr _, s2) \<Rightarrow> (Inr version, s2)))"

definition versioning_get_current ::
  "('io, 's) flow_store_ops \<Rightarrow> 'io \<Rightarrow> string \<Rightarrow> 's \<Rightarrow> (flow_store_error, flow_version option) result" where
  "versioning_get_current ops io flow_id s =
     and_then (fso_get_head ops io flow_id s)
       (\<lambda>h. case h of None \<Rightarrow> Inr None
             | Some head \<Rightarrow> fso_get_version ops io (fh_current_version_id head) s)"

definition versioning_get_at_version ::
  "('io, 's) flow_store_ops \<Rightarrow> 'io \<Rightarrow> string \<Rightarrow> 's \<Rightarrow> (flow_store_error, flow_version option) result" where
  "versioning_get_at_version ops io version_id s = fso_get_version ops io version_id s"

definition versioning_history ::
  "('io, 's) flow_store_ops \<Rightarrow> 'io \<Rightarrow> string \<Rightarrow> nat \<Rightarrow> nat \<Rightarrow> 's \<Rightarrow> (flow_store_error, flow_version list) result" where
  "versioning_history ops io flow_id limit offset s = fso_list_versions ops io flow_id limit offset s"

section \<open>The file-backed flow store\<close>

text \<open>
  The files \<open><name>.json\<close> of the two directories in \<open>read_dir\<close> order; temporary files are never read
  back (listing skips them by their extension) and are left out.  The names, which are ids, are taken
  to be single components of a path; the source does not check this.
\<close>

record 'b flow_files =
  ff_flows :: "(string \<times> 'b) list"
  ff_versions :: "(string \<times> 'b) list"

datatype dir_name = FlowsDir | VersionsDir

datatype file_op =
    MakeDir dir_name
  | WriteTemp dir_name string
  | RenameTemp dir_name string
  | ReadDoc dir_name string
  | ListDir dir_name
  | NextEntry dir_name string
  | StatDoc dir_name string

text \<open>\<open>StatDoc\<close> is the stat call of \<open>path.exists()\<close>, which answers false when the call fails.\<close>

type_synonym file_io = "file_op \<Rightarrow> string option"

record ('a, 'b) doc_codec =
  enc :: "'a \<Rightarrow> (string, 'b) result"
  dec :: "'b \<Rightarrow> (string, 'a) result"

definition file_call :: "file_io \<Rightarrow> file_op \<Rightarrow> string \<Rightarrow> (flow_store_error, unit) result" where
  "file_call io call msg = (case io call of None \<Rightarrow> Inr () | Some e \<Rightarrow> Inl (FlowStoreError (msg @ e)))"

definition doc_put :: "string \<Rightarrow> 'b \<Rightarrow> (string \<times> 'b) list \<Rightarrow> (string \<times> 'b) list" where
  "doc_put name data m = hm_entry name data (\<lambda>_. data) m"

definition file_flow_store_new :: "file_io \<Rightarrow> 'b flow_files \<Rightarrow> (flow_store_error, 'b flow_files) result" where
  "file_flow_store_new io ff =
     and_then (file_call io (MakeDir FlowsDir) ''failed to create flows directory: '') (\<lambda>_.
     and_then (file_call io (MakeDir VersionsDir) ''failed to create versions directory: '') (\<lambda>_. Inr ff))"

definition atomic_write ::
  "file_io \<Rightarrow> dir_name \<Rightarrow> string \<Rightarrow> 'b \<Rightarrow> (string \<times> 'b) list \<Rightarrow>
     (flow_store_error, unit) result \<times> (string \<times> 'b) list" where
  "atomic_write io d name data m =
     (case file_call io (WriteTemp d name) ''failed to write temp file: '' of
        Inl e \<Rightarrow> (Inl e, m)
      | Inr _ \<Rightarrow>
          (case file_call io (RenameTemp d name) ''failed to rename temp file: '' of
             Inl e \<Rightarrow> (Inl e, m)
           | Inr _ \<Rightarrow> (Inr (), doc_put name data m)))"

definition file_put_version ::
  "(flow_version, 'b) doc_codec \<Rightarrow> file_io \<Rightarrow> flow_version \<Rightarrow> 'b flow_files \<Rightarrow>
     (flow_store_error, unit) result \<times> 'b flow_files" where
  "file_put_version vc io version ff =
     (case enc vc version of
        Inl e \<Rightarrow> (Inl (FlowStoreError (''failed to serialize version: '' @ e)), ff)
      | Inr data \<Rightarrow>
          (case atomic_write io VersionsDir (fv_version_id version) data (ff_versions ff) of
             (res, m) \<Rightarrow> (res, ff\<lparr>ff_versions := m\<rparr>)))"

definition file_put_head ::
  "(flow_head, 'b) doc_codec \<Rightarrow> file_io \<Rightarrow> flow_head \<Rightarrow> 'b flow_files \<Rightarrow>
     (flow_store_error, unit) result \<times> 'b flow_files" where
  "file_put_head hc io head ff =
     (case enc hc head of
        Inl e \<Rightarrow> (Inl (FlowStoreError (''failed to serialize head: '' @ e)), ff)
      | Inr data \<Rightarrow>
          (case atomic_write io FlowsDir (fh_flow_id head) data (ff_flows ff) of
             (res, m) \<Rightarrow> (res, ff\<lparr>ff_flows := m\<rparr>)))"

definition file_get_head ::
  "(flow_head, 'b) doc_codec \<Rightarrow> file_io \<Rightarrow> string \<Rightarrow> 'b flow_files \<Rightarrow> (flow_store_error, flow_head option) result" where
  "file_get_head hc io flow_id ff =
     (case bt_get flow_id (ff_flows ff) of
        None \<Rightarrow> Inr None
      | Some data \<Rightarrow>
          if io (StatDoc FlowsDir flow_id) \<noteq> None then Inr None
          else and_then (file_call io (ReadDoc FlowsDir flow_id) ''failed to read flow head: '') (\<lambda>_.
          and_then (map_err (\<lambda>e. FlowStoreError (''failed to deserialize flow head: '' @ e)) (dec hc data))
            (\<lambda>head. Inr (Some head))))"

definition file_get_version ::
  "(flow_version, 'b) doc_codec \<Rightarrow> file_io \<Rightarrow> string \<Rightarrow> 'b flow_files \<Rightarrow>
     (flow_store_error, flow_version option) result" where
  "file_get_version vc io version_id ff =
     (case bt_get version_id (ff_versions ff) of
        None \<Rightarrow> Inr None
      | Some data \<Rightarrow>
          if io (StatDoc VersionsDir version_id) \<noteq> None then Inr None
          else and_then (file_call io (ReadDoc VersionsDir version_id) ''failed to read flow version: '') (\<lambda>_.
          and_then (map_err (\<lambda>e. FlowStoreError (''failed to deserialize flow version: '' @ e)) (dec vc data))
            (\<lambda>version. Inr (Some version))))"

text \<open>The documents of a directory that parse; a file that does not is skipped, and so is \<open>.json\<close>, which
  has no extension; a failed call ends the listing.\<close>

fun read_docs ::
  "file_io \<Rightarrow> dir_name \<Rightarrow> string \<Rightarrow> ('a, 'b) doc_codec \<Rightarrow> (string \<times> 'b) list \<Rightarrow> (flow_store_error, 'a list) result" where
  "read_docs io d msg c [] = Inr []"
| "read_docs io d msg c ((name, data) # entries) =
     and_then (file_call io (NextEntry d name) ''failed to read dir entry: '') (\<lambda>_.
     if name = [] then read_docs io d msg c entries
     else and_then (file_call io (ReadDoc d name) msg) (\<lambda>_.
     and_then (read_docs io d msg c entries) (\<lambda>docs.
       Inr (case dec c data of Inl _ \<Rightarrow> docs | Inr doc \<Rightarrow> doc # docs))))"

text \<open>\<open>sort_by\<close> on descending creation time, then descending version id, is a stable sort by the key with
  both components reversed: sorting ascending the reversed list and reversing the result.\<close>

definition newest_first :: "flow_version list \<Rightarrow> flow_version list" where
  "newest_first vs = rev (sort_key fv_created_at (sort_key fv_version_id (rev vs)))"

definition file_list_versions ::
  "(flow_version, 'b) doc_codec \<Rightarrow> file_io \<Rightarrow> string \<Rightarrow> nat \<Rightarrow> nat \<Rightarrow> 'b flow_files \<Rightarrow>
     (flow_store_error, flow_version list) result" where
  "file_list_versions vc io flow_id limit offset ff =
     and_then (file_call io (ListDir VersionsDir) ''failed to read versions directory: '') (\<lambda>_.
     and_then (read_docs io VersionsDir ''failed to read version file: '' vc (ff_versions ff)) (\<lambda>vs.
       Inr (take limit (drop offset (newest_first (filter (\<lambda>v. fv_flow_id v = flow_id) vs))))))"

definition file_list_flows ::
  "(flow_head, 'b) doc_codec \<Rightarrow> file_io \<Rightarrow> 'b flow_files \<Rightarrow> (flow_store_error, flow_head list) result" where
  "file_list_flows hc io ff =
     and_then (file_call io (ListDir FlowsDir) ''failed to read flows directory: '') (\<lambda>_.
       read_docs io FlowsDir ''failed to read flow file: '' hc (ff_flows ff))"

definition file_get_versions_for_diff ::
  "(flow_version, 'b) doc_codec \<Rightarrow> file_io \<Rightarrow> string \<Rightarrow> string \<Rightarrow> 'b flow_files \<Rightarrow>
     (flow_store_error, flow_version \<times> flow_version) result" where
  "file_get_versions_for_diff vc io a b ff =
     and_then (file_get_version vc io a ff) (\<lambda>oa.
     and_then (ok_or oa (FlowNotFoundErr a)) (\<lambda>va.
     and_then (file_get_version vc io b ff) (\<lambda>ob.
     and_then (ok_or ob (FlowNotFoundErr b)) (\<lambda>vb. Inr (va, vb)))))"

definition file_flow_store ::
  "(flow_version, 'b) doc_codec \<Rightarrow> (flow_head, 'b) doc_codec \<Rightarrow> (file_io, 'b flow_files) flow_store_ops" where
  "file_flow_store vc hc =
     \<lparr>fso_put_version = file_put_version vc, fso_put_head = file_put_head hc, fso_get_head = file_get_head hc,
      fso_get_version = file_get_version vc, fso_list_versions = file_list_versions vc\<rparr>"

section \<open>Secrets and the configuration hash\<close>

text \<open>Two values that differ only below secret keys.\<close>

fun same_but_secrets :: "(string \<Rightarrow> string) \<Rightarrow> json \<Rightarrow> json \<Rightarrow> bool" where
  "same_but_secrets up (JObject m) (JObject m') \<longleftrightarrow>
     list_all2 (\<lambda>e e'. fst e = fst e' \<and> (is_secret_key up (fst e) \<or> same_but_secrets up (snd e) (snd e'))) m m'"
| "same_but_secrets up (JArray xs) (JArray ys) \<longleftrightarrow> list_all2 (same_but_secrets up) xs ys"
| "same_but_secrets up v w \<longleftrightarrow> v = w"

lemma bt_get_fold_insert:
  "bt_wf kvs \<Longrightarrow> bt_get k (fold (\<lambda>(k, v). bt_insert k v) kvs acc) =
     (case bt_get k kvs of None \<Rightarrow> bt_get k acc | Some v \<Rightarrow> Some v)"
proof (induction kvs arbitrary: acc)
  case (Cons e kvs)
  obtain k' v where e: "e = (k', v)" by force
  with Cons.prems have "bt_get k' kvs = None" by (auto simp: bt_wf_Cons bt_get_None_iff)
  with Cons e show ?case by (auto simp: bt_wf_Cons split: option.split)
qed simp

lemma bt_of_list_wf: "bt_wf m \<Longrightarrow> bt_of_list m = m"
  by (rule bt_ext) (auto simp: bt_of_list_def bt_get_fold_insert bt_fold_wf split: option.split)

text \<open>On ordered maps sanitizing acts entry by entry, and the path does not matter.\<close>

definition sanitize_entry :: "(string \<Rightarrow> string) \<Rightarrow> string \<times> json \<Rightarrow> json" where
  "sanitize_entry up e =
     (if is_secret_key up (fst e) then JString ''[SECRET_PLACEHOLDER]'' else sanitize_secrets up (snd e))"

lemma sanitize_path: "sanitize_value up v p = sanitize_value up v q"
proof (induction v arbitrary: p q)
  case (JObject m)
  have "sanitize_value up (snd e) p' = sanitize_value up (snd e) q'" if "e \<in> set m" for e p' q'
    by (rule JObject.IH [of e "snd e" p' q']) (use that in \<open>auto simp: snds.simps\<close>)
  then show ?case
    by (simp only: sanitize_value.simps)
       (intro arg_cong [where f = "\<lambda>m. JObject (bt_of_list m)"] map_cong; simp)
next
  case (JArray xs)
  then show ?case by (auto intro!: map_cong)
qed simp_all

lemma sanitize_object:
  assumes "bt_wf m"
  shows "sanitize_secrets up (JObject m) = JObject (map (\<lambda>e. (fst e, sanitize_entry up e)) m)"
proof -
  have path: "sanitize_value up v p = sanitize_secrets up v" for v p
    unfolding sanitize_secrets_def by (rule sanitize_path)
  have "sanitize_value up (JObject m) [] = JObject (bt_of_list (map (\<lambda>e. (fst e, sanitize_entry up e)) m))"
    by (simp only: sanitize_value.simps path sanitize_entry_def)
  moreover have "bt_wf (map (\<lambda>e. (fst e, sanitize_entry up e)) m)"
    using assms by (simp add: bt_wf_def comp_def)
  ultimately show ?thesis by (simp only: sanitize_secrets_def bt_of_list_wf)
qed

lemma sanitize_array: "sanitize_secrets up (JArray xs) = JArray (map (sanitize_secrets up) xs)"
  by (simp add: sanitize_secrets_def)

lemma sanitize_leaf [simp]:
  "sanitize_secrets up w = JNull \<longleftrightarrow> w = JNull" "JNull = sanitize_secrets up w \<longleftrightarrow> w = JNull"
  "sanitize_secrets up w = JBool b \<longleftrightarrow> w = JBool b" "JBool b = sanitize_secrets up w \<longleftrightarrow> w = JBool b"
  "sanitize_secrets up w = JNumber n \<longleftrightarrow> w = JNumber n" "JNumber n = sanitize_secrets up w \<longleftrightarrow> w = JNumber n"
  "sanitize_secrets up w = JString s \<longleftrightarrow> w = JString s" "JString s = sanitize_secrets up w \<longleftrightarrow> w = JString s"
  "sanitize_secrets up (JObject m) \<noteq> JArray xs" "JArray xs \<noteq> sanitize_secrets up (JObject m)"
  by (cases w; auto simp: sanitize_secrets_def)+

lemma sanitize_leaves [simp]:
  "sanitize_secrets up JNull = JNull" "sanitize_secrets up (JBool b) = JBool b"
  "sanitize_secrets up (JNumber n) = JNumber n" "sanitize_secrets up (JString s) = JString s"
  by (simp_all add: sanitize_secrets_def)

lemma map_eq_list_all2: "map f xs = map g ys \<longleftrightarrow> list_all2 (\<lambda>x y. f x = g y) xs ys"
  by (simp add: list_all2_map1 list_all2_map2 list.rel_eq [symmetric])

lemma sanitize_eq_iff:
  "json_wf v \<Longrightarrow> json_wf w \<Longrightarrow> sanitize_secrets up v = sanitize_secrets up w \<longleftrightarrow> same_but_secrets up v w"
proof (induction up v w rule: same_but_secrets.induct)
  case (1 up m m')
  have "(fst e = fst e' \<and> sanitize_entry up e = sanitize_entry up e') =
      (fst e = fst e' \<and> (is_secret_key up (fst e) \<or> same_but_secrets up (snd e) (snd e')))"
    if "e \<in> set m" "e' \<in> set m'" for e e'
    using 1 that by (auto simp: sanitize_entry_def list_all_iff)
  then have "list_all2 (\<lambda>e e'. fst e = fst e' \<and> sanitize_entry up e = sanitize_entry up e') m m' =
      list_all2 (\<lambda>e e'. fst e = fst e' \<and> (is_secret_key up (fst e) \<or> same_but_secrets up (snd e) (snd e'))) m m'"
    by (intro list.rel_cong refl) simp
  with 1 show ?case by (simp add: sanitize_object map_eq_list_all2)
next
  case (2 up xs ys)
  then have "list_all2 (\<lambda>x y. sanitize_secrets up x = sanitize_secrets up y) xs ys =
      list_all2 (same_but_secrets up) xs ys"
    by (intro list.rel_cong refl) (simp add: list_all_iff)
  then show ?case by (simp add: sanitize_array map_eq_list_all2)
qed (auto simp: sanitize_array)

section \<open>The contract of a flow store\<close>

text \<open>What one call of \<open>save\<close> is given.\<close>

record 'io save_request =
  rq_io :: 'io
  rq_now1 :: datetime
  rq_now2 :: datetime
  rq_flow_id :: string
  rq_name :: string
  rq_graph :: graph_def
  rq_created_by :: "string option"
  rq_message :: "string option"

definition save_with ::
  "'h hash_lib \<Rightarrow> ('io, 's) flow_store_ops \<Rightarrow> 'io save_request \<Rightarrow> 's \<Rightarrow> (flow_store_error, flow_version) result \<times> 's" where
  "save_with lib ops rq s =
     versioning_save lib ops (rq_io rq) (rq_now1 rq) (rq_now2 rq) (rq_flow_id rq) (rq_name rq) (rq_graph rq)
       (rq_created_by rq) (rq_message rq) s"

definition version_of :: "'h hash_lib \<Rightarrow> 'io save_request \<Rightarrow> flow_version" where
  "version_of lib rq = new_version lib (rq_now1 rq) (rq_flow_id rq) (rq_graph rq) (rq_created_by rq) (rq_message rq)"

definition head_of :: "'h hash_lib \<Rightarrow> 'io save_request \<Rightarrow> flow_head" where
  "head_of lib rq = new_head lib (rq_now2 rq) (rq_flow_id rq) (rq_name rq) (rq_graph rq)"

text \<open>
  \<open>vers\<close> and \<open>heads\<close> are the stored documents by name, as the store keeps them (\<open>keepv\<close>, \<open>keeph\<close>: a
  database rounds times).  A put has updated its map at the document's own name or left the map as it
  was, and one that succeeds leaves a document there (a version that exists may be kept).  A document
  that is read is the stored one; a document is reported absent only when it is, for the outcomes in
  \<open>truthful\<close>.
\<close>

locale flow_store =
  fixes ops :: "('io, 's) flow_store_ops"
    and inv :: "'s \<Rightarrow> bool"
    and okv :: "flow_version \<Rightarrow> bool"
    and okh :: "flow_head \<Rightarrow> bool"
    and vers :: "'s \<Rightarrow> string \<rightharpoonup> flow_version"
    and heads :: "'s \<Rightarrow> string \<rightharpoonup> flow_head"
    and truthful :: "'io \<Rightarrow> bool"
    and keepv :: "flow_version \<Rightarrow> flow_version"
    and keeph :: "flow_head \<Rightarrow> flow_head"
  assumes keepv: "fv_version_id (keepv v) = fv_version_id v" "fv_graph (keepv v) = fv_graph v"
    and keeph: "fh_flow_id (keeph h) = fh_flow_id h" "fh_current_version_id (keeph h) = fh_current_version_id h"
    and put_version: "inv s \<Longrightarrow> okv v \<Longrightarrow> fso_put_version ops io v s = (res, s') \<Longrightarrow>
          inv s' \<and> heads s' = heads s \<and> vers s' \<in> {vers s, (vers s)(fv_version_id v \<mapsto> keepv v)}
          \<and> (res = Inr () \<longrightarrow> vers s' (fv_version_id v) \<noteq> None)"
    and put_head: "inv s \<Longrightarrow> okh h \<Longrightarrow> fso_put_head ops io h s = (res, s') \<Longrightarrow>
          inv s' \<and> vers s' = vers s \<and>
          (heads s' = (heads s)(fh_flow_id h \<mapsto> keeph h) \<or> res \<noteq> Inr () \<and> heads s' = heads s)"
    and get_version: "inv s \<Longrightarrow> fso_get_version ops io k s = Inr (Some v) \<Longrightarrow> vers s k = Some v"
    and no_version: "inv s \<Longrightarrow> truthful io \<Longrightarrow> fso_get_version ops io k s = Inr None \<Longrightarrow> vers s k = None"
    and get_head: "inv s \<Longrightarrow> fso_get_head ops io k s = Inr (Some h) \<Longrightarrow> heads s k = Some h"
    and no_head: "inv s \<Longrightarrow> truthful io \<Longrightarrow> fso_get_head ops io k s = Inr None \<Longrightarrow> heads s k = None"
begin

text \<open>Every version is stored under the hash of its graph, and every head names a stored version.\<close>

definition addressed :: "'b hash_lib \<Rightarrow> 's \<Rightarrow> bool" where
  "addressed lib s \<longleftrightarrow>
     (\<forall>k v. vers s k = Some v \<longrightarrow> fv_version_id v = k \<and> compute_version_id lib (fv_graph v) = k)
     \<and> (\<forall>f h. heads s f = Some h \<longrightarrow> fh_flow_id h = f \<and> vers s (fh_current_version_id h) \<noteq> None)"

lemma version_read: "inv s \<Longrightarrow> truthful io \<Longrightarrow> fso_get_version ops io k s = Inr x \<Longrightarrow> x = vers s k"
  by (cases x) (simp_all add: get_version no_version)

lemma head_read: "inv s \<Longrightarrow> truthful io \<Longrightarrow> fso_get_head ops io k s = Inr x \<Longrightarrow> x = heads s k"
  by (cases x) (simp_all add: get_head no_head)

text \<open>A save stores the version, then the head; it stops at the first error, which may have taken effect.\<close>

lemma save_effect:
  assumes "inv s" "okv (new_version lib now1 flow_id graph created msg)" "okh (new_head lib now2 flow_id name graph)"
    and save: "versioning_save lib ops io now1 now2 flow_id name graph created msg s = (res, s')"
  defines "key \<equiv> compute_version_id lib graph"
    and "v \<equiv> new_version lib now1 flow_id graph created msg" and "h \<equiv> new_head lib now2 flow_id name graph"
  shows "inv s' \<and>
    (s' = s \<and> (\<forall>w. res = Inr w \<longrightarrow> vers s key = Some w)
     \<or> fso_get_version ops io key s = Inr None \<and> vers s' \<in> {vers s, (vers s)(key \<mapsto> keepv v)} \<and>
       (heads s' = heads s \<and> (\<exists>e. res = Inl e)
        \<or> vers s' key \<noteq> None \<and> heads s' = (heads s)(flow_id \<mapsto> keeph h) \<and> (\<forall>w. res = Inr w \<longrightarrow> w = v)))"
proof (cases "fso_get_version ops io key s = Inr None")
  case True
  have id: "fv_version_id v = key" "fh_flow_id h = flow_id"
    by (simp_all add: v_def h_def new_version_def new_head_def key_def)
  obtain r1 s1 where p1: "fso_put_version ops io v s = (r1, s1)" by force
  obtain r2 s2 where p2: "fso_put_head ops io h s1 = (r2, s2)" by force
  have w1: "inv s1" "heads s1 = heads s" "vers s1 \<in> {vers s, (vers s)(key \<mapsto> keepv v)}"
    "r1 = Inr () \<Longrightarrow> vers s1 key \<noteq> None"
    using put_version [OF assms(1) assms(2) [folded v_def] p1] unfolding id by blast+
  have w2: "inv s2" "vers s2 = vers s1" "heads s2 = (heads s1)(flow_id \<mapsto> keeph h) \<or> r2 \<noteq> Inr () \<and> heads s2 = heads s1"
    using put_head [OF w1(1) assms(3) [folded h_def] p2] unfolding id by blast+
  show ?thesis
  proof (cases r1)
    case (Inl e)
    with save p1 True have "res = Inl e" "s' = s1"
      unfolding versioning_save_def key_def [symmetric] v_def [symmetric] by simp_all
    with w1 True show ?thesis by simp
  next
    case (Inr u)
    then have r1: "r1 = Inr ()" by simp
    with save p1 p2 True have r: "res = (case r2 of Inl e \<Rightarrow> Inl e | Inr _ \<Rightarrow> Inr v)" "s' = s2"
      unfolding versioning_save_def key_def [symmetric] v_def [symmetric] h_def [symmetric]
      by (auto simp: Let_def split: sum.splits)
    have "heads s2 = heads s \<and> (\<exists>e. res = Inl e)
        \<or> vers s2 key \<noteq> None \<and> heads s2 = (heads s)(flow_id \<mapsto> keeph h) \<and> (\<forall>w. res = Inr w \<longrightarrow> w = v)"
      using w1(2,4) w2(2,3) r1 r(1) by (cases r2) auto
    with w1(3) w2(1,2) r(2) True show ?thesis by simp
  qed
next
  case False
  then have "s' = s \<and> (\<forall>w. res = Inr w \<longrightarrow> fso_get_version ops io key s = Inr (Some w))"
    using save unfolding versioning_save_def key_def [symmetric] by (auto split: sum.splits option.splits)
  then show ?thesis using get_version [OF assms(1)] assms(1) by metis
qed

lemma save_addressed:
  assumes "inv s" "okv (version_of lib rq)" "okh (head_of lib rq)" "save_with lib ops rq s = (res, s')" "addressed lib s"
  shows "inv s' \<and> addressed lib s' \<and> (truthful (rq_io rq) \<longrightarrow> vers s \<subseteq>\<^sub>m vers s')"
proof -
  let ?key = "compute_version_id lib (rq_graph rq)"
  have id: "fv_version_id (keepv (version_of lib rq)) = ?key" "fv_graph (keepv (version_of lib rq)) = rq_graph rq"
    "fh_flow_id (keeph (head_of lib rq)) = rq_flow_id rq" "fh_current_version_id (keeph (head_of lib rq)) = ?key"
    by (simp_all add: keepv keeph version_of_def head_of_def new_version_def new_head_def)
  from save_effect [OF assms(1) assms(2) [unfolded version_of_def] assms(3) [unfolded head_of_def]
      assms(4) [unfolded save_with_def], folded version_of_def head_of_def]
  have inv: "inv s'" and eff: "vers s' = vers s \<and> heads s' = heads s
     \<or> fso_get_version ops (rq_io rq) ?key s = Inr None \<and> vers s' \<in> {vers s, (vers s)(?key \<mapsto> keepv (version_of lib rq))} \<and>
       (heads s' = heads s \<or> vers s' ?key \<noteq> None \<and> heads s' = (heads s)(rq_flow_id rq \<mapsto> keeph (head_of lib rq)))"
    by auto
  have "addressed lib s'"
    using eff assms(5) id by (auto simp: addressed_def split: if_splits)
  moreover have "vers s \<subseteq>\<^sub>m vers s'" if "truthful (rq_io rq)"
    using eff no_version [OF assms(1) that, of ?key] by (auto simp: map_le_def)
  ultimately show ?thesis using inv by simp
qed

lemma saves_addressed:
  assumes "list_all (\<lambda>rq. okv (version_of lib rq) \<and> okh (head_of lib rq)) rqs" "inv s" "addressed lib s"
  defines "s' \<equiv> fold (\<lambda>rq s. snd (save_with lib ops rq s)) rqs s"
  shows "inv s' \<and> addressed lib s' \<and> (list_all (\<lambda>rq. truthful (rq_io rq)) rqs \<longrightarrow> vers s \<subseteq>\<^sub>m vers s')"
  using assms(1-3) unfolding s'_def
proof (induction rqs arbitrary: s)
  case (Cons rq rqs)
  obtain res s1 where s1: "save_with lib ops rq s = (res, s1)" by force
  have "inv s1 \<and> addressed lib s1 \<and> (truthful (rq_io rq) \<longrightarrow> vers s \<subseteq>\<^sub>m vers s1)"
    by (rule save_addressed [OF Cons.prems(2) _ _ s1 Cons.prems(3)]) (use Cons.prems(1) in simp_all)
  with Cons.IH [of s1] Cons.prems(1) s1 show ?case by (auto intro: map_le_trans)
qed simp

end

section \<open>The file store keeps the contract\<close>

definition doc_ok :: "('a, 'b) doc_codec \<Rightarrow> 'a \<Rightarrow> bool" where
  "doc_ok c x \<longleftrightarrow> (case enc c x of Inl _ \<Rightarrow> True | Inr d \<Rightarrow> dec c d = Inr x)"

definition docs_ok :: "('a, 'b) doc_codec \<Rightarrow> (string \<times> 'b) list \<Rightarrow> bool" where
  "docs_ok c m \<longleftrightarrow> (\<forall>k d. bt_get k m = Some d \<longrightarrow> (\<exists>x. dec c d = Inr x))"

definition docs :: "('a, 'b) doc_codec \<Rightarrow> (string \<times> 'b) list \<Rightarrow> string \<Rightarrow> 'a option" where
  "docs c m k = Option.bind (bt_get k m) (\<lambda>d. case dec c d of Inl _ \<Rightarrow> None | Inr x \<Rightarrow> Some x)"

definition ff_inv ::
  "(flow_version, 'b) doc_codec \<Rightarrow> (flow_head, 'b) doc_codec \<Rightarrow> 'b flow_files \<Rightarrow> bool" where
  "ff_inv vc hc ff \<longleftrightarrow> docs_ok vc (ff_versions ff) \<and> docs_ok hc (ff_flows ff)"

lemma bt_get_doc_put [simp]: "bt_get k (doc_put name d m) = (if k = name then Some d else bt_get k m)"
  by (simp add: doc_put_def bt_get_entry)

lemma docs_put: "dec c d = Inr x \<Longrightarrow> docs c (doc_put name d m) = (docs c m)(name \<mapsto> x)"
  by (auto simp: docs_def)

lemma atomic_write_docs:
  assumes "atomic_write io dir name d m = (res, m')" "dec c d = Inr x" "docs_ok c m"
  shows "docs_ok c m' \<and> docs c m' = (case res of Inl _ \<Rightarrow> docs c m | Inr _ \<Rightarrow> (docs c m)(name \<mapsto> x))"
  using assms by (auto simp: atomic_write_def docs_put docs_ok_def split: sum.splits if_splits)

text \<open>Outcomes in which the stat calls succeed.\<close>

definition file_stats_ok :: "file_io \<Rightarrow> bool" where
  "file_stats_ok io \<longleftrightarrow> (\<forall>d name. io (StatDoc d name) = None)"

lemma file_stats_ok_stat [simp]: "file_stats_ok io \<Longrightarrow> io (StatDoc d name) = None"
  by (simp add: file_stats_ok_def)

lemma file_stats_ok_none [simp]: "file_stats_ok (\<lambda>_. None)"
  by (simp add: file_stats_ok_def)

interpretation file_flows: flow_store "file_flow_store vc hc" "ff_inv vc hc" "doc_ok vc" "doc_ok hc"
  "\<lambda>ff. docs vc (ff_versions ff)" "\<lambda>ff. docs hc (ff_flows ff)" file_stats_ok "\<lambda>v. v" "\<lambda>h. h" for vc hc
proof unfold_locales
  fix s :: "'a flow_files" and io v res s'
  assume "ff_inv vc hc s" "doc_ok vc v" "fso_put_version (file_flow_store vc hc) io v s = (res, s')"
  then show "ff_inv vc hc s' \<and> docs hc (ff_flows s') = docs hc (ff_flows s) \<and>
      docs vc (ff_versions s') \<in> {docs vc (ff_versions s), (docs vc (ff_versions s))(fv_version_id v \<mapsto> v)}
      \<and> (res = Inr () \<longrightarrow> docs vc (ff_versions s') (fv_version_id v) \<noteq> None)"
    by (auto simp: file_flow_store_def file_put_version_def ff_inv_def doc_ok_def dest: atomic_write_docs
        split: sum.splits prod.splits)
next
  fix s :: "'a flow_files" and io h res s'
  assume "ff_inv vc hc s" "doc_ok hc h" "fso_put_head (file_flow_store vc hc) io h s = (res, s')"
  then show "ff_inv vc hc s' \<and> docs vc (ff_versions s') = docs vc (ff_versions s) \<and>
      (docs hc (ff_flows s') = (docs hc (ff_flows s))(fh_flow_id h \<mapsto> h)
       \<or> res \<noteq> Inr () \<and> docs hc (ff_flows s') = docs hc (ff_flows s))"
    by (auto simp: file_flow_store_def file_put_head_def ff_inv_def doc_ok_def dest: atomic_write_docs
        split: sum.splits prod.splits)
qed (auto simp: file_flow_store_def file_get_version_def file_get_head_def docs_def map_err_Ok
    split: option.splits if_splits)

text \<open>Sequences of saves.\<close>

definition save_one ::
  "'h hash_lib \<Rightarrow> (flow_version, 'b) doc_codec \<Rightarrow> (flow_head, 'b) doc_codec \<Rightarrow> file_io save_request \<Rightarrow> 'b flow_files
   \<Rightarrow> (flow_store_error, flow_version) result \<times> 'b flow_files" where
  "save_one lib vc hc rq ff = save_with lib (file_flow_store vc hc) rq ff"

definition save_all ::
  "'h hash_lib \<Rightarrow> (flow_version, 'b) doc_codec \<Rightarrow> (flow_head, 'b) doc_codec \<Rightarrow> file_io save_request list \<Rightarrow> 'b flow_files
   \<Rightarrow> 'b flow_files" where
  "save_all lib vc hc rqs ff = fold (\<lambda>rq ff. snd (save_one lib vc hc rq ff)) rqs ff"

definition request_ok ::
  "'h hash_lib \<Rightarrow> (flow_version, 'b) doc_codec \<Rightarrow> (flow_head, 'b) doc_codec \<Rightarrow> file_io save_request \<Rightarrow> bool" where
  "request_ok lib vc hc rq \<longleftrightarrow>
     doc_ok vc (version_of lib rq) \<and> doc_ok hc (head_of lib rq)"

definition empty_files :: "'b flow_files" where
  "empty_files = \<lparr>ff_flows = [], ff_versions = []\<rparr>"

lemma save_all_append: "save_all lib vc hc (rqs @ later) ff = save_all lib vc hc later (save_all lib vc hc rqs ff)"
  by (simp add: save_all_def)

lemma save_all_addressed:
  assumes "list_all (request_ok lib vc hc) rqs" "ff_inv vc hc ff" "file_flows.addressed vc hc lib ff"
  shows "ff_inv vc hc (save_all lib vc hc rqs ff) \<and> file_flows.addressed vc hc lib (save_all lib vc hc rqs ff)
    \<and> (list_all (\<lambda>rq. file_stats_ok (rq_io rq)) rqs \<longrightarrow>
        docs vc (ff_versions ff) \<subseteq>\<^sub>m docs vc (ff_versions (save_all lib vc hc rqs ff)))"
  using file_flows.saves_addressed [OF _ assms(2,3), of rqs] assms(1)
  unfolding save_all_def save_one_def request_ok_def by simp

lemma empty_files_ok: "ff_inv vc hc empty_files \<and> file_flows.addressed vc hc lib empty_files"
  by (simp add: ff_inv_def file_flows.addressed_def docs_ok_def docs_def empty_files_def)

lemma file_get_version_docs:
  "ff_inv vc hc ff \<Longrightarrow> file_get_version vc (\<lambda>_. None) k ff = Inr (docs vc (ff_versions ff) k)"
  by (fastforce simp: file_get_version_def ff_inv_def docs_ok_def docs_def file_call_def split: option.split)

lemma file_get_head_docs:
  "ff_inv vc hc ff \<Longrightarrow> file_get_head hc (\<lambda>_. None) k ff = Inr (docs hc (ff_flows ff) k)"
  by (fastforce simp: file_get_head_def ff_inv_def docs_ok_def docs_def file_call_def split: option.split)

lemma sort_mset_cong: "mset xs = mset ys \<Longrightarrow> sort xs = sort ys"
  by (rule properties_for_sort) simp_all

lemma sort_key_map: "map f (sort_key f xs) = sort (map f xs)"
  by (metis mset_map mset_sort properties_for_sort sorted_sort_key)

section \<open>Properties\<close>

text \<open>
  (C32) Versions are content-addressed and immutable: after any sequence of saves on an empty file store,
  whatever system calls fail on the way, every version that can be read is stored under the hash of
  its graph, and every head that can be read names a version that can be read; and no later save, whatever
  fails in it but the stat calls behind \<open>exists()\<close>, changes or removes a version.  Flow ids and version
  ids are single components of a path.
\<close>

theorem versions_immutable:
  assumes "list_all (request_ok lib vc hc) (rqs @ later)"
    and "list_all (\<lambda>rq. path_name (rq_flow_id rq) \<and> path_name (compute_version_id lib (rq_graph rq))) (rqs @ later)"
    and "path_name k" "path_name f"
    and "list_all (\<lambda>rq. file_stats_ok (rq_io rq)) later"
  shows "(file_get_version vc io k (save_all lib vc hc rqs empty_files) = Inr (Some v) \<longrightarrow>
      fv_version_id v = k \<and> compute_version_id lib (fv_graph v) = k
      \<and> file_get_version vc (\<lambda>_. None) k (save_all lib vc hc (rqs @ later) empty_files) = Inr (Some v))
    \<and> (file_get_head hc io f (save_all lib vc hc rqs empty_files) = Inr (Some h) \<longrightarrow>
      (\<exists>v. file_get_version vc (\<lambda>_. None) (fh_current_version_id h) (save_all lib vc hc rqs empty_files)
             = Inr (Some v)))"
proof -
  let ?s = "save_all lib vc hc rqs empty_files" and ?s' = "save_all lib vc hc (rqs @ later) empty_files"
  have rqs: "list_all (request_ok lib vc hc) rqs" "list_all (request_ok lib vc hc) later"
    using assms(1) by simp_all
  note s = save_all_addressed [OF rqs(1) empty_files_ok [THEN conjunct1] empty_files_ok [THEN conjunct2]]
  note s' = save_all_addressed [OF rqs(2) s [THEN conjunct1] s [THEN conjunct2, THEN conjunct1]]
  have "docs vc (ff_versions ?s) \<subseteq>\<^sub>m docs vc (ff_versions ?s')"
    using s' assms(5) by (simp add: save_all_append)
  moreover have "docs vc (ff_versions ?s) k = Some v" if "file_get_version vc io k ?s = Inr (Some v)"
    using file_flows.get_version [OF s [THEN conjunct1], of io k] that by (simp add: file_flow_store_def)
  moreover have "docs hc (ff_flows ?s) f = Some h" if "file_get_head hc io f ?s = Inr (Some h)"
    using file_flows.get_head [OF s [THEN conjunct1], of io f] that by (simp add: file_flow_store_def)
  ultimately show ?thesis
    using s s' file_get_version_docs [of vc hc ?s] file_get_version_docs [of vc hc ?s']
    by (auto simp: file_flows.addressed_def save_all_append map_le_def dom_def)
qed

text \<open>
  What a successful save means when the stat calls succeed: the returned version can be read back; if the graph was stored
  before, the earlier version is returned and nothing changes, so that the head of the flow does
  not move (not even when the graph had been saved under another flow); otherwise the new
  version is the current version of the flow.
\<close>

theorem save_result:
  assumes "ff_inv vc hc ff" "request_ok lib vc hc rq" "save_one lib vc hc rq ff = (Inr v, ff')"
    and "file_stats_ok (rq_io rq)"
  shows "file_get_version vc (\<lambda>_. None) (compute_version_id lib (rq_graph rq)) ff' = Inr (Some v)
    \<and> (if docs vc (ff_versions ff) (compute_version_id lib (rq_graph rq)) = Some v then ff' = ff
       else docs vc (ff_versions ff) (compute_version_id lib (rq_graph rq)) = None
         \<and> fv_graph v = rq_graph rq \<and> fv_flow_id v = rq_flow_id rq
         \<and> versioning_get_current (file_flow_store vc hc) (\<lambda>_. None) (rq_flow_id rq) ff' = Inr (Some v))"
proof -
  let ?k = "compute_version_id lib (rq_graph rq)"
  note eff = file_flows.save_effect [OF assms(1) _ _ assms(3) [unfolded save_one_def save_with_def]]
  have eff: "ff_inv vc hc ff' \<and> (ff' = ff \<and> docs vc (ff_versions ff) ?k = Some v
     \<or> docs vc (ff_versions ff) ?k = None
       \<and> v = new_version lib (rq_now1 rq) (rq_flow_id rq) (rq_graph rq) (rq_created_by rq) (rq_message rq)
       \<and> docs vc (ff_versions ff') = (docs vc (ff_versions ff))(?k \<mapsto> v)
       \<and> docs hc (ff_flows ff') = (docs hc (ff_flows ff))(rq_flow_id rq \<mapsto>
           new_head lib (rq_now2 rq) (rq_flow_id rq) (rq_name rq) (rq_graph rq)))"
    using eff assms(2) file_flows.no_version [OF assms(1,4), of ?k]
    unfolding request_ok_def version_of_def head_of_def by (fastforce split: if_splits)
  note get = file_get_version_docs [OF eff [THEN conjunct1]] file_get_head_docs [OF eff [THEN conjunct1]]
  from eff show ?thesis
    by (auto simp: get versioning_get_current_def file_flow_store_def new_version_def new_head_def)
qed

text \<open>
  The configuration hash is stable under rotation of secrets and under reordering of nodes: it
  is the same for two graphs whose node configurations, up to order, differ only below keys that
  count as secret.  The JSON array printer is assumed to depend on the printed elements only.
\<close>

theorem config_hash_ignores_secrets_and_order:
  assumes "\<And>cs ds. map (json_to_string lib) cs = map (json_to_string lib) ds \<Longrightarrow>
      jsons_to_vec lib cs = jsons_to_vec lib ds"
    and "mset ns = mset (nodes g')"
    and "list_all2 (\<lambda>n n'. json_wf (node_config n) \<and> json_wf (node_config n')
          \<and> same_but_secrets (to_uppercase lib) (node_config n) (node_config n')) (nodes g) ns"
  shows "compute_config_hash lib g = compute_config_hash lib g'"
proof -
  let ?san = "\<lambda>n. sanitize_secrets (to_uppercase lib) (node_config n)"
  have "list_all2 (\<lambda>n n'. ?san n = ?san n') (nodes g) ns"
    using assms(3) by (rule list_all2_mono) (simp add: sanitize_eq_iff)
  then have "map ?san (nodes g) = map ?san ns" by (simp add: map_eq_list_all2)
  moreover have "mset (map ?san ns) = mset (map ?san (nodes g'))" using assms(2) by simp
  ultimately have "mset (map ?san (nodes g)) = mset (map ?san (nodes g'))" by simp
  then have "sort (map (json_to_string lib) (map ?san (nodes g))) = sort (map (json_to_string lib) (map ?san (nodes g')))"
    by (intro sort_mset_cong) (simp only: mset_map)
  then have "map (json_to_string lib) (sort_key (json_to_string lib) (map ?san (nodes g)))
      = map (json_to_string lib) (sort_key (json_to_string lib) (map ?san (nodes g')))"
    by (simp only: sort_key_map)
  from assms(1) [OF this] show ?thesis by (simp add: compute_config_hash_def Let_def)
qed

section \<open>Witnesses\<close>

text \<open>A hash that is the graph's name and documents that are their own bytes.\<close>

definition demo_lib :: "string hash_lib" where
  "demo_lib = \<lparr>to_uppercase = (\<lambda>s. s), sha256_hex = (\<lambda>s. s), graph_to_vec = graph_id,
     json_to_string = (\<lambda>_. []), jsons_to_vec = (\<lambda>cs. show_nat (length cs))\<rparr>"

definition demo_vc :: "(flow_version, flow_version + flow_head) doc_codec" where
  "demo_vc = \<lparr>enc = (\<lambda>v. Inr (Inl v)), dec = (\<lambda>d. case d of Inl v \<Rightarrow> Inr v | Inr _ \<Rightarrow> Inl [])\<rparr>"

definition demo_hc :: "(flow_head, flow_version + flow_head) doc_codec" where
  "demo_hc = \<lparr>enc = (\<lambda>h. Inr (Inr h)), dec = (\<lambda>d. case d of Inr h \<Rightarrow> Inr h | Inl _ \<Rightarrow> Inl [])\<rparr>"

definition named_graph :: "string \<Rightarrow> node_instance list \<Rightarrow> graph_def" where
  "named_graph name ns = \<lparr>graph_schema_version = 1, graph_id = name, graph_name = [], graph_version = [],
     nodes = ns, edges = [], graph_metadata = [], tool_definitions = []\<rparr>"

definition demo_request :: "string \<Rightarrow> file_io save_request" where
  "demo_request name = \<lparr>rq_io = (\<lambda>_. None), rq_now1 = 1, rq_now2 = 2, rq_flow_id = ''f'', rq_name = ''n'',
     rq_graph = named_graph name [], rq_created_by = None, rq_message = None\<rparr>"

lemma demo_request_ok: "request_ok demo_lib demo_vc demo_hc rq"
  by (simp add: request_ok_def doc_ok_def demo_vc_def demo_hc_def)

theorem versions_immutable_witness:
  "\<exists>v. fv_graph v = named_graph ''a'' []
     \<and> file_get_version demo_vc (\<lambda>_. None) ''a''
         (save_all demo_lib demo_vc demo_hc [demo_request ''a'', demo_request ''b''] empty_files) = Inr (Some v)"
proof -
  have ok: "list_all (request_ok demo_lib demo_vc demo_hc) ([demo_request ''a''] @ [demo_request ''b''])"
    by (simp add: demo_request_ok)
  have first: "file_get_version demo_vc (\<lambda>_. None) ''a''
      (save_all demo_lib demo_vc demo_hc [demo_request ''a''] empty_files)
      = Inr (Some (new_version demo_lib 1 ''f'' (named_graph ''a'' []) None None))"
    by code_simp
  have names: "list_all (\<lambda>rq. path_name (rq_flow_id rq) \<and> path_name (compute_version_id demo_lib (rq_graph rq)))
      ([demo_request ''a''] @ [demo_request ''b''])"
    by (simp add: path_name_def demo_request_def compute_version_id_def demo_lib_def named_graph_def)
  have stats: "list_all (\<lambda>rq. file_stats_ok (rq_io rq)) [demo_request ''b'']" by (simp add: demo_request_def)
  have "path_name ''a''" by (simp add: path_name_def)
  from versions_immutable [OF ok names this this stats, where io = "\<lambda>_. None" and v = "new_version demo_lib 1 ''f'' (named_graph ''a'' []) None None"] first
  show ?thesis by (auto simp: new_version_def)
qed

theorem save_result_witness:
  "versioning_get_current (file_flow_store demo_vc demo_hc) (\<lambda>_. None) ''f''
     (snd (save_one demo_lib demo_vc demo_hc (demo_request ''a'') empty_files))
   = Inr (Some (new_version demo_lib 1 ''f'' (named_graph ''a'' []) None None))"
proof -
  let ?v = "new_version demo_lib 1 ''f'' (named_graph ''a'' []) None None"
  let ?r = "save_one demo_lib demo_vc demo_hc (demo_request ''a'') empty_files"
  have "fst ?r = Inr ?v" by code_simp
  then have "?r = (Inr ?v, snd ?r)" by (metis prod.collapse)
  moreover have "file_stats_ok (rq_io (demo_request ''a''))" by (simp add: demo_request_def)
  ultimately show ?thesis
    using save_result [OF empty_files_ok [THEN conjunct1] demo_request_ok, of "demo_request ''a''" ?v "snd ?r"]
    by (simp add: demo_request_def empty_files_def docs_def)
qed

text \<open>
  A failing stat call is read as an absent version: the second save of the same graph succeeds and
  rewrites the stored version, with its own time and author.
\<close>

definition eve_request :: "file_io save_request" where
  "eve_request = (demo_request ''a'')\<lparr>rq_now1 := 9, rq_created_by := Some ''eve'',
     rq_io := (\<lambda>call. if call = StatDoc VersionsDir ''a'' then Some ''EACCES'' else None)\<rparr>"

lemma failed_stat_rewrites_version:
  "fst (save_one demo_lib demo_vc demo_hc eve_request
       (save_all demo_lib demo_vc demo_hc [demo_request ''a''] empty_files))
     = Inr (new_version demo_lib 9 ''f'' (named_graph ''a'' []) (Some ''eve'') None)
   \<and> file_get_version demo_vc (\<lambda>_. None) ''a'' (save_all demo_lib demo_vc demo_hc [demo_request ''a''] empty_files)
     = Inr (Some (new_version demo_lib 1 ''f'' (named_graph ''a'' []) None None))
   \<and> file_get_version demo_vc (\<lambda>_. None) ''a''
       (save_all demo_lib demo_vc demo_hc [demo_request ''a'', eve_request] empty_files)
     = Inr (Some (new_version demo_lib 9 ''f'' (named_graph ''a'' []) (Some ''eve'') None))"
  by code_simp

definition secret_node :: "string \<Rightarrow> node_instance" where
  "secret_node s = \<lparr>instance_id = ''n'', node_type = ''t'', node_config = JObject [(''API_KEY'', JString s)],
     position = None\<rparr>"

theorem config_hash_ignores_secrets_and_order_witness:
  "compute_config_hash demo_lib (named_graph ''g'' [secret_node ''a''])
   = compute_config_hash demo_lib (named_graph ''g'' [secret_node ''b''])"
proof (rule config_hash_ignores_secrets_and_order [where ns = "[secret_node ''b'']"])
  fix cs ds
  assume "map (json_to_string demo_lib) cs = map (json_to_string demo_lib) ds"
  then show "jsons_to_vec demo_lib cs = jsons_to_vec demo_lib ds"
    by (auto simp: demo_lib_def dest: map_eq_imp_length_eq)
next
  show "mset [secret_node ''b''] = mset (nodes (named_graph ''g'' [secret_node ''b'']))"
    by (simp add: named_graph_def)
next
  have "is_secret_key (to_uppercase demo_lib) ''API_KEY''" by code_simp
  then show "list_all2 (\<lambda>n n'. json_wf (node_config n) \<and> json_wf (node_config n')
      \<and> same_but_secrets (to_uppercase demo_lib) (node_config n) (node_config n'))
      (nodes (named_graph ''g'' [secret_node ''a''])) [secret_node ''b'']"
    by (simp add: named_graph_def secret_node_def bt_wf_def)
qed

end
