(* ===== verification/Tag_Store.thy ===== *)
theory Tag_Store
  imports Versioning
begin

text \<open>
  \<open>defaults/file_tag_store.rs\<close>: mutable tags of flow versions, one file per tag in a directory per
  flow.  Every system call may fail; the JSON codec is a parameter.  The store refines a map
  from flow and tag to a version.  A failing stat call behind \<open>exists()\<close> or \<open>is_dir()\<close> is read as an
  absent file: a delete then answers \<open>Ok(false)\<close> while the tag stays (\<open>failed_stat_keeps_tag\<close>).  Names
  of flows and tags are taken to be single components of a path; the source does not check this.
\<close>

section \<open>State and operations\<close>

record 'b tag_files =
  tf_dirs :: "(string \<times> (string \<times> 'b) list) list"

datatype tag_op =
    TagsCreate
  | TagDir string
  | TagWrite string string
  | TagRename string string
  | TagRead string string
  | TagList string
  | TagEntry string string
  | TagRemove string string
  | TagsList
  | TagsEntry string
  | StatTag string string
  | StatFlowDir string
  | StatTagsDir
  | StatTagsEntry string

text \<open>
  The last four are the stat calls of \<open>path.exists()\<close> on the file of a tag, \<open>dir.exists()\<close> on the
  directory of a flow, \<open>tags_dir.exists()\<close> and \<open>entry.path().is_dir()\<close>; they answer false when the call
  fails.
\<close>

type_synonym tag_io = "tag_op \<Rightarrow> string option"

definition tag_call :: "tag_io \<Rightarrow> tag_op \<Rightarrow> string \<Rightarrow> (flow_store_error, unit) result" where
  "tag_call io call msg = (case io call of None \<Rightarrow> Inr () | Some e \<Rightarrow> Inl (FlowStoreError (msg @ e)))"

definition tag_store_new :: "tag_io \<Rightarrow> 'b tag_files \<Rightarrow> (flow_store_error, 'b tag_files) result" where
  "tag_store_new io tf =
     and_then (tag_call io TagsCreate ''failed to create tags directory: '') (\<lambda>_. Inr tf)"

text \<open>The files of a flow's directory; a flow without directory has none.\<close>

definition flow_dir :: "string \<Rightarrow> 'b tag_files \<Rightarrow> (string \<times> 'b) list" where
  "flow_dir flow_id tf = (case bt_get flow_id (tf_dirs tf) of None \<Rightarrow> [] | Some d \<Rightarrow> d)"

definition set_tag ::
  "(flow_tag, 'b) doc_codec \<Rightarrow> tag_io \<Rightarrow> datetime \<Rightarrow> string \<Rightarrow> string \<Rightarrow> string \<Rightarrow> 'b tag_files \<Rightarrow>
     (flow_store_error, unit) result \<times> 'b tag_files" where
  "set_tag c io now flow_id tag version_id tf =
     (case tag_call io (TagDir flow_id) ''failed to create tag directory: '' of
        Inl e \<Rightarrow> (Inl e, tf)
      | Inr _ \<Rightarrow>
          let tf1 = tf\<lparr>tf_dirs := hm_entry flow_id [] (\<lambda>d. d) (tf_dirs tf)\<rparr>;
              ft = \<lparr>ft_flow_id = flow_id, ft_tag = tag, ft_version_id = version_id, ft_updated_at = now\<rparr>
          in case enc c ft of
               Inl e \<Rightarrow> (Inl (FlowStoreError (''failed to serialize tag: '' @ e)), tf1)
             | Inr data \<Rightarrow>
                 (case tag_call io (TagWrite flow_id tag) ''failed to write tag file: '' of
                    Inl e \<Rightarrow> (Inl e, tf1)
                  | Inr _ \<Rightarrow>
                      (case tag_call io (TagRename flow_id tag) ''failed to rename tag file: '' of
                         Inl e \<Rightarrow> (Inl e, tf1)
                       | Inr _ \<Rightarrow> (Inr (), tf1\<lparr>tf_dirs := hm_modify flow_id (doc_put tag data) (tf_dirs tf1)\<rparr>))))"

definition get_tag ::
  "(flow_tag, 'b) doc_codec \<Rightarrow> tag_io \<Rightarrow> string \<Rightarrow> string \<Rightarrow> 'b tag_files \<Rightarrow> (flow_store_error, string option) result" where
  "get_tag c io flow_id tag tf =
     (case bt_get tag (flow_dir flow_id tf) of
        None \<Rightarrow> Inr None
      | Some data \<Rightarrow>
          if io (StatTag flow_id tag) \<noteq> None then Inr None
          else and_then (tag_call io (TagRead flow_id tag) ''failed to read tag file: '') (\<lambda>_.
          and_then (map_err (\<lambda>e. FlowStoreError (''failed to deserialize tag: '' @ e)) (dec c data))
            (\<lambda>ft. Inr (Some (ft_version_id ft)))))"

text \<open>A file that does not parse is skipped, and so is \<open>.json\<close>, which has no extension.\<close>

fun read_tags ::
  "(flow_tag, 'b) doc_codec \<Rightarrow> tag_io \<Rightarrow> string \<Rightarrow> (string \<times> 'b) list \<Rightarrow> (flow_store_error, flow_tag list) result" where
  "read_tags c io flow_id [] = Inr []"
| "read_tags c io flow_id ((name, data) # entries) =
     and_then (tag_call io (TagEntry flow_id name) ''failed to read dir entry: '') (\<lambda>_.
     if name = [] then read_tags c io flow_id entries
     else and_then (tag_call io (TagRead flow_id name) ''failed to read tag file: '') (\<lambda>_.
     and_then (read_tags c io flow_id entries) (\<lambda>tags.
       Inr (case dec c data of Inl _ \<Rightarrow> tags | Inr t \<Rightarrow> t # tags))))"

definition list_tags ::
  "(flow_tag, 'b) doc_codec \<Rightarrow> tag_io \<Rightarrow> string \<Rightarrow> 'b tag_files \<Rightarrow> (flow_store_error, flow_tag list) result" where
  "list_tags c io flow_id tf =
     (case bt_get flow_id (tf_dirs tf) of
        None \<Rightarrow> Inr []
      | Some d \<Rightarrow>
          if io (StatFlowDir flow_id) \<noteq> None then Inr []
          else and_then (tag_call io (TagList flow_id) ''failed to read tags directory: '') (\<lambda>_.
          and_then (read_tags c io flow_id d) (\<lambda>tags. Inr (sort_key ft_tag tags))))"

definition delete_tag ::
  "tag_io \<Rightarrow> string \<Rightarrow> string \<Rightarrow> 'b tag_files \<Rightarrow> (flow_store_error, bool) result \<times> 'b tag_files" where
  "delete_tag io flow_id tag tf =
     (case bt_get tag (flow_dir flow_id tf) of
        None \<Rightarrow> (Inr False, tf)
      | Some _ \<Rightarrow>
          if io (StatTag flow_id tag) \<noteq> None then (Inr False, tf)
          else (case tag_call io (TagRemove flow_id tag) ''failed to delete tag file: '' of
             Inl e \<Rightarrow> (Inl e, tf)
           | Inr _ \<Rightarrow> (Inr True, tf\<lparr>tf_dirs := hm_modify flow_id (bt_remove tag) (tf_dirs tf)\<rparr>)))"

fun collect_tags ::
  "(flow_tag, 'b) doc_codec \<Rightarrow> tag_io \<Rightarrow> string \<Rightarrow> 'b tag_files \<Rightarrow> string list \<Rightarrow>
     (flow_store_error, string list) result" where
  "collect_tags c io version_id tf [] = Inr []"
| "collect_tags c io version_id tf (flow_id # entries) =
     and_then (tag_call io (TagsEntry flow_id) ''failed to read dir entry: '') (\<lambda>_.
     if io (StatTagsEntry flow_id) \<noteq> None then collect_tags c io version_id tf entries
     else and_then (list_tags c io flow_id tf) (\<lambda>tags.
     and_then (collect_tags c io version_id tf entries) (\<lambda>rest.
       Inr (map ft_tag (filter (\<lambda>t. ft_version_id t = version_id) tags) @ rest))))"

text \<open>The directory of all tags has been created by \<open>new\<close>, so that the guard on its existence only fails
  with its stat call.\<close>

definition tags_for_version ::
  "(flow_tag, 'b) doc_codec \<Rightarrow> tag_io \<Rightarrow> string \<Rightarrow> 'b tag_files \<Rightarrow> (flow_store_error, string list) result" where
  "tags_for_version c io version_id tf =
    (if io StatTagsDir \<noteq> None then Inr []
     else and_then (tag_call io TagsList ''failed to read tags directory: '') (\<lambda>_.
     and_then (collect_tags c io version_id tf (map fst (tf_dirs tf))) (\<lambda>ts. Inr (sort ts))))"

section \<open>Abstraction: a map from flow and tag to a version\<close>

text \<open>Every file parses, to a tag with its own name, which is not empty; flows and tags have one directory
  and file each.\<close>

definition tf_inv :: "(flow_tag, 'b) doc_codec \<Rightarrow> 'b tag_files \<Rightarrow> bool" where
  "tf_inv c tf \<longleftrightarrow> distinct (map fst (tf_dirs tf)) \<and>
     (\<forall>f. distinct (map fst (flow_dir f tf)) \<and>
        (\<forall>t d. bt_get t (flow_dir f tf) = Some d \<longrightarrow> t \<noteq> [] \<and> (\<exists>ft. dec c d = Inr ft \<and> ft_tag ft = t)))"

definition tag_map :: "(flow_tag, 'b) doc_codec \<Rightarrow> 'b tag_files \<Rightarrow> string \<times> string \<Rightarrow> string option" where
  "tag_map c tf ft = Option.bind (bt_get (snd ft) (flow_dir (fst ft) tf))
     (\<lambda>d. case dec c d of Inl _ \<Rightarrow> None | Inr t \<Rightarrow> Some (ft_version_id t))"

lemma flow_dir_entry [simp]:
  "flow_dir f (tf\<lparr>tf_dirs := hm_entry g [] (\<lambda>d. d) (tf_dirs tf)\<rparr>) = flow_dir f tf"
  by (simp add: flow_dir_def bt_get_entry split: option.split)

lemma flow_dir_modify:
  "bt_get g (tf_dirs tf) \<noteq> None \<Longrightarrow>
     flow_dir f (tf\<lparr>tf_dirs := hm_modify g h (tf_dirs tf)\<rparr>) = (if f = g then h (flow_dir f tf) else flow_dir f tf)"
  by (auto simp: flow_dir_def bt_get_modify split: option.split)

lemma hm_modify_keys [simp]: "map fst (hm_modify k f m) = map fst m"
  by (induction m) auto

lemma hm_entry_keys: "distinct (map fst m) \<Longrightarrow> distinct (map fst (hm_entry k d f m))"
  by (auto simp: hm_entry_def bt_get_None_iff)

lemma doc_put_keys: "distinct (map fst m) \<Longrightarrow> distinct (map fst (doc_put k d m))"
  by (simp add: doc_put_def hm_entry_keys)

lemma bt_remove_keys: "distinct (map fst m) \<Longrightarrow> distinct (map fst (bt_remove k m))"
  by (induction m) (auto simp: bt_remove_def)

definition tag_doc :: "datetime \<Rightarrow> string \<Rightarrow> string \<Rightarrow> string \<Rightarrow> flow_tag" where
  "tag_doc now flow_id tag version_id =
     \<lparr>ft_flow_id = flow_id, ft_tag = tag, ft_version_id = version_id, ft_updated_at = now\<rparr>"

lemma set_tag_cases:
  assumes "set_tag c io now f t v tf = (res, tf')"
  defines "tf1 \<equiv> tf\<lparr>tf_dirs := hm_entry f [] (\<lambda>d. d) (tf_dirs tf)\<rparr>"
  shows "isl res \<and> (tf' = tf \<or> tf' = tf1)
    \<or> res = Inr () \<and> (\<exists>d. enc c (tag_doc now f t v) = Inr d
        \<and> tf' = tf1\<lparr>tf_dirs := hm_modify f (doc_put t d) (tf_dirs tf1)\<rparr>)"
  using assms(1)
  by (cases "enc c (tag_doc now f t v)")
     (auto simp: set_tag_def Let_def tag_doc_def [symmetric] sum.case_eq_if tf1_def split: if_splits)

lemma set_tag_map:
  assumes "tf_inv c tf" "doc_ok c (tag_doc now f t v)" "t \<noteq> []" "set_tag c io now f t v tf = (res, tf')"
  shows "tf_inv c tf' \<and> tag_map c tf' = (case res of Inl _ \<Rightarrow> tag_map c tf | Inr _ \<Rightarrow> (tag_map c tf)((f, t) \<mapsto> v))"
proof -
  let ?tf = "tf\<lparr>tf_dirs := hm_entry f [] (\<lambda>d. d) (tf_dirs tf)\<rparr>"
  have inv: "tf_inv c ?tf" "tag_map c ?tf = tag_map c tf"
    using assms(1) by (auto simp: tf_inv_def tag_map_def hm_entry_keys fun_eq_iff)
  from set_tag_cases [OF assms(4)] show ?thesis
  proof (elim disjE conjE exE)
    fix d
    assume res: "res = Inr ()" and d: "enc c (tag_doc now f t v) = Inr d"
      and tf': "tf' = ?tf\<lparr>tf_dirs := hm_modify f (doc_put t d) (tf_dirs ?tf)\<rparr>"
    have dec: "dec c d = Inr (tag_doc now f t v)" using assms(2) d by (simp add: doc_ok_def)
    have dir: "flow_dir g tf' = (if g = f then doc_put t d (flow_dir g tf) else flow_dir g tf)" for g
      unfolding tf' by (subst flow_dir_modify) (simp_all add: bt_get_entry)
    have "tf_inv c tf'"
      using inv(1) dec dir assms(3) unfolding tf_inv_def tf'
      by (auto simp: doc_put_keys tag_doc_def split: if_splits)
    moreover have "tag_map c tf' ft = ((tag_map c tf)((f, t) \<mapsto> v)) ft" for ft
      using dec dir by (cases ft) (simp add: tag_map_def tag_doc_def)
    ultimately show ?thesis using res by (simp add: fun_eq_iff)
  qed (use inv assms(1) in \<open>auto simp: isl_def\<close>)
qed

text \<open>Outcomes in which the stat calls succeed.\<close>

definition tag_stats_ok :: "tag_io \<Rightarrow> bool" where
  "tag_stats_ok io \<longleftrightarrow> io StatTagsDir = None
     \<and> (\<forall>f. io (StatFlowDir f) = None \<and> io (StatTagsEntry f) = None \<and> (\<forall>t. io (StatTag f t) = None))"

lemma delete_tag_map:
  assumes "tf_inv c tf" "delete_tag io f t tf = (res, tf')"
  shows "tf_inv c tf' \<and> tag_map c tf' = (if res = Inr True then (tag_map c tf)((f, t) := None) else tag_map c tf)
    \<and> (res = Inr True \<longrightarrow> tag_map c tf (f, t) \<noteq> None)
    \<and> (tag_stats_ok io \<and> res = Inr False \<longrightarrow> tag_map c tf (f, t) = None)"
proof (cases "bt_get t (flow_dir f tf)")
  case None
  with assms show ?thesis by (auto simp: delete_tag_def tag_map_def)
next
  case (Some d)
  with assms(1) obtain ft where ft: "dec c d = Inr ft" by (fastforce simp: tf_inv_def)
  have ne: "bt_get f (tf_dirs tf) \<noteq> None" using Some by (auto simp: flow_dir_def split: option.splits)
  note dir = flow_dir_modify [OF ne, where h = "bt_remove t"]
  show ?thesis
  proof (cases "res = Inr True")
    case False
    with Some assms show ?thesis
      by (auto simp: delete_tag_def tag_stats_ok_def split: if_splits sum.splits)
  next
    case True
    with Some assms(2) have tf': "tf' = tf\<lparr>tf_dirs := hm_modify f (bt_remove t) (tf_dirs tf)\<rparr>"
      by (auto simp: delete_tag_def split: if_splits sum.splits)
    have "tf_inv c tf'"
      using assms(1) unfolding tf' by (auto simp: tf_inv_def dir bt_remove_keys split: if_splits)
    moreover have "tag_map c tf' k = ((tag_map c tf)((f, t) := None)) k" for k
      unfolding tf' by (cases k) (simp add: tag_map_def dir)
    moreover have "tag_map c tf (f, t) \<noteq> None" using Some ft by (simp add: tag_map_def)
    ultimately show ?thesis using True by (simp add: fun_eq_iff)
  qed
qed

lemma get_tag_found: "get_tag c io f t tf = Inr (Some v) \<Longrightarrow> tag_map c tf (f, t) = Some v"
  by (auto simp: get_tag_def tag_map_def map_err_Ok split: option.splits if_splits)

lemma get_tag_map: "tag_stats_ok io \<Longrightarrow> get_tag c io f t tf = Inr x \<Longrightarrow> x = tag_map c tf (f, t)"
  by (auto simp: get_tag_def tag_map_def map_err_Ok tag_stats_ok_def split: option.splits)

lemma read_tags_docs:
  "read_tags c io f d = Inr ts \<Longrightarrow> list_all (\<lambda>e. fst e \<noteq> [] \<and> (\<exists>ft. dec c (snd e) = Inr ft)) d \<Longrightarrow>
     ts = map (\<lambda>e. projr (dec c (snd e))) d"
  by (induction d arbitrary: ts) (auto simp: map_err_Ok)

lemma list_tags_set:
  assumes "tf_inv c tf" "list_tags c io f tf = Inr ts" "tag_stats_ok io"
  shows "mset ts = mset (map (\<lambda>e. projr (dec c (snd e))) (flow_dir f tf)) \<and> distinct (map ft_tag ts)
    \<and> {ft_tag t |t. t \<in> set ts \<and> ft_version_id t = v} = {t. tag_map c tf (f, t) = Some v}"
proof -
  have parse: "fst e \<noteq> [] \<and> (\<exists>ft. dec c (snd e) = Inr ft \<and> ft_tag ft = fst e)" if "e \<in> set (flow_dir f tf)" for e
    using assms(1) that bt_get_distinct [of "flow_dir f tf" e] by (fastforce simp: tf_inv_def)
  have ts: "mset ts = mset (map (\<lambda>e. projr (dec c (snd e))) (flow_dir f tf))"
  proof (cases "bt_get f (tf_dirs tf)")
    case None
    with assms(2) show ?thesis by (simp add: list_tags_def flow_dir_def)
  next
    case (Some d)
    with assms(2,3) obtain tags where "read_tags c io f d = Inr tags" "ts = sort_key ft_tag tags"
      by (auto simp: list_tags_def tag_stats_ok_def)
    moreover have "list_all (\<lambda>e. fst e \<noteq> [] \<and> (\<exists>ft. dec c (snd e) = Inr ft)) d"
      using parse Some unfolding list_all_iff flow_dir_def by fastforce
    ultimately show ?thesis
      using read_tags_docs [of c io f d tags] Some by (simp add: flow_dir_def)
  qed
  have "map ft_tag (map (\<lambda>e. projr (dec c (snd e))) (flow_dir f tf)) = map fst (flow_dir f tf)"
    using parse by force
  then have m: "mset (map ft_tag ts) = mset (map fst (flow_dir f tf))" using ts by (metis mset_map)
  have "distinct (map fst (flow_dir f tf))" using assms(1) by (simp add: tf_inv_def)
  then have "distinct (map ft_tag ts)" unfolding mset_eq_imp_distinct_iff [OF m] .
  moreover have "{ft_tag t |t. t \<in> set ts \<and> ft_version_id t = v} = {t. tag_map c tf (f, t) = Some v}"
    using mset_eq_setD [OF ts] parse bt_get_distinct [of "flow_dir f tf"] assms(1)
    by (fastforce simp: tag_map_def tf_inv_def Option.bind_eq_Some_conv dest: bt_get_Some_mem)
  ultimately show ?thesis using ts by blast
qed

lemma collect_tags_set:
  assumes "tf_inv c tf" "collect_tags c io v tf fs = Inr ts" "tag_stats_ok io"
  shows "set ts = {t. \<exists>f \<in> set fs. tag_map c tf (f, t) = Some v}"
  using assms(2)
proof (induction fs arbitrary: ts)
  case (Cons f fs)
  then obtain tags rest where l: "list_tags c io f tf = Inr tags" and r: "collect_tags c io v tf fs = Inr rest"
    and ts: "ts = map ft_tag (filter (\<lambda>t. ft_version_id t = v) tags) @ rest"
    using assms(3) by (auto simp: tag_stats_ok_def)
  have "ft_tag ` {t \<in> set tags. ft_version_id t = v} = {t. tag_map c tf (f, t) = Some v}"
    using list_tags_set [OF assms(1) l assms(3), of v] by auto
  with Cons.IH [OF r] ts show ?case by auto
qed simp

lemma tags_for_version_set:
  assumes "tf_inv c tf" "tags_for_version c io v tf = Inr ts" "tag_stats_ok io"
  shows "sorted ts \<and> set ts = {t. \<exists>f. tag_map c tf (f, t) = Some v}"
proof -
  from assms(2,3) obtain us where us: "collect_tags c io v tf (map fst (tf_dirs tf)) = Inr us" "ts = sort us"
    by (auto simp: tags_for_version_def tag_stats_ok_def)
  have "f \<in> set (map fst (tf_dirs tf))" if "tag_map c tf (f, t) = Some v" for f t
    using that bt_get_None_iff [of f "tf_dirs tf"] by (auto simp: tag_map_def flow_dir_def split: option.splits)
  then have "set us = {t. \<exists>f. tag_map c tf (f, t) = Some v}"
    using collect_tags_set [OF assms(1) us(1) assms(3)] by blast
  with us(2) show ?thesis by simp
qed

section \<open>The contract of a tag store\<close>

text \<open>A history of calls that set (\<open>Some\<close>) or delete (\<open>None\<close>) a tag, with the map that their answers
  describe: a set that succeeded, a delete that answered that the tag existed.\<close>

type_synonym 'io tag_cmd = "'io \<times> (datetime \<times> string) option \<times> string \<times> string"

fun tag_run ::
  "('io \<Rightarrow> datetime \<Rightarrow> string \<Rightarrow> string \<Rightarrow> string \<Rightarrow> 's \<Rightarrow> (flow_store_error, unit) result \<times> 's)
   \<Rightarrow> ('io \<Rightarrow> string \<Rightarrow> string \<Rightarrow> 's \<Rightarrow> (flow_store_error, bool) result \<times> 's)
   \<Rightarrow> 'io tag_cmd list \<Rightarrow> 's \<Rightarrow> (string \<times> string \<Rightarrow> string option) \<Rightarrow> 's \<times> (string \<times> string \<Rightarrow> string option)" where
  "tag_run put del [] s m = (s, m)"
| "tag_run put del ((io, Some (now, v), f, t) # cs) s m =
     (case put io now f t v s of (res, s') \<Rightarrow> tag_run put del cs s' (if isl res then m else m((f, t) \<mapsto> v)))"
| "tag_run put del ((io, None, f, t) # cs) s m =
     (case del io f t s of (res, s') \<Rightarrow> tag_run put del cs s' (if res = Inr True then m((f, t) := None) else m))"

fun cmd_ok :: "(datetime \<Rightarrow> string \<Rightarrow> string \<Rightarrow> string \<Rightarrow> bool) \<Rightarrow> 'io tag_cmd \<Rightarrow> bool" where
  "cmd_ok ok (io, Some (now, v), f, t) = ok now f t v"
| "cmd_ok ok (io, None, f, t) = True"

text \<open>A delete that answers that there was no tag is right for the outcomes in \<open>truthful\<close>.\<close>

locale tag_store =
  fixes inv :: "'s \<Rightarrow> bool"
    and ok :: "datetime \<Rightarrow> string \<Rightarrow> string \<Rightarrow> string \<Rightarrow> bool"
    and tags :: "'s \<Rightarrow> string \<times> string \<Rightarrow> string option"
    and put :: "'io \<Rightarrow> datetime \<Rightarrow> string \<Rightarrow> string \<Rightarrow> string \<Rightarrow> 's \<Rightarrow> (flow_store_error, unit) result \<times> 's"
    and delete :: "'io \<Rightarrow> string \<Rightarrow> string \<Rightarrow> 's \<Rightarrow> (flow_store_error, bool) result \<times> 's"
    and truthful :: "'io \<Rightarrow> bool"
  assumes put_law: "inv s \<Longrightarrow> ok now f t v \<Longrightarrow> put io now f t v s = (res, s') \<Longrightarrow>
      inv s' \<and> tags s' = (case res of Inl _ \<Rightarrow> tags s | Inr _ \<Rightarrow> (tags s)((f, t) \<mapsto> v))"
    and delete_law: "inv s \<Longrightarrow> delete io f t s = (res', s') \<Longrightarrow>
      inv s' \<and> tags s' = (if res' = Inr True then (tags s)((f, t) := None) else tags s)
      \<and> (res' = Inr True \<longrightarrow> tags s (f, t) \<noteq> None)
      \<and> (truthful io \<and> res' = Inr False \<longrightarrow> tags s (f, t) = None)"
begin

lemma run_refines:
  "inv s \<Longrightarrow> list_all (cmd_ok ok) cs \<Longrightarrow> inv (fst (tag_run put delete cs s (tags s)))
     \<and> tags (fst (tag_run put delete cs s (tags s))) = snd (tag_run put delete cs s (tags s))"
proof (induction cs arbitrary: s)
  case (Cons cmd cs)
  obtain io a f t where cmd: "cmd = (io, a, f, t)" by (cases cmd) auto
  show ?case
  proof (cases a)
    case None
    obtain res s' where p: "delete io f t s = (res, s')" by force
    have law: "inv s'" "tags s' = (if res = Inr True then (tags s)((f, t) := None) else tags s)"
      using delete_law [OF Cons.prems(1) p] by blast+
    have "tag_run put delete (cmd # cs) s (tags s) = tag_run put delete cs s' (tags s')"
      using cmd None p law(2) by simp
    with Cons.IH [OF law(1)] Cons.prems(2) show ?thesis by simp
  next
    case (Some b)
    obtain now v where b: "b = (now, v)" by force
    obtain res s' where p: "put io now f t v s = (res, s')" by force
    have "ok now f t v" using Cons.prems(2) cmd Some b by simp
    then have law: "inv s'" "tags s' = (if isl res then tags s else (tags s)((f, t) \<mapsto> v))"
      using put_law [OF Cons.prems(1) _ p] by (auto split: sum.splits)
    have "tag_run put delete (cmd # cs) s (tags s) = tag_run put delete cs s' (tags s')"
      using cmd Some b p law(2) by simp
    with Cons.IH [OF law(1)] Cons.prems(2) show ?thesis by simp
  qed
qed simp

lemma delete_answer:
  "inv s \<Longrightarrow> truthful io \<Longrightarrow> delete io f t s = (Inr existed, s') \<Longrightarrow> existed \<longleftrightarrow> tags s (f, t) \<noteq> None"
  using delete_law [of s io f t "Inr existed" s'] by (cases existed) auto

end

interpretation file_tags: tag_store "tf_inv c" "\<lambda>now f t v. doc_ok c (tag_doc now f t v) \<and> t \<noteq> []" "tag_map c"
  "set_tag c" delete_tag tag_stats_ok for c
proof (unfold_locales, goal_cases)
  case 1
  then show ?case by (intro set_tag_map) auto
next
  case 2
  then show ?case by (intro delete_tag_map)
qed

definition empty_tags :: "'b tag_files" where
  "empty_tags = \<lparr>tf_dirs = []\<rparr>"

lemma empty_tags_ok: "tf_inv c empty_tags" "tag_map c empty_tags = (\<lambda>_. None)"
  by (auto simp: tf_inv_def tag_map_def flow_dir_def empty_tags_def)

text \<open>
  (C33) The tag store is a map from flow and tag to a version: after any history of calls that set and
  delete tags on an empty store, whatever system calls fail on the way, a tag that is read is what
  the calls left there by their answers (a set that succeeded, a delete that answered that the tag
  existed).  While the stat calls behind \<open>exists()\<close> and \<open>is_dir()\<close> succeed, reading a tag also finds
  every tag, a delete answers whether there was one, and the tags of a version are, sorted, exactly the
  names that some flow maps to it.  Flows and tags are single components of a path.
\<close>

theorem tag_store_refines_map:
  assumes "list_all (cmd_ok (\<lambda>now f t v. doc_ok c (tag_doc now f t v))) cs"
    and "list_all (\<lambda>(io, a, f, t). path_name f \<and> path_name t) cs" "path_name f" "path_name t"
    and "tag_run (set_tag c) delete_tag cs empty_tags (\<lambda>_. None) = (tf, m)"
  shows "(get_tag c io f t tf = Inr (Some v) \<longrightarrow> m (f, t) = Some v)
    \<and> (tag_stats_ok io \<longrightarrow>
        (get_tag c io f t tf = Inr x \<longrightarrow> x = m (f, t))
        \<and> (delete_tag io f t tf = (Inr existed, tf') \<longrightarrow> existed = (m (f, t) \<noteq> None))
        \<and> (tags_for_version c io v tf = Inr ts \<longrightarrow> sorted ts \<and> set ts = {t. \<exists>f. m (f, t) = Some v}))"
proof -
  have "cmd_ok (\<lambda>now f t v. doc_ok c (tag_doc now f t v) \<and> t \<noteq> []) cmd"
    if "cmd_ok (\<lambda>now f t v. doc_ok c (tag_doc now f t v)) cmd" "case cmd of (io, a, f, t) \<Rightarrow> path_name f \<and> path_name t"
    for cmd :: "tag_io tag_cmd"
    using that by (cases "(\<lambda>(_ :: datetime) (_ :: string) (_ :: string) (_ :: string). True, cmd)" rule: cmd_ok.cases) auto
  then have "list_all (cmd_ok (\<lambda>now f t v. doc_ok c (tag_doc now f t v) \<and> t \<noteq> [])) cs"
    using assms(1,2) by (auto simp: list_all_iff)
  then have "tf_inv c tf \<and> tag_map c tf = m"
    using file_tags.run_refines [OF empty_tags_ok(1)] assms(5) by (fastforce simp: empty_tags_ok)
  then show ?thesis
    using get_tag_found [of c io f t tf v] get_tag_map [of io c f t tf x] tags_for_version_set [of c tf io v ts]
      file_tags.delete_answer [of c tf io f t existed tf'] by blast
qed

definition demo_tc :: "(flow_tag, flow_tag) doc_codec" where
  "demo_tc = \<lparr>enc = Inr, dec = Inr\<rparr>"

theorem tag_store_refines_map_witness:
  "get_tag demo_tc (\<lambda>_. None) ''f'' ''prod'' (fst (tag_run (set_tag demo_tc) delete_tag
      [(\<lambda>_. None, Some (1, ''v1''), ''f'', ''prod''), (\<lambda>_. None, Some (2, ''v2''), ''f'', ''prod'')] empty_tags (\<lambda>_. None)))
   = Inr (Some ''v2'')"
proof -
  let ?cs = "[(\<lambda>_. None, Some (1, ''v1''), ''f'', ''prod''), (\<lambda>_. None, Some (2, ''v2''), ''f'', ''prod'')]"
  have ok: "list_all (cmd_ok (\<lambda>now f t v. doc_ok demo_tc (tag_doc now f t v))) ?cs"
    by (simp add: doc_ok_def demo_tc_def)
  have names: "list_all (\<lambda>(io, a, f, t). path_name f \<and> path_name t) ?cs" "path_name ''f''" "path_name ''prod''"
    by (simp_all add: path_name_def)
  have r: "tag_run (set_tag demo_tc) delete_tag ?cs empty_tags (\<lambda>_. None) =
      (\<lparr>tf_dirs = [(''f'', [(''prod'', tag_doc 2 ''f'' ''prod'' ''v2'')])]\<rparr>,
       (\<lambda>_. None)((''f'', ''prod'') \<mapsto> ''v2''))"
    by (simp add: set_tag_def tag_call_def demo_tc_def empty_tags_def hm_entry_def
        doc_put_def tag_doc_def)
  have g: "get_tag demo_tc (\<lambda>_. None) ''f'' ''prod'' \<lparr>tf_dirs = [(''f'', [(''prod'', tag_doc 2 ''f'' ''prod'' ''v2'')])]\<rparr>
      = Inr (Some (ft_version_id (tag_doc 2 ''f'' ''prod'' ''v2'')))"
    by (simp add: get_tag_def flow_dir_def tag_call_def demo_tc_def)
  from tag_store_refines_map [OF ok names r, of "\<lambda>_. None"] g show ?thesis
    unfolding r by (simp add: tag_doc_def tag_stats_ok_def)
qed

text \<open>A failing stat call: the delete answers that there was no tag, and the tag stays.\<close>

lemma failed_stat_keeps_tag:
  "delete_tag (\<lambda>call. if call = StatTag ''f'' ''prod'' then Some ''EACCES'' else None) ''f'' ''prod''
      \<lparr>tf_dirs = [(''f'', [(''prod'', tag_doc 2 ''f'' ''prod'' ''v2'')])]\<rparr>
    = (Inr False, \<lparr>tf_dirs = [(''f'', [(''prod'', tag_doc 2 ''f'' ''prod'' ''v2'')])]\<rparr>)
   \<and> get_tag demo_tc (\<lambda>_. None) ''f'' ''prod'' \<lparr>tf_dirs = [(''f'', [(''prod'', tag_doc 2 ''f'' ''prod'' ''v2'')])]\<rparr>
    = Inr (Some ''v2'')"
  by (simp add: delete_tag_def get_tag_def flow_dir_def tag_call_def demo_tc_def tag_doc_def)

end
