(* ===== verification/Expression_Eval.thy ===== *)
theory Expression_Eval
  imports Flow_Types
begin

text \<open>
  \<open>expression.rs\<close>: the evaluator of edge conditions.  The tokenizer, the recursive-descent
  parser that evaluates while it parses, and the comparison rules are translated function by
  function; the derived \<open>Debug\<close> printer of tokens, used only inside error messages, is the
  parameter \<open>dbg\<close>.  The reference is the grammar of the parser's comments as datatypes, with
  an unparser and a direct truth-value semantics: the parser accepts exactly the token lists
  of the grammar and returns their truth value.
\<close>

section \<open>Tokens\<close>

datatype expr_error = ParseError string | EvalError string

datatype token =
    TIdent string | TStr string | TNum f64 | TBool bool | TNull
  | TEq | TNe | TGt | TLt | TGe | TLe | TAnd | TOr | TNot

definition is_ascii_digit :: "char \<Rightarrow> bool" where
  "is_ascii_digit c \<longleftrightarrow> CHR ''0'' \<le> c \<and> c \<le> CHR ''9''"

definition is_ascii_alphabetic :: "char \<Rightarrow> bool" where
  "is_ascii_alphabetic c \<longleftrightarrow>
     (CHR ''a'' \<le> c \<and> c \<le> CHR ''z'') \<or> (CHR ''A'' \<le> c \<and> c \<le> CHR ''Z'')"

definition is_num_char :: "char \<Rightarrow> bool" where
  "is_num_char c \<longleftrightarrow> is_ascii_digit c \<or> c = CHR ''.''"

definition is_ident_char :: "char \<Rightarrow> bool" where
  "is_ident_char c \<longleftrightarrow>
     is_ascii_alphabetic c \<or> is_ascii_digit c \<or> c = CHR ''_'' \<or> c = CHR ''.''"

definition is_space :: "char \<Rightarrow> bool" where
  "is_space c \<longleftrightarrow> c \<in> {CHR '' '', CHR 0x09, CHR 0x0D, CHR 0x0A}"

fun peek :: "string \<Rightarrow> char option" where
  "peek [] = None"
| "peek (c # cs) = Some c"

text \<open>The bytes of the code point that starts a string: its first byte and the continuation
  bytes after it.\<close>

definition code_point :: "char \<Rightarrow> string \<Rightarrow> string" where
  "code_point c cs = c # takeWhile is_continuation cs"

text \<open>\<open>str::parse::<f64>\<close> on the strings the tokenizer hands it: an optional minus sign, digits
  and dots.  At most one dot is accepted and the decimal is rounded to nearest.\<close>

definition digit_val :: "char \<Rightarrow> nat" where
  "digit_val c = of_char c - 48"

definition digits_val :: "string \<Rightarrow> nat" where
  "digits_val ds = foldl (\<lambda>n c. 10 * n + digit_val c) 0 ds"

definition parse_unsigned :: "string \<Rightarrow> rat option" where
  "parse_unsigned s =
     (let ip = takeWhile is_ascii_digit s
      in case dropWhile is_ascii_digit s of
           [] \<Rightarrow> if ip = [] then None else Some (of_nat (digits_val ip))
         | d # fp \<Rightarrow>
             if d = CHR ''.'' \<and> list_all is_ascii_digit fp \<and> (ip \<noteq> [] \<or> fp \<noteq> [])
             then Some (of_nat (digits_val (ip @ fp)) / 10 ^ length fp)
             else None)"

definition parse_decimal :: "string \<Rightarrow> f64 option" where
  "parse_decimal s =
     (if peek s = Some (CHR ''-'')
      then map_option (\<lambda>q. f64_round (- q)) (parse_unsigned (tl s))
      else map_option f64_round (parse_unsigned s))"

definition ident_token :: "string \<Rightarrow> token" where
  "ident_token ident =
     (if ident = ''true'' then TBool True
      else if ident = ''false'' then TBool False
      else if ident = ''null'' then TNull
      else TIdent ident)"

section \<open>Tokenizer\<close>

definition cons_token :: "token \<Rightarrow> (expr_error, token list) result \<Rightarrow> (expr_error, token list) result"
  where "cons_token t r = and_then r (\<lambda>ts. Ok (t # ts))"

lemma length_tl_dropWhile_le: "length (dropWhile P xs) - Suc 0 \<le> length xs"
  using length_dropWhile_le [of P xs] by simp

function tokenize :: "string \<Rightarrow> (expr_error, token list) result" where
  "tokenize [] = Ok []"
| "tokenize (c # cs) =
     (if is_space c then tokenize cs
      else if c = CHR ''='' \<and> peek cs = Some (CHR ''='') then cons_token TEq (tokenize (tl cs))
      else if c = CHR ''!'' \<and> peek cs = Some (CHR ''='') then cons_token TNe (tokenize (tl cs))
      else if c = CHR ''!'' then cons_token TNot (tokenize cs)
      else if c = CHR ''>'' \<and> peek cs = Some (CHR ''='') then cons_token TGe (tokenize (tl cs))
      else if c = CHR ''>'' then cons_token TGt (tokenize cs)
      else if c = CHR ''<'' \<and> peek cs = Some (CHR ''='') then cons_token TLe (tokenize (tl cs))
      else if c = CHR ''<'' then cons_token TLt (tokenize cs)
      else if c = CHR ''&'' \<and> peek cs = Some (CHR ''&'') then cons_token TAnd (tokenize (tl cs))
      else if c = CHR ''|'' \<and> peek cs = Some (CHR ''|'') then cons_token TOr (tokenize (tl cs))
      else if c = CHR 0x22 \<or> c = CHR 0x27 then
        (if dropWhile (\<lambda>x. x \<noteq> c) cs = []
         then Err (ParseError ''unterminated string literal'')
         else cons_token (TStr (takeWhile (\<lambda>x. x \<noteq> c) cs))
                (tokenize (tl (dropWhile (\<lambda>x. x \<noteq> c) cs))))
      else if is_ascii_digit c
              \<or> (c = CHR ''-'' \<and> (case peek cs of None \<Rightarrow> False | Some n \<Rightarrow> is_ascii_digit n)) then
        (case parse_decimal (c # takeWhile is_num_char cs) of
           None \<Rightarrow> Err (ParseError (''invalid number: '' @ c # takeWhile is_num_char cs))
         | Some x \<Rightarrow> cons_token (TNum x) (tokenize (dropWhile is_num_char cs)))
      else if is_ascii_alphabetic c \<or> c = CHR ''_'' then
        cons_token (ident_token (c # takeWhile is_ident_char cs))
          (tokenize (dropWhile is_ident_char cs))
      else Err (ParseError (''unexpected character: '' @ code_point c cs)))"
  by pat_completeness auto
termination
  by (relation "measure length")
     (simp_all (no_asm) add: less_Suc_eq_le length_dropWhile_le length_tl_dropWhile_le)

declare tokenize.simps(2) [simp del]

section \<open>Values\<close>

datatype eval_value = VBool bool | VNum f64 | VStr string | VNull | VJson json

fun ev_as_bool :: "eval_value \<Rightarrow> bool" where
  "ev_as_bool (VBool b) = b"
| "ev_as_bool VNull = False"
| "ev_as_bool (VNum n) = (\<not> f64_eq n (Fin 0))"
| "ev_as_bool (VStr s) = (s \<noteq> [])"
| "ev_as_bool (VJson (JBool b)) = b"
| "ev_as_bool (VJson JNull) = False"
| "ev_as_bool (VJson _) = True"

fun ev_as_f64 :: "eval_value \<Rightarrow> f64 option" where
  "ev_as_f64 (VNum n) = Some n"
| "ev_as_f64 (VJson (JNumber n)) = Some (num_as_f64 n)"
| "ev_as_f64 _ = None"

fun ev_as_str :: "eval_value \<Rightarrow> string option" where
  "ev_as_str (VStr s) = Some s"
| "ev_as_str (VJson (JString s)) = Some s"
| "ev_as_str _ = None"

fun ev_is_null :: "eval_value \<Rightarrow> bool" where
  "ev_is_null VNull = True"
| "ev_is_null (VJson JNull) = True"
| "ev_is_null _ = False"

datatype comp_op = OpEq | OpNe | OpGt | OpLt | OpGe | OpLe

definition f64_close :: "f64 \<Rightarrow> f64 \<Rightarrow> bool" where
  "f64_close l r \<longleftrightarrow> f64_lt (f64_abs (f64_sub l r)) f64_epsilon"

fun compare_null :: "bool \<Rightarrow> comp_op \<Rightarrow> bool" where
  "compare_null both_null OpEq = both_null"
| "compare_null both_null OpNe = (\<not> both_null)"
| "compare_null both_null _ = False"

fun compare_num :: "f64 \<Rightarrow> f64 \<Rightarrow> comp_op \<Rightarrow> bool" where
  "compare_num l r OpEq = f64_close l r"
| "compare_num l r OpNe = f64_le f64_epsilon (f64_abs (f64_sub l r))"
| "compare_num l r OpGt = f64_lt r l"
| "compare_num l r OpLt = f64_lt l r"
| "compare_num l r OpGe = (f64_le r l \<or> f64_close l r)"
| "compare_num l r OpLe = (f64_le l r \<or> f64_close l r)"

fun compare_str :: "string \<Rightarrow> string \<Rightarrow> comp_op \<Rightarrow> bool" where
  "compare_str l r OpEq = (l = r)"
| "compare_str l r OpNe = (l \<noteq> r)"
| "compare_str l r OpGt = (r < l)"
| "compare_str l r OpLt = (l < r)"
| "compare_str l r OpGe = (r \<le> l)"
| "compare_str l r OpLe = (l \<le> r)"

fun compare_bool :: "bool \<Rightarrow> bool \<Rightarrow> comp_op \<Rightarrow> bool" where
  "compare_bool l r OpEq = (l = r)"
| "compare_bool l r OpNe = (l \<noteq> r)"
| "compare_bool l r _ = False"

definition compare :: "eval_value \<Rightarrow> eval_value \<Rightarrow> comp_op \<Rightarrow> bool" where
  "compare left right op =
     (if ev_is_null left \<or> ev_is_null right
      then compare_null (ev_is_null left \<and> ev_is_null right) op
      else case (ev_as_f64 left, ev_as_f64 right) of
        (Some l, Some r) \<Rightarrow> compare_num l r op
      | _ \<Rightarrow>
        (case (ev_as_str left, ev_as_str right) of
           (Some l, Some r) \<Rightarrow> compare_str l r op
         | _ \<Rightarrow>
           (case (left, right) of
              (VBool l, VBool r) \<Rightarrow> compare_bool l r op
            | _ \<Rightarrow> False)))"

section \<open>Field paths\<close>

fun split_on :: "char \<Rightarrow> string \<Rightarrow> string list" where
  "split_on d [] = [[]]"
| "split_on d (c # cs) =
     (if c = d then [] # split_on d cs
      else case split_on d cs of [] \<Rightarrow> [[c]] | s # ss \<Rightarrow> (c # s) # ss)"

fun walk_path :: "json \<Rightarrow> string list \<Rightarrow> json option" where
  "walk_path current [] = Some current"
| "walk_path current (segment # ss) =
     (case jget current segment of None \<Rightarrow> None | Some v \<Rightarrow> walk_path v ss)"

fun value_of_json :: "json \<Rightarrow> eval_value" where
  "value_of_json JNull = VNull"
| "value_of_json (JBool b) = VBool b"
| "value_of_json (JNumber n) = VNum (num_as_f64 n)"
| "value_of_json (JString s) = VStr s"
| "value_of_json other = VJson other"

definition resolve_path :: "json \<Rightarrow> string \<Rightarrow> eval_value" where
  "resolve_path data path =
     (case walk_path data (split_on (CHR ''.'') path) of None \<Rightarrow> VNull | Some v \<Rightarrow> value_of_json v)"

section \<open>Parser\<close>

type_synonym parse_result = "(expr_error, eval_value \<times> token list) result"

fun parse_primary :: "(token \<Rightarrow> string) \<Rightarrow> json \<Rightarrow> token list \<Rightarrow> parse_result" where
  "parse_primary dbg data [] = Err (ParseError ''unexpected end of expression'')"
| "parse_primary dbg data (TStr s # ts) = Ok (VStr s, ts)"
| "parse_primary dbg data (TNum n # ts) = Ok (VNum n, ts)"
| "parse_primary dbg data (TBool b # ts) = Ok (VBool b, ts)"
| "parse_primary dbg data (TNull # ts) = Ok (VNull, ts)"
| "parse_primary dbg data (TIdent path # ts) = Ok (resolve_path data path, ts)"
| "parse_primary dbg data (other # ts) = Err (ParseError (''expected value, got '' @ dbg other))"

fun comp_op_of :: "token \<Rightarrow> comp_op option" where
  "comp_op_of TEq = Some OpEq"
| "comp_op_of TNe = Some OpNe"
| "comp_op_of TGt = Some OpGt"
| "comp_op_of TLt = Some OpLt"
| "comp_op_of TGe = Some OpGe"
| "comp_op_of TLe = Some OpLe"
| "comp_op_of _ = None"

definition parse_comparison :: "(token \<Rightarrow> string) \<Rightarrow> json \<Rightarrow> token list \<Rightarrow> parse_result" where
  "parse_comparison dbg data ts =
     and_then (parse_primary dbg data ts) (\<lambda>(left, rest).
       case rest of
         [] \<Rightarrow> Ok (left, rest)
       | t # rest' \<Rightarrow>
           (case comp_op_of t of
              None \<Rightarrow> Ok (left, rest)
            | Some op \<Rightarrow>
                and_then (parse_primary dbg data rest') (\<lambda>(right, rest'').
                  Ok (VBool (compare left right op), rest''))))"

fun parse_not :: "(token \<Rightarrow> string) \<Rightarrow> json \<Rightarrow> token list \<Rightarrow> parse_result" where
  "parse_not dbg data (TNot # ts) =
     and_then (parse_not dbg data ts) (\<lambda>(val, rest). Ok (VBool (\<not> ev_as_bool val), rest))"
| "parse_not dbg data ts = parse_comparison dbg data ts"

lemma parse_primary_shorter: "parse_primary dbg data ts = Inr (v, rest) \<Longrightarrow> length rest < length ts"
  by (cases "(dbg, data, ts)" rule: parse_primary.cases) auto

lemma parse_comparison_cases:
  assumes "parse_comparison dbg data ts = Inr (v, rest)"
  obtains "parse_primary dbg data ts = Inr (v, rest)"
      and "rest = [] \<or> comp_op_of (hd rest) = None"
    | l op t rest' r where "parse_primary dbg data ts = Inr (l, t # rest')"
      and "comp_op_of t = Some op" and "parse_primary dbg data rest' = Inr (r, rest)"
      and "v = VBool (compare l r op)"
proof -
  from assms obtain l rs where p: "parse_primary dbg data ts = Inr (l, rs)"
    and c: "(case rs of
         [] \<Rightarrow> Ok (l, rs)
       | t # rest' \<Rightarrow>
           (case comp_op_of t of
              None \<Rightarrow> Ok (l, rs)
            | Some op \<Rightarrow>
                and_then (parse_primary dbg data rest') (\<lambda>(right, rest'').
                  Ok (VBool (compare l right op), rest'')))) = Inr (v, rest)"
    by (auto simp: parse_comparison_def)
  show thesis
  proof (cases "rs = [] \<or> comp_op_of (hd rs) = None")
    case True
    with c have "(l, rs) = (v, rest)" by (cases rs) auto
    with p True show thesis by (intro that(1)) simp_all
  next
    case False
    then obtain t rest' op where "rs = t # rest'" "comp_op_of t = Some op" by (cases rs) auto
    with p c show thesis by (auto intro: that(2))
  qed
qed

lemma parse_comparison_shorter:
  assumes "parse_comparison dbg data ts = Inr (v, rest)"
  shows "length rest < length ts"
  using assms by (rule parse_comparison_cases) (auto dest!: parse_primary_shorter)

lemma parse_not_shorter: "parse_not dbg data ts = Inr (v, rest) \<Longrightarrow> length rest < length ts"
  by (induction dbg data ts arbitrary: v rest rule: parse_not.induct)
     (fastforce dest: parse_comparison_shorter split: prod.splits)+

function parse_and_loop ::
  "(token \<Rightarrow> string) \<Rightarrow> json \<Rightarrow> eval_value \<Rightarrow> token list \<Rightarrow> parse_result" where
  "parse_and_loop dbg data left rest =
     (case rest of
        TAnd # ts \<Rightarrow>
          and_then (parse_not dbg data ts) (\<lambda>(right, r).
            parse_and_loop dbg data (VBool (ev_as_bool left \<and> ev_as_bool right)) r)
      | _ \<Rightarrow> Ok (left, rest))"
  by pat_completeness auto
termination
  by (relation "measure (\<lambda>(dbg, data, left, rest). length rest)")
     (auto dest!: parse_not_shorter)

definition parse_and :: "(token \<Rightarrow> string) \<Rightarrow> json \<Rightarrow> token list \<Rightarrow> parse_result" where
  "parse_and dbg data ts =
     and_then (parse_not dbg data ts) (\<lambda>(left, rest). parse_and_loop dbg data left rest)"

declare parse_and_loop.simps [simp del]

lemma parse_and_loop_shorter:
  "parse_and_loop dbg data l ts = Inr (v, rest) \<Longrightarrow> length rest \<le> length ts"
proof (induction dbg data l ts rule: parse_and_loop.induct)
  case (1 dbg data l ts)
  from "1.prems" show ?case
    by (subst (asm) parse_and_loop.simps)
       (fastforce dest: parse_not_shorter "1.IH" split: list.splits token.splits)
qed

lemma parse_and_shorter: "parse_and dbg data ts = Inr (v, rest) \<Longrightarrow> length rest < length ts"
  by (auto simp: parse_and_def dest!: parse_not_shorter parse_and_loop_shorter)

function parse_or_loop ::
  "(token \<Rightarrow> string) \<Rightarrow> json \<Rightarrow> eval_value \<Rightarrow> token list \<Rightarrow> parse_result" where
  "parse_or_loop dbg data left rest =
     (case rest of
        TOr # ts \<Rightarrow>
          and_then (parse_and dbg data ts) (\<lambda>(right, r).
            parse_or_loop dbg data (VBool (ev_as_bool left \<or> ev_as_bool right)) r)
      | _ \<Rightarrow> Ok (left, rest))"
  by pat_completeness auto
termination
  by (relation "measure (\<lambda>(dbg, data, left, rest). length rest)")
     (auto dest!: parse_and_shorter)

declare parse_or_loop.simps [simp del]

definition parse_or :: "(token \<Rightarrow> string) \<Rightarrow> json \<Rightarrow> token list \<Rightarrow> parse_result" where
  "parse_or dbg data ts =
     and_then (parse_and dbg data ts) (\<lambda>(left, rest). parse_or_loop dbg data left rest)"

definition evaluate_tokens :: "(token \<Rightarrow> string) \<Rightarrow> json \<Rightarrow> token list \<Rightarrow> (expr_error, bool) result" where
  "evaluate_tokens dbg data tokens =
     (if tokens = [] then Err (ParseError ''empty expression'')
      else and_then (parse_or dbg data tokens) (\<lambda>(val, rest).
        case rest of
          [] \<Rightarrow> Ok (ev_as_bool val)
        | t # _ \<Rightarrow> Err (ParseError (''unexpected token: '' @ dbg t))))"

definition evaluate :: "(token \<Rightarrow> string) \<Rightarrow> string \<Rightarrow> json \<Rightarrow> (expr_error, bool) result" where
  "evaluate dbg expression data = and_then (tokenize expression) (evaluate_tokens dbg data)"

section \<open>Reference: the grammar and its truth values\<close>

fun int_compare :: "comp_op \<Rightarrow> int \<Rightarrow> int \<Rightarrow> bool" where
  "int_compare OpEq m n = (m = n)"
| "int_compare OpNe m n = (m \<noteq> n)"
| "int_compare OpGt m n = (m > n)"
| "int_compare OpLt m n = (m < n)"
| "int_compare OpGe m n = (m \<ge> n)"
| "int_compare OpLe m n = (m \<le> n)"

datatype prim_expr = PStr string | PNum f64 | PBool bool | PNull | PField string

datatype cmp_expr = Bare prim_expr | Cmp prim_expr comp_op prim_expr

datatype not_expr = Neg not_expr | Atom cmp_expr

type_synonym and_expr = "not_expr \<times> not_expr list"
type_synonym or_expr = "and_expr \<times> and_expr list"

fun unparse_prim :: "prim_expr \<Rightarrow> token" where
  "unparse_prim (PStr s) = TStr s"
| "unparse_prim (PNum n) = TNum n"
| "unparse_prim (PBool b) = TBool b"
| "unparse_prim PNull = TNull"
| "unparse_prim (PField path) = TIdent path"

fun unparse_op :: "comp_op \<Rightarrow> token" where
  "unparse_op OpEq = TEq"
| "unparse_op OpNe = TNe"
| "unparse_op OpGt = TGt"
| "unparse_op OpLt = TLt"
| "unparse_op OpGe = TGe"
| "unparse_op OpLe = TLe"

fun unparse_cmp :: "cmp_expr \<Rightarrow> token list" where
  "unparse_cmp (Bare p) = [unparse_prim p]"
| "unparse_cmp (Cmp p op q) = [unparse_prim p, unparse_op op, unparse_prim q]"

fun unparse_not :: "not_expr \<Rightarrow> token list" where
  "unparse_not (Neg u) = TNot # unparse_not u"
| "unparse_not (Atom c) = unparse_cmp c"

definition unparse_and :: "and_expr \<Rightarrow> token list" where
  "unparse_and a = unparse_not (fst a) @ concat (map (\<lambda>u. TAnd # unparse_not u) (snd a))"

definition unparse_or :: "or_expr \<Rightarrow> token list" where
  "unparse_or e = unparse_and (fst e) @ concat (map (\<lambda>a. TOr # unparse_and a) (snd e))"

fun prim_val :: "json \<Rightarrow> prim_expr \<Rightarrow> eval_value" where
  "prim_val data (PStr s) = VStr s"
| "prim_val data (PNum n) = VNum n"
| "prim_val data (PBool b) = VBool b"
| "prim_val data PNull = VNull"
| "prim_val data (PField path) = resolve_path data path"

fun cmp_val :: "json \<Rightarrow> cmp_expr \<Rightarrow> eval_value" where
  "cmp_val data (Bare p) = prim_val data p"
| "cmp_val data (Cmp p op q) = VBool (compare (prim_val data p) (prim_val data q) op)"

fun not_truth :: "json \<Rightarrow> not_expr \<Rightarrow> bool" where
  "not_truth data (Neg u) = (\<not> not_truth data u)"
| "not_truth data (Atom c) = ev_as_bool (cmp_val data c)"

definition and_truth :: "json \<Rightarrow> and_expr \<Rightarrow> bool" where
  "and_truth data a \<longleftrightarrow> list_all (not_truth data) (fst a # snd a)"

definition or_truth :: "json \<Rightarrow> or_expr \<Rightarrow> bool" where
  "or_truth data e \<longleftrightarrow> list_ex (and_truth data) (fst e # snd e)"

section \<open>The parser accepts only the grammar\<close>

lemma comp_op_of_iff: "comp_op_of t = Some op \<longleftrightarrow> t = unparse_op op"
  by (cases t; cases op) simp_all

lemma parse_primary_unparse [simp]:
  "parse_primary dbg data (unparse_prim p # rest) = Inr (prim_val data p, rest)"
  by (cases p) simp_all

lemma parse_primary_iff:
  "parse_primary dbg data ts = Inr (v, rest) \<longleftrightarrow>
     (\<exists>p. ts = unparse_prim p # rest \<and> v = prim_val data p)"
proof
  assume L: "parse_primary dbg data ts = Inr (v, rest)"
  then obtain t ts' where ts: "ts = t # ts'" by (cases ts) auto
  with L have r: "ts' = rest" by (cases t) auto
  have "\<exists>p. t = unparse_prim p"
  proof (cases t)
    case (TIdent x)
    then have "t = unparse_prim (PField x)" by simp
    then show ?thesis ..
  next
    case (TStr x)
    then have "t = unparse_prim (PStr x)" by simp
    then show ?thesis ..
  next
    case (TNum x)
    then have "t = unparse_prim (PNum x)" by simp
    then show ?thesis ..
  next
    case (TBool x)
    then have "t = unparse_prim (PBool x)" by simp
    then show ?thesis ..
  next
    case TNull
    then have "t = unparse_prim PNull" by simp
    then show ?thesis ..
  qed (use L ts in simp_all)
  then obtain p where "t = unparse_prim p" ..
  with L ts r show "\<exists>p. ts = unparse_prim p # rest \<and> v = prim_val data p" by auto
qed auto

lemma parse_comparison_sound:
  assumes "parse_comparison dbg data ts = Inr (v, rest)"
  shows "\<exists>c. ts = unparse_cmp c @ rest \<and> v = cmp_val data c"
  using assms
proof (rule parse_comparison_cases)
  assume "parse_primary dbg data ts = Inr (v, rest)"
  then obtain p where "ts = unparse_prim p # rest" "v = prim_val data p"
    by (auto simp: parse_primary_iff)
  then have "ts = unparse_cmp (Bare p) @ rest \<and> v = cmp_val data (Bare p)" by simp
  then show ?thesis by blast
next
  fix l op t rest' r
  assume "parse_primary dbg data ts = Inr (l, t # rest')" "comp_op_of t = Some op"
    "parse_primary dbg data rest' = Inr (r, rest)" "v = VBool (compare l r op)"
  then obtain p q where "ts = unparse_cmp (Cmp p op q) @ rest \<and> v = cmp_val data (Cmp p op q)"
    by (auto simp: parse_primary_iff comp_op_of_iff)
  then show ?thesis by blast
qed

lemma parse_not_other:
  "ts = [] \<or> hd ts \<noteq> TNot \<Longrightarrow> parse_not dbg data ts = parse_comparison dbg data ts"
  by (cases "(dbg, data, ts)" rule: parse_not.cases) auto

lemma parse_not_sound:
  "parse_not dbg data ts = Inr (v, rest) \<Longrightarrow>
     \<exists>u. ts = unparse_not u @ rest \<and> ev_as_bool v = not_truth data u"
proof (induction ts arbitrary: v)
  case Nil
  then show ?case by (simp add: parse_not_other parse_comparison_def)
next
  case (Cons t ts)
  show ?case
  proof (cases "t = TNot")
    case True
    with Cons.prems obtain w where w: "parse_not dbg data ts = Inr (w, rest)"
      and v: "v = VBool (\<not> ev_as_bool w)" by auto
    from Cons.IH [OF w] obtain u where "ts = unparse_not u @ rest"
      "ev_as_bool w = not_truth data u" by blast
    with True v have "t # ts = unparse_not (Neg u) @ rest \<and> ev_as_bool v = not_truth data (Neg u)"
      by simp
    then show ?thesis by blast
  next
    case False
    with Cons.prems have "parse_comparison dbg data (t # ts) = Inr (v, rest)"
      by (simp add: parse_not_other)
    from parse_comparison_sound [OF this] obtain c
      where "t # ts = unparse_not (Atom c) @ rest \<and> ev_as_bool v = not_truth data (Atom c)"
      by auto
    then show ?thesis by blast
  qed
qed

lemma parse_and_loop_sound:
  "parse_and_loop dbg data l ts = Inr (v, rest) \<Longrightarrow>
     \<exists>us. ts = concat (map (\<lambda>u. TAnd # unparse_not u) us) @ rest
        \<and> ev_as_bool v = (ev_as_bool l \<and> list_all (not_truth data) us)"
proof (induction dbg data l ts rule: parse_and_loop.induct)
  case (1 dbg data l ts)
  show ?case
  proof (cases "\<exists>ts'. ts = TAnd # ts'")
    case True
    then obtain ts' where ts: "ts = TAnd # ts'" by blast
    with "1.prems" obtain r ts'' where p: "parse_not dbg data ts' = Inr (r, ts'')"
      and q: "parse_and_loop dbg data (VBool (ev_as_bool l \<and> ev_as_bool r)) ts'' = Inr (v, rest)"
      by (subst (asm) parse_and_loop.simps) auto
    from parse_not_sound [OF p] obtain u where u: "ts' = unparse_not u @ ts''"
      "ev_as_bool r = not_truth data u" by blast
    from "1.IH" [OF ts refl p refl q] obtain us where
      "ts'' = concat (map (\<lambda>u. TAnd # unparse_not u) us) @ rest"
      "ev_as_bool v = ((ev_as_bool l \<and> ev_as_bool r) \<and> list_all (not_truth data) us)" by auto
    with ts u show ?thesis by (intro exI [of _ "u # us"]) auto
  next
    case False
    with "1.prems" have "v = l \<and> ts = rest"
      by (subst (asm) parse_and_loop.simps) (auto split: list.splits token.splits)
    then show ?thesis by (intro exI [of _ "[]"]) simp
  qed
qed

lemma parse_and_sound:
  assumes "parse_and dbg data ts = Inr (v, rest)"
  shows "\<exists>a. ts = unparse_and a @ rest \<and> ev_as_bool v = and_truth data a"
proof -
  from assms obtain l ts' where p: "parse_not dbg data ts = Inr (l, ts')"
    and q: "parse_and_loop dbg data l ts' = Inr (v, rest)" by (auto simp: parse_and_def)
  from parse_not_sound [OF p] obtain u where "ts = unparse_not u @ ts'"
    "ev_as_bool l = not_truth data u" by blast
  moreover from parse_and_loop_sound [OF q] obtain us where
    "ts' = concat (map (\<lambda>u. TAnd # unparse_not u) us) @ rest"
    "ev_as_bool v = (ev_as_bool l \<and> list_all (not_truth data) us)" by blast
  ultimately show ?thesis
    by (intro exI [of _ "(u, us)"]) (simp add: unparse_and_def and_truth_def)
qed

lemma parse_or_loop_sound:
  "parse_or_loop dbg data l ts = Inr (v, rest) \<Longrightarrow>
     \<exists>as. ts = concat (map (\<lambda>a. TOr # unparse_and a) as) @ rest
        \<and> ev_as_bool v = (ev_as_bool l \<or> list_ex (and_truth data) as)"
proof (induction dbg data l ts rule: parse_or_loop.induct)
  case (1 dbg data l ts)
  show ?case
  proof (cases "\<exists>ts'. ts = TOr # ts'")
    case True
    then obtain ts' where ts: "ts = TOr # ts'" by blast
    with "1.prems" obtain r ts'' where p: "parse_and dbg data ts' = Inr (r, ts'')"
      and q: "parse_or_loop dbg data (VBool (ev_as_bool l \<or> ev_as_bool r)) ts'' = Inr (v, rest)"
      by (subst (asm) parse_or_loop.simps) auto
    from parse_and_sound [OF p] obtain a where a: "ts' = unparse_and a @ ts''"
      "ev_as_bool r = and_truth data a" by blast
    from "1.IH" [OF ts refl p refl q] obtain as where
      "ts'' = concat (map (\<lambda>a. TOr # unparse_and a) as) @ rest"
      "ev_as_bool v = ((ev_as_bool l \<or> ev_as_bool r) \<or> list_ex (and_truth data) as)" by auto
    with ts a show ?thesis by (intro exI [of _ "a # as"]) auto
  next
    case False
    with "1.prems" have "v = l \<and> ts = rest"
      by (subst (asm) parse_or_loop.simps) (auto split: list.splits token.splits)
    then show ?thesis by (intro exI [of _ "[]"]) simp
  qed
qed

lemma evaluate_tokens_sound:
  assumes "evaluate_tokens dbg data ts = Inr b"
  shows "\<exists>e. ts = unparse_or e \<and> b = or_truth data e"
proof -
  from assms obtain v rest where o: "parse_or dbg data ts = Inr (v, rest)"
    and c: "(case rest of [] \<Rightarrow> Ok (ev_as_bool v)
       | t # _ \<Rightarrow> Err (ParseError (''unexpected token: '' @ dbg t))) = Inr b"
    by (auto simp: evaluate_tokens_def simp del: append.simps split: if_splits)
  from c have rest: "rest = []" and b: "b = ev_as_bool v" by (cases rest; simp)+
  from o rest obtain l ts' where p: "parse_and dbg data ts = Inr (l, ts')"
    and q: "parse_or_loop dbg data l ts' = Inr (v, [])" by (auto simp: parse_or_def)
  from parse_and_sound [OF p] obtain a where "ts = unparse_and a @ ts'"
    "ev_as_bool l = and_truth data a" by blast
  moreover from parse_or_loop_sound [OF q] obtain as where
    "ts' = concat (map (\<lambda>a. TOr # unparse_and a) as) @ []"
    "ev_as_bool v = (ev_as_bool l \<or> list_ex (and_truth data) as)" by blast
  ultimately show ?thesis
    using b by (intro exI [of _ "(a, as)"]) (simp add: unparse_or_def or_truth_def)
qed

section \<open>The parser accepts the whole grammar\<close>

lemma comp_op_of_unparse [simp]: "comp_op_of (unparse_op op) = Some op"
  by (cases op) simp_all

lemma parse_comparison_unparse:
  assumes "rest = [] \<or> comp_op_of (hd rest) = None"
  shows "parse_comparison dbg data (unparse_cmp c @ rest) = Inr (cmp_val data c, rest)"
  using assms by (cases c; cases rest) (auto simp: parse_comparison_def)

lemma unparse_prim_not_TNot [simp]: "unparse_prim p \<noteq> TNot"
  by (cases p) simp_all

lemma hd_unparse_cmp [simp]: "hd (unparse_cmp c) \<noteq> TNot" "unparse_cmp c \<noteq> []"
  by (cases c; simp)+

lemma parse_not_unparse:
  assumes "rest = [] \<or> comp_op_of (hd rest) = None"
  shows "\<exists>v. parse_not dbg data (unparse_not u @ rest) = Inr (v, rest)
    \<and> ev_as_bool v = not_truth data u"
proof (induction u)
  case (Atom c)
  then show ?case using parse_comparison_unparse [OF assms] by (simp add: parse_not_other)
qed auto

lemma parse_and_loop_unparse:
  assumes "rest = [] \<or> hd rest = TOr"
  shows "\<exists>v. parse_and_loop dbg data l (concat (map (\<lambda>u. TAnd # unparse_not u) us) @ rest) = Inr (v, rest)
    \<and> ev_as_bool v = (ev_as_bool l \<and> list_all (not_truth data) us)"
proof (induction us arbitrary: l)
  case Nil
  from assms show ?case by (cases rest) (auto simp: parse_and_loop.simps)
next
  case (Cons u us)
  let ?r = "concat (map (\<lambda>u. TAnd # unparse_not u) us) @ rest"
  have "?r = [] \<or> comp_op_of (hd ?r) = None" using assms by (cases us; cases rest) auto
  from parse_not_unparse [OF this] obtain w where
    w: "parse_not dbg data (unparse_not u @ ?r) = Inr (w, ?r)" "ev_as_bool w = not_truth data u"
    by blast
  from Cons [of "VBool (ev_as_bool l \<and> ev_as_bool w)"] obtain v where
    "parse_and_loop dbg data (VBool (ev_as_bool l \<and> ev_as_bool w)) ?r = Inr (v, rest)"
    "ev_as_bool v = ((ev_as_bool l \<and> ev_as_bool w) \<and> list_all (not_truth data) us)" by auto
  with w show ?case by (subst parse_and_loop.simps) auto
qed

lemma parse_and_unparse:
  assumes "rest = [] \<or> hd rest = TOr"
  shows "\<exists>v. parse_and dbg data (unparse_and a @ rest) = Inr (v, rest)
    \<and> ev_as_bool v = and_truth data a"
proof -
  let ?r = "concat (map (\<lambda>u. TAnd # unparse_not u) (snd a)) @ rest"
  have "?r = [] \<or> comp_op_of (hd ?r) = None" using assms by (cases "snd a"; cases rest) auto
  from parse_not_unparse [OF this] obtain w where
    "parse_not dbg data (unparse_not (fst a) @ ?r) = Inr (w, ?r)"
    "ev_as_bool w = not_truth data (fst a)" by blast
  with parse_and_loop_unparse [OF assms, of dbg data w "snd a"] show ?thesis
    by (auto simp: parse_and_def unparse_and_def and_truth_def)
qed

lemma parse_or_loop_unparse:
  "\<exists>v. parse_or_loop dbg data l (concat (map (\<lambda>a. TOr # unparse_and a) as)) = Inr (v, [])
    \<and> ev_as_bool v = (ev_as_bool l \<or> list_ex (and_truth data) as)"
proof (induction as arbitrary: l)
  case Nil
  show ?case by (simp add: parse_or_loop.simps)
next
  case (Cons a as)
  let ?r = "concat (map (\<lambda>a. TOr # unparse_and a) as)"
  have "?r = [] \<or> hd ?r = TOr" by (cases as) auto
  from parse_and_unparse [OF this] obtain w where
    w: "parse_and dbg data (unparse_and a @ ?r) = Inr (w, ?r)" "ev_as_bool w = and_truth data a"
    by blast
  from Cons [of "VBool (ev_as_bool l \<or> ev_as_bool w)"] w show ?case
    by (subst parse_or_loop.simps) auto
qed

lemma unparse_or_nonempty [simp]: "unparse_or e \<noteq> []"
proof -
  have "unparse_not u \<noteq> []" for u by (cases u) auto
  then show ?thesis by (simp add: unparse_or_def unparse_and_def)
qed

lemma evaluate_tokens_complete:
  "evaluate_tokens dbg data (unparse_or e) = Inr (or_truth data e)"
proof -
  let ?r = "concat (map (\<lambda>a. TOr # unparse_and a) (snd e))"
  have "?r = [] \<or> hd ?r = TOr" by (cases "snd e") auto
  from parse_and_unparse [OF this, of dbg data "fst e"] obtain w where
    "parse_and dbg data (unparse_or e) = Inr (w, ?r)" "ev_as_bool w = and_truth data (fst e)"
    unfolding unparse_or_def by blast
  with parse_or_loop_unparse [of dbg data w "snd e"] show ?thesis
    by (auto simp: evaluate_tokens_def parse_or_def or_truth_def)
qed

section \<open>Errors\<close>

definition only_parse_errors :: "(expr_error, 'a) result \<Rightarrow> bool" where
  "only_parse_errors r \<longleftrightarrow> (\<forall>e. r = Inl e \<longrightarrow> (\<exists>m. e = ParseError m))"

lemma only_parse_errors_intros:
  "only_parse_errors (Inl (ParseError m))"
  "only_parse_errors (Inr x)"
  "only_parse_errors r \<Longrightarrow> only_parse_errors (cons_token t r)"
  "only_parse_errors a \<Longrightarrow> only_parse_errors b \<Longrightarrow> only_parse_errors (if c then a else b)"
  "only_parse_errors a \<Longrightarrow> (\<And>x. only_parse_errors (f x)) \<Longrightarrow>
     only_parse_errors (case z of None \<Rightarrow> a | Some x \<Rightarrow> f x)"
  by (auto simp: only_parse_errors_def cons_token_def split: option.split)

lemma tokenize_only_parse_errors: "only_parse_errors (tokenize s)"
proof (induction s rule: measure_induct_rule [of length])
  case (less s)
  show ?case
  proof (cases s)
    case Nil
    then show ?thesis by (simp add: only_parse_errors_def)
  next
    case (Cons c cs)
    have shorter: "only_parse_errors (tokenize (dropWhile P cs))"
      "only_parse_errors (tokenize (tl (dropWhile P cs)))" for P
      by (rule less.IH; simp add: Cons le_imp_less_Suc length_dropWhile_le length_tl_dropWhile_le)+
    moreover have "only_parse_errors (tokenize cs)" "only_parse_errors (tokenize (tl cs))"
      using shorter [of "\<lambda>_. False"] by simp_all
    ultimately show ?thesis
      unfolding Cons tokenize.simps(2) by (intro only_parse_errors_intros)
  qed
qed

lemma tokenize_error: "tokenize s = Inl e \<Longrightarrow> \<exists>m. e = ParseError m"
  using tokenize_only_parse_errors [of s] by (simp add: only_parse_errors_def)

lemma parse_primary_error: "parse_primary dbg data ts = Inl e \<Longrightarrow> \<exists>m. e = ParseError m"
  by (cases "(dbg, data, ts)" rule: parse_primary.cases) auto

lemma parse_comparison_error: "parse_comparison dbg data ts = Inl e \<Longrightarrow> \<exists>m. e = ParseError m"
  unfolding parse_comparison_def
  by (auto split: list.split_asm option.split_asm dest: parse_primary_error)

lemma parse_not_error: "parse_not dbg data ts = Inl e \<Longrightarrow> \<exists>m. e = ParseError m"
proof (induction ts)
  case (Cons t ts)
  then show ?case
    by (cases "t = TNot") (auto simp: and_then_Err parse_not_other dest: parse_comparison_error)
qed (simp add: parse_not_other parse_comparison_error)

lemma parse_and_loop_error: "parse_and_loop dbg data l ts = Inl e \<Longrightarrow> \<exists>m. e = ParseError m"
proof (induction dbg data l ts rule: parse_and_loop.induct)
  case (1 dbg data l ts)
  then show ?case
    by (subst (asm) (2) parse_and_loop.simps)
       (auto simp: and_then_Err split: list.splits token.splits dest: parse_not_error)
qed

lemma parse_and_error: "parse_and dbg data ts = Inl e \<Longrightarrow> \<exists>m. e = ParseError m"
  by (auto simp: parse_and_def and_then_Err dest: parse_not_error parse_and_loop_error)

lemma parse_or_loop_error: "parse_or_loop dbg data l ts = Inl e \<Longrightarrow> \<exists>m. e = ParseError m"
proof (induction dbg data l ts rule: parse_or_loop.induct)
  case (1 dbg data l ts)
  then show ?case
    by (subst (asm) (2) parse_or_loop.simps)
       (auto simp: and_then_Err split: list.splits token.splits dest: parse_and_error)
qed

lemma evaluate_tokens_error: "evaluate_tokens dbg data ts = Inl e \<Longrightarrow> \<exists>m. e = ParseError m"
  unfolding evaluate_tokens_def parse_or_def
  by (auto split: if_split_asm list.split_asm dest: parse_and_error parse_or_loop_error)

section \<open>Spelling tokens\<close>

text \<open>Lexemes: the spellings of the tokens.  A word is a field path or one of \<open>true\<close>, \<open>false\<close>,
  \<open>null\<close>; a number is an optional sign, digits and an optional fraction.\<close>

datatype lexeme =
    LOp token
  | LStr char string
  | LNum bool string "string option"
  | LWord string

fun op_text :: "token \<Rightarrow> string" where
  "op_text TEq = ''==''"
| "op_text TNe = ''!=''"
| "op_text TGt = ''>''"
| "op_text TLt = ''<''"
| "op_text TGe = ''>=''"
| "op_text TLe = ''<=''"
| "op_text TAnd = ''&&''"
| "op_text TOr = ''||''"
| "op_text TNot = ''!''"
| "op_text _ = []"

fun num_text :: "string \<Rightarrow> string option \<Rightarrow> string" where
  "num_text ip None = ip"
| "num_text ip (Some fp) = ip @ CHR ''.'' # fp"

fun num_val :: "string \<Rightarrow> string option \<Rightarrow> rat" where
  "num_val ip None = of_nat (digits_val ip)"
| "num_val ip (Some fp) = of_nat (digits_val (ip @ fp)) / 10 ^ length fp"

fun lexeme_text :: "lexeme \<Rightarrow> string" where
  "lexeme_text (LOp t) = op_text t"
| "lexeme_text (LStr q s) = q # s @ [q]"
| "lexeme_text (LNum neg ip fp) = (if neg then CHR ''-'' # num_text ip fp else num_text ip fp)"
| "lexeme_text (LWord s) = s"

fun lexeme_token :: "lexeme \<Rightarrow> token" where
  "lexeme_token (LOp t) = t"
| "lexeme_token (LStr q s) = TStr s"
| "lexeme_token (LNum neg ip fp) =
     TNum (f64_round (if neg then - num_val ip fp else num_val ip fp))"
| "lexeme_token (LWord s) = ident_token s"

fun lexeme_wf :: "lexeme \<Rightarrow> bool" where
  "lexeme_wf (LOp t) \<longleftrightarrow> op_text t \<noteq> []"
| "lexeme_wf (LStr q s) \<longleftrightarrow> (q = CHR 0x22 \<or> q = CHR 0x27) \<and> q \<notin> set s"
| "lexeme_wf (LNum neg ip fp) \<longleftrightarrow>
     ip \<noteq> [] \<and> list_all is_ascii_digit ip
     \<and> (case fp of None \<Rightarrow> True | Some f \<Rightarrow> list_all is_ascii_digit f)"
| "lexeme_wf (LWord s) \<longleftrightarrow>
     s \<noteq> [] \<and> (is_ascii_alphabetic (hd s) \<or> hd s = CHR ''_'') \<and> list_all is_ident_char s"

definition spell :: "(lexeme \<times> string) list \<Rightarrow> string" where
  "spell ls = concat (map (\<lambda>(l, ws). lexeme_text l @ ws) ls)"

lemmas char_class_defs = is_ascii_digit_def is_ascii_alphabetic_def is_space_def
  is_ident_char_def is_num_char_def

lemma space_not_in_lexeme:
  "is_space c \<Longrightarrow> \<not> is_num_char c \<and> \<not> is_ident_char c"
  by (auto simp: char_class_defs)

lemma digit_head:
  assumes "is_ascii_digit c"
  shows "\<not> is_space c" "c \<notin> {CHR ''='', CHR ''!'', CHR ''>'', CHR ''<'', CHR ''&'', CHR ''|'',
    CHR 0x22, CHR 0x27, CHR ''-'', CHR ''.''}"
  using assms by (auto simp: char_class_defs)

lemma word_head:
  assumes "is_ascii_alphabetic c \<or> c = CHR ''_''"
  shows "\<not> is_space c" "\<not> is_ascii_digit c" "c \<notin> {CHR ''='', CHR ''!'', CHR ''>'', CHR ''<'',
    CHR ''&'', CHR ''|'', CHR 0x22, CHR 0x27, CHR ''-''}"
  using assms order.trans [of "CHR ''a''" c "CHR ''9''"] order.trans [of "CHR ''A''" c "CHR ''9''"]
  by (auto simp: char_class_defs)

lemma takeWhile_spelled:
  assumes "list_all P xs" "rest = [] \<or> \<not> P (hd rest)"
  shows "takeWhile P (xs @ rest) = xs" "dropWhile P (xs @ rest) = rest"
  using assms by (induction xs; cases rest; simp)+

lemma tokenize_word:
  assumes "lexeme_wf (LWord s)" "rest = [] \<or> is_space (hd rest)"
  shows "tokenize (s @ rest) = cons_token (ident_token s) (tokenize rest)"
proof -
  from assms(1) obtain c cs where s: "s = c # cs" and c: "is_ascii_alphabetic c \<or> c = CHR ''_''"
    and cs: "list_all is_ident_char cs" by (cases s) auto
  have "rest = [] \<or> \<not> is_ident_char (hd rest)" using assms(2) space_not_in_lexeme by blast
  note tw = takeWhile_spelled [OF cs this]
  show ?thesis
    unfolding s append.simps tokenize.simps(2)
    using word_head [OF c] c by (simp add: tw)
qed

lemma quote_head:
  assumes "q = CHR 0x22 \<or> q = CHR 0x27"
  shows "\<not> is_space q" "q \<notin> {CHR ''='', CHR ''!'', CHR ''>'', CHR ''<'', CHR ''&'', CHR ''|''}"
  using assms by (auto simp: is_space_def)

lemma tokenize_str:
  assumes "lexeme_wf (LStr q s)"
  shows "tokenize (q # s @ q # rest) = cons_token (TStr s) (tokenize rest)"
proof -
  have s: "list_all (\<lambda>x. x \<noteq> q) s" using assms by (auto simp: list_all_iff)
  note tw = takeWhile_spelled [OF s, of "q # rest"]
  from assms have q: "q = CHR 0x22 \<or> q = CHR 0x27" by simp
  with quote_head [OF q] show ?thesis
    unfolding tokenize.simps(2) [of q] by (simp add: tw)
qed

lemmas tokenize_op_simps =
  tokenize.simps(2) [of "CHR ''=''"] tokenize.simps(2) [of "CHR ''!''"]
  tokenize.simps(2) [of "CHR ''>''"] tokenize.simps(2) [of "CHR ''<''"]
  tokenize.simps(2) [of "CHR ''&''"] tokenize.simps(2) [of "CHR ''|''"]

lemma tokenize_op:
  assumes "op_text t \<noteq> []" "rest = [] \<or> is_space (hd rest)"
  shows "tokenize (op_text t @ rest) = cons_token t (tokenize rest)"
proof -
  have "peek rest \<noteq> Some (CHR ''='')" using assms(2) by (cases rest) (auto simp: is_space_def)
  then show ?thesis
    using assms(1) by (cases t) (simp_all add: tokenize_op_simps is_space_def)
qed

lemma dropWhile_digits:
  "list_all is_ascii_digit ip \<Longrightarrow> takeWhile is_ascii_digit ip = ip \<and> dropWhile is_ascii_digit ip = []"
  by (simp add: list_all_iff)

lemma parse_unsigned_num:
  assumes "lexeme_wf (LNum neg ip fp)"
  shows "parse_unsigned (num_text ip fp) = Some (num_val ip fp)"
proof (cases fp)
  case None
  with assms show ?thesis by (simp add: parse_unsigned_def dropWhile_digits)
next
  case (Some f)
  have dot: "\<not> is_ascii_digit (CHR ''.'')" by (simp add: char_class_defs)
  from assms have "list_all is_ascii_digit ip" by simp
  note takeWhile_spelled [OF this, of "CHR ''.'' # f"]
  with assms Some dot show ?thesis by (simp add: parse_unsigned_def)
qed

lemma num_text_head:
  assumes "lexeme_wf (LNum neg ip fp)"
  obtains c cs where "num_text ip fp = c # cs" "is_ascii_digit c" "list_all is_num_char cs"
proof -
  from assms obtain c cs where ip: "ip = c # cs" by (cases ip) auto
  have num: "list_all is_ascii_digit xs \<Longrightarrow> list_all is_num_char xs" for xs
    by (induction xs) (auto simp: is_num_char_def)
  show thesis
  proof (cases fp)
    case None
    with ip assms that [of c cs] show thesis by (simp add: num)
  next
    case (Some f)
    with ip assms that [of c "cs @ CHR ''.'' # f"] show thesis
      by (simp add: num) (simp add: is_num_char_def)
  qed
qed

lemma tokenize_num:
  assumes wf: "lexeme_wf (LNum neg ip fp)" and rest: "rest = [] \<or> is_space (hd rest)"
  shows "tokenize (lexeme_text (LNum neg ip fp) @ rest) =
    cons_token (lexeme_token (LNum neg ip fp)) (tokenize rest)"
proof -
  obtain c cs where num: "num_text ip fp = c # cs" and c: "is_ascii_digit c"
    and cs: "list_all is_num_char cs" using wf by (rule num_text_head)
  have p: "parse_unsigned (c # cs) = Some (num_val ip fp)"
    using parse_unsigned_num [OF wf] num by simp
  have stop: "rest = [] \<or> \<not> is_num_char (hd rest)" using rest space_not_in_lexeme by blast
  note tw = takeWhile_spelled [OF cs stop]
  have "is_num_char c" using c by (simp add: is_num_char_def)
  note d = digit_head [OF c] and minus = tokenize.simps(2) [of "CHR ''-''"]
  have m: "\<not> is_space (CHR ''-'')" by (simp add: is_space_def)
  show ?thesis
  proof (cases neg)
    case True
    then show ?thesis
      using c m \<open>is_num_char c\<close> by (simp add: num minus tw parse_decimal_def p)
  next
    case False
    then show ?thesis
      using c d by (simp add: num tokenize.simps(2) [of c] tw parse_decimal_def p)
  qed
qed

lemma tokenize_lexeme:
  assumes "lexeme_wf l" "rest = [] \<or> is_space (hd rest)"
  shows "tokenize (lexeme_text l @ rest) = cons_token (lexeme_token l) (tokenize rest)"
proof (cases l)
  case (LOp t)
  with assms tokenize_op show ?thesis by simp
next
  case (LStr q s)
  with assms tokenize_str [of q s rest] show ?thesis by simp
next
  case (LNum neg ip fp)
  with assms tokenize_num show ?thesis by blast
next
  case (LWord s)
  with assms tokenize_word [of s rest] show ?thesis by simp
qed

lemma tokenize_spaces: "list_all is_space ws \<Longrightarrow> tokenize (ws @ rest) = tokenize rest"
  by (induction ws) (simp_all add: tokenize.simps(2))

lemma tokenize_spelling:
  assumes "list_all (\<lambda>(l, ws). lexeme_wf l \<and> ws \<noteq> [] \<and> list_all is_space ws) ls"
  shows "tokenize (spell ls) = Ok (map (lexeme_token \<circ> fst) ls)"
  using assms
proof (induction ls)
  case (Cons e ls)
  obtain l ws where e: "e = (l, ws)" by force
  with Cons.prems have "lexeme_wf l" "ws \<noteq> []" "list_all is_space ws" by auto
  then have "tokenize (lexeme_text l @ ws @ spell ls) = cons_token (lexeme_token l) (tokenize (spell ls))"
    by (subst tokenize_lexeme) (auto simp: tokenize_spaces list_all_iff)
  with Cons e show ?case by (simp add: spell_def cons_token_def)
qed (simp add: spell_def)

section \<open>Properties\<close>

lemma split_on_nonempty [simp]: "split_on d s \<noteq> []"
  by (cases s) (auto split: list.split)

text \<open>(C9) The recursive-descent parser and the grammar in the comments of its functions agree: evaluation
  of a token list succeeds with \<open>b\<close> exactly when the list is the unparsing of an expression of the
  grammar \<open>or = and (|| and)*\<close>, \<open>and = not (&& not)*\<close>, \<open>not = ! not | comparison\<close> and \<open>b\<close> is
  that expression's truth value on the node output; the parser terminates on every list.  In this
  grammar \<open>! a == b\<close> is \<open>! (a == b)\<close>; the heading of the parser in the source gives the opposite
  precedence, \<open>! > comparison > && > ||\<close>, which the code does not implement
  (\<open>negation_of_comparison\<close>).\<close>

theorem evaluate_tokens_iff_grammar:
  "evaluate_tokens dbg data ts = Ok b \<longleftrightarrow> (\<exists>e. ts = unparse_or e \<and> b = or_truth data e)"
  using evaluate_tokens_sound evaluate_tokens_complete by blast

text \<open>(C20) Round trip through the tokenizer: an expression of that grammar (in which \<open>!\<close> negates a whole
  comparison, against the precedence in the heading of the parser) spelled with the source syntax
  (operators, quoted strings, decimal numbers, dotted paths and the three keywords), each lexeme
  followed by whitespace, evaluates to the expression's truth value.\<close>

theorem evaluate_spelled_expression:
  assumes "list_all (\<lambda>(l, ws). lexeme_wf l \<and> ws \<noteq> [] \<and> list_all is_space ws) ls"
    and "map (lexeme_token \<circ> fst) ls = unparse_or e"
  shows "evaluate dbg (spell ls) data = Ok (or_truth data e)"
  using assms by (simp add: evaluate_def tokenize_spelling evaluate_tokens_complete)

theorem evaluate_spelled_expression_witness:
  "evaluate (\<lambda>_. []) ''! done && n == 'x' '' (JObject [(''n'', JString ''x'')]) = Ok True"
proof -
  let ?ls = "[(LOp TNot, '' ''), (LWord ''done'', '' ''), (LOp TAnd, '' ''), (LWord ''n'', '' ''),
    (LOp TEq, '' ''), (LStr (CHR 0x27) ''x'', '' '')]"
  let ?e = "((Neg (Atom (Bare (PField ''done''))), [Atom (Cmp (PField ''n'') OpEq (PStr ''x''))]), [])"
  have "evaluate (\<lambda>_. []) (spell ?ls) (JObject [(''n'', JString ''x'')])
    = Ok (or_truth (JObject [(''n'', JString ''x'')]) ?e)"
    by (rule evaluate_spelled_expression)
       (simp_all add: char_class_defs unparse_or_def unparse_and_def ident_token_def)
  then show ?thesis
    by (simp add: spell_def or_truth_def and_truth_def resolve_path_def compare_def)
qed

text \<open>Negation binds weaker than comparison: \<open>! a == b\<close> is true where \<open>a\<close> and \<open>b\<close> are different texts, although
  \<open>! a\<close>, which is false, does not equal \<open>b\<close>.\<close>

lemma negation_of_comparison:
  "evaluate (\<lambda>_. []) ''! a == b'' (JObject [(''a'', JString ''x''), (''b'', JString ''y'')]) = Ok True
   \<and> \<not> compare (VBool (\<not> ev_as_bool (resolve_path (JObject [(''a'', JString ''x''), (''b'', JString ''y'')]) ''a'')))
         (resolve_path (JObject [(''a'', JString ''x''), (''b'', JString ''y'')]) ''b'') OpEq"
  by code_simp

text \<open>Whatever the text and the data, evaluation either returns a truth value or reports a
  parse error; the \<open>Eval\<close> variant of the error type is never produced.\<close>

theorem evaluate_error_is_parse_error:
  assumes "evaluate dbg s data = Err e"
  shows "\<exists>m. e = ParseError m"
  using assms unfolding evaluate_def by (auto dest: tokenize_error evaluate_tokens_error)

theorem evaluate_error_is_parse_error_witness:
  "evaluate (\<lambda>_. []) [] JNull = Err (ParseError ''empty expression'')
   \<and> (\<exists>m. ParseError ''empty expression'' = ParseError m)"
proof -
  have *: "evaluate (\<lambda>_. []) [] JNull = Err (ParseError ''empty expression'')"
    by (simp add: evaluate_def evaluate_tokens_def)
  with evaluate_error_is_parse_error [OF *] show ?thesis by simp
qed

text \<open>Comparing a missing field with a non-null operand: \<open>==\<close> and the four orderings are false,
  but \<open>!=\<close> is true, whereas the documentation of \<open>evaluate\<close> says that missing fields in
  comparisons evaluate to false.\<close>

theorem missing_field_comparison:
  assumes "walk_path data (split_on (CHR ''.'') path) = None"
    and "\<not> ev_is_null (prim_val data p)"
  shows "evaluate_tokens dbg data [TIdent path, unparse_op op, unparse_prim p] = Ok (op = OpNe)"
proof -
  have "evaluate_tokens dbg data (unparse_or ((Atom (Cmp (PField path) op p), []), []))
    = Ok (or_truth data ((Atom (Cmp (PField path) op p), []), []))"
    by (rule evaluate_tokens_complete)
  moreover have "compare VNull (prim_val data p) op = (op = OpNe)"
    using assms(2) by (cases op) (simp_all add: compare_def)
  ultimately show ?thesis
    using assms(1) by (simp add: unparse_or_def unparse_and_def or_truth_def and_truth_def
        resolve_path_def)
qed

theorem missing_field_comparison_witness:
  "evaluate_tokens (\<lambda>_. []) empty_object [TIdent ''a.b'', TNe, TStr ''x''] = Ok True"
  using missing_field_comparison [of empty_object "''a.b''" "PStr ''x''" "\<lambda>_. []" OpNe]
  by (simp add: empty_object_def)

text \<open>Numeric comparison is exact on integers of up to 53 bits although it goes through \<open>f64\<close>
  and tolerates differences below \<open>f64::EPSILON\<close>: for JSON integers \<open>m\<close> and \<open>n\<close> of absolute value
  at most \<open>2 ^ 53\<close> every operator is the operator on the integers.\<close>

theorem integer_comparison_exact:
  assumes "\<bar>m\<bar> \<le> 2 ^ 53" and "\<bar>n\<bar> \<le> 2 ^ 53"
  shows "compare (VNum (f64_of_int m)) (VNum (f64_of_int n)) op = int_compare op m n"
proof -
  have "f64_le (f64_of_int m) (f64_of_int n) = (m \<le> n)" "f64_le (f64_of_int n) (f64_of_int m) = (n \<le> m)"
    using assms by (auto simp: f64_of_int_exact f64_le_def)
  moreover have "f64_lt (f64_of_int m) (f64_of_int n) = (m < n)" "f64_lt (f64_of_int n) (f64_of_int m) = (n < m)"
    using assms by (simp_all add: f64_of_int_exact)
  ultimately show ?thesis
    by (cases op) (auto simp: compare_def f64_close_def f64_sub_int_close [OF assms])
qed

theorem integer_comparison_exact_witness:
  "compare (VNum (f64_of_int (2 ^ 53 - 1))) (VNum (f64_of_int (2 ^ 53))) OpLt"
  using integer_comparison_exact [of "2 ^ 53 - 1" "2 ^ 53" OpLt] by simp

end
