(* ===== verification/Flow_Graph.thy ===== *)
theory Flow_Graph
  imports Flow_Types
begin

text \<open>
  The graph analysis of \<open>executor/edges.rs\<close> (back-edge detection, entry nodes, adjacency maps,
  input resolution) and the structural validation of \<open>validate.rs\<close>.  The depth-first search is
  the nested recursion of the source over an explicit state (\<open>visited\<close>, \<open>in_stack\<close>,
  \<open>back_edges\<close>); its termination, the reachability of what it visits, the acyclicity of what
  remains when the back-edges are removed and the cyclicity of every edge it reports are proved
  here.
\<close>

section \<open>Adjacency\<close>

type_synonym adjacency = "(string \<times> edge list) list"

definition build_outgoing_edges :: "graph_def \<Rightarrow> adjacency" where
  "build_outgoing_edges graph = group_by from_node (edges graph)"

definition build_incoming_edges :: "graph_def \<Rightarrow> adjacency" where
  "build_incoming_edges graph = group_by to_node (edges graph)"

section \<open>Back-edge detection\<close>

record dfs_state =
  visited :: "string set"
  in_stack :: "string set"
  back_edges :: "string set"

function
  dfs_back_edges :: "adjacency \<Rightarrow> string \<Rightarrow> dfs_state \<Rightarrow> dfs_state" and
  dfs_loop :: "adjacency \<Rightarrow> edge list \<Rightarrow> dfs_state \<Rightarrow> dfs_state"
where
  "dfs_back_edges outgoing node st =
     (if node \<in> visited st then st
      else let st1 = st\<lparr>visited := insert node (visited st), in_stack := insert node (in_stack st)\<rparr>;
               st2 = (case bt_get node outgoing of
                        None \<Rightarrow> st1
                      | Some es \<Rightarrow> dfs_loop outgoing es st1)
           in st2\<lparr>in_stack := in_stack st2 - {node}\<rparr>)"
| "dfs_loop outgoing [] st = st"
| "dfs_loop outgoing (e # es) st =
     dfs_loop outgoing es
       (if to_node e \<in> in_stack st then st\<lparr>back_edges := insert (edge_id e) (back_edges st)\<rparr>
        else if to_node e \<notin> visited st then dfs_back_edges outgoing (to_node e) st
        else st)"
  by pat_completeness auto

text \<open>The search never forgets a visited node, whenever it returns; with that the nested recursion
  terminates: every call either visits a new node of the finite graph or shortens the list of
  edges to look at.\<close>

lemma dfs_visited_mono_partial:
  "dfs_back_edges_dfs_loop_dom (Inl (outgoing, node, st)) \<Longrightarrow>
     visited st \<subseteq> visited (dfs_back_edges outgoing node st)"
  "dfs_back_edges_dfs_loop_dom (Inr (outgoing, es, st)) \<Longrightarrow>
     visited st \<subseteq> visited (dfs_loop outgoing es st)"
proof (induction rule: dfs_back_edges_dfs_loop.pinduct)
  case (1 outgoing node st)
  then show ?case
    by (auto simp: dfs_back_edges.psimps Let_def split: option.splits)
next
  case (3 outgoing e es st)
  then show ?case
    by (subst dfs_loop.psimps(2)) (auto split: if_splits)
qed (simp add: dfs_loop.psimps)

fun edge_targets :: "edge list \<Rightarrow> string set" where
  "edge_targets es = set (map to_node es)"

definition all_targets :: "adjacency \<Rightarrow> string set" where
  "all_targets outgoing = (\<Union>(k, es) \<in> set outgoing. edge_targets es)"

lemma finite_all_targets [simp]: "finite (all_targets outgoing)"
  by (auto simp: all_targets_def)

lemma all_targets_get: "bt_get node outgoing = Some es \<Longrightarrow> edge_targets es \<subseteq> all_targets outgoing"
  by (force simp: all_targets_def dest: bt_get_Some_mem)

fun dfs_measure ::
  "(adjacency \<times> string \<times> dfs_state) + (adjacency \<times> edge list \<times> dfs_state) \<Rightarrow> nat \<times> nat" where
  "dfs_measure (Inl (outgoing, node, st)) =
     (card (insert node (all_targets outgoing) - visited st), 0)"
| "dfs_measure (Inr (outgoing, es, st)) =
     (card ((edge_targets es \<union> all_targets outgoing) - visited st), length es)"

termination dfs_back_edges
proof (relation "inv_image (less_than <*lex*> less_than) dfs_measure", goal_cases)
  case 1
  show ?case by (intro wf_inv_image wf_lex_prod wf_less_than)
next
  case (2 outgoing node st st1 es)
  let ?U = "insert node (all_targets outgoing) - visited st"
  have "(edge_targets es \<union> all_targets outgoing) - visited st1 \<subset> ?U"
    using 2 all_targets_get [of node outgoing es] by auto
  then have "card ((edge_targets es \<union> all_targets outgoing) - visited st1) < card ?U"
    by (intro psubset_card_mono) simp_all
  then show ?case by simp
next
  case (3 outgoing e es st)
  have "card (insert (to_node e) (all_targets outgoing) - visited st)
    \<le> card ((edge_targets (e # es) \<union> all_targets outgoing) - visited st)"
    by (rule card_mono) auto
  then show ?case by auto
next
  case (4 outgoing e es st)
  let ?st = "if to_node e \<in> in_stack st then st\<lparr>back_edges := insert (edge_id e) (back_edges st)\<rparr>
    else if to_node e \<notin> visited st then dfs_back_edges outgoing (to_node e) st else st"
  have "visited st \<subseteq> visited ?st" using 4 dfs_visited_mono_partial(1) by auto
  then have "card ((edge_targets es \<union> all_targets outgoing) - visited ?st)
    \<le> card ((edge_targets (e # es) \<union> all_targets outgoing) - visited st)"
    by (intro card_mono) auto
  then show ?case by auto
qed

declare dfs_back_edges.simps [simp del]

definition start_nodes :: "graph_def \<Rightarrow> string list" where
  "start_nodes graph =
     map instance_id (filter (\<lambda>n. instance_id n \<notin> set (map to_node (edges graph))) (nodes graph))"

definition dfs_init :: dfs_state where
  "dfs_init = \<lparr>visited = {}, in_stack = {}, back_edges = {}\<rparr>"

definition dfs_all :: "graph_def \<Rightarrow> dfs_state" where
  "dfs_all graph =
     (let outgoing = group_by from_node (edges graph)
      in if start_nodes graph = [] then
           fold (\<lambda>n st. if instance_id n \<notin> visited st
                        then dfs_back_edges outgoing (instance_id n) st else st)
             (nodes graph) dfs_init
         else fold (dfs_back_edges outgoing) (start_nodes graph) dfs_init)"

definition find_back_edges :: "graph_def \<Rightarrow> string set" where
  "find_back_edges graph = back_edges (dfs_all graph)"

definition find_entry_nodes :: "graph_def \<Rightarrow> string set \<Rightarrow> string list" where
  "find_entry_nodes graph back_edge_ids =
     (let nodes_with_incoming =
            set (map to_node (filter (\<lambda>e. edge_id e \<notin> back_edge_ids) (edges graph)))
      in map instance_id (filter (\<lambda>n. instance_id n \<notin> nodes_with_incoming) (nodes graph)))"

section \<open>Inputs of a node\<close>

definition resolve_edge_value :: "json \<Rightarrow> string \<Rightarrow> json" where
  "resolve_edge_value outputs port =
     (case jget outputs port of Some port_val \<Rightarrow> port_val | None \<Rightarrow> outputs)"

definition merge_input :: "(string \<rightharpoonup> json) \<Rightarrow> edge \<Rightarrow> json_map \<Rightarrow> json_map" where
  "merge_input node_outputs e merged =
     (case node_outputs (from_node e) of
        None \<Rightarrow> merged
      | Some upstream_output \<Rightarrow>
          bt_insert (to_port e)
            (case jget upstream_output (from_port e) of
               Some port_val \<Rightarrow> port_val
             | None \<Rightarrow> upstream_output) merged)"

definition resolve_inputs :: "string \<Rightarrow> (string \<rightharpoonup> json) \<Rightarrow> adjacency \<Rightarrow> json" where
  "resolve_inputs node_id node_outputs incoming =
     (case bt_get node_id incoming of
        None \<Rightarrow> JObject []
      | Some es \<Rightarrow>
          (let merged = fold (merge_input node_outputs) es []
           in if length merged = 1 then (case merged of (_, v) # _ \<Rightarrow> v | [] \<Rightarrow> JNull)
              else if merged = [] then JObject []
              else JObject merged))"

section \<open>Validation (\<open>validate.rs\<close>)\<close>

fun dup_errors :: "string \<Rightarrow> string list \<Rightarrow> string set \<Rightarrow> string list" where
  "dup_errors msg [] seen = []"
| "dup_errors msg (i # ids) seen =
     (if i \<in> seen then (msg @ i) # dup_errors msg ids seen
      else dup_errors msg ids (insert i seen))"

definition endpoint_errors :: "string set \<Rightarrow> edge \<Rightarrow> string list" where
  "endpoint_errors node_ids e =
     (if from_node e \<notin> node_ids
      then [''Edge '' @ edge_id e @ '' references unknown source node: '' @ from_node e] else [])
     @ (if to_node e \<notin> node_ids
        then [''Edge '' @ edge_id e @ '' references unknown target node: '' @ to_node e] else [])"

definition validate_graph :: "graph_def \<Rightarrow> (string list, unit) result" where
  "validate_graph graph =
     (let node_ids = set (map instance_id (nodes graph));
          back_edge_ids = find_back_edges graph;
          nodes_with_incoming =
            set (map to_node (filter (\<lambda>e. edge_id e \<notin> back_edge_ids) (edges graph)));
          entry_nodes = filter (\<lambda>i. i \<notin> nodes_with_incoming) (map instance_id (nodes graph));
          errors =
            dup_errors ''Duplicate node ID: '' (map instance_id (nodes graph)) {}
            @ concat (map (endpoint_errors node_ids) (edges graph))
            @ dup_errors ''Duplicate edge ID: '' (map edge_id (edges graph)) {}
            @ (if entry_nodes = [] \<and> nodes graph \<noteq> []
               then [''No entry nodes found (all nodes have incoming edges)''] else [])
            @ (if nodes graph = [] then [''Graph has no nodes''] else [])
      in if errors = [] then Ok () else Err errors)"

section \<open>What the search computes\<close>

definition edge_rel :: "edge list \<Rightarrow> (string \<times> string) set" where
  "edge_rel es = (\<lambda>e. (from_node e, to_node e)) ` set es"

text \<open>The part of the graph on which the search is finished, without the edges reported so far.\<close>

definition forward_rel :: "edge list \<Rightarrow> string set \<Rightarrow> string set \<Rightarrow> (string \<times> string) set" where
  "forward_rel es back fin =
     edge_rel (filter (\<lambda>e. edge_id e \<notin> back \<and> from_node e \<in> fin) es)"

definition dfs_inv :: "edge list \<Rightarrow> dfs_state \<Rightarrow> bool" where
  "dfs_inv E st \<longleftrightarrow>
     in_stack st \<subseteq> visited st
     \<and> (\<forall>e \<in> set E. from_node e \<in> visited st - in_stack st \<longrightarrow> to_node e \<in> visited st
          \<and> (edge_id e \<in> back_edges st \<or> to_node e \<in> visited st - in_stack st))
     \<and> acyclic (forward_rel E (back_edges st) (visited st - in_stack st))"

definition dfs_ext :: "dfs_state \<Rightarrow> dfs_state \<Rightarrow> bool" where
  "dfs_ext st st' \<longleftrightarrow>
     visited st \<subseteq> visited st' \<and> in_stack st' = in_stack st \<and> back_edges st \<subseteq> back_edges st'"

lemma dfs_ext_refl [simp]: "dfs_ext st st"
  by (simp add: dfs_ext_def)

lemma dfs_ext_trans: "dfs_ext a b \<Longrightarrow> dfs_ext b c \<Longrightarrow> dfs_ext a c"
  by (auto simp: dfs_ext_def)

text \<open>Adding a source whose edges lead into a closed acyclic part keeps it acyclic.\<close>

lemma acyclic_add_source:
  assumes "acyclic R" "R \<subseteq> F \<times> F" "n \<notin> F" "R' \<subseteq> R \<union> {n} \<times> F"
  shows "acyclic R'"
proof -
  have no: "(n, n) \<notin> (R \<union> {n} \<times> F)\<^sup>+"
    using assms(2,3) by (auto dest: tranclD2)
  have "(x, y) \<in> (R \<union> {n} \<times> F)\<^sup>+ \<Longrightarrow> x \<noteq> n \<Longrightarrow> (x, y) \<in> R\<^sup>+" for x y
  proof (induction rule: trancl_induct)
    case (step y z)
    then have "y \<in> F" using assms(2) by (meson mem_Sigma_iff subsetD tranclD2)
    with step assms(3) show ?case by (auto intro: trancl_into_trancl)
  qed auto
  with no assms(1) have "acyclic (R \<union> {n} \<times> F)" by (auto simp: acyclic_def)
  then show ?thesis using assms(4) by (rule acyclic_subset)
qed

lemma dfs_inv_push:
  assumes "dfs_inv E st" "node \<notin> visited st"
  shows "dfs_inv E (st\<lparr>visited := insert node (visited st), in_stack := insert node (in_stack st)\<rparr>)"
proof -
  have "insert node (visited st) - insert node (in_stack st) = visited st - in_stack st"
    using assms by (auto simp: dfs_inv_def)
  with assms show ?thesis by (auto simp: dfs_inv_def)
qed

lemma dfs_inv_back:
  assumes "dfs_inv E st"
  shows "dfs_inv E (st\<lparr>back_edges := insert b (back_edges st)\<rparr>)"
proof -
  have "forward_rel E (insert b (back_edges st)) F \<subseteq> forward_rel E (back_edges st) F" for F
    by (auto simp: forward_rel_def edge_rel_def)
  with assms show ?thesis by (auto simp: dfs_inv_def intro: acyclic_subset)
qed

lemma dfs_inv_pop:
  assumes inv: "dfs_inv E st" and node: "node \<in> in_stack st"
    and out: "\<And>e. e \<in> set E \<Longrightarrow> from_node e = node \<Longrightarrow> to_node e \<in> visited st
      \<and> (edge_id e \<in> back_edges st \<or> to_node e \<in> visited st - in_stack st)"
  shows "dfs_inv E (st\<lparr>in_stack := in_stack st - {node}\<rparr>)"
proof -
  let ?F = "visited st - in_stack st" and ?F' = "visited st - (in_stack st - {node})"
  have F': "?F' = insert node ?F" using inv node by (auto simp: dfs_inv_def)
  have sub: "forward_rel E (back_edges st) ?F \<subseteq> ?F \<times> ?F"
    using inv by (auto simp: dfs_inv_def forward_rel_def edge_rel_def)
  have sub': "forward_rel E (back_edges st) ?F' \<subseteq> forward_rel E (back_edges st) ?F \<union> {node} \<times> ?F"
    using out by (auto simp: forward_rel_def edge_rel_def F')
  have "acyclic (forward_rel E (back_edges st) ?F)" using inv by (simp add: dfs_inv_def)
  moreover have "node \<notin> ?F" using node by simp
  ultimately have "acyclic (forward_rel E (back_edges st) ?F')"
    using acyclic_add_source [OF _ sub _ sub'] by blast
  moreover have "to_node e \<in> visited st \<and> (edge_id e \<in> back_edges st \<or> to_node e \<in> ?F')"
    if "e \<in> set E" "from_node e \<in> ?F'" for e
  proof (cases "from_node e = node")
    case True
    with out [OF that(1)] F' show ?thesis by blast
  next
    case False
    with that inv F' show ?thesis unfolding dfs_inv_def by blast
  qed
  ultimately show ?thesis using inv by (auto simp: dfs_inv_def)
qed

lemma dfs_inv_step:
  assumes "outgoing = group_by from_node E"
  shows "dfs_inv E st \<Longrightarrow>
      dfs_inv E (dfs_back_edges outgoing node st) \<and> dfs_ext st (dfs_back_edges outgoing node st)
      \<and> node \<in> visited (dfs_back_edges outgoing node st)"
    and "dfs_inv E st \<Longrightarrow>
      dfs_inv E (dfs_loop outgoing es st) \<and> dfs_ext st (dfs_loop outgoing es st)
      \<and> (\<forall>e \<in> set es. to_node e \<in> visited (dfs_loop outgoing es st)
          \<and> (edge_id e \<in> back_edges (dfs_loop outgoing es st)
             \<or> to_node e \<in> visited (dfs_loop outgoing es st) - in_stack (dfs_loop outgoing es st)))"
  using assms
proof (induction outgoing node st and outgoing es st rule: dfs_back_edges_dfs_loop.induct)
  case (1 outgoing node st)
  show ?case
  proof (cases "node \<in> visited st")
    case True
    with 1 show ?thesis by (simp add: dfs_back_edges.simps)
  next
    case False
    define st1 where "st1 = st\<lparr>visited := insert node (visited st), in_stack := insert node (in_stack st)\<rparr>"
    define es where "es = filter (\<lambda>e. from_node e = node) E"
    define st2 where "st2 = dfs_loop outgoing es st1"
    have st2: "(case bt_get node outgoing of None \<Rightarrow> st1 | Some es \<Rightarrow> dfs_loop outgoing es st1) = st2"
      using 1 by (auto simp: group_by_eq st2_def es_def)
    then have eq: "dfs_back_edges outgoing node st = st2\<lparr>in_stack := in_stack st2 - {node}\<rparr>"
      using False by (simp add: dfs_back_edges.simps Let_def flip: st1_def)
    have inv1: "dfs_inv E st1" using 1 False by (simp add: st1_def dfs_inv_push)
    have L: "dfs_inv E st2 \<and> dfs_ext st1 st2 \<and> (\<forall>e \<in> set es. to_node e \<in> visited st2
        \<and> (edge_id e \<in> back_edges st2 \<or> to_node e \<in> visited st2 - in_stack st2))"
    proof (cases "es = []")
      case True
      with inv1 show ?thesis by (simp add: st2_def)
    next
      case nonempty: False
      then have "bt_get node outgoing = Some es" using 1 by (simp add: group_by_eq es_def)
      from "1.IH" [OF False st1_def this inv1 "1.prems"(2)] show ?thesis
        unfolding st2_def .
    qed
    then have "dfs_inv E (dfs_back_edges outgoing node st)"
      unfolding eq by (intro dfs_inv_pop) (auto simp: dfs_ext_def st1_def es_def)
    moreover have "node \<notin> in_stack st" using 1 False by (auto simp: dfs_inv_def)
    ultimately show ?thesis
      using L by (auto simp: eq dfs_ext_def st1_def)
  qed
next
  case (2 outgoing st)
  then show ?case by simp
next
  case (3 outgoing e es st)
  define st' where "st' = (if to_node e \<in> in_stack st then st\<lparr>back_edges := insert (edge_id e) (back_edges st)\<rparr>
        else if to_node e \<notin> visited st then dfs_back_edges outgoing (to_node e) st
        else st)"
  have step: "dfs_inv E st' \<and> dfs_ext st st' \<and> to_node e \<in> visited st'
      \<and> (edge_id e \<in> back_edges st' \<or> to_node e \<in> visited st' - in_stack st')"
  proof -
    consider "to_node e \<in> in_stack st" | "to_node e \<notin> in_stack st" "to_node e \<notin> visited st"
      | "to_node e \<notin> in_stack st" "to_node e \<in> visited st" by blast
    then show ?thesis
    proof cases
      case a: 1
      moreover have "to_node e \<in> visited st" using a "3.prems"(1) by (auto simp: dfs_inv_def)
      ultimately show ?thesis
        using dfs_inv_back [OF "3.prems"(1)] by (auto simp: st'_def dfs_ext_def)
    next
      case b: 2
      with "3.IH"(1) 3 show ?thesis by (auto simp: st'_def dfs_ext_def)
    next
      case c: 3
      with 3 show ?thesis by (simp add: st'_def)
    qed
  qed
  moreover have "dfs_loop outgoing (e # es) st = dfs_loop outgoing es st'"
    by (simp add: st'_def)
  ultimately show ?case
    using "3.IH"(2) 3(4) by (auto simp: st'_def [symmetric] dfs_ext_def)
qed

text \<open>Every reported edge closes a cycle: its target is an ancestor of its source.\<close>

definition cyclic_ids :: "edge list \<Rightarrow> string set" where
  "cyclic_ids E = edge_id ` {e \<in> set E. (to_node e, from_node e) \<in> (edge_rel E)\<^sup>*}"

lemma edge_rel_mem: "e \<in> set E \<Longrightarrow> (from_node e, to_node e) \<in> edge_rel E"
  by (simp add: edge_rel_def)

lemma dfs_reports_cycles:
  assumes "outgoing = group_by from_node E"
  shows "\<forall>s \<in> in_stack st. (s, node) \<in> (edge_rel E)\<^sup>* \<Longrightarrow> back_edges st \<subseteq> cyclic_ids E \<Longrightarrow>
      back_edges (dfs_back_edges outgoing node st) \<subseteq> cyclic_ids E
      \<and> in_stack (dfs_back_edges outgoing node st) \<subseteq> in_stack st"
    and "set es \<subseteq> set E \<Longrightarrow> \<forall>e \<in> set es. \<forall>s \<in> in_stack st. (s, from_node e) \<in> (edge_rel E)\<^sup>* \<Longrightarrow>
      back_edges st \<subseteq> cyclic_ids E \<Longrightarrow>
      back_edges (dfs_loop outgoing es st) \<subseteq> cyclic_ids E
      \<and> in_stack (dfs_loop outgoing es st) \<subseteq> in_stack st"
  using assms
proof (induction outgoing node st and outgoing es st rule: dfs_back_edges_dfs_loop.induct)
  case (1 outgoing node st)
  show ?case
  proof (cases "node \<in> visited st \<or> bt_get node outgoing = None")
    case True
    with "1.prems"(2) show ?thesis by (auto simp: dfs_back_edges.simps Let_def)
  next
    case False
    then obtain es where es: "bt_get node outgoing = Some es" and new: "node \<notin> visited st" by auto
    define st1 where "st1 = st\<lparr>visited := insert node (visited st), in_stack := insert node (in_stack st)\<rparr>"
    have "set es \<subseteq> {e \<in> set E. from_node e = node}"
      using group_by_mem [of node from_node E es] es "1.prems"(3) by simp
    then have "back_edges (dfs_loop outgoing es st1) \<subseteq> cyclic_ids E
        \<and> in_stack (dfs_loop outgoing es st1) \<subseteq> in_stack st1"
      using "1.prems" by (intro "1.IH" [OF new st1_def es]) (auto simp: st1_def)
    then show ?thesis
      using new es by (auto simp: dfs_back_edges.simps Let_def st1_def)
  qed
next
  case (3 outgoing e es st)
  have cyc: "edge_id e \<in> cyclic_ids E" if "to_node e \<in> in_stack st"
    using "3.prems"(1,2) that by (auto simp: cyclic_ids_def)
  have "(s, to_node e) \<in> (edge_rel E)\<^sup>*" if "s \<in> in_stack st" for s
    using "3.prems"(1,2) that edge_rel_mem [of e E] by (auto intro: rtrancl_into_rtrancl)
  then have rec: "back_edges (dfs_back_edges outgoing (to_node e) st) \<subseteq> cyclic_ids E
      \<and> in_stack (dfs_back_edges outgoing (to_node e) st) \<subseteq> in_stack st"
    if "to_node e \<notin> in_stack st" "to_node e \<notin> visited st"
    using "3.IH"(1) [OF that] "3.prems"(3,4) by blast
  define st' where "st' = (if to_node e \<in> in_stack st then st\<lparr>back_edges := insert (edge_id e) (back_edges st)\<rparr>
        else if to_node e \<notin> visited st then dfs_back_edges outgoing (to_node e) st
        else st)"
  have st': "back_edges st' \<subseteq> cyclic_ids E \<and> in_stack st' \<subseteq> in_stack st"
    using cyc rec "3.prems"(3) by (simp add: st'_def)
  then have "\<forall>e \<in> set es. \<forall>s \<in> in_stack st'. (s, from_node e) \<in> (edge_rel E)\<^sup>*"
    using "3.prems"(2) by auto
  with "3.IH"(2) "3.prems" st' have "back_edges (dfs_loop outgoing es st') \<subseteq> cyclic_ids E
      \<and> in_stack (dfs_loop outgoing es st') \<subseteq> in_stack st'"
    unfolding st'_def by simp
  with st' show ?case unfolding dfs_loop.simps st'_def [symmetric] by blast
qed simp

section \<open>Guarantees of the whole search\<close>

lemma dfs_init_inv [simp]: "dfs_inv E dfs_init"
  by (simp add: dfs_inv_def dfs_init_def forward_rel_def edge_rel_def acyclic_def)

text \<open>Both driver loops are a fold of the search over the roots: the test on \<open>visited\<close> in the first
  one repeats the test at the head of the search.\<close>

definition dfs_roots :: "graph_def \<Rightarrow> string list" where
  "dfs_roots graph =
     (if start_nodes graph = [] then map instance_id (nodes graph) else start_nodes graph)"

lemma dfs_all_fold:
  "dfs_all graph = fold (dfs_back_edges (group_by from_node (edges graph))) (dfs_roots graph) dfs_init"
  by (auto simp: dfs_all_def dfs_roots_def fold_map Let_def dfs_back_edges.simps intro!: fold_cong)

lemma dfs_fold_inv:
  assumes "outgoing = group_by from_node E" "dfs_inv E st"
  shows "dfs_inv E (fold (dfs_back_edges outgoing) ns st) \<and> dfs_ext st (fold (dfs_back_edges outgoing) ns st)
    \<and> set ns \<subseteq> visited (fold (dfs_back_edges outgoing) ns st)"
  using assms(2)
proof (induction ns arbitrary: st)
  case (Cons n ns)
  let ?st = "dfs_back_edges outgoing n st"
  have st: "dfs_inv E ?st" "dfs_ext st ?st" "n \<in> visited ?st"
    using dfs_inv_step(1) [OF assms(1) Cons.prems, of n] by blast+
  from Cons.IH [OF st(1)] have "dfs_ext ?st (fold (dfs_back_edges outgoing) ns ?st)" by blast
  with dfs_ext_trans [OF st(2) this] Cons.IH [OF st(1)] st(3) show ?case
    by (auto simp: dfs_ext_def)
qed simp

lemma dfs_fold_cycles:
  assumes "outgoing = group_by from_node E" "back_edges st \<subseteq> cyclic_ids E" "in_stack st = {}"
  shows "back_edges (fold (dfs_back_edges outgoing) ns st) \<subseteq> cyclic_ids E"
  using assms(2,3)
proof (induction ns arbitrary: st)
  case (Cons n ns)
  from dfs_reports_cycles(1) [OF assms(1), of st n] Cons.prems have
    "back_edges (dfs_back_edges outgoing n st) \<subseteq> cyclic_ids E" "in_stack (dfs_back_edges outgoing n st) = {}"
    by auto
  with Cons.IH show ?case by simp
qed simp

lemma dfs_all_facts:
  fixes graph
  defines "st \<equiv> dfs_all graph"
  shows "dfs_inv (edges graph) st" "in_stack st = {}" "set (dfs_roots graph) \<subseteq> visited st"
    "back_edges st \<subseteq> cyclic_ids (edges graph)"
proof -
  have *: "dfs_inv (edges graph) st \<and> dfs_ext dfs_init st \<and> set (dfs_roots graph) \<subseteq> visited st"
    unfolding st_def dfs_all_fold by (rule dfs_fold_inv) simp_all
  then show "dfs_inv (edges graph) st" "set (dfs_roots graph) \<subseteq> visited st" by simp_all
  from * show "in_stack st = {}" by (simp add: dfs_ext_def dfs_init_def)
  show "back_edges st \<subseteq> cyclic_ids (edges graph)"
    unfolding st_def dfs_all_fold by (rule dfs_fold_cycles) (simp_all add: dfs_init_def)
qed

lemma dfs_all_closed:
  assumes "e \<in> set (edges graph)" "from_node e \<in> visited (dfs_all graph)"
  shows "to_node e \<in> visited (dfs_all graph)"
  using dfs_all_facts(1,2) [of graph] assms by (auto simp: dfs_inv_def)

lemma dfs_all_acyclic:
  "acyclic (forward_rel (edges graph) (find_back_edges graph) (visited (dfs_all graph)))"
  using dfs_all_facts(1,2) [of graph] by (simp add: dfs_inv_def find_back_edges_def)

text \<open>A node without incoming edges is a root, and with known endpoints every node is visited when
  there is none.\<close>

lemma start_nodes_empty_visited:
  "start_nodes graph = [] \<Longrightarrow> instance_id ` set (nodes graph) \<subseteq> visited (dfs_all graph)"
  using dfs_all_facts(3) [of graph] by (simp add: dfs_roots_def)

lemma finite_acyclic_source:
  assumes "finite R" "acyclic R" "x \<in> A"
  shows "\<exists>y \<in> A. \<forall>z. (z, y) \<in> R \<longrightarrow> z \<notin> A"
  using finite_acyclic_wf [OF assms(1,2)] assms(3) unfolding wf_eq_minimal by blast

definition known_endpoints :: "graph_def \<Rightarrow> bool" where
  "known_endpoints graph \<longleftrightarrow> (\<forall>e \<in> set (edges graph).
     from_node e \<in> instance_id ` set (nodes graph) \<and> to_node e \<in> instance_id ` set (nodes graph))"

lemma finite_forward_rel [simp]: "finite (forward_rel es back fin)"
  by (simp add: forward_rel_def edge_rel_def)

lemma entry_node_exists:
  assumes "known_endpoints graph" "nodes graph \<noteq> []"
  shows "find_entry_nodes graph (find_back_edges graph) \<noteq> []"
proof (cases "start_nodes graph = []")
  case False
  then show ?thesis
    by (fastforce simp: start_nodes_def find_entry_nodes_def filter_empty_conv Let_def)
next
  case True
  let ?N = "instance_id ` set (nodes graph)"
  let ?R = "forward_rel (edges graph) (find_back_edges graph) (visited (dfs_all graph))"
  obtain n where "n \<in> ?N" using assms(2) by (cases "nodes graph") auto
  with finite_acyclic_source [OF _ dfs_all_acyclic] obtain y where y: "y \<in> ?N"
    and src: "\<forall>z. (z, y) \<in> ?R \<longrightarrow> z \<notin> ?N" by (metis finite_forward_rel)
  have "y \<noteq> to_node e" if e: "e \<in> set (edges graph)" "edge_id e \<notin> find_back_edges graph" for e
  proof
    assume "y = to_node e"
    moreover have "from_node e \<in> ?N" using e assms(1) by (simp add: known_endpoints_def)
    ultimately have "(from_node e, y) \<in> ?R"
      using e start_nodes_empty_visited [OF True] by (auto simp: forward_rel_def edge_rel_def)
    with src \<open>from_node e \<in> ?N\<close> show False by blast
  qed
  with y show ?thesis by (force simp: find_entry_nodes_def filter_empty_conv Let_def)
qed

text \<open>What is visited is exactly what the roots reach.\<close>

lemma dfs_visits_reachable:
  assumes "outgoing = group_by from_node E"
  shows "visited (dfs_back_edges outgoing node st) \<subseteq> visited st \<union> (edge_rel E)\<^sup>* `` {node}"
    and "set es \<subseteq> set E \<Longrightarrow>
      visited (dfs_loop outgoing es st) \<subseteq> visited st \<union> (edge_rel E)\<^sup>* `` (to_node ` set es)"
  using assms
proof (induction outgoing node st and outgoing es st rule: dfs_back_edges_dfs_loop.induct)
  case (1 outgoing node st)
  show ?case
  proof (cases "node \<in> visited st \<or> bt_get node outgoing = None")
    case True
    then show ?thesis by (auto simp: dfs_back_edges.simps Let_def)
  next
    case False
    then obtain es where es: "bt_get node outgoing = Some es" and new: "node \<notin> visited st" by auto
    define st1 where "st1 = st\<lparr>visited := insert node (visited st), in_stack := insert node (in_stack st)\<rparr>"
    have sub: "set es \<subseteq> {e \<in> set E. from_node e = node}"
      using group_by_mem [of node from_node E es] es "1.prems" by simp
    then have "visited (dfs_loop outgoing es st1) \<subseteq> visited st1 \<union> (edge_rel E)\<^sup>* `` (to_node ` set es)"
      using "1.prems" by (intro "1.IH" [OF new st1_def es]) auto
    moreover have "(edge_rel E)\<^sup>* `` (to_node ` set es) \<subseteq> (edge_rel E)\<^sup>* `` {node}"
      using sub edge_rel_mem by (fastforce intro: converse_rtrancl_into_rtrancl)
    ultimately show ?thesis
      using new es by (auto simp: dfs_back_edges.simps Let_def st1_def)
  qed
next
  case (3 outgoing e es st)
  define st' where "st' = (if to_node e \<in> in_stack st then st\<lparr>back_edges := insert (edge_id e) (back_edges st)\<rparr>
        else if to_node e \<notin> visited st then dfs_back_edges outgoing (to_node e) st
        else st)"
  have "visited st' \<subseteq> visited st \<union> (edge_rel E)\<^sup>* `` {to_node e}"
    using "3.IH"(1) "3.prems"(2) by (auto simp: st'_def)
  moreover have "visited (dfs_loop outgoing es st') \<subseteq> visited st' \<union> (edge_rel E)\<^sup>* `` (to_node ` set es)"
    using "3.IH"(2) "3.prems" unfolding st'_def by simp
  ultimately show ?case unfolding dfs_loop.simps st'_def [symmetric] by auto
qed simp

lemma dfs_all_visited:
  "visited (dfs_all graph) = (edge_rel (edges graph))\<^sup>* `` set (dfs_roots graph)"
proof
  have "visited (fold (dfs_back_edges (group_by from_node E)) ns st)
    \<subseteq> visited st \<union> (edge_rel E)\<^sup>* `` set ns" for E ns st
  proof (induction ns arbitrary: st)
    case (Cons n ns)
    from Cons [of "dfs_back_edges (group_by from_node E) n st"]
      dfs_visits_reachable(1) [OF refl, of E n st] show ?case by auto
  qed simp
  from this [of "edges graph" "dfs_roots graph" dfs_init]
  show "visited (dfs_all graph) \<subseteq> (edge_rel (edges graph))\<^sup>* `` set (dfs_roots graph)"
    by (simp add: dfs_all_fold dfs_init_def)
  show "(edge_rel (edges graph))\<^sup>* `` set (dfs_roots graph) \<subseteq> visited (dfs_all graph)"
  proof safe
    fix r n
    assume "(r, n) \<in> (edge_rel (edges graph))\<^sup>*" "r \<in> set (dfs_roots graph)"
    then show "n \<in> visited (dfs_all graph)"
      using dfs_all_facts(3) [of graph]
      by (induction rule: rtrancl_induct) (auto simp: edge_rel_def dfs_all_closed)
  qed
qed

section \<open>Validation and inputs: helper lemmas\<close>

lemma dup_errors_Nil: "dup_errors msg ids seen = [] \<longleftrightarrow> distinct ids \<and> set ids \<inter> seen = {}"
  by (induction ids arbitrary: seen) auto

lemma endpoint_errors_Nil:
  "concat (map (endpoint_errors (instance_id ` set (nodes g))) (edges g)) = [] \<longleftrightarrow> known_endpoints g"
  by (auto simp: endpoint_errors_def known_endpoints_def)

lemma entry_filter_eq:
  "filter (\<lambda>i. i \<notin> S) (map instance_id ns) = map instance_id (filter (\<lambda>n. instance_id n \<notin> S) ns)"
  by (simp add: filter_map comp_def)

lemma merge_input_wf: "bt_wf m \<Longrightarrow> bt_wf (fold (merge_input outs) es m)"
  by (induction es arbitrary: m) (auto simp: merge_input_def split: option.split)

definition live_edges :: "(string \<rightharpoonup> json) \<Rightarrow> edge list \<Rightarrow> edge list" where
  "live_edges outs es = filter (\<lambda>e. outs (from_node e) \<noteq> None) es"

definition edge_input :: "(string \<rightharpoonup> json) \<Rightarrow> edge \<Rightarrow> json" where
  "edge_input outs e = resolve_edge_value (the (outs (from_node e))) (from_port e)"

lemma merge_input_lookup:
  "bt_get p (fold (merge_input outs) es m) =
     (case rev (filter (\<lambda>e. to_port e = p) (live_edges outs es)) of
        [] \<Rightarrow> bt_get p m
      | e # _ \<Rightarrow> Some (edge_input outs e))"
  by (induction es arbitrary: m)
     (auto simp: merge_input_def live_edges_def edge_input_def resolve_edge_value_def
       split: option.split list.split)

lemma merge_input_ports:
  "fst ` set (fold (merge_input outs) es m) = to_port ` set (live_edges outs es) \<union> fst ` set m"
  by (induction es arbitrary: m)
     (auto simp: merge_input_def live_edges_def split: option.split)

lemma bt_wf_length: "bt_wf m \<Longrightarrow> length m = card (fst ` set m)"
  by (metis bt_wf_def distinct_card length_map list.set_map sorted_wrt_less_distinct)

lemma merged_single:
  assumes "m = fold (merge_input outs) es []" "m = [(p, v)]"
  shows "v = edge_input outs (last (live_edges outs es))"
proof -
  have "fst ` set m = {p}" using assms(2) by simp
  then have "to_port ` set (live_edges outs es) = {p}"
    using merge_input_ports [of outs es "[]"] assms(1) by simp
  then have "filter (\<lambda>e. to_port e = p) (live_edges outs es) = live_edges outs es"
    "live_edges outs es \<noteq> []" by (auto simp: filter_id_conv)
  then show ?thesis
    using merge_input_lookup [of p outs es "[]"] assms(2) unfolding assms(1) [symmetric]
    by (cases "live_edges outs es" rule: rev_cases) auto
qed

section \<open>Properties\<close>

text \<open>(C3) Removing the back-edges that \<open>find_back_edges\<close> reports makes the part of the graph the
  search reaches acyclic: the executor's readiness rule, which waits for every source of a
  non-back-edge, never waits in a circle there.\<close>

theorem back_edge_removal_acyclic:
  "acyclic {(from_node e, to_node e) | e.
     e \<in> set (edges graph) \<and> edge_id e \<notin> find_back_edges graph
     \<and> from_node e \<in> (edge_rel (edges graph))\<^sup>* `` set (dfs_roots graph)}"
proof -
  have "forward_rel (edges graph) (find_back_edges graph) (visited (dfs_all graph)) =
    {(from_node e, to_node e) | e. e \<in> set (edges graph) \<and> edge_id e \<notin> find_back_edges graph
     \<and> from_node e \<in> (edge_rel (edges graph))\<^sup>* `` set (dfs_roots graph)}"
    unfolding dfs_all_visited by (auto simp: forward_rel_def edge_rel_def)
  with dfs_all_acyclic [of graph] show ?thesis by simp
qed

text \<open>Only edges that close a cycle are reported: a reported identifier belongs to an edge whose
  target reaches its source, so an acyclic graph has no back-edges.\<close>

theorem back_edges_close_cycles:
  "find_back_edges graph \<subseteq>
     edge_id ` {e \<in> set (edges graph). (to_node e, from_node e) \<in> (edge_rel (edges graph))\<^sup>*}"
  using dfs_all_facts(4) [of graph] by (simp add: find_back_edges_def cyclic_ids_def)

text \<open>The depth-first search terminates on every graph, whatever its shape, and visits exactly
  the nodes reachable from the nodes without incoming edges, or from all nodes when every node
  has one.\<close>

theorem dfs_visits_exactly_reachable:
  "visited (dfs_all graph) = (edge_rel (edges graph))\<^sup>* `` set (dfs_roots graph)
   \<and> in_stack (dfs_all graph) = {}"
  using dfs_all_visited dfs_all_facts(2) by blast

text \<open>(C19) Validation accepts a graph exactly when it has a node, its node identifiers and its edge
  identifiers are distinct and every edge joins known nodes: the fourth check, that an entry
  node exists, can never be the one that rejects a graph.\<close>

theorem validate_graph_iff:
  "validate_graph graph = Ok () \<longleftrightarrow>
     nodes graph \<noteq> [] \<and> distinct (map instance_id (nodes graph))
     \<and> known_endpoints graph \<and> distinct (map edge_id (edges graph))"
proof -
  have "validate_graph graph = Ok () \<longleftrightarrow>
      dup_errors ''Duplicate node ID: '' (map instance_id (nodes graph)) {} = []
      \<and> concat (map (endpoint_errors (instance_id ` set (nodes graph))) (edges graph)) = []
      \<and> dup_errors ''Duplicate edge ID: '' (map edge_id (edges graph)) {} = []
      \<and> \<not> (find_entry_nodes graph (find_back_edges graph) = [] \<and> nodes graph \<noteq> [])
      \<and> nodes graph \<noteq> []"
    unfolding validate_graph_def Let_def entry_filter_eq find_entry_nodes_def by simp
  then show ?thesis
    unfolding dup_errors_Nil endpoint_errors_Nil using entry_node_exists [of graph] by blast
qed

text \<open>A validated graph gives the executor at least one entry node to start from.\<close>

theorem validated_graph_has_entry:
  assumes "validate_graph graph = Ok ()"
  shows "find_entry_nodes graph (find_back_edges graph) \<noteq> []"
  using assms unfolding validate_graph_def Let_def entry_filter_eq find_entry_nodes_def
  by (auto split: if_splits simp del: append.simps)

definition loop_graph :: graph_def where
  "loop_graph =
     \<lparr>graph_schema_version = 1, graph_id = ''g'', graph_name = ''g'', graph_version = ''1'',
      nodes = [\<lparr>instance_id = ''a'', node_type = ''t'', node_config = JNull, position = None\<rparr>,
               \<lparr>instance_id = ''b'', node_type = ''t'', node_config = JNull, position = None\<rparr>],
      edges = [\<lparr>edge_id = ''e1'', from_node = ''a'', from_port = ''o'', to_node = ''b'', to_port = ''i'',
                edge_cond = None\<rparr>,
               \<lparr>edge_id = ''e2'', from_node = ''b'', from_port = ''o'', to_node = ''a'', to_port = ''i'',
                edge_cond = None\<rparr>],
      graph_metadata = [], tool_definitions = []\<rparr>"

lemma loop_graph_back_edges: "find_back_edges loop_graph = {''e2''}"
  by code_simp

theorem validated_graph_has_entry_witness:
  "validate_graph loop_graph = Ok () \<and> find_entry_nodes loop_graph {''e2''} \<noteq> []"
proof -
  have "validate_graph loop_graph = Ok ()"
    unfolding validate_graph_def loop_graph_back_edges
    by (simp add: loop_graph_def endpoint_errors_def)
  with validated_graph_has_entry [of loop_graph] show ?thesis by (simp add: loop_graph_back_edges)
qed

text \<open>(C25) The inputs of a node: only edges whose source has an output contribute; the value of an
  edge is the named port of that output, or the whole output when it has no such port; the
  last edge wins on a port; a single port is unwrapped and otherwise the ports form an object.\<close>

theorem resolve_inputs_spec:
  fixes graph node_outputs n
  defines "live \<equiv> live_edges node_outputs (filter (\<lambda>e. to_node e = n) (edges graph))"
  shows "\<exists>m. bt_wf m
    \<and> (\<forall>p. bt_get p m = (case rev (filter (\<lambda>e. to_port e = p) live) of
             [] \<Rightarrow> None | e # _ \<Rightarrow> Some (edge_input node_outputs e)))
    \<and> resolve_inputs n node_outputs (build_incoming_edges graph) =
        (if card (to_port ` set live) = 1 then edge_input node_outputs (last live) else JObject m)"
proof -
  let ?es = "filter (\<lambda>e. to_node e = n) (edges graph)"
  define m where "m = fold (merge_input node_outputs) ?es []"
  have wf: "bt_wf m" by (simp add: m_def merge_input_wf)
  have len: "length m = card (to_port ` set live)"
    using bt_wf_length [OF wf] merge_input_ports [of node_outputs ?es "[]"] by (simp add: m_def live_def)
  have "resolve_inputs n node_outputs (build_incoming_edges graph) =
      (if length m = 1 then (case m of (_, v) # _ \<Rightarrow> v | [] \<Rightarrow> JNull) else JObject m)"
    unfolding resolve_inputs_def build_incoming_edges_def group_by_eq m_def Let_def by auto
  also have "\<dots> = (if length m = 1 then edge_input node_outputs (last live) else JObject m)"
    using merged_single [OF m_def] by (auto simp: live_def length_Suc_conv)
  finally show ?thesis
    using wf merge_input_lookup [of _ node_outputs ?es "[]", unfolded bt_get.simps] len
    by (intro exI [of _ m]) (simp add: m_def live_def)
qed

end
