(* ===== verification/Node_Exec.thy ===== *)
theory Node_Exec
  imports Write_Events
begin

text \<open>
  \<open>executor/node.rs\<close>: one node execution with retry and timeout.  What the handler does on an
  attempt (its value, its error or the elapsed timeout, with the LLM records and node events
  found in the channels afterwards) is given by an oracle indexed by the attempt number, so
  every statement holds for all handlers.  The result is the \<open>NodeResult\<close> together with the
  trace of effects in program order: emitted events, calls of the observability provider and
  backoff sleeps.  \<open>f64::powi\<close>, whose precision Rust leaves open, is the parameter \<open>env_powi\<close>.
\<close>

record node_event =
  nev_name :: string
  nev_data :: json
  nev_sensitivity :: sensitivity

datatype node_outcome = NodeSuccess json | NodeFail string

record node_result =
  res_node_id :: string
  res_fan_out_index :: "u32 option"
  res_outcome :: node_outcome
  res_llm_records :: "llm_invocation_record list"
  res_events :: "node_event list"

text \<open>What one attempt of the handler yields under \<open>tokio::time::timeout\<close>.\<close>

datatype timed_result = Returned json | Raised node_error | Elapsed

record attempt =
  att_result :: timed_result
  att_duration_ms :: u64
  att_llm :: "llm_invocation_record list"
  att_events :: "node_event list"

datatype span_status = SpanOk | SpanError string | SpanTimeout

datatype node_effect =
    Emit write_event
  | StartSpan u32
  | RecordIo json json
  | RecordError node_error
  | EndSpan span_status
  | Sleep u64

record node_env =
  env_run_id :: string
  env_node_id :: string
  env_inputs :: json
  env_timeout_ms :: u64
  env_retry :: retry_policy
  env_fan_out_index :: "u32 option"
  env_powi :: "f64 \<Rightarrow> int \<Rightarrow> f64"
  env_now :: "u32 \<Rightarrow> nat \<Rightarrow> datetime"

definition started_event :: "node_env \<Rightarrow> u32 \<Rightarrow> write_event" where
  "started_event env a =
     NodeStarted 0 WRITE_EVENT_SCHEMA_VERSION (env_run_id env) (env_node_id env) (env_inputs env)
       (env_fan_out_index env) a (env_now env a 0)"

definition completed_event :: "node_env \<Rightarrow> u32 \<Rightarrow> json \<Rightarrow> u64 \<Rightarrow> write_event" where
  "completed_event env a outputs duration_ms =
     NodeCompleted 0 WRITE_EVENT_SCHEMA_VERSION (env_run_id env) (env_node_id env) outputs
       (env_fan_out_index env) duration_ms (env_now env a 1)"

definition checkpoint_event :: "node_env \<Rightarrow> u32 \<Rightarrow> json \<Rightarrow> write_event" where
  "checkpoint_event env a outputs =
     Checkpoint 0 WRITE_EVENT_SCHEMA_VERSION (env_run_id env) (env_node_id env) outputs (env_now env a 2)"

definition failed_event :: "node_env \<Rightarrow> u32 \<Rightarrow> string \<Rightarrow> bool \<Rightarrow> write_event" where
  "failed_event env a error will_retry =
     NodeFailed 0 WRITE_EVENT_SCHEMA_VERSION (env_run_id env) (env_node_id env) error will_retry a
       (env_now env a 1)"

definition backoff_of :: "node_env \<Rightarrow> u32 \<Rightarrow> u64" where
  "backoff_of env a =
     f64_to_u64 (f64_mul (f64_of_int (uint (backoff_ms (env_retry env))))
       (env_powi env (backoff_multiplier (env_retry env)) (sint (a - 1))))"

fun is_retryable :: "node_error \<Rightarrow> bool" where
  "is_retryable (Retryable _) = True"
| "is_retryable _ = False"

definition max_attempts_of :: "node_env \<Rightarrow> u32" where
  "max_attempts_of env = max (max_attempts (env_retry env)) 1"

definition mk_result ::
  "node_env \<Rightarrow> node_outcome \<Rightarrow> llm_invocation_record list \<Rightarrow> node_event list \<Rightarrow> node_result" where
  "mk_result env outcome llm evs =
     \<lparr>res_node_id = env_node_id env, res_fan_out_index = env_fan_out_index env,
      res_outcome = outcome, res_llm_records = llm, res_events = evs\<rparr>"

text \<open>The loop \<open>for attempt in 1..=max_attempts\<close> over the attempt numbers still to come, with the
  accumulators of the source and the effect trace.\<close>

fun attempt_loop ::
  "node_env \<Rightarrow> (u32 \<Rightarrow> attempt) \<Rightarrow> u32 list \<Rightarrow> string \<Rightarrow> llm_invocation_record list
   \<Rightarrow> node_event list \<Rightarrow> node_effect list \<Rightarrow> node_result \<times> node_effect list" where
  "attempt_loop env h [] last_error llm evs tr = (mk_result env (NodeFail last_error) llm evs, tr)"
| "attempt_loop env h (a # as) last_error llm evs tr =
     (let tr1 = tr @ [Emit (started_event env a), StartSpan a];
          o1 = h a;
          llm1 = llm @ att_llm o1;
          evs1 = evs @ att_events o1
      in case att_result o1 of
           Returned outputs \<Rightarrow>
             (mk_result env (NodeSuccess outputs) llm1 evs1,
              tr1 @ [RecordIo (env_inputs env) outputs, EndSpan SpanOk,
                     Emit (completed_event env a outputs (att_duration_ms o1)),
                     Emit (checkpoint_event env a outputs)])
         | Raised node_error \<Rightarrow>
             (let will_retry = (is_retryable node_error \<and> a < max_attempts_of env);
                  error_msg = node_error_to_string node_error;
                  tr2 = tr1 @ [RecordError node_error, EndSpan (SpanError error_msg),
                               Emit (failed_event env a error_msg will_retry)]
              in if will_retry
                 then attempt_loop env h as error_msg llm1 evs1 (tr2 @ [Sleep (backoff_of env a)])
                 else (mk_result env (NodeFail error_msg) llm1 evs1, tr2))
         | Elapsed \<Rightarrow>
             (let error = Timeout (env_timeout_ms env);
                  error_msg = node_error_to_string error
              in (mk_result env (NodeFail error_msg) llm1 evs1,
                  tr1 @ [RecordError error, EndSpan SpanTimeout,
                         Emit (failed_event env a error_msg False)])))"

definition execute_node :: "node_env \<Rightarrow> (u32 \<Rightarrow> attempt) \<Rightarrow> node_result \<times> node_effect list" where
  "execute_node env h =
     attempt_loop env h (map of_nat [1..<Suc (unat (max_attempts_of env))]) [] [] [] []"

section \<open>Specification of the retry loop\<close>

text \<open>An attempt is retried when it raised a retryable error and is not the last one allowed.\<close>

definition retried :: "node_env \<Rightarrow> (u32 \<Rightarrow> attempt) \<Rightarrow> u32 \<Rightarrow> bool" where
  "retried env h a \<longleftrightarrow>
     (case att_result (h a) of Raised e \<Rightarrow> is_retryable e \<and> a < max_attempts_of env | _ \<Rightarrow> False)"

fun outcome_of :: "node_env \<Rightarrow> timed_result \<Rightarrow> node_outcome" where
  "outcome_of env (Returned outputs) = NodeSuccess outputs"
| "outcome_of env (Raised e) = NodeFail (node_error_to_string e)"
| "outcome_of env Elapsed = NodeFail (node_error_to_string (Timeout (env_timeout_ms env)))"

definition attempt_trace :: "node_env \<Rightarrow> (u32 \<Rightarrow> attempt) \<Rightarrow> u32 \<Rightarrow> node_effect list" where
  "attempt_trace env h a =
     [Emit (started_event env a), StartSpan a] @
     (case att_result (h a) of
        Returned outputs \<Rightarrow>
          [RecordIo (env_inputs env) outputs, EndSpan SpanOk,
           Emit (completed_event env a outputs (att_duration_ms (h a))),
           Emit (checkpoint_event env a outputs)]
      | Raised e \<Rightarrow>
          [RecordError e, EndSpan (SpanError (node_error_to_string e)),
           Emit (failed_event env a (node_error_to_string e) (retried env h a))]
          @ (if retried env h a then [Sleep (backoff_of env a)] else [])
      | Elapsed \<Rightarrow>
          [RecordError (Timeout (env_timeout_ms env)), EndSpan SpanTimeout,
           Emit (failed_event env a (node_error_to_string (Timeout (env_timeout_ms env))) False)])"

lemma attempt_loop_stop:
  assumes "\<not> retried env h a"
  shows "attempt_loop env h (a # as) err llm evs tr =
    (mk_result env (outcome_of env (att_result (h a))) (llm @ att_llm (h a)) (evs @ att_events (h a)),
     tr @ attempt_trace env h a)"
  using assms by (auto simp: retried_def attempt_trace_def Let_def split: timed_result.splits)

lemma attempt_loop_retry:
  assumes "retried env h a"
  shows "\<exists>err'. attempt_loop env h (a # as) err llm evs tr =
    attempt_loop env h as err' (llm @ att_llm (h a)) (evs @ att_events (h a)) (tr @ attempt_trace env h a)"
  using assms by (auto simp: retried_def attempt_trace_def Let_def split: timed_result.splits)

declare attempt_loop.simps(2) [simp del]

lemma last_attempt_not_retried: "\<not> retried env h (max_attempts_of env)"
  by (auto simp: retried_def split: timed_result.split)

lemma max_attempts_pos [simp]: "1 \<le> unat (max_attempts_of env)"
  by (metis max.cobounded2 max_attempts_of_def unat_1 word_le_nat_alt)

lemma attempt_loop_spec:
  assumes "i \<le> unat (max_attempts_of env)"
  shows "\<exists>k. i \<le> k \<and> k \<le> unat (max_attempts_of env)
    \<and> (\<forall>j \<in> {i..<k}. retried env h (of_nat j)) \<and> \<not> retried env h (of_nat k)
    \<and> attempt_loop env h (map of_nat [i..<Suc (unat (max_attempts_of env))]) err llm evs tr =
       (mk_result env (outcome_of env (att_result (h (of_nat k))))
          (llm @ concat (map (\<lambda>j. att_llm (h (of_nat j))) [i..<Suc k]))
          (evs @ concat (map (\<lambda>j. att_events (h (of_nat j))) [i..<Suc k])),
        tr @ concat (map (\<lambda>j. attempt_trace env h (of_nat j)) [i..<Suc k]))"
  using assms
proof (induction "unat (max_attempts_of env) - i" arbitrary: i err llm evs tr)
  case 0
  then have i: "i = unat (max_attempts_of env)" by simp
  then have "\<not> retried env h (of_nat i)" using last_attempt_not_retried by simp
  then show ?case using 0 i by (intro exI [of _ i]) (simp add: attempt_loop_stop)
next
  case (Suc d)
  have up: "[i..<Suc m] = i # [Suc i..<Suc m]" if "i \<le> m" for m
    using that upt_conv_Cons by simp
  show ?case
  proof (cases "retried env h (of_nat i)")
    case False
    then show ?thesis
      using Suc.prems by (intro exI [of _ i]) (simp add: up attempt_loop_stop del: upt_Suc)
  next
    case True
    obtain err' where step: "attempt_loop env h (of_nat i # map of_nat [Suc i..<Suc (unat (max_attempts_of env))]) err llm evs tr =
      attempt_loop env h (map of_nat [Suc i..<Suc (unat (max_attempts_of env))]) err'
        (llm @ att_llm (h (of_nat i))) (evs @ att_events (h (of_nat i))) (tr @ attempt_trace env h (of_nat i))"
      using attempt_loop_retry [OF True] by blast
    have "d = unat (max_attempts_of env) - Suc i" "Suc i \<le> unat (max_attempts_of env)"
      using Suc.hyps(2) by simp_all
    from Suc.hyps(1) [OF this, of err' "llm @ att_llm (h (of_nat i))" "evs @ att_events (h (of_nat i))"
        "tr @ attempt_trace env h (of_nat i)"]
    obtain k where k: "Suc i \<le> k" "k \<le> unat (max_attempts_of env)"
      "\<forall>j \<in> {Suc i..<k}. retried env h (of_nat j)" "\<not> retried env h (of_nat k)"
      and eq: "attempt_loop env h (map of_nat [Suc i..<Suc (unat (max_attempts_of env))]) err'
        (llm @ att_llm (h (of_nat i))) (evs @ att_events (h (of_nat i))) (tr @ attempt_trace env h (of_nat i)) =
       (mk_result env (outcome_of env (att_result (h (of_nat k))))
          ((llm @ att_llm (h (of_nat i))) @ concat (map (\<lambda>j. att_llm (h (of_nat j))) [Suc i..<Suc k]))
          ((evs @ att_events (h (of_nat i))) @ concat (map (\<lambda>j. att_events (h (of_nat j))) [Suc i..<Suc k])),
        (tr @ attempt_trace env h (of_nat i)) @ concat (map (\<lambda>j. attempt_trace env h (of_nat j)) [Suc i..<Suc k]))"
      by blast
    have "\<forall>j \<in> {i..<k}. retried env h (of_nat j)"
      using k(3) True by (metis atLeastLessThan_iff le_antisym not_less_eq_eq)
    with k eq step Suc.prems show ?thesis
      by (intro exI [of _ k]) (simp only: up [of k] up list.map concat.simps append_assoc, simp)
  qed
qed

section \<open>Emitted events\<close>

fun emitted :: "node_effect list \<Rightarrow> write_event list" where
  "emitted [] = []"
| "emitted (Emit e # tr) = e # emitted tr"
| "emitted (_ # tr) = emitted tr"

lemma emitted_append [simp]: "emitted (tr @ tr') = emitted tr @ emitted tr'"
  by (induction tr rule: emitted.induct) simp_all

lemma emitted_concat: "emitted (concat trs) = concat (map emitted trs)"
  by (induction trs) simp_all

lemma emitted_retried:
  "retried env h a \<Longrightarrow> \<exists>m. emitted (attempt_trace env h a) = [started_event env a, failed_event env a m True]"
  by (auto simp: retried_def attempt_trace_def split: timed_result.splits)

lemma emitted_final:
  assumes "\<not> retried env h a"
  shows "emitted (attempt_trace env h a) =
    started_event env a # (case att_result (h a) of
        Returned outputs \<Rightarrow> [completed_event env a outputs (att_duration_ms (h a)), checkpoint_event env a outputs]
      | Raised e \<Rightarrow> [failed_event env a (node_error_to_string e) False]
      | Elapsed \<Rightarrow> [failed_event env a (node_error_to_string (Timeout (env_timeout_ms env))) False])"
  using assms by (auto simp: attempt_trace_def split: timed_result.splits)

lemma execute_node_events:
  obtains k where "1 \<le> k" "k \<le> unat (max_attempts_of env)"
    "\<forall>j \<in> {1..<k}. retried env h (of_nat j)" "\<not> retried env h (of_nat k)"
    "emitted (snd (execute_node env h)) =
       concat (map (\<lambda>j. emitted (attempt_trace env h (of_nat j))) [1..<k])
       @ emitted (attempt_trace env h (of_nat k))"
    "res_outcome (fst (execute_node env h)) = outcome_of env (att_result (h (of_nat k)))"
proof -
  obtain k where k: "1 \<le> k" "k \<le> unat (max_attempts_of env)"
    "\<forall>j \<in> {1..<k}. retried env h (of_nat j)" "\<not> retried env h (of_nat k)"
    and eq: "execute_node env h =
       (mk_result env (outcome_of env (att_result (h (of_nat k))))
          ([] @ concat (map (\<lambda>j. att_llm (h (of_nat j))) [1..<Suc k]))
          ([] @ concat (map (\<lambda>j. att_events (h (of_nat j))) [1..<Suc k])),
        [] @ concat (map (\<lambda>j. attempt_trace env h (of_nat j)) [1..<Suc k]))"
    using attempt_loop_spec [OF max_attempts_pos] unfolding execute_node_def by metis
  have "[1..<Suc k] = [1..<k] @ [k]" using k(1) by simp
  then have "emitted (snd (execute_node env h)) =
       concat (map (\<lambda>j. emitted (attempt_trace env h (of_nat j))) [1..<k])
       @ emitted (attempt_trace env h (of_nat k))"
    unfolding eq by (simp add: emitted_concat comp_def del: upt_Suc)
  moreover have "res_outcome (fst (execute_node env h)) = outcome_of env (att_result (h (of_nat k)))"
    unfolding eq by (simp add: mk_result_def)
  ultimately show thesis using k that by blast
qed

fun announces_retry :: "write_event \<Rightarrow> bool" where
  "announces_retry (NodeFailed _ _ _ _ _ will_retry _ _) = will_retry"
| "announces_retry _ = False"

fun started_attempt :: "write_event \<Rightarrow> u32 option" where
  "started_attempt (NodeStarted _ _ _ _ _ _ a _) = Some a"
| "started_attempt _ = None"

lemma map_filter_append: "List.map_filter f (xs @ ys) = List.map_filter f xs @ List.map_filter f ys"
  by (simp add: List.map_filter_def)

lemma attempt_log:
  assumes "retried env h a"
  shows "List.map_filter started_attempt (emitted (attempt_trace env h a)) = [a]
    \<and> length (filter announces_retry (emitted (attempt_trace env h a))) = 1"
  using emitted_retried [OF assms]
  by (auto simp: List.map_filter_simps started_event_def failed_event_def)

lemma final_attempt_log:
  assumes "\<not> retried env h a"
  shows "List.map_filter started_attempt (emitted (attempt_trace env h a)) = [a]
    \<and> filter announces_retry (emitted (attempt_trace env h a)) = []
    \<and> emitted (attempt_trace env h a) \<noteq> []"
  unfolding emitted_final [OF assms]
  by (auto simp: List.map_filter_simps started_event_def failed_event_def completed_event_def
      checkpoint_event_def split: timed_result.split)

lemma retried_log:
  "\<forall>j \<in> set js. retried env h (of_nat j) \<Longrightarrow>
     List.map_filter started_attempt (concat (map (\<lambda>j. emitted (attempt_trace env h (of_nat j))) js)) = map of_nat js
     \<and> length (filter announces_retry (concat (map (\<lambda>j. emitted (attempt_trace env h (of_nat j))) js))) = length js"
  by (induction js) (simp_all add: attempt_log map_filter_append List.map_filter_simps)

lemma started_attempts:
  assumes "1 \<le> k" "\<forall>j \<in> {1..<k}. retried env h (of_nat j)" "\<not> retried env h (of_nat k)"
  shows "List.map_filter started_attempt
      (concat (map (\<lambda>j. emitted (attempt_trace env h (of_nat j))) [1..<k]) @ emitted (attempt_trace env h (of_nat k)))
    = map of_nat [1..<Suc k]"
  using retried_log [of "[1..<k]" env h] final_attempt_log [OF assms(3)] assms(1,2)
  by (simp add: map_filter_append)

section \<open>Properties\<close>

text \<open>(C4) The retry loop, for every handler: it stops at the first attempt that is not retried,
  which is at most the \<open>max_attempts\<close>-th (with zero counted as one); only retryable errors are
  retried (timeouts, fatal and validation errors are not); the outcome is that of the last
  attempt, the LLM records and node events of all attempts are kept in order, and the effects
  are those of the attempts in order.\<close>

theorem execute_node_spec:
  "\<exists>k \<ge> 1. k \<le> max 1 (unat (max_attempts (env_retry env)))
    \<and> list_all (\<lambda>j. retried env h (of_nat j)) [1..<k] \<and> \<not> retried env h (of_nat k)
    \<and> execute_node env h =
       (\<lparr>res_node_id = env_node_id env, res_fan_out_index = env_fan_out_index env,
         res_outcome = outcome_of env (att_result (h (of_nat k))),
         res_llm_records = concat (map (\<lambda>j. att_llm (h (of_nat j))) [1..<Suc k]),
         res_events = concat (map (\<lambda>j. att_events (h (of_nat j))) [1..<Suc k])\<rparr>,
        concat (map (\<lambda>j. attempt_trace env h (of_nat j)) [1..<Suc k]))"
proof -
  have "unat (max_attempts_of env) = max 1 (unat (max_attempts (env_retry env)))"
    by (simp add: max_attempts_of_def max_def word_le_nat_alt)
  with attempt_loop_spec [OF max_attempts_pos, of env h "[]" "[]" "[]" "[]"] show ?thesis
    unfolding execute_node_def by (auto simp: mk_result_def list_all_iff simp del: upt_Suc)
qed

text \<open>The event log of a node execution tells the truth about retries: the started attempts are
  numbered consecutively from one, and a failure is recorded with \<open>will_retry\<close> exactly when
  another attempt follows it, the last event being a checkpoint or a final failure.\<close>

theorem node_log_retry_flags:
  "\<exists>k \<ge> 1. k \<le> max 1 (unat (max_attempts (env_retry env)))
    \<and> List.map_filter started_attempt (emitted (snd (execute_node env h))) = map of_nat [1..<Suc k]
    \<and> length (filter announces_retry (emitted (snd (execute_node env h)))) = k - 1
    \<and> (\<exists>evs last. emitted (snd (execute_node env h)) = evs @ [last] \<and> \<not> announces_retry last)"
proof -
  obtain k where k: "1 \<le> k" "k \<le> unat (max_attempts_of env)"
    and r: "\<forall>j \<in> {1..<k}. retried env h (of_nat j)" and s: "\<not> retried env h (of_nat k)"
    and ev: "emitted (snd (execute_node env h)) =
       concat (map (\<lambda>j. emitted (attempt_trace env h (of_nat j))) [1..<k])
       @ emitted (attempt_trace env h (of_nat k))"
    by (rule execute_node_events)
  note many = retried_log [of "[1..<k]" env h] and final = final_attempt_log [OF s]
  have "unat (max_attempts_of env) = max 1 (unat (max_attempts (env_retry env)))"
    by (simp add: max_attempts_of_def max_def word_le_nat_alt)
  moreover have "\<exists>evs last. emitted (snd (execute_node env h)) = evs @ [last] \<and> \<not> announces_retry last"
    using final unfolding ev
    by (cases "emitted (attempt_trace env h (of_nat k))" rule: rev_cases) auto
  moreover have "List.map_filter started_attempt (emitted (snd (execute_node env h))) = map of_nat [1..<Suc k]"
    unfolding ev by (rule started_attempts [OF k(1) r s])
  moreover have "length (filter announces_retry (emitted (snd (execute_node env h)))) = k - 1"
    using many final r unfolding ev by simp
  ultimately show ?thesis using k by (intro exI [of _ k]) simp
qed

end
