(* ===== verification/Executor.thy ===== *)
theory Executor
  imports Expression_Eval Flow_Graph Node_Exec
begin

text \<open>
  The run loop: \<open>executor/run.rs\<close>, \<open>executor/fanout.rs\<close> and the edge evaluation of
  \<open>executor/edges.rs\<close>.  The state of a run is the set of local variables of \<open>execute_run\<close>; the
  body of the loop is a function of the finished task's result, and the loop itself is a step
  relation in which any running task may finish next, with any outcome, or panic.  The events
  the loop writes through the session are collected in \<open>rs_log\<close> in program order, the advisory
  ones in \<open>rs_advisory\<close>.  Deserialising a stream chunk (\<open>serde_json::from_value\<close>) is the
  parameter \<open>rc_parse_chunk\<close>, the token printer of error messages the parameter \<open>rc_dbg\<close>.
\<close>

section \<open>State\<close>

record run_context =
  rc_run_id :: string
  rc_graph :: graph_def
  rc_inputs :: json
  rc_registry :: "string \<rightharpoonup> node_meta"
  rc_max_traversals :: u32
  rc_dbg :: "token \<Rightarrow> string"
  rc_parse_chunk :: "json \<rightharpoonup> llm_chunk"
  rc_now :: "nat \<Rightarrow> datetime"

record fan_out_state =
  fo_expected :: u32
  fo_results :: "json option list"
  fo_completed :: u32

record ready_node =
  rn_node_id :: string
  rn_fan_out_items :: "json list option"
  rn_is_cycle :: bool

text \<open>A spawned task: the node, its fan-out index, its inputs, the node's configuration and the
  timeout and retry policy of its handler.\<close>

record task =
  task_node :: string
  task_index :: "u32 option"
  task_inputs :: json
  task_config :: json
  task_hints :: execution_hints

record run_state =
  rs_completed :: "string set"
  rs_failed :: "string set"
  rs_outputs :: "string \<rightharpoonup> json"
  rs_counts :: "string \<rightharpoonup> u32"
  rs_llm_records :: "llm_invocation_record list"
  rs_fan_out :: "string \<rightharpoonup> fan_out_state"
  rs_running :: "task list"
  rs_running_set :: "string set"
  rs_log :: "write_event list"
  rs_advisory :: "write_event list"
  rs_panicked :: bool

section \<open>Spawning\<close>

definition spawn_node ::
  "run_context \<Rightarrow> (string \<rightharpoonup> json) \<Rightarrow> string \<Rightarrow> u32 option \<Rightarrow> json option \<Rightarrow> task option" where
  "spawn_node ctx node_outputs node_id fan_out_index override_inputs =
     (case List.find (\<lambda>n. instance_id n = node_id) (nodes (rc_graph ctx)) of
        None \<Rightarrow> None
      | Some inst \<Rightarrow>
          (case rc_registry ctx (node_type inst) of
             None \<Rightarrow> None
           | Some meta \<Rightarrow>
               Some \<lparr>task_node = node_id, task_index = fan_out_index,
                     task_inputs =
                       (case override_inputs of
                          Some v \<Rightarrow> v
                        | None \<Rightarrow> resolve_inputs node_id node_outputs
                                    (build_incoming_edges (rc_graph ctx))),
                     task_config = node_config inst,
                     task_hints = execution meta\<rparr>))"

text \<open>A normal spawn: the node enters \<open>running_set\<close> together with its task, if there is one.\<close>

definition spawn_normal :: "run_context \<Rightarrow> string \<Rightarrow> run_state \<Rightarrow> run_state" where
  "spawn_normal ctx nid st =
     (case spawn_node ctx (rs_outputs st) nid None None of
        None \<Rightarrow> st
      | Some t \<Rightarrow> st\<lparr>rs_running_set := insert nid (rs_running_set st),
                    rs_running := rs_running st @ [t]\<rparr>)"

fun spawn_items :: "run_context \<Rightarrow> string \<Rightarrow> nat \<Rightarrow> json list \<Rightarrow> run_state \<Rightarrow> run_state" where
  "spawn_items ctx nid i [] st = st"
| "spawn_items ctx nid i (item # items) st =
     spawn_items ctx nid (Suc i) items
       (case spawn_node ctx (rs_outputs st) nid (Some (of_nat i)) (Some item) of
          None \<Rightarrow> st
        | Some t \<Rightarrow> st\<lparr>rs_running := rs_running st @ [t]\<rparr>)"

definition fan_out_init :: "u32 \<Rightarrow> fan_out_state" where
  "fan_out_init n =
     \<lparr>fo_expected = n, fo_results = replicate (unat n) None, fo_completed = 0\<rparr>"

definition spawn_ready :: "run_context \<Rightarrow> ready_node \<Rightarrow> run_state \<Rightarrow> run_state" where
  "spawn_ready ctx ready st =
     (let nid = rn_node_id ready;
          st1 = (if rn_is_cycle ready then st\<lparr>rs_completed := rs_completed st - {nid}\<rparr> else st)
      in case rn_fan_out_items ready of
           Some items \<Rightarrow>
             spawn_items ctx nid 0 items
               (st1\<lparr>rs_fan_out := (rs_fan_out st1)(nid \<mapsto> fan_out_init (of_nat (length items)))\<rparr>)
         | None \<Rightarrow> spawn_normal ctx nid st1)"

definition spawn_ready_nodes :: "run_context \<Rightarrow> ready_node list \<Rightarrow> run_state \<Rightarrow> run_state" where
  "spawn_ready_nodes ctx ready_nodes st = fold (spawn_ready ctx) ready_nodes st"

section \<open>Edge evaluation\<close>

definition evaluate_edge_condition :: "(token \<Rightarrow> string) \<Rightarrow> edge \<Rightarrow> json \<Rightarrow> bool" where
  "evaluate_edge_condition dbg e data =
     (case edge_cond e of
        None \<Rightarrow> True
      | Some c \<Rightarrow> (case evaluate dbg (cond_expression c) data of Inr b \<Rightarrow> b | Inl _ \<Rightarrow> False))"

definition traversals :: "(string \<rightharpoonup> u32) \<Rightarrow> string \<Rightarrow> u32" where
  "traversals counts i = (case counts i of None \<Rightarrow> 0 | Some c \<Rightarrow> c)"

text \<open>The loop of \<open>is_node_ready\<close> over the incoming edges, with its early return of false.\<close>

fun ready_scan ::
  "run_context \<Rightarrow> run_state \<Rightarrow> string set \<Rightarrow> edge list \<Rightarrow> bool \<Rightarrow> bool" where
  "ready_scan ctx st back_edge_ids [] has_passing = has_passing"
| "ready_scan ctx st back_edge_ids (e # es) has_passing =
     (if edge_id e \<in> back_edge_ids then ready_scan ctx st back_edge_ids es has_passing
      else if from_node e \<notin> rs_completed st \<and> from_node e \<notin> rs_failed st then False
      else ready_scan ctx st back_edge_ids es
        (has_passing \<or>
         (from_node e \<in> rs_completed st \<and>
          (case rs_outputs st (from_node e) of
             None \<Rightarrow> False
           | Some outputs \<Rightarrow>
               evaluate_edge_condition (rc_dbg ctx) e outputs
               \<and> traversals (rs_counts st) (edge_id e) \<le> rc_max_traversals ctx))))"

definition is_node_ready :: "run_context \<Rightarrow> run_state \<Rightarrow> string set \<Rightarrow> string \<Rightarrow> bool" where
  "is_node_ready ctx st back_edge_ids node_id =
     (case bt_get node_id (build_incoming_edges (rc_graph ctx)) of
        None \<Rightarrow> True
      | Some es \<Rightarrow> if es = [] then True else ready_scan ctx st back_edge_ids es False)"

definition edge_event :: "run_context \<Rightarrow> run_state \<Rightarrow> edge \<Rightarrow> bool \<Rightarrow> json \<Rightarrow> write_event" where
  "edge_event ctx st e passed outputs =
     EdgeEvaluated 0 WRITE_EVENT_SCHEMA_VERSION (rc_run_id ctx) (edge_id e)
       (map_option cond_expression (edge_cond e)) passed outputs (rc_now ctx (length (rs_log st)))"

definition edge_fan_out :: "bool \<Rightarrow> json \<Rightarrow> edge \<Rightarrow> json list option" where
  "edge_fan_out from_fan_in outputs e =
     (if from_fan_in then None
      else case resolve_edge_value outputs (from_port e) of
             JArray items \<Rightarrow> if items \<noteq> [] then Some items else None
           | _ \<Rightarrow> None)"

definition fan_out_running :: "run_state \<Rightarrow> string \<Rightarrow> bool" where
  "fan_out_running st target =
     (case rs_fan_out st target of None \<Rightarrow> False | Some s \<Rightarrow> fo_completed s < fo_expected s)"

text \<open>One iteration over the outgoing edges: the state, the \<open>seen\<close> set and the ready list.\<close>

definition evaluate_edge ::
  "run_context \<Rightarrow> string set \<Rightarrow> bool \<Rightarrow> json \<Rightarrow> edge
   \<Rightarrow> run_state \<times> string set \<times> ready_node list \<Rightarrow> run_state \<times> string set \<times> ready_node list" where
  "evaluate_edge ctx back_edge_ids from_fan_in outputs e acc =
     (case acc of (st, seen, ready) \<Rightarrow>
        let result = evaluate_edge_condition (rc_dbg ctx) e outputs;
            c = traversals (rs_counts st) (edge_id e);
            passed = (result \<and> c < rc_max_traversals ctx);
            st1 = st\<lparr>rs_counts := (rs_counts st)(edge_id e \<mapsto> (if passed then c + 1 else c)),
                     rs_log := rs_log st @ [edge_event ctx st e passed outputs]\<rparr>;
            target = to_node e
        in if \<not> passed then (st1, seen, ready)
           else if target \<in> seen then (st1, seen, ready)
           else if fan_out_running st1 target \<or> target \<in> rs_running_set st1
             then (st1, insert target seen, ready)
           else if target \<in> rs_completed st1
             then (st1, insert target seen,
                   ready @ [\<lparr>rn_node_id = target,
                             rn_fan_out_items = edge_fan_out from_fan_in outputs e,
                             rn_is_cycle = True\<rparr>])
           else if target \<notin> rs_failed st1 \<and> is_node_ready ctx st1 back_edge_ids target
             then (st1, insert target seen,
                   ready @ [\<lparr>rn_node_id = target,
                             rn_fan_out_items = edge_fan_out from_fan_in outputs e,
                             rn_is_cycle = False\<rparr>])
           else (st1, insert target seen, ready))"

definition evaluate_edges_and_find_ready ::
  "run_context \<Rightarrow> string set \<Rightarrow> bool \<Rightarrow> string \<Rightarrow> json \<Rightarrow> run_state \<Rightarrow> run_state \<times> ready_node list" where
  "evaluate_edges_and_find_ready ctx back_edge_ids from_fan_in completed_node outputs st =
     (case bt_get completed_node (build_outgoing_edges (rc_graph ctx)) of
        None \<Rightarrow> (st, [])
      | Some es \<Rightarrow>
          (case fold (evaluate_edge ctx back_edge_ids from_fan_in outputs) es (st, {}, []) of
             (st', _, ready) \<Rightarrow> (st', ready)))"

definition find_ready_after_failure :: "run_context \<Rightarrow> run_state \<Rightarrow> string \<Rightarrow> string list" where
  "find_ready_after_failure ctx st failed_node =
     (case bt_get failed_node (build_outgoing_edges (rc_graph ctx)) of
        None \<Rightarrow> []
      | Some es \<Rightarrow>
          map to_node (filter (\<lambda>e.
            to_node e \<notin> rs_completed st \<and> to_node e \<notin> rs_failed st \<and> to_node e \<notin> rs_running_set st
            \<and> (case bt_get (to_node e) (build_incoming_edges (rc_graph ctx)) of
                 None \<Rightarrow> False
               | Some inc \<Rightarrow>
                   list_all (\<lambda>i. from_node i \<in> rs_completed st \<or> from_node i \<in> rs_failed st) inc
                   \<and> list_ex (\<lambda>i. from_node i \<in> rs_completed st) inc)) es))"

definition all_reachable_done :: "string set \<Rightarrow> string set \<Rightarrow> string set \<Rightarrow> bool" where
  "all_reachable_done all_nodes completed failed \<longleftrightarrow> (\<forall>n \<in> all_nodes. n \<in> completed \<or> n \<in> failed)"

section \<open>Fan-in\<close>

text \<open>Writing a result beyond the end of \<open>results\<close> would panic the run task: \<open>rs_panicked\<close>.\<close>

fun fan_out_value :: "u32 \<Rightarrow> node_outcome \<Rightarrow> json" where
  "fan_out_value i (NodeSuccess val) = val"
| "fan_out_value i (NodeFail err) =
     json_object [(''error'', JString err), (''fan_out_index'', JNumber (PosInt (ucast i)))]"

definition handle_fan_out_completion ::
  "string \<Rightarrow> u32 \<Rightarrow> node_outcome \<Rightarrow> run_state \<Rightarrow> run_state \<times> (string \<times> json) option" where
  "handle_fan_out_completion node_id i outcome st =
     (case rs_fan_out st node_id of
        None \<Rightarrow> (st, None)
      | Some fo \<Rightarrow>
          if length (fo_results fo) \<le> unat i then (st\<lparr>rs_panicked := True\<rparr>, None)
          else (let fo' = fo\<lparr>fo_results := (fo_results fo)[unat i := Some (fan_out_value i outcome)],
                        fo_completed := fo_completed fo + 1\<rparr>
           in if fo_completed fo' = fo_expected fo' then
                (let merged_output = JArray (map (\<lambda>r. case r of Some v \<Rightarrow> v | None \<Rightarrow> JNull) (fo_results fo'))
                 in (st\<lparr>rs_completed := insert node_id (rs_completed st),
                        rs_outputs := (rs_outputs st)(node_id \<mapsto> merged_output),
                        rs_fan_out := (rs_fan_out st)(node_id := None)\<rparr>,
                     Some (node_id, merged_output)))
              else (st\<lparr>rs_fan_out := (rs_fan_out st)(node_id \<mapsto> fo')\<rparr>, None)))"

section \<open>The loop body\<close>

definition llm_event :: "run_context \<Rightarrow> llm_invocation_record \<Rightarrow> write_event" where
  "llm_event ctx r =
     LlmInvocation 0 WRITE_EVENT_SCHEMA_VERSION (rc_run_id ctx) (li_node_id r) (li_request r)
       (li_response r) (li_timestamp r)"

definition advisory_event :: "run_context \<Rightarrow> string \<Rightarrow> datetime \<Rightarrow> node_event \<Rightarrow> write_event option" where
  "advisory_event ctx node_id now ev =
     (if nev_name ev = ''__llm_chunk''
      then map_option (\<lambda>chunk. LlmStreamChunk 0 WRITE_EVENT_SCHEMA_VERSION (rc_run_id ctx) node_id chunk now)
             (rc_parse_chunk ctx (nev_data ev))
      else Some (Custom 0 WRITE_EVENT_SCHEMA_VERSION (rc_run_id ctx) (Some node_id) (nev_name ev)
             (nev_data ev) now))"

definition record_advisory_events :: "run_context \<Rightarrow> node_result \<Rightarrow> run_state \<Rightarrow> run_state" where
  "record_advisory_events ctx res st =
     fold (\<lambda>ev st. case advisory_event ctx (res_node_id res) (rc_now ctx (length (rs_advisory st))) ev of
                     None \<Rightarrow> st
                   | Some we \<Rightarrow> st\<lparr>rs_advisory := rs_advisory st @ [we]\<rparr>)
       (res_events res) st"

definition record_result :: "run_context \<Rightarrow> node_result \<Rightarrow> run_state \<Rightarrow> run_state" where
  "record_result ctx res st =
     record_advisory_events ctx res
       (st\<lparr>rs_llm_records := rs_llm_records st @ res_llm_records res,
           rs_log := rs_log st @ map (llm_event ctx) (res_llm_records res)\<rparr>)"

definition settle ::
  "run_context \<Rightarrow> node_result \<Rightarrow> run_state \<Rightarrow> run_state \<times> (string \<times> json \<times> bool) option" where
  "settle ctx res st =
     (case res_fan_out_index res of
        Some foi \<Rightarrow>
          (case handle_fan_out_completion (res_node_id res) foi (res_outcome res) st of
             (st', r) \<Rightarrow> (st', map_option (\<lambda>(i, val). (i, val, True)) r))
      | None \<Rightarrow>
          (let st1 = st\<lparr>rs_running_set := rs_running_set st - {res_node_id res}\<rparr>
           in case res_outcome res of
                NodeSuccess outputs \<Rightarrow>
                  (st1\<lparr>rs_completed := insert (res_node_id res) (rs_completed st1),
                       rs_outputs := (rs_outputs st1)(res_node_id res \<mapsto> outputs)\<rparr>,
                   Some (res_node_id res, outputs, False))
              | NodeFail _ \<Rightarrow>
                  (let st2 = st1\<lparr>rs_failed := insert (res_node_id res) (rs_failed st1)\<rparr>
                   in (fold (spawn_normal ctx) (find_ready_after_failure ctx st2 (res_node_id res)) st2,
                       None))))"

definition handle_result :: "run_context \<Rightarrow> node_result \<Rightarrow> run_state \<Rightarrow> run_state" where
  "handle_result ctx res st =
     (case settle ctx res (record_result ctx res st) of
        (st1, None) \<Rightarrow> st1
      | (st1, Some (completed_node_id, outputs, from_fan_in)) \<Rightarrow>
          (case evaluate_edges_and_find_ready ctx (find_back_edges (rc_graph ctx)) from_fan_in
                  completed_node_id outputs st1 of
             (st2, newly_ready) \<Rightarrow> spawn_ready_nodes ctx newly_ready st2))"

section \<open>The run\<close>

definition all_node_ids :: "run_context \<Rightarrow> string set" where
  "all_node_ids ctx = instance_id ` set (nodes (rc_graph ctx))"

definition run_init :: "run_context \<Rightarrow> run_state" where
  "run_init ctx =
     (let entry_nodes = find_entry_nodes (rc_graph ctx) (find_back_edges (rc_graph ctx));
          node_outputs = map_of (map (\<lambda>n. (n, rc_inputs ctx)) entry_nodes)
      in \<lparr>rs_completed = {}, rs_failed = {}, rs_outputs = node_outputs, rs_counts = Map.empty,
          rs_llm_records = [], rs_fan_out = Map.empty,
          rs_running = List.map_filter
            (\<lambda>n. spawn_node ctx node_outputs n None (Some (rc_inputs ctx))) entry_nodes,
          rs_running_set = set entry_nodes, rs_log = [], rs_advisory = [],
          rs_panicked = False\<rparr>)"

definition panic_result :: "string \<Rightarrow> node_result" where
  "panic_result msg =
     \<lparr>res_node_id = ''unknown'', res_fan_out_index = None,
      res_outcome = NodeFail (''task panic: '' @ msg), res_llm_records = [], res_events = []\<rparr>"

definition take_task :: "nat \<Rightarrow> run_state \<Rightarrow> run_state" where
  "take_task i st = st\<lparr>rs_running := take i (rs_running st) @ drop (Suc i) (rs_running st)\<rparr>"

definition task_env :: "run_context \<Rightarrow> task \<Rightarrow> (f64 \<Rightarrow> int \<Rightarrow> f64) \<Rightarrow> (u32 \<Rightarrow> nat \<Rightarrow> datetime) \<Rightarrow> node_env" where
  "task_env ctx t pw now =
     \<lparr>env_run_id = rc_run_id ctx, env_node_id = task_node t, env_inputs = task_inputs t,
      env_timeout_ms = timeout_ms (task_hints t), env_retry = retry (task_hints t),
      env_fan_out_index = task_index t, env_powi = pw, env_now = now\<rparr>"

text \<open>One iteration of the loop when it is not cancelled: some running task finishes, with the
  result of executing its node, or its task panics.\<close>

inductive run_step :: "run_context \<Rightarrow> run_state \<Rightarrow> run_state \<Rightarrow> bool" for ctx where
  finish: "\<not> rs_panicked st \<Longrightarrow> i < length (rs_running st) \<Longrightarrow>
     res = fst (execute_node (task_env ctx (rs_running st ! i) pw now) h) \<Longrightarrow>
     run_step ctx st (handle_result ctx res (take_task i st))"
| panic: "\<not> rs_panicked st \<Longrightarrow> i < length (rs_running st) \<Longrightarrow>
     run_step ctx st (handle_result ctx (panic_result msg) (take_task i st))"

inductive reachable :: "run_context \<Rightarrow> run_state \<Rightarrow> bool" for ctx where
  init: "reachable ctx (run_init ctx)"
| step: "reachable ctx st \<Longrightarrow> run_step ctx st st' \<Longrightarrow> reachable ctx st'"

text \<open>The cancellation channel is polled at the head of every iteration; a dropped sender counts as
  a cancellation.\<close>

datatype try_recv = RecvOk | RecvEmpty | RecvClosed

definition check_cancel :: "try_recv \<Rightarrow> bool" where
  "check_cancel r = (r = RecvOk \<or> r = RecvClosed)"

inductive run_ends :: "run_context \<Rightarrow> bool \<Rightarrow> run_state \<Rightarrow> bool" for ctx where
  cancelled: "reachable ctx st \<Longrightarrow> \<not> rs_panicked st \<Longrightarrow> check_cancel r \<Longrightarrow> run_ends ctx True st"
| drained: "reachable ctx st \<Longrightarrow> \<not> rs_panicked st \<Longrightarrow> rs_running st = [] \<Longrightarrow> run_ends ctx False st"

definition final_status :: "run_context \<Rightarrow> bool \<Rightarrow> run_state \<Rightarrow> run_status" where
  "final_status ctx cancelled st =
     (let done_count = card (rs_completed st) + card (rs_failed st)
      in if cancelled then Cancelled
         else if done_count < card (all_node_ids ctx) \<and> rs_running_set st = {}
                 \<and> \<not> all_reachable_done (all_node_ids ctx) (rs_completed st) (rs_failed st)
           then Failed
         else if rs_failed st = {} then Completed
         else Failed)"

section \<open>LLM summary\<close>

definition add_tokens :: "u64 \<Rightarrow> u32 option \<Rightarrow> u64" where
  "add_tokens acc t = (case t of None \<Rightarrow> acc | Some n \<Rightarrow> acc + ucast n)"

definition tool_names :: "llm_invocation_record \<Rightarrow> string set" where
  "tool_names r =
     (case lr_tool_calls (li_response r) of None \<Rightarrow> {} | Some tcs \<Rightarrow> tc_tool_name ` set tcs)"

definition compute_llm_summary :: "llm_invocation_record list \<Rightarrow> llm_run_summary" where
  "compute_llm_summary records =
     (let costs = List.map_filter (\<lambda>r. lr_cost (li_response r)) records
      in \<lparr>total_llm_calls = of_nat (length records),
          total_input_tokens =
            fold (\<lambda>r acc. add_tokens acc (lr_input_tokens (li_response r))) records 0,
          total_output_tokens =
            fold (\<lambda>r acc. add_tokens acc (lr_output_tokens (li_response r))) records 0,
          summary_cost_usd =
            (if costs \<noteq> [] then Some (fold (\<lambda>c acc. f64_add acc (total_cost_usd c)) costs (Fin 0))
             else None),
          models_used = sorted_list_of_set ((\<lambda>r. lq_model (li_request r)) ` set records),
          tools_invoked = sorted_list_of_set (\<Union>r \<in> set records. tool_names r)\<rparr>)"

definition run_summary :: "run_state \<Rightarrow> llm_run_summary option" where
  "run_summary st =
     (if rs_llm_records st = [] then None else Some (compute_llm_summary (rs_llm_records st)))"

section \<open>Frame lemmas\<close>

named_theorems run_frame "fields that an operation leaves alone"

lemma spawn_node_SomeD:
  assumes "spawn_node ctx outs nid i inp = Some t"
  shows "nid \<in> all_node_ids ctx" "task_node t = nid" "task_index t = i" "task_node t \<in> all_node_ids ctx"
  using assms
  by (auto simp: spawn_node_def all_node_ids_def split: option.splits dest!: find_Some_mem)

lemma spawn_normal_frame [run_frame]:
  "rs_completed (spawn_normal ctx nid st) = rs_completed st"
  "rs_failed (spawn_normal ctx nid st) = rs_failed st"
  "rs_outputs (spawn_normal ctx nid st) = rs_outputs st"
  "rs_counts (spawn_normal ctx nid st) = rs_counts st"
  "rs_fan_out (spawn_normal ctx nid st) = rs_fan_out st"
  "rs_log (spawn_normal ctx nid st) = rs_log st"
  "rs_llm_records (spawn_normal ctx nid st) = rs_llm_records st"
  "rs_panicked (spawn_normal ctx nid st) = rs_panicked st"
  by (simp_all add: spawn_normal_def split: option.split)

lemma spawn_items_frame [run_frame]:
  "rs_completed (spawn_items ctx nid i items st) = rs_completed st"
  "rs_failed (spawn_items ctx nid i items st) = rs_failed st"
  "rs_outputs (spawn_items ctx nid i items st) = rs_outputs st"
  "rs_counts (spawn_items ctx nid i items st) = rs_counts st"
  "rs_fan_out (spawn_items ctx nid i items st) = rs_fan_out st"
  "rs_running_set (spawn_items ctx nid i items st) = rs_running_set st"
  "rs_log (spawn_items ctx nid i items st) = rs_log st"
  "rs_llm_records (spawn_items ctx nid i items st) = rs_llm_records st"
  "rs_panicked (spawn_items ctx nid i items st) = rs_panicked st"
  by (induction items arbitrary: i st; simp split: option.split)+

lemma spawn_ready_frame [run_frame]:
  "rs_failed (spawn_ready ctx r st) = rs_failed st"
  "rs_outputs (spawn_ready ctx r st) = rs_outputs st"
  "rs_counts (spawn_ready ctx r st) = rs_counts st"
  "rs_log (spawn_ready ctx r st) = rs_log st"
  "rs_llm_records (spawn_ready ctx r st) = rs_llm_records st"
  "rs_panicked (spawn_ready ctx r st) = rs_panicked st"
  by (simp_all add: spawn_ready_def Let_def run_frame split: option.split)

lemma spawn_ready_nodes_frame [run_frame]:
  "rs_failed (spawn_ready_nodes ctx rs st) = rs_failed st"
  "rs_outputs (spawn_ready_nodes ctx rs st) = rs_outputs st"
  "rs_counts (spawn_ready_nodes ctx rs st) = rs_counts st"
  "rs_log (spawn_ready_nodes ctx rs st) = rs_log st"
  "rs_llm_records (spawn_ready_nodes ctx rs st) = rs_llm_records st"
  "rs_panicked (spawn_ready_nodes ctx rs st) = rs_panicked st"
  unfolding spawn_ready_nodes_def by (induction rs arbitrary: st; simp add: run_frame)+

lemma record_advisory_events_eq:
  "\<exists>adv. record_advisory_events ctx res st = st\<lparr>rs_advisory := adv\<rparr>"
proof -
  have "\<exists>adv. fold (\<lambda>ev st. case advisory_event ctx nid (rc_now ctx (length (rs_advisory st))) ev of
                     None \<Rightarrow> st | Some we \<Rightarrow> st\<lparr>rs_advisory := rs_advisory st @ [we]\<rparr>) evs st
        = st\<lparr>rs_advisory := adv\<rparr>" for nid evs
  proof (induction evs arbitrary: st)
    case Nil
    show ?case by (intro exI [of _ "rs_advisory st"]) simp
  next
    case (Cons ev evs)
    show ?case
    proof (cases "advisory_event ctx nid (rc_now ctx (length (rs_advisory st))) ev")
      case None
      with Cons [of st] show ?thesis by simp
    next
      case (Some we)
      with Cons [of "st\<lparr>rs_advisory := rs_advisory st @ [we]\<rparr>"] show ?thesis by simp
    qed
  qed
  then show ?thesis by (simp add: record_advisory_events_def)
qed

lemma record_result_frame [run_frame]:
  "rs_completed (record_result ctx res st) = rs_completed st"
  "rs_failed (record_result ctx res st) = rs_failed st"
  "rs_outputs (record_result ctx res st) = rs_outputs st"
  "rs_counts (record_result ctx res st) = rs_counts st"
  "rs_fan_out (record_result ctx res st) = rs_fan_out st"
  "rs_running (record_result ctx res st) = rs_running st"
  "rs_running_set (record_result ctx res st) = rs_running_set st"
  "rs_panicked (record_result ctx res st) = rs_panicked st"
  "rs_log (record_result ctx res st) = rs_log st @ map (llm_event ctx) (res_llm_records res)"
  using record_advisory_events_eq [of ctx res
      "st\<lparr>rs_llm_records := rs_llm_records st @ res_llm_records res,
         rs_log := rs_log st @ map (llm_event ctx) (res_llm_records res)\<rparr>"]
  by (auto simp: record_result_def)

text \<open>Evaluating an edge changes only the traversal counts and the log.\<close>

definition edge_frame :: "run_state \<Rightarrow> run_state \<Rightarrow> bool" where
  "edge_frame st st' \<longleftrightarrow> (\<exists>counts log. st' = st\<lparr>rs_counts := counts, rs_log := log\<rparr>)"

lemma edge_frame_refl [simp]: "edge_frame st st"
  unfolding edge_frame_def by (intro exI [of _ "rs_counts st"] exI [of _ "rs_log st"]) simp

lemma edge_frame_trans: "edge_frame a b \<Longrightarrow> edge_frame b c \<Longrightarrow> edge_frame a c"
  by (fastforce simp: edge_frame_def)

lemma edge_frameD:
  assumes "edge_frame st st'"
  shows "rs_completed st' = rs_completed st" "rs_failed st' = rs_failed st"
    "rs_outputs st' = rs_outputs st" "rs_fan_out st' = rs_fan_out st"
    "rs_running st' = rs_running st" "rs_running_set st' = rs_running_set st"
    "rs_panicked st' = rs_panicked st" "rs_llm_records st' = rs_llm_records st"
  using assms by (auto simp: edge_frame_def)

text \<open>The state after one edge, and what happens to the ready list.\<close>

definition edge_passes :: "run_context \<Rightarrow> json \<Rightarrow> run_state \<Rightarrow> edge \<Rightarrow> bool" where
  "edge_passes ctx outputs st e \<longleftrightarrow>
     evaluate_edge_condition (rc_dbg ctx) e outputs
     \<and> traversals (rs_counts st) (edge_id e) < rc_max_traversals ctx"

definition edge_state :: "run_context \<Rightarrow> json \<Rightarrow> edge \<Rightarrow> run_state \<Rightarrow> run_state" where
  "edge_state ctx outputs e st =
     (let c = traversals (rs_counts st) (edge_id e); passed = edge_passes ctx outputs st e
      in st\<lparr>rs_counts := (rs_counts st)(edge_id e \<mapsto> (if passed then c + 1 else c)),
            rs_log := rs_log st @ [edge_event ctx st e passed outputs]\<rparr>)"

lemma edge_state_frame: "edge_frame st (edge_state ctx outputs e st)"
  by (auto simp: edge_frame_def edge_state_def Let_def)

lemma edge_state_simps [simp]:
  "rs_completed (edge_state ctx outputs e st) = rs_completed st"
  "rs_failed (edge_state ctx outputs e st) = rs_failed st"
  "rs_outputs (edge_state ctx outputs e st) = rs_outputs st"
  "rs_running_set (edge_state ctx outputs e st) = rs_running_set st"
  using edge_frameD [OF edge_state_frame] by simp_all

definition new_ready :: "run_context \<Rightarrow> string set \<Rightarrow> run_state \<Rightarrow> edge \<Rightarrow> bool \<Rightarrow> bool" where
  "new_ready ctx back_ids st e cycle \<longleftrightarrow>
     \<not> fan_out_running st (to_node e) \<and> to_node e \<notin> rs_running_set st
     \<and> (if cycle then to_node e \<in> rs_completed st
        else to_node e \<notin> rs_completed st \<and> to_node e \<notin> rs_failed st
             \<and> is_node_ready ctx st back_ids (to_node e))"

lemma evaluate_edge_eq:
  "evaluate_edge ctx back_ids ff outputs e (st, seen, ready) =
     (let st1 = edge_state ctx outputs e st; target = to_node e;
          rn = \<lparr>rn_node_id = target, rn_fan_out_items = edge_fan_out ff outputs e,
                rn_is_cycle = (target \<in> rs_completed st1)\<rparr>
      in if \<not> edge_passes ctx outputs st e \<or> target \<in> seen then (st1, seen, ready)
         else if new_ready ctx back_ids st1 e (target \<in> rs_completed st1)
           then (st1, insert target seen, ready @ [rn])
         else (st1, insert target seen, ready))"
proof -
  have ed: "st\<lparr>rs_counts := (rs_counts st)(edge_id e \<mapsto>
        (if edge_passes ctx outputs st e
         then traversals (rs_counts st) (edge_id e) + 1 else traversals (rs_counts st) (edge_id e))),
      rs_log := rs_log st @ [edge_event ctx st e (edge_passes ctx outputs st e) outputs]\<rparr>
    = edge_state ctx outputs e st"
    by (simp only: edge_state_def Let_def)
  show ?thesis
    unfolding evaluate_edge_def Let_def prod.case edge_passes_def [symmetric] ed new_ready_def
    by (simp split: if_split)
qed

lemma evaluate_edge_cases:
  obtains (skip) seen' where "evaluate_edge ctx back_ids ff outputs e (st, seen, ready) =
      (edge_state ctx outputs e st, seen', ready)" "seen \<subseteq> seen'"
  | (ready) r where "evaluate_edge ctx back_ids ff outputs e (st, seen, ready) =
      (edge_state ctx outputs e st, insert (to_node e) seen, ready @ [r])"
      "rn_node_id r = to_node e" "to_node e \<notin> seen" "edge_passes ctx outputs st e"
      "new_ready ctx back_ids (edge_state ctx outputs e st) e (rn_is_cycle r)"
      "rn_fan_out_items r = edge_fan_out ff outputs e"
proof -
  let ?cyc = "to_node e \<in> rs_completed (edge_state ctx outputs e st)"
  let ?rn = "\<lparr>rn_node_id = to_node e, rn_fan_out_items = edge_fan_out ff outputs e, rn_is_cycle = ?cyc\<rparr>"
  show thesis
  proof (cases "edge_passes ctx outputs st e \<and> to_node e \<notin> seen
      \<and> new_ready ctx back_ids (edge_state ctx outputs e st) e ?cyc")
    case True
    then show thesis by (intro that(2) [of ?rn]) (simp_all add: evaluate_edge_eq Let_def del: edge_state_simps)
  next
    case False
    then have "evaluate_edge ctx back_ids ff outputs e (st, seen, ready) =
      (edge_state ctx outputs e st,
       if edge_passes ctx outputs st e then insert (to_node e) seen else seen, ready)"
      by (auto simp: evaluate_edge_eq Let_def simp del: edge_state_simps)
    then show thesis by (rule that(1)) auto
  qed
qed

section \<open>Termination of a run\<close>

text \<open>The traversals still allowed by the per-edge limit, and the nodes that have not been
  touched.  Every step lowers the triple of the first, the second and the number of running
  tasks: a step that passes an edge uses up a traversal; a failure that spawns a node uses up
  an untouched node; every other step only removes a task.\<close>

definition budget :: "run_context \<Rightarrow> (string \<rightharpoonup> u32) \<Rightarrow> nat" where
  "budget ctx counts =
     (\<Sum>i \<in> edge_id ` set (edges (rc_graph ctx)). unat (rc_max_traversals ctx) - unat (traversals counts i))"

definition fresh :: "run_context \<Rightarrow> run_state \<Rightarrow> nat" where
  "fresh ctx st = card (all_node_ids ctx - (rs_completed st \<union> rs_failed st \<union> rs_running_set st))"

definition run_measure :: "run_context \<Rightarrow> run_state \<Rightarrow> nat \<times> nat \<times> nat" where
  "run_measure ctx st = (budget ctx (rs_counts st), fresh ctx st, length (rs_running st))"

lemma finite_all_node_ids [simp]: "finite (all_node_ids ctx)"
  by (simp add: all_node_ids_def)

lemma traversals_upd [simp]: "traversals (m(i \<mapsto> c)) k = (if k = i then c else traversals m k)"
  by (simp add: traversals_def)

lemma edge_state_traversals:
  "traversals (rs_counts (edge_state ctx outputs e st)) k =
     (if k = edge_id e \<and> edge_passes ctx outputs st e then traversals (rs_counts st) k + 1
      else traversals (rs_counts st) k)"
  by (auto simp: edge_state_def Let_def)

lemma unat_Suc_less:
  assumes "(c :: u32) < m"
  shows "unat (c + 1) = Suc (unat c)"
proof -
  have "unat c < unat m" using assms by (simp add: word_less_nat_alt)
  moreover have "unat m < 2 ^ 32" using unsigned_less [of m] by simp
  ultimately show ?thesis by (simp add: unat_word_ariths)
qed

lemma budget_edge:
  assumes "e \<in> set (edges (rc_graph ctx))"
  shows "budget ctx (rs_counts (edge_state ctx outputs e st)) \<le> budget ctx (rs_counts st)"
    and "edge_passes ctx outputs st e \<Longrightarrow>
      budget ctx (rs_counts (edge_state ctx outputs e st)) < budget ctx (rs_counts st)"
proof -
  let ?I = "edge_id ` set (edges (rc_graph ctx))" and ?m = "unat (rc_max_traversals ctx)"
  let ?c = "\<lambda>k. unat (traversals (rs_counts st) k)"
  let ?c' = "\<lambda>k. unat (traversals (rs_counts (edge_state ctx outputs e st)) k)"
  have le: "?m - ?c' k \<le> ?m - ?c k" for k
    by (auto simp: edge_state_traversals edge_passes_def unat_Suc_less)
  then show "budget ctx (rs_counts (edge_state ctx outputs e st)) \<le> budget ctx (rs_counts st)"
    unfolding budget_def by (rule sum_mono)
  assume p: "edge_passes ctx outputs st e"
  then have "?c (edge_id e) < ?m" by (simp add: edge_passes_def word_less_nat_alt)
  moreover have "?c' (edge_id e) = Suc (?c (edge_id e))"
    using p by (auto simp: edge_state_traversals edge_passes_def unat_Suc_less)
  ultimately have "?m - ?c' (edge_id e) < ?m - ?c (edge_id e)" by simp
  with le assms show "budget ctx (rs_counts (edge_state ctx outputs e st)) < budget ctx (rs_counts st)"
    unfolding budget_def by (intro sum_strict_mono_ex1) auto
qed

lemma evaluate_edges_fold:
  assumes "set es \<subseteq> set (edges (rc_graph ctx))"
    and "fold (evaluate_edge ctx back_ids ff outputs) es (st, seen, ready) = (st', seen', ready')"
  shows "edge_frame st st' \<and> budget ctx (rs_counts st') \<le> budget ctx (rs_counts st)
    \<and> (ready' \<noteq> ready \<longrightarrow> budget ctx (rs_counts st') < budget ctx (rs_counts st))"
  using assms
proof (induction es arbitrary: st seen ready)
  case (Cons e es)
  let ?st = "edge_state ctx outputs e st"
  have e: "e \<in> set (edges (rc_graph ctx))" and es: "set es \<subseteq> set (edges (rc_graph ctx))"
    using Cons.prems by auto
  obtain seen1 ready1 where ev: "evaluate_edge ctx back_ids ff outputs e (st, seen, ready) = (?st, seen1, ready1)"
    and r1: "ready1 = ready \<or> edge_passes ctx outputs st e"
    by (cases rule: evaluate_edge_cases [of ctx back_ids ff outputs e st seen ready]) blast+
  have "fold (evaluate_edge ctx back_ids ff outputs) es (?st, seen1, ready1) = (st', seen', ready')"
    using Cons.prems ev by simp
  from Cons.IH [OF es this] budget_edge [OF e, of outputs st] r1
    edge_frame_trans [OF edge_state_frame, of ctx outputs e st st'] show ?case
    by fastforce
qed simp

lemma outgoing_subset:
  "bt_get n (build_outgoing_edges g) = Some es \<Longrightarrow> set es \<subseteq> set (edges g)"
  using group_by_mem unfolding build_outgoing_edges_def by fastforce

lemma evaluate_edges_facts:
  assumes "evaluate_edges_and_find_ready ctx back_ids ff n outputs st = (st', ready)"
  shows "edge_frame st st'" "budget ctx (rs_counts st') \<le> budget ctx (rs_counts st)"
    "ready \<noteq> [] \<Longrightarrow> budget ctx (rs_counts st') < budget ctx (rs_counts st)"
  using assms unfolding evaluate_edges_and_find_ready_def
  by (auto split: option.splits prod.splits dest!: evaluate_edges_fold [OF outgoing_subset])

lemma fresh_mono:
  assumes "rs_completed st \<union> rs_failed st \<union> rs_running_set st
    \<subseteq> rs_completed st' \<union> rs_failed st' \<union> rs_running_set st'"
  shows "fresh ctx st' \<le> fresh ctx st"
  unfolding fresh_def by (rule card_mono) (use assms in auto)

lemma spawn_normal_sets:
  "rs_running_set st \<subseteq> rs_running_set (spawn_normal ctx nid st)
   \<and> (spawn_normal ctx nid st \<noteq> st \<longrightarrow>
      nid \<in> all_node_ids ctx \<and> nid \<in> rs_running_set (spawn_normal ctx nid st))"
  by (auto simp: spawn_normal_def split: option.splits dest: spawn_node_SomeD)

lemma spawn_normal_fold:
  "rs_running_set st \<subseteq> rs_running_set (fold (spawn_normal ctx) nids st)
   \<and> (fold (spawn_normal ctx) nids st \<noteq> st \<longrightarrow>
     (\<exists>nid \<in> set nids. nid \<in> all_node_ids ctx \<and> nid \<in> rs_running_set (fold (spawn_normal ctx) nids st)))"
proof (induction nids arbitrary: st)
  case (Cons n nids)
  show ?case
  proof (cases "spawn_normal ctx n st = st")
    case True
    with Cons [of st] show ?thesis by auto
  next
    case False
    with spawn_normal_sets [of st ctx n] Cons [of "spawn_normal ctx n st"] show ?thesis by auto
  qed
qed simp

lemma spawn_normal_fold_frame [run_frame]:
  "rs_completed (fold (spawn_normal ctx) nids st) = rs_completed st"
  "rs_failed (fold (spawn_normal ctx) nids st) = rs_failed st"
  "rs_outputs (fold (spawn_normal ctx) nids st) = rs_outputs st"
  "rs_counts (fold (spawn_normal ctx) nids st) = rs_counts st"
  "rs_fan_out (fold (spawn_normal ctx) nids st) = rs_fan_out st"
  "rs_log (fold (spawn_normal ctx) nids st) = rs_log st"
  "rs_panicked (fold (spawn_normal ctx) nids st) = rs_panicked st"
  by (induction nids arbitrary: st; simp add: run_frame)+

lemma fresh_spawn_fold:
  assumes "\<forall>nid \<in> set nids. nid \<notin> rs_completed st \<and> nid \<notin> rs_failed st \<and> nid \<notin> rs_running_set st"
  shows "fold (spawn_normal ctx) nids st = st \<or> fresh ctx (fold (spawn_normal ctx) nids st) < fresh ctx st"
proof (cases "fold (spawn_normal ctx) nids st = st")
  case False
  with spawn_normal_fold [of st ctx nids] obtain nid where "nid \<in> set nids" "nid \<in> all_node_ids ctx"
    "nid \<in> rs_running_set (fold (spawn_normal ctx) nids st)"
    "rs_running_set st \<subseteq> rs_running_set (fold (spawn_normal ctx) nids st)" by blast
  with assms have "fresh ctx (fold (spawn_normal ctx) nids st) < fresh ctx st"
    unfolding fresh_def by (intro psubset_card_mono) (auto simp: run_frame)
  then show ?thesis ..
qed simp

lemma find_ready_after_failure_fresh:
  "nid \<in> set (find_ready_after_failure ctx st n) \<Longrightarrow>
     nid \<notin> rs_completed st \<and> nid \<notin> rs_failed st \<and> nid \<notin> rs_running_set st"
  by (auto simp: find_ready_after_failure_def split: option.splits)

text \<open>Settling a result: the counts stay, no untouched node appears, and unless an untouched node
  was spawned the running tasks stay.\<close>

lemma settle_measure:
  assumes "settle ctx res st = (st', r)"
  shows "rs_counts st' = rs_counts st"
    and "fresh ctx st' < fresh ctx st \<or> (fresh ctx st' \<le> fresh ctx st \<and> rs_running st' = rs_running st)"
proof -
  show "rs_counts st' = rs_counts st"
    using assms by (auto simp: settle_def handle_fan_out_completion_def Let_def run_frame
        split: option.splits node_outcome.splits if_splits)
  show "fresh ctx st' < fresh ctx st \<or> (fresh ctx st' \<le> fresh ctx st \<and> rs_running st' = rs_running st)"
  proof (cases "res_fan_out_index res")
    case (Some foi)
    with assms have "rs_running st' = rs_running st \<and> fresh ctx st' \<le> fresh ctx st"
      by (auto simp: settle_def handle_fan_out_completion_def Let_def
          split: option.splits if_splits intro!: fresh_mono)
    then show ?thesis by simp
  next
    case None
    define st1 where "st1 = st\<lparr>rs_running_set := rs_running_set st - {res_node_id res}\<rparr>"
    show ?thesis
    proof (cases "res_outcome res")
      case (NodeSuccess v)
      with None assms have "rs_running st' = rs_running st \<and> fresh ctx st' \<le> fresh ctx st"
        by (auto simp: settle_def Let_def intro!: fresh_mono)
      then show ?thesis by simp
    next
      case (NodeFail m)
      define st2 where "st2 = st1\<lparr>rs_failed := insert (res_node_id res) (rs_failed st1)\<rparr>"
      define nids where "nids = find_ready_after_failure ctx st2 (res_node_id res)"
      have st': "st' = fold (spawn_normal ctx) nids st2"
        using None NodeFail assms by (simp add: settle_def Let_def st1_def st2_def nids_def)
      have st2: "fresh ctx st2 \<le> fresh ctx st" "rs_running st2 = rs_running st"
        by (auto simp: st1_def st2_def intro!: fresh_mono)
      from fresh_spawn_fold [of nids st2 ctx] find_ready_after_failure_fresh [of _ ctx st2]
      have "st' = st2 \<or> fresh ctx st' < fresh ctx st2"
        unfolding st' nids_def by blast
      with st2 show ?thesis by auto
    qed
  qed
qed

lemma fresh_cong:
  "rs_completed st' = rs_completed st \<Longrightarrow> rs_failed st' = rs_failed st \<Longrightarrow>
   rs_running_set st' = rs_running_set st \<Longrightarrow> fresh ctx st' = fresh ctx st"
  by (simp add: fresh_def)

lemma handle_result_measure:
  assumes "i < length (rs_running st)"
  shows "(run_measure ctx (handle_result ctx res (take_task i st)), run_measure ctx st)
    \<in> less_than <*lex*> less_than <*lex*> less_than"
proof -
  define st0 where "st0 = record_result ctx res (take_task i st)"
  obtain st1 r where s: "settle ctx res st0 = (st1, r)" by force
  have 0: "fresh ctx st0 = fresh ctx st" "rs_counts st0 = rs_counts st"
    by (simp_all add: st0_def fresh_def run_frame take_task_def)
  have "length (rs_running st0) < length (rs_running st)"
    using assms by (simp add: st0_def run_frame take_task_def)
  with settle_measure(2) [OF s] 0 have 1: "fresh ctx st1 < fresh ctx st
      \<or> (fresh ctx st1 \<le> fresh ctx st \<and> length (rs_running st1) < length (rs_running st))"
    by auto
  have c1: "rs_counts st1 = rs_counts st" using settle_measure(1) [OF s] 0 by simp
  show ?thesis
  proof (cases r)
    case None
    then have "handle_result ctx res (take_task i st) = st1"
      using s by (simp add: handle_result_def flip: st0_def)
    with 1 c1 show ?thesis by (auto simp: run_measure_def)
  next
    case (Some a)
    obtain n outs ff where a: "a = (n, outs, ff)" by (cases a) auto
    obtain st2 ready where ev: "evaluate_edges_and_find_ready ctx (find_back_edges (rc_graph ctx)) ff n outs st1
      = (st2, ready)" by force
    have h: "handle_result ctx res (take_task i st) = spawn_ready_nodes ctx ready st2"
      using s Some a ev by (simp add: handle_result_def flip: st0_def)
    note f = evaluate_edges_facts [OF ev]
    show ?thesis
    proof (cases "ready = []")
      case True
      have "fresh ctx st2 = fresh ctx st1" "rs_running st2 = rs_running st1"
        using edge_frameD [OF f(1)] by (simp_all add: fresh_def)
      with True h f(2) 1 c1 show ?thesis
        by (auto simp: run_measure_def spawn_ready_nodes_def)
    next
      case False
      with h f(3) c1 show ?thesis by (simp add: run_measure_def run_frame)
    qed
  qed
qed

lemma run_step_measure:
  assumes "run_step ctx st st'"
  shows "(run_measure ctx st', run_measure ctx st) \<in> less_than <*lex*> less_than <*lex*> less_than"
  using assms by cases (simp_all add: handle_result_measure del: in_lex_prod)

section \<open>Invariants of reachable states\<close>

fun passed_edge :: "string \<Rightarrow> write_event \<Rightarrow> bool" where
  "passed_edge i (EdgeEvaluated _ _ _ j _ b _ _) = (j = i \<and> b)"
| "passed_edge i _ = False"

definition passes :: "string \<Rightarrow> write_event list \<Rightarrow> nat" where
  "passes i evs = length (filter (passed_edge i) evs)"

definition count_inv :: "run_context \<Rightarrow> run_state \<Rightarrow> bool" where
  "count_inv ctx st \<longleftrightarrow>
     (\<forall>i. passes i (rs_log st) = unat (traversals (rs_counts st) i)
          \<and> traversals (rs_counts st) i \<le> rc_max_traversals ctx)"

lemma passes_append [simp]: "passes i (xs @ ys) = passes i xs + passes i ys"
  by (simp add: passes_def)

lemma count_inv_edge:
  assumes "count_inv ctx st"
  shows "count_inv ctx (edge_state ctx outputs e st)"
proof -
  have log: "rs_log (edge_state ctx outputs e st) =
      rs_log st @ [edge_event ctx st e (edge_passes ctx outputs st e) outputs]"
    by (simp add: edge_state_def Let_def)
  have "passes i [edge_event ctx st e (edge_passes ctx outputs st e) outputs] =
      (if i = edge_id e \<and> edge_passes ctx outputs st e then 1 else 0)" for i
    by (auto simp: passes_def edge_event_def)
  moreover have "traversals (rs_counts st) (edge_id e) + 1 \<le> rc_max_traversals ctx"
    "unat (traversals (rs_counts st) (edge_id e) + 1) = Suc (unat (traversals (rs_counts st) (edge_id e)))"
    if "edge_passes ctx outputs st e"
    using that by (auto simp: edge_passes_def unat_Suc_less inc_le)
  ultimately show ?thesis
    using assms by (auto simp: count_inv_def log edge_state_traversals)
qed

lemma evaluate_edge_state: "fst (evaluate_edge ctx back_ids ff outputs e (st, seen, ready)) = edge_state ctx outputs e st"
  by (cases rule: evaluate_edge_cases [of ctx back_ids ff outputs e st seen ready]) simp_all

lemma count_inv_fold:
  "count_inv ctx (fst acc) \<Longrightarrow> count_inv ctx (fst (fold (evaluate_edge ctx back_ids ff outputs) es acc))"
proof (induction es arbitrary: acc)
  case (Cons e es)
  obtain st seen ready where acc: "acc = (st, seen, ready)" by (cases acc) auto
  have "count_inv ctx (fst (evaluate_edge ctx back_ids ff outputs e acc))"
    using Cons.prems by (simp add: acc evaluate_edge_state count_inv_edge)
  with Cons.IH show ?case by simp
qed simp

lemma count_inv_evaluate:
  assumes "count_inv ctx st" "evaluate_edges_and_find_ready ctx back_ids ff n outputs st = (st', ready)"
  shows "count_inv ctx st'"
  using assms count_inv_fold [of ctx "(st, {}, [])" back_ids ff outputs]
  unfolding evaluate_edges_and_find_ready_def
  by (auto split: option.splits prod.splits) (metis fst_conv)

lemma passes_llm [simp]: "passes i (map (llm_event ctx) rs) = 0"
  by (induction rs) (auto simp: passes_def llm_event_def)

lemma settle_log: "settle ctx res st = (st', r) \<Longrightarrow> rs_log st' = rs_log st"
  by (auto simp: settle_def handle_fan_out_completion_def Let_def run_frame
      split: option.splits node_outcome.splits if_splits)

lemma count_inv_handle:
  assumes "count_inv ctx st"
  shows "count_inv ctx (handle_result ctx res st)"
proof -
  have 0: "count_inv ctx (record_result ctx res st)"
    using assms by (simp add: count_inv_def run_frame)
  obtain st1 r where s: "settle ctx res (record_result ctx res st) = (st1, r)" by force
  with 0 have 1: "count_inv ctx st1"
    using settle_measure(1) [OF s] settle_log [OF s] by (simp add: count_inv_def)
  show ?thesis
  proof (cases r)
    case None
    with s 1 show ?thesis by (simp add: handle_result_def)
  next
    case (Some a)
    obtain n outs ff where a: "a = (n, outs, ff)" by (cases a) auto
    obtain st2 ready where ev: "evaluate_edges_and_find_ready ctx (find_back_edges (rc_graph ctx)) ff n outs st1
      = (st2, ready)" by force
    from count_inv_evaluate [OF 1 ev] s Some a ev show ?thesis
      by (simp add: handle_result_def count_inv_def run_frame)
  qed
qed

lemma count_inv_reachable: "reachable ctx st \<Longrightarrow> count_inv ctx st"
proof (induction rule: reachable.induct)
  case init
  then show ?case by (simp add: count_inv_def run_init_def Let_def passes_def traversals_def)
next
  case (step st st')
  have "count_inv ctx (take_task i st)" for i
    using step.IH by (simp add: count_inv_def take_task_def)
  with step.hyps(2) show ?case by (auto elim!: run_step.cases intro: count_inv_handle)
qed

text \<open>Nodes of the run: every task, every completed node and, up to the name used for a panicked
  task, every failed node is a node of the graph; while nothing has failed, every node of
  \<open>running_set\<close> has a running task.\<close>

definition covered :: "run_state \<Rightarrow> bool" where
  "covered st \<longleftrightarrow> rs_running_set st \<subseteq> task_node ` {t \<in> set (rs_running st). task_index t = None}"

definition node_inv :: "run_context \<Rightarrow> run_state \<Rightarrow> bool" where
  "node_inv ctx st \<longleftrightarrow>
     (\<forall>t \<in> set (rs_running st). task_node t \<in> all_node_ids ctx)
     \<and> rs_completed st \<subseteq> all_node_ids ctx
     \<and> rs_failed st \<subseteq> insert ''unknown'' (all_node_ids ctx)"

lemma spawn_normal_inv:
  assumes "node_inv ctx st"
  shows "node_inv ctx (spawn_normal ctx nid st) \<and> (covered st \<longrightarrow> covered (spawn_normal ctx nid st))"
  using assms by (auto simp: spawn_normal_def node_inv_def covered_def split: option.split
      dest: spawn_node_SomeD)

lemma spawn_items_inv:
  assumes "node_inv ctx st"
  shows "node_inv ctx (spawn_items ctx nid i items st)
    \<and> (covered st \<longrightarrow> covered (spawn_items ctx nid i items st))"
  using assms
proof (induction items arbitrary: i st)
  case (Cons item items)
  define st1 where "st1 = (case spawn_node ctx (rs_outputs st) nid (Some (of_nat i)) (Some item) of
          None \<Rightarrow> st | Some t \<Rightarrow> st\<lparr>rs_running := rs_running st @ [t]\<rparr>)"
  have "node_inv ctx st1 \<and> (covered st \<longrightarrow> covered st1)"
    using Cons.prems by (auto simp: st1_def node_inv_def covered_def split: option.split
        dest: spawn_node_SomeD)
  with Cons.IH [of st1 "Suc i"] show ?case by (simp add: st1_def)
qed simp

lemma spawn_ready_inv:
  assumes "node_inv ctx st"
  shows "node_inv ctx (spawn_ready ctx r st) \<and> (covered st \<longrightarrow> covered (spawn_ready ctx r st))"
proof -
  let ?st1 = "if rn_is_cycle r then st\<lparr>rs_completed := rs_completed st - {rn_node_id r}\<rparr> else st"
  have "node_inv ctx ?st1" "covered ?st1 = covered st"
    using assms by (auto simp: node_inv_def covered_def)
  moreover have "node_inv ctx (?st1\<lparr>rs_fan_out := f\<rparr>) = node_inv ctx ?st1"
    "covered (?st1\<lparr>rs_fan_out := f\<rparr>) = covered ?st1" for f
    by (simp_all add: node_inv_def covered_def)
  ultimately show ?thesis
    unfolding spawn_ready_def Let_def
    using spawn_items_inv [of ctx "?st1\<lparr>rs_fan_out := _\<rparr>"] spawn_normal_inv [of ctx ?st1]
    by (cases "rn_fan_out_items r") (simp_all only: option.case, blast+)
qed

lemma spawn_ready_nodes_inv:
  "node_inv ctx st \<Longrightarrow>
     node_inv ctx (spawn_ready_nodes ctx rs st) \<and> (covered st \<longrightarrow> covered (spawn_ready_nodes ctx rs st))"
  unfolding spawn_ready_nodes_def
  by (induction rs arbitrary: st) (use spawn_ready_inv in fastforce)+

lemma spawn_normal_fold_inv: "node_inv ctx st \<Longrightarrow> node_inv ctx (fold (spawn_normal ctx) nids st)"
  by (induction nids arbitrary: st) (simp_all add: spawn_normal_inv)

lemma settle_inv:
  assumes s: "settle ctx res st = (st', r)" and inv: "node_inv ctx st"
    and n: "res_node_id res \<in> all_node_ids ctx \<or> (\<exists>m. res = panic_result m)"
  shows "node_inv ctx st'"
proof (cases "res_fan_out_index res")
  case (Some foi)
  with n have "res_node_id res \<in> all_node_ids ctx" by (auto simp: panic_result_def)
  with Some s inv show ?thesis
    by (auto simp: settle_def handle_fan_out_completion_def Let_def node_inv_def
        split: option.splits if_splits)
next
  case None
  show ?thesis
  proof (cases "res_outcome res")
    case (NodeSuccess v)
    with n have "res_node_id res \<in> all_node_ids ctx" by (auto simp: panic_result_def)
    with None NodeSuccess s inv show ?thesis by (auto simp: settle_def Let_def node_inv_def)
  next
    case (NodeFail m)
    have "node_inv ctx (st\<lparr>rs_running_set := R, rs_failed := insert (res_node_id res) (rs_failed st)\<rparr>)" for R
      using n inv by (auto simp: node_inv_def panic_result_def)
    with None NodeFail s show ?thesis
      by (auto simp: settle_def Let_def intro!: spawn_normal_fold_inv)
  qed
qed

lemma handle_result_inv:
  assumes inv: "node_inv ctx st" and n: "res_node_id res \<in> all_node_ids ctx \<or> (\<exists>m. res = panic_result m)"
  shows "node_inv ctx (handle_result ctx res st)"
proof -
  have 0: "node_inv ctx (record_result ctx res st)"
    using inv by (simp add: node_inv_def run_frame)
  obtain st1 r where s: "settle ctx res (record_result ctx res st) = (st1, r)" by force
  note 1 = settle_inv [OF s 0 n]
  show ?thesis
  proof (cases r)
    case None
    with s 1 show ?thesis by (simp add: handle_result_def)
  next
    case (Some a)
    obtain m outs ff where a: "a = (m, outs, ff)" by (cases a) auto
    obtain st2 ready where ev: "evaluate_edges_and_find_ready ctx (find_back_edges (rc_graph ctx)) ff m outs st1
      = (st2, ready)" by force
    have "node_inv ctx st2"
      using 1 edge_frameD [OF evaluate_edges_facts(1) [OF ev]] by (simp add: node_inv_def)
    with s Some a ev spawn_ready_nodes_inv show ?thesis by (simp add: handle_result_def)
  qed
qed

lemma handle_result_failed:
  "rs_failed (handle_result ctx res st) =
     (if res_fan_out_index res = None \<and> (\<exists>m. res_outcome res = NodeFail m)
      then insert (res_node_id res) (rs_failed st) else rs_failed st)"
proof -
  obtain st1 r where s: "settle ctx res (record_result ctx res st) = (st1, r)" by force
  have "rs_failed (handle_result ctx res st) = rs_failed st1"
    using s by (auto simp: handle_result_def run_frame split: option.split prod.split
        dest!: evaluate_edges_facts(1) edge_frameD(2))
  also have "\<dots> = (if res_fan_out_index res = None \<and> (\<exists>m. res_outcome res = NodeFail m)
      then insert (res_node_id res) (rs_failed st) else rs_failed st)"
    using s by (auto simp: settle_def handle_fan_out_completion_def Let_def run_frame
        split: option.splits node_outcome.splits if_splits)
  finally show ?thesis .
qed

lemma handle_result_covered:
  assumes inv: "node_inv ctx st" and n: "res_node_id res \<in> all_node_ids ctx \<or> (\<exists>m. res = panic_result m)"
    and nofail: "rs_failed (handle_result ctx res st) = {}"
    and cov: "rs_running_set st \<subseteq> task_node ` {t \<in> set (rs_running st). task_index t = None} \<union>
      (if res_fan_out_index res = None then {res_node_id res} else {})"
  shows "covered (handle_result ctx res st)"
proof -
  have 0: "node_inv ctx (record_result ctx res st)"
    using inv by (simp add: node_inv_def run_frame)
  obtain st1 r where s: "settle ctx res (record_result ctx res st) = (st1, r)" by force
  note 1 = settle_inv [OF s 0 n]
  have ok: "res_fan_out_index res = None \<Longrightarrow> \<exists>v. res_outcome res = NodeSuccess v"
    using nofail by (cases "res_outcome res") (auto simp: handle_result_failed)
  have cov1: "covered st1"
    using s cov ok
    by (auto simp: settle_def handle_fan_out_completion_def Let_def run_frame covered_def
        split: option.splits node_outcome.splits if_splits)
  show "covered (handle_result ctx res st)"
  proof (cases r)
    case None
    with s cov1 show ?thesis by (simp add: handle_result_def)
  next
    case (Some a)
    obtain m outs ff where a: "a = (m, outs, ff)" by (cases a) auto
    obtain st2 ready where ev: "evaluate_edges_and_find_ready ctx (find_back_edges (rc_graph ctx)) ff m outs st1
      = (st2, ready)" by force
    have "node_inv ctx st2" "covered st2"
      using 1 cov1 edge_frameD [OF evaluate_edges_facts(1) [OF ev]] by (simp_all add: node_inv_def covered_def)
    with s Some a ev spawn_ready_nodes_inv [of ctx st2 ready] show ?thesis by (simp add: handle_result_def)
  qed
qed

lemma execute_node_ids:
  "res_node_id (fst (execute_node env h)) = env_node_id env"
  "res_fan_out_index (fst (execute_node env h)) = env_fan_out_index env"
  using attempt_loop_spec [OF max_attempts_pos, of env h "[]" "[]" "[]" "[]"]
  unfolding execute_node_def by (auto simp: mk_result_def simp del: upt_Suc)

lemma take_task_set:
  assumes "i < length (rs_running st)"
  shows "set (rs_running st) = insert (rs_running st ! i) (set (rs_running (take_task i st)))"
proof -
  have "rs_running st = take i (rs_running st) @ rs_running st ! i # drop (Suc i) (rs_running st)"
    using assms by (rule id_take_nth_drop)
  then have "set (rs_running st) = set (take i (rs_running st) @ rs_running st ! i # drop (Suc i) (rs_running st))"
    by simp
  then show ?thesis by (auto simp: take_task_def)
qed

definition registered :: "run_context \<Rightarrow> bool" where
  "registered ctx \<longleftrightarrow> (\<forall>n \<in> set (nodes (rc_graph ctx)). rc_registry ctx (node_type n) \<noteq> None)"

lemma spawn_node_registered:
  assumes "registered ctx" "nid \<in> all_node_ids ctx"
  shows "\<exists>t. spawn_node ctx outs nid i inp = Some t"
proof -
  obtain n where n: "List.find (\<lambda>n. instance_id n = nid) (nodes (rc_graph ctx)) = Some n"
    using assms(2) by (cases "List.find (\<lambda>n. instance_id n = nid) (nodes (rc_graph ctx))")
      (auto simp: all_node_ids_def find_None_iff)
  then have "n \<in> set (nodes (rc_graph ctx))" by (auto dest: find_Some_mem)
  with assms(1) n show ?thesis by (auto simp: registered_def spawn_node_def)
qed

lemma entry_nodes_subset: "set (find_entry_nodes g back) \<subseteq> instance_id ` set (nodes g)"
  by (auto simp: find_entry_nodes_def Let_def)

lemma run_init_inv:
  "node_inv ctx (run_init ctx)" "registered ctx \<Longrightarrow> covered (run_init ctx)" "rs_failed (run_init ctx) = {}"
proof -
  let ?E = "find_entry_nodes (rc_graph ctx) (find_back_edges (rc_graph ctx))"
  let ?o = "map_of (map (\<lambda>n. (n, rc_inputs ctx)) ?E)"
  have run: "rs_running (run_init ctx) = List.map_filter (\<lambda>n. spawn_node ctx ?o n None (Some (rc_inputs ctx))) ?E"
    by (simp add: run_init_def Let_def)
  show "node_inv ctx (run_init ctx)"
    using spawn_node_SomeD(4)
    by (auto simp: node_inv_def run_init_def Let_def List.map_filter_def split: option.splits)
  show "rs_failed (run_init ctx) = {}" by (simp add: run_init_def Let_def)
  assume reg: "registered ctx"
  show "covered (run_init ctx)"
    unfolding covered_def
  proof
    fix n
    assume "n \<in> rs_running_set (run_init ctx)"
    then have n: "n \<in> set ?E" by (simp add: run_init_def Let_def)
    then have "n \<in> all_node_ids ctx" using entry_nodes_subset by (auto simp: all_node_ids_def)
    from spawn_node_registered [OF reg this] obtain t where
      t: "spawn_node ctx ?o n None (Some (rc_inputs ctx)) = Some t" by blast
    then have "t \<in> set (rs_running (run_init ctx))"
      using n unfolding run by (force simp: List.map_filter_def)
    with spawn_node_SomeD(2,3) [OF t]
    show "n \<in> task_node ` {t \<in> set (rs_running (run_init ctx)). task_index t = None}" by force
  qed
qed

lemma node_inv_take: "node_inv ctx st \<Longrightarrow> node_inv ctx (take_task i st)"
  by (auto simp: node_inv_def take_task_def dest: in_set_takeD in_set_dropD)

lemma node_inv_step:
  assumes "node_inv ctx st" "run_step ctx st st'"
  shows "node_inv ctx st'"
  using assms(2)
proof cases
  case (finish i res pw now h)
  have "task_node (rs_running st ! i) \<in> all_node_ids ctx"
    using assms(1) finish(3) by (simp add: node_inv_def)
  then show ?thesis
    unfolding finish(1) using assms(1) finish(4)
    by (intro handle_result_inv node_inv_take) (auto simp: execute_node_ids task_env_def)
next
  case (panic i msg)
  show ?thesis
    unfolding panic(1) using assms(1) by (intro handle_result_inv node_inv_take) auto
qed

lemma covered_step:
  assumes "node_inv ctx st" "rs_failed st = {} \<Longrightarrow> covered st" "run_step ctx st st'" "rs_failed st' = {}"
  shows "covered st'"
  using assms(3)
proof cases
  case (finish i res pw now h)
  let ?t = "rs_running st ! i"
  have n: "res_node_id res = task_node ?t" "res_fan_out_index res = task_index ?t"
    using finish(4) by (simp_all add: execute_node_ids task_env_def)
  have "task_node ?t \<in> all_node_ids ctx" using assms(1) finish(3) by (simp add: node_inv_def)
  then have ids: "res_node_id res \<in> all_node_ids ctx \<or> (\<exists>m. res = panic_result m)" using n by simp
  show ?thesis
  proof (cases "rs_failed st = {}")
    case True
    have "rs_running_set (take_task i st) \<subseteq>
        task_node ` {t \<in> set (rs_running (take_task i st)). task_index t = None} \<union>
        (if res_fan_out_index res = None then {res_node_id res} else {})"
      using assms(2) [OF True] take_task_set [OF finish(3)] n
      by (auto simp: covered_def take_task_def)
    with handle_result_covered [OF node_inv_take [OF assms(1)] ids] assms(4) finish(1)
    show ?thesis by blast
  next
    case False
    have "rs_failed st \<subseteq> rs_failed (handle_result ctx res (take_task i st))"
      by (auto simp: handle_result_failed take_task_def)
    with False assms(4) finish(1) show ?thesis by auto
  qed
next
  case (panic i msg)
  have "''unknown'' \<in> rs_failed st'"
    unfolding panic(1) by (simp add: handle_result_failed) (simp add: panic_result_def)
  with assms(4) show ?thesis by simp
qed

lemma node_inv_reachable: "reachable ctx st \<Longrightarrow> node_inv ctx st"
  by (induction rule: reachable.induct) (auto intro: run_init_inv node_inv_step)

lemma covered_reachable:
  assumes "registered ctx" "reachable ctx st"
  shows "rs_failed st = {} \<longrightarrow> covered st"
  using assms(2)
  by (induction rule: reachable.induct)
     (auto intro: run_init_inv assms(1) covered_step node_inv_reachable)

section \<open>Readiness\<close>

definition passing_source :: "run_context \<Rightarrow> run_state \<Rightarrow> edge \<Rightarrow> bool" where
  "passing_source ctx st e \<longleftrightarrow> from_node e \<in> rs_completed st
     \<and> (\<exists>outputs. rs_outputs st (from_node e) = Some outputs
          \<and> evaluate_edge_condition (rc_dbg ctx) e outputs)"

lemma ready_scan_sound:
  "ready_scan ctx st back_ids es b \<Longrightarrow>
     (\<forall>e \<in> set es. edge_id e \<in> back_ids \<or> from_node e \<in> rs_completed st \<union> rs_failed st)
     \<and> (b \<or> (\<exists>e \<in> set es. edge_id e \<notin> back_ids \<and> passing_source ctx st e))"
  by (induction es arbitrary: b)
     (auto simp: passing_source_def split: if_splits option.splits)

definition sources_settled :: "run_context \<Rightarrow> run_state \<Rightarrow> string \<Rightarrow> bool" where
  "sources_settled ctx st n \<longleftrightarrow>
     (let back_ids = find_back_edges (rc_graph ctx);
          inc = filter (\<lambda>e. to_node e = n) (edges (rc_graph ctx))
      in list_all (\<lambda>e. edge_id e \<in> back_ids \<or> from_node e \<in> rs_completed st \<union> rs_failed st) inc
         \<and> (inc = [] \<or> list_ex (\<lambda>e. edge_id e \<notin> back_ids \<and> passing_source ctx st e) inc))"

lemma is_node_ready_sound:
  assumes "is_node_ready ctx st (find_back_edges (rc_graph ctx)) n"
  shows "sources_settled ctx st n"
proof (cases "filter (\<lambda>e. to_node e = n) (edges (rc_graph ctx)) = []")
  case True
  then show ?thesis by (simp add: sources_settled_def Let_def)
next
  case False
  with assms have "ready_scan ctx st (find_back_edges (rc_graph ctx))
      (filter (\<lambda>e. to_node e = n) (edges (rc_graph ctx))) False"
    by (simp add: is_node_ready_def build_incoming_edges_def group_by_eq)
  from ready_scan_sound [OF this] show ?thesis
    unfolding sources_settled_def Let_def list_all_iff list_ex_iff by blast
qed

lemma sources_settled_cong:
  assumes "edge_frame st st'"
  shows "sources_settled ctx st' n = sources_settled ctx st n"
  using edge_frameD [OF assms] by (simp add: sources_settled_def passing_source_def)

definition ready_ok :: "run_context \<Rightarrow> run_state \<Rightarrow> ready_node \<Rightarrow> bool" where
  "ready_ok ctx st r \<longleftrightarrow>
     rn_node_id r \<notin> rs_running_set st \<and> \<not> fan_out_running st (rn_node_id r)
     \<and> (if rn_is_cycle r then rn_node_id r \<in> rs_completed st
        else rn_node_id r \<notin> rs_completed st \<union> rs_failed st \<and> sources_settled ctx st (rn_node_id r))"

lemma ready_ok_cong:
  assumes "edge_frame st st'"
  shows "ready_ok ctx st' r = ready_ok ctx st r"
  using edge_frameD [OF assms] sources_settled_cong [OF assms]
  by (simp add: ready_ok_def fan_out_running_def)

lemma evaluate_edges_ready:
  assumes "fold (evaluate_edge ctx (find_back_edges (rc_graph ctx)) ff outputs) es (st, seen, ready)
      = (st', seen', ready')"
    and "distinct (map rn_node_id ready)" "rn_node_id ` set ready \<subseteq> seen" "list_all (ready_ok ctx st) ready"
  shows "distinct (map rn_node_id ready') \<and> list_all (ready_ok ctx st) ready'"
  using assms
proof (induction es arbitrary: st seen ready)
  case (Cons e es)
  let ?st = "edge_state ctx outputs e st" and ?b = "find_back_edges (rc_graph ctx)"
  note cong = ready_ok_cong [OF edge_state_frame, of ctx ctx outputs e st]
  show ?case
  proof (cases rule: evaluate_edge_cases [of ctx ?b ff outputs e st seen ready])
    case (skip seen')
    with Cons.prems Cons.IH [of ?st seen' ready] show ?thesis
      by (auto simp: list_all_iff cong)
  next
    case (ready r)
    have "ready_ok ctx ?st r"
      using ready(2,5) is_node_ready_sound [of ctx ?st "to_node e"]
      by (auto simp: ready_ok_def new_ready_def split: if_splits)
    with ready Cons.prems Cons.IH [of ?st "insert (to_node e) seen" "ready @ [r]"] show ?thesis
      by (auto simp: list_all_iff cong)
  qed
qed simp

section \<open>Fan-in\<close>

definition fan_in_run ::
  "string \<Rightarrow> (nat \<Rightarrow> node_outcome) \<Rightarrow> nat list \<Rightarrow> run_state \<Rightarrow> run_state \<times> (string \<times> json) option" where
  "fan_in_run nid f order st =
     fold (\<lambda>i acc. handle_fan_out_completion nid (of_nat i) (f i) (fst acc)) order (st, None)"

definition fan_values :: "(nat \<Rightarrow> node_outcome) \<Rightarrow> nat \<Rightarrow> nat set \<Rightarrow> json option list" where
  "fan_values f n S = map (\<lambda>i. if i \<in> S then Some (fan_out_value (of_nat i) (f i)) else None) [0..<n]"

lemma fan_values_update:
  "i < n \<Longrightarrow> (fan_values f n S)[i := Some (fan_out_value (of_nat i) (f i))] = fan_values f n (insert i S)"
  by (auto simp: fan_values_def nth_list_update intro!: nth_equalityI)

lemma fan_in_partial:
  assumes "n < 2 ^ 32" "distinct order" "set order \<subseteq> {..<n}" "length order < n"
    and "rs_fan_out st nid = Some (fan_out_init (of_nat n))"
  shows "rs_fan_out (fst (fan_in_run nid f order st)) nid = Some
      \<lparr>fo_expected = of_nat n, fo_results = fan_values f n (set order), fo_completed = of_nat (length order)\<rparr>
    \<and> snd (fan_in_run nid f order st) = None"
  using assms(2-4)
proof (induction order rule: rev_induct)
  case Nil
  then show ?case
    using assms(1,5) by (simp add: fan_in_run_def fan_out_init_def fan_values_def unat_of_nat_u32
        map_replicate_trivial)
next
  case (snoc i order)
  then have i: "i < n" and len: "length order < n" "Suc (length order) < n"
    by auto
  define st1 where "st1 = fst (fan_in_run nid f order st)"
  have IH: "rs_fan_out st1 nid = Some
      \<lparr>fo_expected = of_nat n, fo_results = fan_values f n (set order), fo_completed = of_nat (length order)\<rparr>"
    using snoc len unfolding st1_def by simp
  have u: "unat (of_nat i :: u32) = i" using i assms(1) by (simp add: unat_of_nat_u32)
  have "(of_nat (length order) + 1 :: u32) \<noteq> of_nat n"
  proof
    assume "(of_nat (length order) + 1 :: u32) = of_nat n"
    then have "(of_nat (Suc (length order)) :: u32) = of_nat n" by (simp add: add.commute)
    then have "unat (of_nat (Suc (length order)) :: u32) = unat (of_nat n :: u32)" by simp
    with len assms(1) show False by (simp add: unat_of_nat_u32 del: of_nat_Suc)
  qed
  then have "handle_fan_out_completion nid (of_nat i) (f i) st1 =
    (st1\<lparr>rs_fan_out := (rs_fan_out st1)(nid \<mapsto>
       \<lparr>fo_expected = of_nat n, fo_results = fan_values f n (insert i (set order)),
        fo_completed = of_nat (length order) + 1\<rparr>)\<rparr>, None)"
    using i u by (simp add: handle_fan_out_completion_def IH Let_def fan_values_update)
      (simp add: fan_values_def)
  then show ?case
    by (simp add: fan_in_run_def st1_def [unfolded fan_in_run_def, symmetric] add.commute)
qed

lemma fan_in_last:
  assumes "n < 2 ^ 32" "i < n" "insert i S = {..<n}" "i \<notin> S" "Suc m = n"
    and "rs_fan_out st nid = Some
      \<lparr>fo_expected = of_nat n, fo_results = fan_values f n S, fo_completed = of_nat m\<rparr>"
  shows "\<exists>st'. handle_fan_out_completion nid (of_nat i) (f i) st =
      (st', Some (nid, JArray (map (\<lambda>i. fan_out_value (of_nat i) (f i)) [0..<n])))
    \<and> rs_outputs st' nid = Some (JArray (map (\<lambda>i. fan_out_value (of_nat i) (f i)) [0..<n]))
    \<and> nid \<in> rs_completed st' \<and> rs_fan_out st' nid = None"
proof -
  have u: "unat (of_nat i :: u32) = i" using assms(1,2) by (simp add: unat_of_nat_u32)
  have m: "(of_nat m + 1 :: u32) = of_nat n" using assms(5) [symmetric] by (simp add: add.commute)
  have len: "length (fan_values f n S) = n" by (simp add: fan_values_def)
  have "map (\<lambda>r. case r of Some v \<Rightarrow> v | None \<Rightarrow> JNull) (fan_values f n {..<n})
    = map (\<lambda>i. fan_out_value (of_nat i) (f i)) [0..<n]" by (simp add: fan_values_def)
  with assms u m len show ?thesis
    by (simp add: handle_fan_out_completion_def Let_def fan_values_update)
qed

lemma fan_in_run_snoc:
  "fan_in_run nid f (order @ [i]) st =
     handle_fan_out_completion nid (of_nat i) (f i) (fst (fan_in_run nid f order st))"
  by (simp add: fan_in_run_def)

lemma fold_add_tokens:
  "fold (\<lambda>r acc. add_tokens acc (f r)) rs a =
     a + of_nat (sum_list (map (\<lambda>r. case f r of None \<Rightarrow> 0 | Some n \<Rightarrow> unat n) rs))"
  by (induction rs arbitrary: a)
     (auto simp: add_tokens_def unsigned_ucast_eq of_nat_unat split: option.split)

text \<open>What the failure of a node makes ready: successors that have not run, once all their sources are done
  and one has completed, whatever the conditions of the edges say.\<close>

definition resumed_ok :: "run_context \<Rightarrow> run_state \<Rightarrow> string \<Rightarrow> string \<Rightarrow> bool" where
  "resumed_ok ctx st failed_node n \<longleftrightarrow>
     (let inc = filter (\<lambda>e. to_node e = n) (edges (rc_graph ctx))
      in n \<notin> rs_running_set st \<union> rs_completed st \<union> rs_failed st
         \<and> list_ex (\<lambda>e. from_node e = failed_node) inc
         \<and> list_all (\<lambda>e. from_node e \<in> rs_completed st \<union> rs_failed st) inc
         \<and> list_ex (\<lambda>e. from_node e \<in> rs_completed st) inc)"

lemma find_ready_after_failure_sound: "list_all (resumed_ok ctx st m) (find_ready_after_failure ctx st m)"
  unfolding list_all_iff
proof
  fix n
  assume n: "n \<in> set (find_ready_after_failure ctx st m)"
  then obtain es where es: "bt_get m (build_outgoing_edges (rc_graph ctx)) = Some es"
    by (cases "bt_get m (build_outgoing_edges (rc_graph ctx))") (simp_all add: find_ready_after_failure_def)
  with n obtain e where e: "e \<in> set es" "to_node e = n"
    and fresh: "n \<notin> rs_running_set st \<union> rs_completed st \<union> rs_failed st"
    and sources: "case bt_get n (build_incoming_edges (rc_graph ctx)) of None \<Rightarrow> False
      | Some inc \<Rightarrow> list_all (\<lambda>i. from_node i \<in> rs_completed st \<or> from_node i \<in> rs_failed st) inc
          \<and> list_ex (\<lambda>i. from_node i \<in> rs_completed st) inc"
    by (auto simp: find_ready_after_failure_def)
  obtain inc where inc: "bt_get n (build_incoming_edges (rc_graph ctx)) = Some inc"
      "list_all (\<lambda>i. from_node i \<in> rs_completed st \<or> from_node i \<in> rs_failed st) inc"
      "list_ex (\<lambda>i. from_node i \<in> rs_completed st) inc"
    using sources by (cases "bt_get n (build_incoming_edges (rc_graph ctx))") simp_all
  have "inc = filter (\<lambda>e. to_node e = n) (edges (rc_graph ctx))"
    using inc(1) by (simp add: build_incoming_edges_def group_by_eq split: if_splits)
  moreover have "e \<in> set (edges (rc_graph ctx))" "from_node e = m"
    using es e(1) group_by_mem unfolding build_outgoing_edges_def by fastforce+
  ultimately show "resumed_ok ctx st m n"
    using fresh inc(2,3) e(2) by (auto simp: resumed_ok_def Let_def list_ex_iff)
qed

section \<open>A concrete run\<close>

text \<open>Two nodes joined by an edge with the condition \<open>go == true\<close>; the first node has returned \<open>v\<close>.\<close>

definition demo_node :: "string \<Rightarrow> node_instance" where
  "demo_node n = \<lparr>instance_id = n, node_type = ''t'', node_config = JNull, position = None\<rparr>"

definition demo_meta :: node_meta where
  "demo_meta = \<lparr>meta_node_type = ''t'', label = ''t'', category = ''t'', meta_inputs = [],
     meta_outputs = [], config_schema = JNull,
     ui = \<lparr>icon = None, color = None, dynamic_ports = False\<rparr>, execution = execution_hints_default\<rparr>"

definition demo_graph :: graph_def where
  "demo_graph =
     \<lparr>graph_schema_version = 1, graph_id = ''g'', graph_name = ''g'', graph_version = ''1'',
      nodes = [demo_node ''a'', demo_node ''b''],
      edges = [\<lparr>edge_id = ''e1'', from_node = ''a'', from_port = ''o'', to_node = ''b'', to_port = ''i'',
                edge_cond = Some \<lparr>cond_expression = ''go == true'', cond_label = None\<rparr>\<rparr>],
      graph_metadata = [], tool_definitions = []\<rparr>"

definition demo_ctx :: run_context where
  "demo_ctx = \<lparr>rc_run_id = ''r'', rc_graph = demo_graph, rc_inputs = JNull,
     rc_registry = (\<lambda>ty. if ty = ''t'' then Some demo_meta else None), rc_max_traversals = 50,
     rc_dbg = (\<lambda>_. []), rc_parse_chunk = (\<lambda>_. None), rc_now = (\<lambda>_. 0)\<rparr>"

definition demo_attempt :: "json \<Rightarrow> u32 \<Rightarrow> attempt" where
  "demo_attempt v a = \<lparr>att_result = Returned v, att_duration_ms = 1, att_llm = [], att_events = []\<rparr>"

definition demo_result :: "nat \<Rightarrow> json \<Rightarrow> run_state \<Rightarrow> node_result" where
  "demo_result i v st = fst (execute_node (task_env demo_ctx (rs_running st ! i) (\<lambda>x _. x) (\<lambda>_ _. 0)) (demo_attempt v))"

definition demo_end :: "json \<Rightarrow> run_state" where
  "demo_end v = handle_result demo_ctx (demo_result 0 v (run_init demo_ctx)) (take_task 0 (run_init demo_ctx))"

lemma demo_running: "length (rs_running (run_init demo_ctx)) = 1" "\<not> rs_panicked (run_init demo_ctx)"
  by code_simp+

lemma demo_reachable: "reachable demo_ctx (demo_end v)"
proof -
  have "run_step demo_ctx (run_init demo_ctx) (demo_end v)"
    unfolding demo_end_def
    by (rule run_step.finish [OF demo_running(2) _ demo_result_def]) (simp add: demo_running)
  then show ?thesis by (rule reachable.step [OF reachable.init])
qed

lemma demo_ends: "run_ends demo_ctx False (demo_end JNull)"
proof (rule run_ends.drained [OF demo_reachable])
  show "\<not> rs_panicked (demo_end JNull)" by code_simp
  show "rs_running (demo_end JNull) = []" by code_simp
qed

definition demo_go :: json where
  "demo_go = json_object [(''go'', JBool True)]"

definition demo_mid :: run_state where
  "demo_mid = (demo_end JNull)\<lparr>rs_outputs := [''a'' \<mapsto> demo_go]\<rparr>"

lemma demo_registered: "registered demo_ctx"
  by (simp add: registered_def demo_ctx_def demo_graph_def demo_node_def)

section \<open>Properties\<close>

text \<open>(C1) Every run ends: for every graph, cycles included, every handler behaviour and every order
  in which tasks finish or panic, there is no infinite sequence of iterations of the run loop.
  The step relation is well-founded.\<close>

theorem run_terminates: "wf {(st', st). run_step ctx st st'}"
proof -
  have "wf (inv_image (less_than <*lex*> less_than <*lex*> less_than) (run_measure ctx))"
    by (intro wf_inv_image wf_lex_prod wf_less_than)
  then show ?thesis
    by (rule wf_subset) (auto simp: run_step_measure simp del: in_lex_prod)
qed

text \<open>(C2) Traversal limit: in every reachable state the recorded \<open>EdgeEvaluated\<close> events say of every
  edge exactly as often as its counter that it was taken, and no edge is ever taken more often
  than \<open>max_traversals\<close>; the counter never wraps.\<close>

theorem edge_traversals_bounded:
  assumes "reachable ctx st"
  shows "length (filter (passed_edge i) (rs_log st)) = unat (traversals (rs_counts st) i)
    \<and> length (filter (passed_edge i) (rs_log st)) \<le> unat (rc_max_traversals ctx)"
  using count_inv_reachable [OF assms] by (simp add: count_inv_def passes_def word_le_nat_alt)

theorem edge_traversals_bounded_witness:
  "length (filter (passed_edge ''e1'') (rs_log (demo_end (json_object [(''go'', JBool True)])))) = 1
   \<and> unat (traversals (rs_counts (demo_end (json_object [(''go'', JBool True)]))) ''e1'') = 1"
proof -
  have "traversals (rs_counts (demo_end (json_object [(''go'', JBool True)]))) ''e1'' = 1" by code_simp
  with edge_traversals_bounded [OF demo_reachable, of "''e1''" "json_object [(''go'', JBool True)]"]
  show ?thesis by simp
qed

text \<open>What a run reports at the end: when every node type is registered and the loop ends because
  no task is left, the run is \<open>Completed\<close> exactly when every node of the graph completed and
  none failed.  In particular a run in which a conditional branch was not taken, whose nodes
  never became ready, is \<open>Failed\<close>.\<close>

theorem run_completed_iff:
  assumes "registered ctx" and "run_ends ctx False st"
  shows "final_status ctx False st = Completed \<longleftrightarrow>
    rs_completed st = all_node_ids ctx \<and> rs_failed st = {}"
proof -
  from assms(2) have r: "reachable ctx st" "rs_running st = []" by (auto elim: run_ends.cases)
  have c: "rs_completed st \<subseteq> all_node_ids ctx"
    using node_inv_reachable [OF r(1)] by (simp add: node_inv_def)
  have "rs_running_set st = {}" if "rs_failed st = {}"
    using covered_reachable [OF assms(1) r(1)] that r(2) by (simp add: covered_def)
  moreover have "card (all_node_ids ctx) \<le> card (rs_completed st) \<Longrightarrow> rs_completed st = all_node_ids ctx"
    using card_seteq [OF finite_all_node_ids c] by simp
  ultimately show ?thesis
    using c by (auto simp: final_status_def Let_def all_reachable_done_def not_less)
qed

theorem run_completed_iff_witness:
  "run_ends demo_ctx False (demo_end JNull) \<and> rs_failed (demo_end JNull) = {}
   \<and> final_status demo_ctx False (demo_end JNull) \<noteq> Completed"
proof -
  have "rs_completed (demo_end JNull) = {''a''}" "rs_failed (demo_end JNull) = {}" by code_simp+
  moreover have "all_node_ids demo_ctx = {''a'', ''b''}" by code_simp
  ultimately have "rs_completed (demo_end JNull) \<noteq> all_node_ids demo_ctx" by auto
  with run_completed_iff [OF demo_registered demo_ends] demo_ends \<open>rs_failed (demo_end JNull) = {}\<close>
  show ?thesis by simp
qed

text \<open>(C6) Scheduling soundness.  The nodes that the evaluation of the edges of a completed node makes
  ready are pairwise distinct and not running; one that has not run yet is made ready only when every
  source of its non-back-edges has completed or failed and, unless nothing leads to it, at least one
  of those edges comes from a completed node whose output satisfies the edge's condition.  The nodes
  that the failure of a node makes ready are successors of it that have not run, all of whose
  sources, those of back-edges included, have completed or failed and one of which has completed;
  there no condition is evaluated, and a node may be listed twice.\<close>

theorem ready_nodes_sound:
  assumes "evaluate_edges_and_find_ready ctx (find_back_edges (rc_graph ctx)) ff n outputs st = (st', ready)"
  shows "distinct (map rn_node_id ready) \<and> list_all (ready_ok ctx st) ready
    \<and> list_all (resumed_ok ctx st2 m) (find_ready_after_failure ctx st2 m)"
  using assms evaluate_edges_ready [of ctx ff outputs _ st "{}" "[]"] find_ready_after_failure_sound
  unfolding evaluate_edges_and_find_ready_def by (fastforce split: option.splits prod.splits)

theorem ready_nodes_sound_witness:
  "map rn_node_id (snd (evaluate_edges_and_find_ready demo_ctx (find_back_edges (rc_graph demo_ctx))
     False ''a'' demo_go demo_mid)) = [''b''] \<and> sources_settled demo_ctx demo_mid ''b''"
proof -
  let ?r = "evaluate_edges_and_find_ready demo_ctx (find_back_edges (rc_graph demo_ctx)) False ''a'' demo_go demo_mid"
  have r: "map (\<lambda>r. (rn_node_id r, rn_is_cycle r)) (snd ?r) = [(''b'', False)]" by code_simp
  then obtain rn where rn: "snd ?r = [rn]" "rn_node_id rn = ''b''" "\<not> rn_is_cycle rn" by auto
  from ready_nodes_sound [OF prod.collapse [symmetric], of demo_ctx False "''a''" demo_go demo_mid] rn
  show ?thesis by (simp add: ready_ok_def)
qed

text \<open>
  After a failure the conditions are not consulted: \<open>c\<close> follows \<open>a\<close> over an edge whose condition the
  output of \<open>a\<close> does not satisfy, and \<open>b\<close> over two edges.  The completion of \<open>a\<close> does not make \<open>c\<close> ready
  although \<open>b\<close> is done, the failure of \<open>b\<close> does, and lists it once for each edge.
\<close>

definition branch_ctx :: run_context where
  "branch_ctx = demo_ctx\<lparr>rc_graph := demo_graph\<lparr>nodes := map demo_node [''a'', ''b'', ''c''],
     edges := [\<lparr>edge_id = ''e1'', from_node = ''a'', from_port = ''o'', to_node = ''c'', to_port = ''i'',
                 edge_cond = Some \<lparr>cond_expression = ''go == true'', cond_label = None\<rparr>\<rparr>,
               \<lparr>edge_id = ''e2'', from_node = ''b'', from_port = ''o'', to_node = ''c'', to_port = ''j'', edge_cond = None\<rparr>,
               \<lparr>edge_id = ''e3'', from_node = ''b'', from_port = ''p'', to_node = ''c'', to_port = ''k'', edge_cond = None\<rparr>]\<rparr>\<rparr>"

definition branch_state :: run_state where
  "branch_state = (run_init branch_ctx)\<lparr>rs_running_set := {}, rs_completed := {''a''},
     rs_outputs := [''a'' \<mapsto> json_object [(''go'', JBool False)]], rs_failed := {''b''}\<rparr>"

lemma failure_starts_unchecked:
  "map rn_node_id (snd (evaluate_edges_and_find_ready branch_ctx (find_back_edges (rc_graph branch_ctx)) False ''a''
      (json_object [(''go'', JBool False)]) branch_state)) = []
   \<and> find_ready_after_failure branch_ctx branch_state ''b'' = [''c'', ''c'']"
  by code_simp

text \<open>(C13) Fan-in is independent of scheduling: in whatever order the \<open>n\<close> instances of a fanned-out
  node finish, the last completion merges the results in index order, a failed instance
  contributing its error object, and no earlier completion merges anything.\<close>

theorem fan_in_order_independent:
  assumes "n < 2 ^ 32" and "distinct (order @ [i])" and "set (order @ [i]) = {..<n}"
    and "rs_fan_out st nid = Some (fan_out_init (of_nat n))"
  shows "snd (fan_in_run nid f order st) = None
    \<and> snd (fan_in_run nid f (order @ [i]) st) =
        Some (nid, JArray (map (\<lambda>i. fan_out_value (of_nat i) (f i)) [0..<n]))
    \<and> rs_outputs (fst (fan_in_run nid f (order @ [i]) st)) nid =
        Some (JArray (map (\<lambda>i. fan_out_value (of_nat i) (f i)) [0..<n]))"
proof -
  have "card (set (order @ [i])) = n" using assms(3) by simp
  then have len: "Suc (length order) = n" using distinct_card [OF assms(2)] by simp
  have sub: "set order \<subseteq> {..<n}" and i: "i < n" and ins: "insert i (set order) = {..<n}"
    using assms(3) by auto
  have "distinct order" "i \<notin> set order" using assms(2) by auto
  from fan_in_partial [OF assms(1) this(1) sub _ assms(4)] len
  have p: "rs_fan_out (fst (fan_in_run nid f order st)) nid = Some
      \<lparr>fo_expected = of_nat n, fo_results = fan_values f n (set order), fo_completed = of_nat (length order)\<rparr>"
    "snd (fan_in_run nid f order st) = None" by auto
  from fan_in_last [OF assms(1) i ins \<open>i \<notin> set order\<close> len p(1)] p(2) show ?thesis
    by (auto simp: fan_in_run_snoc)
qed

theorem fan_in_order_independent_witness:
  "snd (fan_in_run ''a'' (\<lambda>i. NodeSuccess (JBool (i = 0))) [1, 0]
     ((run_init demo_ctx)\<lparr>rs_fan_out := [''a'' \<mapsto> fan_out_init 2]\<rparr>))
   = Some (''a'', JArray [JBool True, JBool False])"
proof -
  have "set ([1] @ [0]) = {..<2 :: nat}" by auto
  from fan_in_order_independent [OF _ _ this, of "(run_init demo_ctx)\<lparr>rs_fan_out := [''a'' \<mapsto> fan_out_init 2]\<rparr>"
      "''a''" "\<lambda>i. NodeSuccess (JBool (i = 0))"]
  show ?thesis by (simp add: upt_conv_Cons)
qed

text \<open>The LLM summary of a run: the token totals are the sums of the reported counts, the number
  of calls the number of records, and the model and tool lists are sorted, without duplicates
  and contain exactly the names that occur in the records.\<close>

theorem llm_summary_spec:
  "total_llm_calls (compute_llm_summary rs) = of_nat (length rs)
   \<and> total_input_tokens (compute_llm_summary rs) =
       of_nat (sum_list (map (\<lambda>r. case lr_input_tokens (li_response r) of None \<Rightarrow> 0 | Some n \<Rightarrow> unat n) rs))
   \<and> total_output_tokens (compute_llm_summary rs) =
       of_nat (sum_list (map (\<lambda>r. case lr_output_tokens (li_response r) of None \<Rightarrow> 0 | Some n \<Rightarrow> unat n) rs))
   \<and> sorted_wrt (<) (models_used (compute_llm_summary rs))
   \<and> set (models_used (compute_llm_summary rs)) = (\<lambda>r. lq_model (li_request r)) ` set rs
   \<and> sorted_wrt (<) (tools_invoked (compute_llm_summary rs))
   \<and> set (tools_invoked (compute_llm_summary rs)) = (\<Union>r \<in> set rs. tool_names r)"
proof -
  have "finite (\<Union>r \<in> set rs. tool_names r)" by (auto simp: tool_names_def split: option.split)
  then show ?thesis
    by (simp add: compute_llm_summary_def Let_def fold_add_tokens strict_sorted_list_of_set)
qed

end
