(* ===== verification/Run_Store.thy ===== *)
theory Run_Store
  imports Write_Events "HOL-Library.Option_ord" "HOL-Library.Product_Lexorder"
begin

text \<open>
  \<open>defaults/reconstruct.rs\<close> and \<open>defaults/in_memory_run_store.rs\<close>: queries rebuilt from the event
  log, the in-memory store, and the default methods of the \<open>RunStore\<close> trait.  The contract of a
  run store is a locale over the merge of a batch into the log of a run; its consequences
  (retries are harmless, nothing stored is lost, crash recovery is final) are proved once and
  hold for the in-memory store by interpretation.
\<close>

section \<open>Reconstruction (\<open>reconstruct.rs\<close>)\<close>

fun apply_run_event :: "write_event \<Rightarrow> run_record \<Rightarrow> run_record" where
  "apply_run_event (RunStarted _ _ _ flow_id version_id trigger_inputs triggered_by config_hash parent_run_id timestamp) record =
     record\<lparr>rr_flow_id := flow_id, rr_version_id := version_id, rr_inputs := trigger_inputs,
            rr_triggered_by := triggered_by, rr_config_hash := config_hash,
            rr_parent_run_id := parent_run_id, rr_started_at := Some timestamp, rr_status := Running\<rparr>"
| "apply_run_event (RunCompleted _ _ _ status duration_ms llm_summary timestamp) record =
     record\<lparr>rr_status := status, rr_duration_ms := Some duration_ms, rr_llm_summary := llm_summary,
            rr_completed_at := Some timestamp\<rparr>"
| "apply_run_event _ record = record"

definition reconstruct_record :: "string \<Rightarrow> write_event list \<Rightarrow> run_record" where
  "reconstruct_record run_id events = fold apply_run_event events (run_record_default\<lparr>rr_run_id := run_id\<rparr>)"

definition reconstruct_run :: "string \<Rightarrow> write_event list \<Rightarrow> run_record option" where
  "reconstruct_run run_id events = (if events = [] then None else Some (reconstruct_record run_id events))"

definition new_node_result :: "string \<Rightarrow> node_run_result" where
  "new_node_result node_id =
     \<lparr>nr_node_id = node_id, nr_status = ''running'', nr_inputs = JNull, nr_outputs = None,
      nr_error = None, nr_duration_ms = None, nr_attempts = 0\<rparr>"

fun node_result_step ::
  "write_event \<Rightarrow> (string \<times> node_run_result) list \<Rightarrow> (string \<times> node_run_result) list" where
  "node_result_step (NodeStarted _ _ _ node_id inputs _ attempt _) acc =
     hm_entry node_id (new_node_result node_id)
       (\<lambda>entry. entry\<lparr>nr_inputs := inputs, nr_attempts := max (nr_attempts entry) attempt\<rparr>) acc"
| "node_result_step (NodeCompleted _ _ _ node_id outputs _ duration_ms _) acc =
     hm_modify node_id (\<lambda>entry. entry\<lparr>nr_status := ''completed'', nr_outputs := Some outputs,
       nr_duration_ms := Some duration_ms\<rparr>) acc"
| "node_result_step (NodeFailed _ _ _ node_id err will_retry _ _) acc =
     hm_modify node_id (\<lambda>entry. if \<not> will_retry
       then entry\<lparr>nr_status := ''failed'', nr_error := Some err\<rparr> else entry) acc"
| "node_result_step _ acc = acc"

definition extract_node_results :: "write_event list \<Rightarrow> node_run_result list" where
  "extract_node_results events = map snd (fold node_result_step events [])"

fun edge_result_of :: "write_event \<Rightarrow> edge_run_result option" where
  "edge_result_of (EdgeEvaluated _ _ _ eid cond res data_summary _) =
     Some \<lparr>er_edge_id = eid, er_condition = cond, er_result = res,
           er_data_summary = data_summary\<rparr>"
| "edge_result_of _ = None"

definition extract_edge_results :: "write_event list \<Rightarrow> edge_run_result list" where
  "extract_edge_results events = List.map_filter edge_result_of events"

text \<open>\<open>iter_mut().rev().find(p)\<close>: the update of the last entry that satisfies a predicate.\<close>

definition update_last :: "('a \<Rightarrow> bool) \<Rightarrow> ('a \<Rightarrow> 'a) \<Rightarrow> 'a list \<Rightarrow> 'a list" where
  "update_last P f xs =
     (let rest = takeWhile (\<lambda>x. \<not> P x) (rev xs)
      in case dropWhile (\<lambda>x. \<not> P x) (rev xs) of
           [] \<Rightarrow> xs
         | x # before \<Rightarrow> rev before @ f x # rev rest)"

definition unfinished :: "node_attempt_detail \<Rightarrow> bool" where
  "unfinished d \<longleftrightarrow> ad_outputs d = None \<and> ad_error d = None"

definition new_attempt :: "u32 \<Rightarrow> u32 option \<Rightarrow> json \<Rightarrow> node_attempt_detail" where
  "new_attempt attempt fan_out_index inputs =
     \<lparr>ad_attempt = attempt, ad_fan_out_index = fan_out_index, ad_inputs = inputs, ad_outputs = None,
      ad_error = None, ad_duration_ms = None\<rparr>"

fun node_detail_step ::
  "string \<Rightarrow> write_event \<Rightarrow> node_attempt_detail list \<Rightarrow> node_attempt_detail list" where
  "node_detail_step node_id (NodeStarted _ _ _ nid inputs fan_out_index attempt _) attempts =
     (if nid = node_id then attempts @ [new_attempt attempt fan_out_index inputs] else attempts)"
| "node_detail_step node_id (NodeCompleted _ _ _ nid outputs fan_out_index duration_ms _) attempts =
     (if nid = node_id
      then update_last (\<lambda>d. ad_fan_out_index d = fan_out_index \<and> unfinished d)
             (\<lambda>d. d\<lparr>ad_outputs := Some outputs, ad_duration_ms := Some duration_ms\<rparr>) attempts
      else attempts)"
| "node_detail_step node_id (NodeFailed _ _ _ nid err _ _ _) attempts =
     (if nid = node_id then update_last unfinished (\<lambda>d. d\<lparr>ad_error := Some err\<rparr>) attempts
      else attempts)"
| "node_detail_step node_id _ attempts = attempts"

definition extract_node_detail :: "write_event list \<Rightarrow> string \<Rightarrow> node_run_detail option" where
  "extract_node_detail events node_id =
     (let attempts = fold (node_detail_step node_id) events []
      in if attempts = [] then None else Some \<lparr>rd_node_id = node_id, rd_attempts = attempts\<rparr>)"

fun custom_record_of :: "write_event \<Rightarrow> custom_event_record option" where
  "custom_record_of (Custom seq _ run_id node_id name data _) =
     Some \<lparr>ce_run_id = run_id, ce_node_id = node_id, ce_name = name, ce_data = data, ce_seq = seq\<rparr>"
| "custom_record_of _ = None"

definition extract_custom_events :: "write_event list \<Rightarrow> custom_event_record list" where
  "extract_custom_events events = List.map_filter custom_record_of events"

fun llm_record_of :: "write_event \<Rightarrow> llm_invocation_record option" where
  "llm_record_of (LlmInvocation _ _ run_id node_id request response timestamp) =
     Some \<lparr>li_run_id = run_id, li_node_id = node_id, li_request = request, li_response = response,
           li_timestamp = timestamp\<rparr>"
| "llm_record_of _ = None"

definition extract_llm_invocations :: "write_event list \<Rightarrow> llm_invocation_record list" where
  "extract_llm_invocations events = List.map_filter llm_record_of events"

section \<open>The in-memory store\<close>

record mem_store =
  ms_runs :: "(string, run_record) btree"
  ms_events :: "(string, write_event list) btree"

definition mem_new :: mem_store where
  "mem_new = \<lparr>ms_runs = [], ms_events = []\<rparr>"

text \<open>Merging the part of a batch that belongs to one run into its log: events whose number is already
  stored are skipped, and the log is sorted by number (a stable sort).\<close>

definition merge_events :: "write_event list \<Rightarrow> write_event list \<Rightarrow> write_event list" where
  "merge_events stored batch =
     (let existing_seqs = set (map ev_seq stored)
      in sort_key ev_seq (stored @ filter (\<lambda>e. ev_seq e \<notin> existing_seqs) batch))"

definition mem_write_run :: "string \<times> write_event list \<Rightarrow> mem_store \<Rightarrow> mem_store" where
  "mem_write_run rb st =
     (case rb of (run_id, batch) \<Rightarrow>
        let stored = merge_events (case bt_get run_id (ms_events st) of None \<Rightarrow> [] | Some es \<Rightarrow> es) batch
        in st\<lparr>ms_events := bt_insert run_id stored (ms_events st),
              ms_runs := bt_insert run_id (reconstruct_record run_id stored) (ms_runs st)\<rparr>)"

definition mem_write_batch ::
  "write_event list \<Rightarrow> mem_store \<Rightarrow> (run_store_error, unit) result \<times> mem_store" where
  "mem_write_batch new_events st = (Inr (), fold mem_write_run (group_by ev_run_id new_events) st)"

definition mem_get_run :: "mem_store \<Rightarrow> string \<Rightarrow> (run_store_error, run_record option) result" where
  "mem_get_run st run_id = Inr (bt_get run_id (ms_runs st))"

definition mem_events :: "mem_store \<Rightarrow> string \<Rightarrow> write_event list" where
  "mem_events st run_id = (case bt_get run_id (ms_events st) of None \<Rightarrow> [] | Some es \<Rightarrow> es)"

definition opt_matches :: "'a option \<Rightarrow> 'a \<Rightarrow> bool" where
  "opt_matches f x = (case f of None \<Rightarrow> True | Some y \<Rightarrow> x = y)"

definition page_of :: "run_filter \<Rightarrow> run_record list \<Rightarrow> run_page" where
  "page_of flt runs =
     (let offset = unwrap_or (rf_offset flt) 0; limit = unwrap_or (rf_limit flt) (length runs)
      in \<lparr>page_runs = take limit (drop offset runs), page_total = length runs\<rparr>)"

definition mem_list_runs :: "mem_store \<Rightarrow> run_filter \<Rightarrow> run_page" where
  "mem_list_runs st flt =
     page_of flt (List.filter (\<lambda>r. opt_matches (rf_flow_id flt) (rr_flow_id r)
                                   \<and> opt_matches (rf_status flt) (rr_status r))
                    (map snd (ms_runs st)))"

definition mem_get_node_results :: "mem_store \<Rightarrow> string \<Rightarrow> node_run_result list" where
  "mem_get_node_results st run_id =
     (case bt_get run_id (ms_events st) of
        None \<Rightarrow> []
      | Some events \<Rightarrow> map snd (fold node_result_step events []))"

definition mem_get_edge_results :: "mem_store \<Rightarrow> string \<Rightarrow> edge_run_result list" where
  "mem_get_edge_results st run_id =
     (case bt_get run_id (ms_events st) of
        None \<Rightarrow> []
      | Some events \<Rightarrow> List.map_filter edge_result_of events)"

text \<open>The in-memory node detail keys the attempts by number and fan-out index.\<close>

type_synonym attempt_map = "((u32 \<times> u32 option) \<times> node_attempt_detail) list"

fun mem_detail_step :: "string \<Rightarrow> write_event \<Rightarrow> attempt_map \<Rightarrow> attempt_map" where
  "mem_detail_step node_id (NodeStarted _ _ _ nid inputs fan_out_index attempt _) attempts =
     (if nid = node_id
      then hm_entry (attempt, fan_out_index) (new_attempt attempt fan_out_index inputs) (\<lambda>d. d) attempts
      else attempts)"
| "mem_detail_step node_id (NodeCompleted _ _ _ nid outputs fan_out_index duration_ms _) attempts =
     (if nid = node_id
      then map (\<lambda>(k, d). (k, if ad_fan_out_index d = fan_out_index
                             then d\<lparr>ad_outputs := Some outputs, ad_duration_ms := Some duration_ms\<rparr>
                             else d)) attempts
      else attempts)"
| "mem_detail_step node_id (NodeFailed _ _ _ nid err _ attempt _) attempts =
     (if nid = node_id then hm_modify (attempt, None) (\<lambda>d. d\<lparr>ad_error := Some err\<rparr>) attempts
      else attempts)"
| "mem_detail_step node_id _ attempts = attempts"

definition mem_get_node_detail :: "mem_store \<Rightarrow> string \<Rightarrow> string \<Rightarrow> node_run_detail option" where
  "mem_get_node_detail st run_id node_id =
     (case bt_get run_id (ms_events st) of
        None \<Rightarrow> None
      | Some events \<Rightarrow>
          (let attempts = fold (mem_detail_step node_id) events []
           in if attempts = [] then None
              else Some \<lparr>rd_node_id = node_id,
                rd_attempts = sort_key (\<lambda>a. (ad_attempt a, ad_fan_out_index a)) (map snd attempts)\<rparr>))"

definition mem_get_custom_events :: "mem_store \<Rightarrow> string \<Rightarrow> custom_event_record list" where
  "mem_get_custom_events st run_id =
     (case bt_get run_id (ms_events st) of
        None \<Rightarrow> []
      | Some events \<Rightarrow> List.map_filter custom_record_of events)"

definition mem_get_llm_invocations :: "mem_store \<Rightarrow> string \<Rightarrow> llm_invocation_record list" where
  "mem_get_llm_invocations st run_id =
     (case bt_get run_id (ms_events st) of
        None \<Rightarrow> []
      | Some events \<Rightarrow> List.map_filter llm_record_of events)"

definition mem_get_llm_invocations_for_node :: "mem_store \<Rightarrow> string \<Rightarrow> string \<Rightarrow> llm_invocation_record list" where
  "mem_get_llm_invocations_for_node st run_id node_id =
     List.filter (\<lambda>r. li_node_id r = node_id) (mem_get_llm_invocations st run_id)"

section \<open>Default methods of the trait\<close>

definition interrupted_event :: "string \<Rightarrow> datetime \<Rightarrow> write_event" where
  "interrupted_event run_id now =
     RunCompleted (- 1) WRITE_EVENT_SCHEMA_VERSION run_id Interrupted 0 None now"

definition mark_interrupted :: "(write_event list \<Rightarrow> 'r) \<Rightarrow> string \<Rightarrow> datetime \<Rightarrow> 'r" where
  "mark_interrupted write_batch run_id now = write_batch [interrupted_event run_id now]"

section \<open>Merging batches\<close>

definition of_run :: "string \<Rightarrow> write_event list \<Rightarrow> write_event list" where
  "of_run r es = List.filter (\<lambda>e. ev_run_id e = r) es"

lemma set_of_run [simp]: "set (of_run r es) = {e \<in> set es. ev_run_id e = r}"
  by (auto simp: of_run_def)

lemma set_merge_events:
  "set (merge_events stored batch) =
     set stored \<union> {e \<in> set batch. ev_seq e \<notin> ev_seq ` set stored}"
  by (auto simp: merge_events_def Let_def)

lemma seqs_merge_events: "ev_seq ` set (merge_events stored batch) = ev_seq ` set stored \<union> ev_seq ` set batch"
  by (auto simp: set_merge_events)

lemma sorted_merge_events [simp]: "sorted (map ev_seq (merge_events stored batch))"
  by (simp add: merge_events_def Let_def)

lemma merge_events_known:
  "sorted (map ev_seq stored) \<Longrightarrow> ev_seq ` set batch \<subseteq> ev_seq ` set stored \<Longrightarrow>
     merge_events stored batch = stored"
  by (auto simp: merge_events_def Let_def image_subset_iff sort_key_id_if_sorted)

lemma merge_events_again [simp]:
  "merge_events (merge_events stored batch) batch = merge_events stored batch"
  by (rule merge_events_known) (auto simp: seqs_merge_events)

lemma distinct_merge_events:
  assumes "distinct (map ev_seq stored)" "distinct (map ev_seq batch)"
  shows "distinct (map ev_seq (merge_events stored batch))"
proof -
  have "distinct (map ev_seq (stored @ List.filter (\<lambda>e. ev_seq e \<notin> set (map ev_seq stored)) batch))"
    using assms by (auto simp: distinct_map_filter) (metis image_eqI)
  then show ?thesis
    by (simp only: merge_events_def Let_def distinct_map distinct_sort set_sort)
qed

section \<open>Crash recovery\<close>

text \<open>A log that holds the synthetic completion event and no other event of that number.\<close>

definition interrupted_log :: "write_event \<Rightarrow> write_event list \<Rightarrow> bool" where
  "interrupted_log e es \<longleftrightarrow> ev_seq e = - 1 \<and> e \<in> set es \<and> (\<forall>x \<in> set es. ev_seq x = - 1 \<longrightarrow> x = e)"

lemma ev_seq_interrupted [simp]: "ev_seq (interrupted_event r now) = - 1"
  by (simp add: interrupted_event_def)

lemma ev_run_id_interrupted [simp]: "ev_run_id (interrupted_event r now) = r"
  by (simp add: interrupted_event_def)

lemma interrupted_log_merge: "interrupted_log e es \<Longrightarrow> interrupted_log e (merge_events es b)"
  unfolding interrupted_log_def set_merge_events by (metis (no_types, lifting) UnE UnI1 image_eqI mem_Collect_eq)

lemma interrupted_log_new:
  "- 1 \<notin> ev_seq ` set es \<Longrightarrow>
     interrupted_log (interrupted_event r now) (merge_events es [interrupted_event r now])"
  by (auto simp: interrupted_log_def set_merge_events) (metis image_eqI)

lemma last_interrupted:
  assumes "interrupted_log e es" "sorted (map ev_seq es)"
  shows "\<exists>xs. es = xs @ [e]"
proof -
  from assms(1) obtain i where i: "i < length es" "ev_seq (es ! i) = - 1"
    by (auto simp: interrupted_log_def in_set_conv_nth)
  then have ne: "es \<noteq> []" by auto
  with i sorted_nth_mono [OF assms(2), of i "length es - 1"]
  have "- 1 \<le> ev_seq (last es)" by (simp add: last_conv_nth)
  then have "ev_seq (last es) = - 1" by (simp add: word_order.extremum_unique)
  with assms(1) ne have "last es = e" by (simp add: interrupted_log_def)
  with ne show ?thesis by (metis append_butlast_last_id)
qed

lemma interrupted_log_record:
  assumes "interrupted_log (interrupted_event r now) es" "sorted (map ev_seq es)"
  shows "\<exists>record. reconstruct_run r es = Some record \<and> rr_status record = Interrupted
     \<and> rr_completed_at record = Some now"
proof -
  from last_interrupted [OF assms] obtain xs where "es = xs @ [interrupted_event r now]" ..
  then show ?thesis
    by (simp add: reconstruct_run_def reconstruct_record_def interrupted_event_def)
qed

section \<open>The contract of a run store\<close>

text \<open>
  \<open>log s r\<close> is the event log of run \<open>r\<close>, \<open>io\<close> the outcome of the system calls of one operation.
  A batch is merged into the log of each of its runs; when the write reports an error, each run
  has either the old log or the merged one.  \<open>ok\<close> are the events the store can represent.
\<close>

locale run_store =
  fixes inv :: "'s \<Rightarrow> bool"
    and ok :: "write_event \<Rightarrow> bool"
    and log :: "'s \<Rightarrow> string \<Rightarrow> write_event list"
    and write_batch :: "'io \<Rightarrow> write_event list \<Rightarrow> 's \<Rightarrow> (run_store_error, unit) result \<times> 's"
    and get_run :: "'io \<Rightarrow> 's \<Rightarrow> string \<Rightarrow> (run_store_error, run_record option) result"
  assumes inv_write: "inv s \<Longrightarrow> list_all ok b \<Longrightarrow> inv (snd (write_batch io b s))"
    and log_sorted: "inv s \<Longrightarrow> sorted (map ev_seq (log s r))"
    and write_ok: "inv s \<Longrightarrow> list_all ok b \<Longrightarrow> fst (write_batch io b s) = Inr () \<Longrightarrow>
          log (snd (write_batch io b s)) r = merge_events (log s r) (of_run r b)"
    and write_any: "inv s \<Longrightarrow> list_all ok b \<Longrightarrow>
          log (snd (write_batch io b s)) r \<in> {log s r, merge_events (log s r) (of_run r b)}"
    and get_ok: "inv s \<Longrightarrow> get_run io s r = Inr x \<Longrightarrow> x = reconstruct_run r (log s r)"
begin

text \<open>A sequence of attempts to write the same batch, as the flush loop makes them.\<close>

definition attempts :: "'io list \<Rightarrow> write_event list \<Rightarrow> 's \<Rightarrow> 's" where
  "attempts ios b s = fold (\<lambda>io st. snd (write_batch io b st)) ios s"

definition writes :: "('io \<times> write_event list) list \<Rightarrow> 's \<Rightarrow> 's" where
  "writes ws s = fold (\<lambda>(io, b) st. snd (write_batch io b st)) ws s"

lemma inv_attempts: "inv s \<Longrightarrow> list_all ok b \<Longrightarrow> inv (attempts ios b s)"
  unfolding attempts_def by (induction ios arbitrary: s) (auto intro: inv_write)

lemma inv_writes: "inv s \<Longrightarrow> list_all (\<lambda>w. list_all ok (snd w)) ws \<Longrightarrow> inv (writes ws s)"
  unfolding writes_def by (induction ws arbitrary: s) (auto simp: inv_write)

lemma log_attempts:
  "inv s \<Longrightarrow> list_all ok b \<Longrightarrow>
     log (attempts ios b s) r \<in> {log s r, merge_events (log s r) (of_run r b)}"
  unfolding attempts_def
proof (induction ios arbitrary: s)
  case (Cons io ios)
  from Cons.IH [OF inv_write [OF Cons.prems] Cons.prems(2), of io] write_any [OF Cons.prems, of io r]
  show ?case by auto
qed simp

text \<open>Failed attempts followed by a successful one have the effect of one successful write.\<close>

lemma retry_until_success:
  assumes "inv s" "list_all ok b" "fst (write_batch io b (attempts ios b s)) = Inr ()"
  shows "log (snd (write_batch io b (attempts ios b s))) r = merge_events (log s r) (of_run r b)"
  using write_ok [OF inv_attempts [OF assms(1,2)] assms(2,3), of r] log_attempts [OF assms(1,2), of ios r]
  by auto

lemma repeat_is_noop:
  assumes "inv s" "list_all ok b" "fst (write_batch io b s) = Inr ()"
  shows "log (snd (write_batch io' b (snd (write_batch io b s)))) r = log (snd (write_batch io b s)) r"
  using write_any [OF inv_write [OF assms(1,2)] assms(2), of io' io r] write_ok [OF assms, of r] by auto

text \<open>What one write keeps of a log, a sequence of writes keeps.\<close>

lemma writes_keep:
  assumes "inv s" "list_all (\<lambda>w. list_all ok (snd w)) ws" "P (log s r)"
    and step: "\<And>es b. P es \<Longrightarrow> P (merge_events es b)"
  shows "P (log (writes ws s) r)"
  using assms(1-3) unfolding writes_def
proof (induction ws arbitrary: s)
  case (Cons w ws)
  obtain io b where w: "w = (io, b)" by force
  with Cons.prems have b: "list_all ok b" by simp
  have "P (log (snd (write_batch io b s)) r)"
    using write_any [OF Cons.prems(1) b, of io r] Cons.prems(3) by (auto intro: step)
  with Cons.IH [OF inv_write [OF Cons.prems(1) b], of io] Cons.prems(2) w show ?case by simp
qed simp

lemma stored_kept:
  "inv s \<Longrightarrow> list_all (\<lambda>w. list_all ok (snd w)) ws \<Longrightarrow> set (log s r) \<subseteq> set (log (writes ws s) r)"
  by (rule writes_keep [where P = "\<lambda>es. set (log s r) \<subseteq> set es"]) (auto simp: set_merge_events)

text \<open>The synthetic completion event of crash recovery carries the greatest number: once stored it is
  last in the log, whatever is written later.\<close>

lemma mark_interrupted_final:
  assumes "inv s" "ok (interrupted_event r now)" "- 1 \<notin> ev_seq ` set (log s r)"
    and "mark_interrupted (\<lambda>b. write_batch io b s) r now = (Inr (), s')"
    and "list_all (\<lambda>w. list_all ok (snd w)) ws" "get_run io' (writes ws s') r = Inr x"
  shows "\<exists>record. x = Some record \<and> rr_status record = Interrupted \<and> rr_completed_at record = Some now"
proof -
  let ?b = "[interrupted_event r now]"
  from assms(4) have w: "write_batch io ?b s = (Inr (), s')"
    by (simp add: mark_interrupted_def)
  with assms(1,2) have inv: "inv s'" using inv_write [of s ?b io] by simp
  have "log s' r = merge_events (log s r) ?b"
    using write_ok [OF assms(1), of ?b io r] assms(2) w by (simp add: of_run_def)
  then have "interrupted_log (interrupted_event r now) (log s' r)"
    using interrupted_log_new [OF assms(3)] by simp
  then have final: "interrupted_log (interrupted_event r now) (log (writes ws s') r)"
    by (rule writes_keep [OF inv assms(5)]) (rule interrupted_log_merge)
  from get_ok [OF inv_writes [OF inv assms(5)] assms(6)]
       interrupted_log_record [OF final log_sorted [OF inv_writes [OF inv assms(5)]]]
  show ?thesis by simp
qed

end

section \<open>The in-memory store keeps the contract\<close>

text \<open>The index of run records is the reconstruction of the logs, and no log is empty.\<close>

definition mem_inv :: "mem_store \<Rightarrow> bool" where
  "mem_inv st \<longleftrightarrow>
     (\<forall>r. bt_get r (ms_runs st) = map_option (reconstruct_record r) (bt_get r (ms_events st)))
     \<and> (\<forall>r es. bt_get r (ms_events st) = Some es \<longrightarrow> es \<noteq> [] \<and> sorted (map ev_seq es))"

lemma mem_inv_new [simp, intro]: "mem_inv mem_new"
  by (simp add: mem_inv_def mem_new_def)

lemma mem_events_new [simp]: "mem_events mem_new r = []"
  by (simp add: mem_events_def mem_new_def)

lemma merge_events_Nil: "batch \<noteq> [] \<Longrightarrow> merge_events stored batch \<noteq> []"
  by (metis image_is_empty seqs_merge_events set_empty2 sup_eq_bot_iff)

lemma mem_inv_write_run:
  assumes "mem_inv st" "batch \<noteq> []"
  shows "mem_inv (mem_write_run (run_id, batch) st)"
  using assms by (simp add: mem_inv_def mem_write_run_def Let_def merge_events_Nil)

lemma mem_events_write_run:
  "mem_events (mem_write_run (run_id, batch) st) r =
     (if r = run_id then merge_events (mem_events st r) batch else mem_events st r)"
  by (simp add: mem_events_def mem_write_run_def Let_def split: option.split)

lemma mem_fold_write_runs:
  assumes "mem_inv st" "distinct (map fst gs)" "\<forall>g \<in> set gs. snd g \<noteq> []"
  shows "mem_inv (fold mem_write_run gs st)
    \<and> mem_events (fold mem_write_run gs st) r =
        (case bt_get r gs of None \<Rightarrow> mem_events st r | Some batch \<Rightarrow> merge_events (mem_events st r) batch)"
  using assms
proof (induction gs arbitrary: st)
  case (Cons g gs)
  obtain run_id batch where g: "g = (run_id, batch)" by force
  with Cons.prems have inv: "mem_inv (mem_write_run (run_id, batch) st)"
    by (auto intro: mem_inv_write_run)
  have "bt_get run_id gs = None" using Cons.prems(2) g by (simp add: bt_get_None_iff)
  with Cons.IH [OF inv] Cons.prems g show ?case
    by (auto simp: mem_events_write_run split: option.split)
qed simp

lemma mem_write_batch_log:
  assumes "mem_inv st"
  shows "mem_inv (snd (mem_write_batch b st))
    \<and> mem_events (snd (mem_write_batch b st)) r = merge_events (mem_events st r) (of_run r b)"
proof -
  have sorted: "sorted (map ev_seq (mem_events st r))"
    using assms by (auto simp: mem_inv_def mem_events_def split: option.split)
  from mem_fold_write_runs [OF assms, of "group_by ev_run_id b" r] group_by_groups [of ev_run_id b]
  show ?thesis
    by (auto simp: mem_write_batch_def group_by_eq of_run_def merge_events_known sorted)
qed

interpretation mem: run_store mem_inv "\<lambda>_. True" mem_events "\<lambda>_ :: unit. mem_write_batch" "\<lambda>_. mem_get_run"
proof unfold_locales
  fix s :: mem_store and r
  assume "mem_inv s"
  then show "sorted (map ev_seq (mem_events s r))"
    by (auto simp: mem_inv_def mem_events_def split: option.split)
next
  fix s :: mem_store and r x
  assume "mem_inv s" "mem_get_run s r = Inr x"
  then show "x = reconstruct_run r (mem_events s r)"
    by (cases "bt_get r (ms_events s)")
       (auto simp: mem_inv_def mem_get_run_def mem_events_def reconstruct_run_def)
qed (simp_all add: mem_write_batch_log)

definition mem_writes :: "write_event list list \<Rightarrow> mem_store \<Rightarrow> mem_store" where
  "mem_writes bs st = fold (\<lambda>b s. snd (mem_write_batch b s)) bs st"

lemma mem_writes_eq: "mem_writes bs st = mem.writes (map (\<lambda>b. ((), b)) bs) st"
  unfolding mem_writes_def mem.writes_def by (induction bs arbitrary: st) simp_all

lemma mem_writes_log:
  "mem_inv st \<Longrightarrow> mem_inv (mem_writes bs st)
     \<and> mem_events (mem_writes bs st) r = fold (\<lambda>b es. merge_events es (of_run r b)) bs (mem_events st r)"
  unfolding mem_writes_def by (induction bs arbitrary: st) (simp_all add: mem_write_batch_log)

lemma merged_log_spec:
  assumes "sorted (map ev_seq es)"
  shows "sorted (map ev_seq (fold (\<lambda>b es. merge_events es (of_run r b)) bs es))
    \<and> ev_seq ` set (fold (\<lambda>b es. merge_events es (of_run r b)) bs es) =
        ev_seq ` set es \<union> ev_seq ` {e \<in> \<Union> (set ` set bs). ev_run_id e = r}
    \<and> set (fold (\<lambda>b es. merge_events es (of_run r b)) bs es) \<subseteq>
        set es \<union> {e \<in> \<Union> (set ` set bs). ev_run_id e = r}"
  using assms
proof (induction bs arbitrary: es)
  case (Cons b bs)
  from Cons.IH [of "merge_events es (of_run r b)"] show ?case
    by (auto simp: seqs_merge_events set_merge_events image_Un)
qed simp

text \<open>
  (C14) After any sequence of batches written to a fresh in-memory store, the log of each run is
  sorted by sequence number, holds exactly the sequence numbers of the written events of that
  run (nothing is lost, nothing foreign gets in), and the indexed run record is the one rebuilt
  from the log.
\<close>

theorem mem_store_refines_log:
  "sorted (map ev_seq (mem_events (mem_writes bs mem_new) r))
   \<and> ev_seq ` set (mem_events (mem_writes bs mem_new) r) = ev_seq ` {e \<in> \<Union> (set ` set bs). ev_run_id e = r}
   \<and> set (mem_events (mem_writes bs mem_new) r) \<subseteq> {e \<in> \<Union> (set ` set bs). ev_run_id e = r}
   \<and> mem_get_run (mem_writes bs mem_new) r = Inr (reconstruct_run r (mem_events (mem_writes bs mem_new) r))"
proof -
  have "mem_inv (mem_writes bs mem_new)" by (simp add: mem_writes_log)
  then have "mem_get_run (mem_writes bs mem_new) r =
      Inr (reconstruct_run r (mem_events (mem_writes bs mem_new) r))"
    using mem.get_ok by (simp add: mem_get_run_def)
  with merged_log_spec [of "[]" r bs] show ?thesis
    by (simp add: mem_writes_log)
qed

text \<open>
  (C15) Crash recovery is final: once \<open>mark_interrupted\<close> has succeeded on a run that has no event
  numbered \<open>u64::MAX\<close>, every later query reports the run as interrupted at the recovery time,
  whatever batches are written afterwards (late completions included).
\<close>

theorem interrupted_runs_stay_interrupted:
  assumes "mem_inv st" "- 1 \<notin> ev_seq ` set (mem_events st r)"
    and "mark_interrupted (\<lambda>b. mem_write_batch b st) r now = (Inr (), st')"
  shows "\<exists>record. mem_get_run (mem_writes bs st') r = Inr (Some record)
    \<and> rr_status record = Interrupted \<and> rr_completed_at record = Some now"
proof -
  from mem.mark_interrupted_final [OF assms(1) TrueI assms(2,3), where ws = "map (\<lambda>b. ((), b)) bs"
        and x = "bt_get r (ms_runs (mem_writes bs st'))"]
  show ?thesis by (simp add: mem_writes_eq mem_get_run_def list_all_iff)
qed

definition log_demo_started :: write_event where
  "log_demo_started = RunStarted 0 1 ''r'' ''f'' ''v'' JNull (SrcManual ''m'') None None 5"

definition log_demo_late :: write_event where
  "log_demo_late = RunCompleted 7 1 ''r'' Completed 3 None 9"

theorem interrupted_runs_stay_interrupted_witness:
  "\<exists>record. mem_get_run (mem_writes [[log_demo_late]] (snd (mark_interrupted
       (\<lambda>b. mem_write_batch b (mem_writes [[log_demo_started]] mem_new)) ''r'' 6))) ''r'' = Inr (Some record)
     \<and> rr_status record = Interrupted \<and> rr_completed_at record = Some 6"
proof (rule interrupted_runs_stay_interrupted)
  show "mem_inv (mem_writes [[log_demo_started]] mem_new)" by (simp add: mem_writes_log)
  show "- 1 \<notin> ev_seq ` set (mem_events (mem_writes [[log_demo_started]] mem_new) ''r'')"
    by (simp add: mem_writes_log merge_events_def Let_def of_run_def log_demo_started_def)
qed (simp add: mark_interrupted_def mem_write_batch_def)

section \<open>Node results\<close>

text \<open>The result of a node depends on the events of that node alone.\<close>

fun ev_node :: "write_event \<Rightarrow> string option" where
  "ev_node (NodeStarted _ _ _ node_id _ _ _ _) = Some node_id"
| "ev_node (NodeCompleted _ _ _ node_id _ _ _ _) = Some node_id"
| "ev_node (NodeFailed _ _ _ node_id _ _ _ _) = Some node_id"
| "ev_node _ = None"

lemma node_result_step_other: "ev_node e \<noteq> Some n \<Longrightarrow> bt_get n (node_result_step e acc) = bt_get n acc"
  by (cases e) (auto simp: bt_get_entry bt_get_modify)

fun result_step :: "write_event \<Rightarrow> node_run_result option \<Rightarrow> node_run_result option" where
  "result_step (NodeStarted _ _ _ node_id inputs _ attempt _) acc =
     Some (let entry = case acc of None \<Rightarrow> new_node_result node_id | Some entry \<Rightarrow> entry
           in entry\<lparr>nr_inputs := inputs, nr_attempts := max (nr_attempts entry) attempt\<rparr>)"
| "result_step (NodeCompleted _ _ _ node_id outputs _ duration_ms _) acc =
     map_option (\<lambda>entry. entry\<lparr>nr_status := ''completed'', nr_outputs := Some outputs,
       nr_duration_ms := Some duration_ms\<rparr>) acc"
| "result_step (NodeFailed _ _ _ node_id err will_retry _ _) acc =
     map_option (\<lambda>entry. if \<not> will_retry
       then entry\<lparr>nr_status := ''failed'', nr_error := Some err\<rparr> else entry) acc"
| "result_step _ acc = acc"

lemma node_result_step_own:
  "ev_node e = Some n \<Longrightarrow> bt_get n (node_result_step e acc) = result_step e (bt_get n acc)"
  by (cases e) (auto simp: bt_get_entry bt_get_modify Let_def split: option.split)

lemma node_results_local:
  "bt_get n (fold node_result_step es acc) =
     fold result_step (List.filter (\<lambda>e. ev_node e = Some n) es) (bt_get n acc)"
  by (induction es arbitrary: acc) (simp_all add: node_result_step_own node_result_step_other)

definition log_demo_cycle :: "write_event list" where
  "log_demo_cycle =
     [NodeStarted 0 1 ''r'' ''n'' (JBool False) None 1 0, NodeCompleted 1 1 ''r'' ''n'' (JBool False) None 2 0,
      NodeStarted 2 1 ''r'' ''n'' (JBool True) None 1 0, NodeCompleted 3 1 ''r'' ''n'' (JBool True) None 2 0]"

text \<open>
  On a node that runs twice in a cycle the in-memory store and the reconstruction shared by
  the other stores disagree: the reconstruction lists both executions, the in-memory store keeps
  one entry with the inputs of the first execution and the outputs of the second.
\<close>

theorem node_detail_diverges_on_cycles:
  "extract_node_detail (mem_events (mem_writes [log_demo_cycle] mem_new) ''r'') ''n'' =
     Some \<lparr>rd_node_id = ''n'', rd_attempts =
       [\<lparr>ad_attempt = 1, ad_fan_out_index = None, ad_inputs = JBool False, ad_outputs = Some (JBool False),
         ad_error = None, ad_duration_ms = Some 2\<rparr>,
        \<lparr>ad_attempt = 1, ad_fan_out_index = None, ad_inputs = JBool True, ad_outputs = Some (JBool True),
         ad_error = None, ad_duration_ms = Some 2\<rparr>]\<rparr>
   \<and> mem_get_node_detail (mem_writes [log_demo_cycle] mem_new) ''r'' ''n'' =
     Some \<lparr>rd_node_id = ''n'', rd_attempts =
       [\<lparr>ad_attempt = 1, ad_fan_out_index = None, ad_inputs = JBool False, ad_outputs = Some (JBool True),
         ad_error = None, ad_duration_ms = Some 2\<rparr>]\<rparr>"
  by code_simp

end
