(* ===== verification/Session.thy ===== *)
theory Session
  imports Write_Pipeline Run_Store
begin

text \<open>
  \<open>runtime/config.rs\<close>, \<open>runtime/session.rs\<close> and \<open>observer/session.rs\<close>: the builder with its
  defaults, the recording session that brackets a run between \<open>RunStarted\<close> and \<open>RunCompleted\<close>,
  and the observer wrapper with its inferred topology.  The state of a session keeps the
  sequence counter of its write handle, the events each channel accepted and the broadcast
  events.  Whether the receiving side of a channel is gone or full at a call is an argument of
  the operation; what happens to accepted events afterwards is the subject of \<open>Write_Pipeline\<close>.
\<close>

section \<open>Configuration (\<open>config.rs\<close>)\<close>

text \<open>A custom run store is a value of type \<open>'s\<close>; without one the session uses a new in-memory store.\<close>

record 's execution_config =
  ec_session_name :: "string option"
  ec_run_store :: "'s + mem_store"
  ec_redactor :: redactor_ops
  ec_metadata :: "(string, json) btree"
  ec_pipeline_config :: pipeline_config
  ec_critical_capacity :: nat
  ec_advisory_capacity :: nat
  ec_version_id :: "string option"
  ec_config_hash :: "string option"
  ec_triggered_by :: "trigger_source option"
  ec_trigger_inputs :: "json option"
  ec_parent_run_id :: "string option"

record 's session_builder =
  sb_session_name :: "string option"
  sb_run_store :: "'s option"
  sb_redactor :: "redactor_ops option"
  sb_metadata :: "(string, json) btree"
  sb_pipeline_config :: "pipeline_config option"
  sb_critical_capacity :: "nat option"
  sb_advisory_capacity :: "nat option"
  sb_version_id :: "string option"
  sb_config_hash :: "string option"
  sb_triggered_by :: "trigger_source option"
  sb_trigger_inputs :: "json option"
  sb_parent_run_id :: "string option"

definition builder_new :: "'s session_builder" where
  "builder_new =
     \<lparr>sb_session_name = None, sb_run_store = None, sb_redactor = None, sb_metadata = [],
      sb_pipeline_config = None, sb_critical_capacity = None, sb_advisory_capacity = None,
      sb_version_id = None, sb_config_hash = None, sb_triggered_by = None,
      sb_trigger_inputs = None, sb_parent_run_id = None\<rparr>"

definition with_session_name :: "string \<Rightarrow> 's session_builder \<Rightarrow> 's session_builder" where
  "with_session_name name b = b\<lparr>sb_session_name := Some name\<rparr>"

definition with_run_store :: "'s \<Rightarrow> 's session_builder \<Rightarrow> 's session_builder" where
  "with_run_store store b = b\<lparr>sb_run_store := Some store\<rparr>"

definition with_redactor :: "redactor_ops \<Rightarrow> 's session_builder \<Rightarrow> 's session_builder" where
  "with_redactor r b = b\<lparr>sb_redactor := Some r\<rparr>"

definition with_metadata :: "(string, json) btree \<Rightarrow> 's session_builder \<Rightarrow> 's session_builder" where
  "with_metadata m b = b\<lparr>sb_metadata := m\<rparr>"

definition with_pipeline_config :: "pipeline_config \<Rightarrow> 's session_builder \<Rightarrow> 's session_builder" where
  "with_pipeline_config c b = b\<lparr>sb_pipeline_config := Some c\<rparr>"

definition with_critical_capacity :: "nat \<Rightarrow> 's session_builder \<Rightarrow> 's session_builder" where
  "with_critical_capacity n b = b\<lparr>sb_critical_capacity := Some n\<rparr>"

definition with_advisory_capacity :: "nat \<Rightarrow> 's session_builder \<Rightarrow> 's session_builder" where
  "with_advisory_capacity n b = b\<lparr>sb_advisory_capacity := Some n\<rparr>"

definition with_version_id :: "string \<Rightarrow> 's session_builder \<Rightarrow> 's session_builder" where
  "with_version_id v b = b\<lparr>sb_version_id := Some v\<rparr>"

definition with_config_hash :: "string \<Rightarrow> 's session_builder \<Rightarrow> 's session_builder" where
  "with_config_hash h b = b\<lparr>sb_config_hash := Some h\<rparr>"

definition with_triggered_by :: "trigger_source \<Rightarrow> 's session_builder \<Rightarrow> 's session_builder" where
  "with_triggered_by src b = b\<lparr>sb_triggered_by := Some src\<rparr>"

definition with_trigger_inputs :: "json \<Rightarrow> 's session_builder \<Rightarrow> 's session_builder" where
  "with_trigger_inputs v b = b\<lparr>sb_trigger_inputs := Some v\<rparr>"

definition with_parent_run_id :: "string \<Rightarrow> 's session_builder \<Rightarrow> 's session_builder" where
  "with_parent_run_id p b = b\<lparr>sb_parent_run_id := Some p\<rparr>"

definition builder_config :: "'s session_builder \<Rightarrow> 's execution_config" where
  "builder_config b =
     \<lparr>ec_session_name = sb_session_name b,
      ec_run_store = (case sb_run_store b of Some s \<Rightarrow> Inl s | None \<Rightarrow> Inr mem_new),
      ec_redactor = unwrap_or (sb_redactor b) default_redactor,
      ec_metadata = sb_metadata b,
      ec_pipeline_config = unwrap_or (sb_pipeline_config b) pipeline_config_default,
      ec_critical_capacity = unwrap_or (sb_critical_capacity b) 1000,
      ec_advisory_capacity = unwrap_or (sb_advisory_capacity b) 1000,
      ec_version_id = sb_version_id b,
      ec_config_hash = sb_config_hash b,
      ec_triggered_by = sb_triggered_by b,
      ec_trigger_inputs = sb_trigger_inputs b,
      ec_parent_run_id = sb_parent_run_id b\<rparr>"

section \<open>Sessions (\<open>session.rs\<close>)\<close>

datatype session_error = AlreadyFinished | ChannelClosed | PipelineError string

text \<open>The receiving side of a channel at a send: open, full (advisory sends are dropped, critical sends
  wait until there is room) or closed.\<close>

datatype chan = ChOpen | ChFull | ChClosed

record session =
  se_id :: execution_id
  se_name :: "string option"
  se_start_time :: datetime
  se_metadata :: "(string, json) btree"
  se_seq :: u64
  se_critical :: "write_event list"
  se_advisory :: "write_event list"
  se_broadcast :: "write_event list"
  se_pipeline :: bool
  se_finished :: bool

definition session_next :: "session \<Rightarrow> u64 \<times> session" where
  "session_next se = (se_seq se, se\<lparr>se_seq := se_seq se + 1\<rparr>)"

text \<open>\<open>WriteHandle::write\<close> awaited to its end: the number is taken in any case.\<close>

definition handle_write :: "bool \<Rightarrow> write_event \<Rightarrow> session \<Rightarrow> (session_error, unit) result \<times> session" where
  "handle_write gone e se =
     (case session_next se of (n, se1) \<Rightarrow>
        if gone then (Inl ChannelClosed, se1)
        else (Inr (), se1\<lparr>se_critical := se_critical se1 @ [ev_set_seq n e]\<rparr>))"

definition handle_try_write :: "chan \<Rightarrow> write_event \<Rightarrow> session \<Rightarrow> (session_error, unit) result \<times> session" where
  "handle_try_write ch e se =
     (case session_next se of (n, se1) \<Rightarrow>
        (case ch of
           ChOpen \<Rightarrow> (Inr (), se1\<lparr>se_advisory := se_advisory se1 @ [ev_set_seq n e]\<rparr>)
         | ChFull \<Rightarrow> (Inr (), se1)
         | ChClosed \<Rightarrow> (Inl ChannelClosed, se1)))"

definition broadcast :: "write_event \<Rightarrow> session \<Rightarrow> session" where
  "broadcast e se = se\<lparr>se_broadcast := se_broadcast se @ [e]\<rparr>"

definition run_started_event :: "'s execution_config \<Rightarrow> execution_id \<Rightarrow> datetime \<Rightarrow> write_event" where
  "run_started_event config eid now =
     RunStarted 0 WRITE_EVENT_SCHEMA_VERSION (exec_run_id eid)
       (unwrap_or (ec_session_name config) ''session'')
       (unwrap_or (ec_version_id config) ''standalone'')
       (unwrap_or (ec_trigger_inputs config) (json_object (ec_metadata config)))
       (unwrap_or (ec_triggered_by config) (SrcManual ''session''))
       (ec_config_hash config) (ec_parent_run_id config) now"

definition session_start ::
  "'s execution_config \<Rightarrow> execution_id \<Rightarrow> datetime \<Rightarrow> bool \<Rightarrow> (session_error, session) result" where
  "session_start config eid now gone =
     (let se = \<lparr>se_id = eid, se_name = ec_session_name config, se_start_time = now,
                se_metadata = ec_metadata config, se_seq = 1, se_critical = [], se_advisory = [],
                se_broadcast = [], se_pipeline = True, se_finished = False\<rparr>;
          started = run_started_event config eid now
      in case handle_write gone started se of
           (Inl _, _) \<Rightarrow> Inl ChannelClosed
         | (Inr _, se1) \<Rightarrow> Inr (broadcast started se1))"

definition check_finished :: "session \<Rightarrow> (session_error, unit) result" where
  "check_finished se = (if se_finished se then Inl AlreadyFinished else Inr ())"

definition emit_critical :: "bool \<Rightarrow> write_event \<Rightarrow> session \<Rightarrow> (session_error, unit) result \<times> session" where
  "emit_critical gone e se =
     (case handle_write gone e se of
        (Inl _, se1) \<Rightarrow> (Inl ChannelClosed, se1)
      | (Inr _, se1) \<Rightarrow> (Inr (), broadcast e se1))"

definition emit_advisory :: "chan \<Rightarrow> write_event \<Rightarrow> session \<Rightarrow> (session_error, unit) result \<times> session" where
  "emit_advisory ch e se =
     (case handle_try_write ch e se of
        (Inl _, se1) \<Rightarrow> (Inl ChannelClosed, se1)
      | (Inr _, se1) \<Rightarrow> (Inr (), broadcast e se1))"

definition record_event :: "bool \<Rightarrow> write_event \<Rightarrow> session \<Rightarrow> (session_error, unit) result \<times> session" where
  "record_event gone e se =
     (case check_finished se of Inl err \<Rightarrow> (Inl err, se) | Inr _ \<Rightarrow> emit_critical gone e se)"

definition record_advisory :: "chan \<Rightarrow> write_event \<Rightarrow> session \<Rightarrow> (session_error, unit) result \<times> session" where
  "record_advisory ch e se =
     (case check_finished se of Inl err \<Rightarrow> (Inl err, se) | Inr _ \<Rightarrow> emit_advisory ch e se)"

definition record_llm_call ::
  "bool \<Rightarrow> datetime \<Rightarrow> string \<Rightarrow> llm_request \<Rightarrow> llm_response \<Rightarrow> session \<Rightarrow>
     (session_error, unit) result \<times> session" where
  "record_llm_call gone now node_id request response se =
     (case check_finished se of
        Inl err \<Rightarrow> (Inl err, se)
      | Inr _ \<Rightarrow> emit_critical gone
          (LlmInvocation 0 WRITE_EVENT_SCHEMA_VERSION (exec_run_id (se_id se)) node_id request response now) se)"

definition record_tool_call ::
  "bool \<Rightarrow> datetime \<Rightarrow> string \<Rightarrow> json \<Rightarrow> json \<Rightarrow> u64 \<Rightarrow> session \<Rightarrow> (session_error, unit) result \<times> session" where
  "record_tool_call gone now tool inputs outputs duration_ms se =
     (case check_finished se of
        Inl err \<Rightarrow> (Inl err, se)
      | Inr _ \<Rightarrow> emit_critical gone
          (ToolInvocation 0 WRITE_EVENT_SCHEMA_VERSION (exec_run_id (se_id se)) tool inputs outputs
             duration_ms now) se)"

definition record_step ::
  "bool \<Rightarrow> datetime \<Rightarrow> string \<Rightarrow> json \<Rightarrow> session \<Rightarrow> (session_error, unit) result \<times> session" where
  "record_step gone now step_name data se =
     (case check_finished se of
        Inl err \<Rightarrow> (Inl err, se)
      | Inr _ \<Rightarrow> emit_critical gone
          (StepRecorded 0 WRITE_EVENT_SCHEMA_VERSION (exec_run_id (se_id se)) step_name data now) se)"

definition record_custom_event ::
  "chan \<Rightarrow> datetime \<Rightarrow> string \<Rightarrow> json \<Rightarrow> session \<Rightarrow> (session_error, unit) result \<times> session" where
  "record_custom_event ch now name data se =
     (case check_finished se of
        Inl err \<Rightarrow> (Inl err, se)
      | Inr _ \<Rightarrow> emit_advisory ch
          (Custom 0 WRITE_EVENT_SCHEMA_VERSION (exec_run_id (se_id se)) None name data now) se)"

text \<open>\<open>(now - start).num_milliseconds().max(0) as u64\<close>.\<close>

definition duration_ms_of :: "datetime \<Rightarrow> datetime \<Rightarrow> u64" where
  "duration_ms_of start now = of_int (max 0 ((now - start) div 1000000))"

definition run_completed_event ::
  "session \<Rightarrow> run_status \<Rightarrow> llm_run_summary option \<Rightarrow> datetime \<Rightarrow> datetime \<Rightarrow> write_event" where
  "run_completed_event se status llm_summary ended now =
     RunCompleted 0 WRITE_EVENT_SCHEMA_VERSION (exec_run_id (se_id se)) status
       (duration_ms_of (se_start_time se) ended) llm_summary now"

text \<open>\<open>finish\<close> reads the clock twice, for the duration and for the timestamp, and ignores a closed channel; \<open>se_pipeline\<close> records that the pipeline has not been shut down.\<close>

definition session_finish ::
  "bool \<Rightarrow> datetime \<Rightarrow> datetime \<Rightarrow> run_status \<Rightarrow> llm_run_summary option \<Rightarrow> session \<Rightarrow>
     (session_error, unit) result \<times> session" where
  "session_finish gone ended now status llm_summary se =
     (if se_finished se then (Inl AlreadyFinished, se)
      else let se1 = se\<lparr>se_finished := True\<rparr>;
               event = run_completed_event se1 status llm_summary ended now;
               se2 = broadcast event (snd (handle_write gone event se1))
           in (Inr (), se2\<lparr>se_pipeline := False\<rparr>))"

definition session_drop :: "chan \<Rightarrow> datetime \<Rightarrow> datetime \<Rightarrow> session \<Rightarrow> session" where
  "session_drop ch ended now se =
     (if se_finished se then se
      else snd (handle_try_write ch (run_completed_event se Failed None ended now) se))"

section \<open>Observer sessions (\<open>observer/session.rs\<close>)\<close>

record 's observer_config =
  oc_run_store :: "'s option"
  oc_redactor :: "redactor_ops option"
  oc_metadata :: "(string, json) btree"

text \<open>The set of seen nodes is a \<open>BTreeSet\<close>: an ordered map to the unit value.\<close>

record observer =
  ob_inner :: session
  ob_seen :: "(string, unit) btree"
  ob_topology_set :: bool

definition observer_builder :: "string \<Rightarrow> 's observer_config \<Rightarrow> 's session_builder" where
  "observer_builder name config =
     (let b1 = with_triggered_by (SrcCustom ''observer'' (json_object [])) (with_session_name name builder_new);
          b2 = (case oc_run_store config of Some s \<Rightarrow> with_run_store s b1 | None \<Rightarrow> b1);
          b3 = (case oc_redactor config of Some r \<Rightarrow> with_redactor r b2 | None \<Rightarrow> b2)
      in if oc_metadata config \<noteq> [] then with_metadata (oc_metadata config) b3 else b3)"

definition observer_start ::
  "string \<Rightarrow> 's observer_config \<Rightarrow> execution_id \<Rightarrow> datetime \<Rightarrow> bool \<Rightarrow> (session_error, observer) result" where
  "observer_start name config eid now gone =
     and_then (session_start (builder_config (observer_builder name config)) eid now gone)
       (\<lambda>se. Inr \<lparr>ob_inner = se, ob_seen = [], ob_topology_set = False\<rparr>)"

definition track_node :: "string \<Rightarrow> observer \<Rightarrow> observer" where
  "track_node node_id ob = ob\<lparr>ob_seen := bt_insert node_id () (ob_seen ob)\<rparr>"

text \<open>Running an operation of the inner session.\<close>

definition on_inner ::
  "(session \<Rightarrow> (session_error, unit) result \<times> session) \<Rightarrow> observer \<Rightarrow> (session_error, unit) result \<times> observer" where
  "on_inner f ob = (case f (ob_inner ob) of (res, se) \<Rightarrow> (res, ob\<lparr>ob_inner := se\<rparr>))"

definition observer_llm_call_for_node ::
  "bool \<Rightarrow> datetime \<Rightarrow> string \<Rightarrow> llm_request \<Rightarrow> llm_response \<Rightarrow> observer \<Rightarrow>
     (session_error, unit) result \<times> observer" where
  "observer_llm_call_for_node gone now node_id request response ob =
     on_inner (record_llm_call gone now node_id request response) (track_node node_id ob)"

definition observer_llm_call ::
  "bool \<Rightarrow> datetime \<Rightarrow> llm_request \<Rightarrow> llm_response \<Rightarrow> observer \<Rightarrow> (session_error, unit) result \<times> observer" where
  "observer_llm_call gone now request response ob =
     on_inner (record_llm_call gone now ''observer'' request response) (track_node ''observer'' ob)"

definition observer_tool_call ::
  "bool \<Rightarrow> datetime \<Rightarrow> string \<Rightarrow> json \<Rightarrow> json \<Rightarrow> u64 \<Rightarrow> observer \<Rightarrow>
     (session_error, unit) result \<times> observer" where
  "observer_tool_call gone now tool inputs outputs duration_ms ob =
     on_inner (record_tool_call gone now tool inputs outputs duration_ms) (track_node tool ob)"

definition observer_step ::
  "bool \<Rightarrow> datetime \<Rightarrow> string \<Rightarrow> json \<Rightarrow> observer \<Rightarrow> (session_error, unit) result \<times> observer" where
  "observer_step gone now step_name data ob =
     on_inner (record_step gone now step_name data) (track_node step_name ob)"

definition observer_custom ::
  "chan \<Rightarrow> datetime \<Rightarrow> string \<Rightarrow> json \<Rightarrow> observer \<Rightarrow> (session_error, unit) result \<times> observer" where
  "observer_custom ch now name data ob = on_inner (record_custom_event ch now name data) ob"

definition topology_event ::
  "session \<Rightarrow> string list \<Rightarrow> (string \<times> string) list \<Rightarrow> datetime \<Rightarrow> write_event" where
  "topology_event se ns es now =
     TopologyHint 0 WRITE_EVENT_SCHEMA_VERSION (exec_run_id (se_id se)) ns es now"

definition set_flow_topology ::
  "chan \<Rightarrow> datetime \<Rightarrow> string list \<Rightarrow> (string \<times> string) list \<Rightarrow> observer \<Rightarrow>
     (session_error, unit) result \<times> observer" where
  "set_flow_topology ch now ns es ob =
     (let ob1 = ob\<lparr>ob_topology_set := True\<rparr>
      in on_inner (record_advisory ch (topology_event (ob_inner ob1) ns es now)) ob1)"

text \<open>\<open>nodes.windows(2)\<close>.\<close>

fun windows2 :: "'a list \<Rightarrow> ('a \<times> 'a) list" where
  "windows2 (x # y # zs) = (x, y) # windows2 (y # zs)"
| "windows2 _ = []"

definition observer_finish ::
  "chan \<Rightarrow> bool \<Rightarrow> datetime \<Rightarrow> datetime \<Rightarrow> datetime \<Rightarrow> run_status \<Rightarrow> observer \<Rightarrow> (session_error, unit) result \<times> session" where
  "observer_finish ch gone now ended completed status ob =
     (let ns = map fst (ob_seen ob);
          se = (if \<not> ob_topology_set ob \<and> ns \<noteq> []
                then snd (record_advisory ch (topology_event (ob_inner ob) ns (windows2 ns) now) (ob_inner ob))
                else ob_inner ob)
      in session_finish gone ended completed status None se)"

section \<open>Sequences of operations\<close>

datatype session_op =
    OpLlm bool datetime string llm_request llm_response
  | OpTool bool datetime string json json u64
  | OpStep bool datetime string json
  | OpCustom chan datetime string json
  | OpEvent bool write_event
  | OpAdvisory chan write_event

fun session_apply :: "session_op \<Rightarrow> session \<Rightarrow> (session_error, unit) result \<times> session" where
  "session_apply (OpLlm gone now node_id request response) se = record_llm_call gone now node_id request response se"
| "session_apply (OpTool gone now tool inputs outputs duration_ms) se =
     record_tool_call gone now tool inputs outputs duration_ms se"
| "session_apply (OpStep gone now step_name data) se = record_step gone now step_name data se"
| "session_apply (OpCustom ch now name data) se = record_custom_event ch now name data se"
| "session_apply (OpEvent gone e) se = record_event gone e se"
| "session_apply (OpAdvisory ch e) se = record_advisory ch e se"

definition session_run :: "session_op list \<Rightarrow> session \<Rightarrow> session" where
  "session_run ops se = fold (\<lambda>op s. snd (session_apply op s)) ops se"

text \<open>What an operation hands to the write handle.\<close>

fun op_event :: "session \<Rightarrow> session_op \<Rightarrow> write_event" where
  "op_event se (OpLlm gone now node_id request response) =
     LlmInvocation 0 WRITE_EVENT_SCHEMA_VERSION (exec_run_id (se_id se)) node_id request response now"
| "op_event se (OpTool gone now tool inputs outputs duration_ms) =
     ToolInvocation 0 WRITE_EVENT_SCHEMA_VERSION (exec_run_id (se_id se)) tool inputs outputs duration_ms now"
| "op_event se (OpStep gone now step_name data) =
     StepRecorded 0 WRITE_EVENT_SCHEMA_VERSION (exec_run_id (se_id se)) step_name data now"
| "op_event se (OpCustom ch now name data) =
     Custom 0 WRITE_EVENT_SCHEMA_VERSION (exec_run_id (se_id se)) None name data now"
| "op_event se (OpEvent gone e) = e"
| "op_event se (OpAdvisory ch e) = e"

definition session_log :: "session \<Rightarrow> write_event list" where
  "session_log se = sort_key ev_seq (se_critical se @ se_advisory se)"

text \<open>The numbering invariant: \<open>evs\<close> are the accepted events in the order of their numbers, all below
  the counter.\<close>

definition numbered :: "nat \<Rightarrow> write_event list \<Rightarrow> session \<Rightarrow> bool" where
  "numbered n evs se \<longleftrightarrow>
     mset evs = mset (se_critical se @ se_advisory se) \<and> sorted_wrt (<) (map ev_seq evs)
     \<and> (\<forall>e \<in> set evs. ev_seq e < se_seq se) \<and> unat (se_seq se) \<le> n"

text \<open>A step that takes at most one number, accepts at most the numbered event \<open>e\<close> and leaves the rest
  of the session alone.\<close>

definition accepts :: "write_event \<Rightarrow> session \<Rightarrow> session \<Rightarrow> bool" where
  "accepts e se se' \<longleftrightarrow>
     se_id se' = se_id se \<and> se_start_time se' = se_start_time se \<and> se_finished se' = se_finished se
     \<and> (se_seq se' = se_seq se \<or> se_seq se' = se_seq se + 1)
     \<and> (mset (se_critical se' @ se_advisory se') = mset (se_critical se @ se_advisory se)
        \<or> se_seq se' = se_seq se + 1
          \<and> mset (se_critical se' @ se_advisory se') =
              add_mset (ev_set_seq (se_seq se) e) (mset (se_critical se @ se_advisory se)))"

lemma accepts_refl: "accepts e se se"
  by (simp add: accepts_def)

lemma handle_accepts:
  "accepts e se (snd (handle_write gone e se))" "accepts e se (snd (handle_try_write ch e se))"
  by (auto simp: accepts_def handle_write_def handle_try_write_def session_next_def split: chan.split)

lemma accepts_broadcast: "accepts e se se' \<Longrightarrow> accepts e se (broadcast e' se')"
  by (simp add: accepts_def broadcast_def)

lemma emit_accepts:
  "accepts e se (snd (emit_critical gone e se))" "accepts e se (snd (emit_advisory ch e se))"
  using handle_accepts [of e se]
  by (auto simp: emit_critical_def emit_advisory_def split: sum.splits prod.splits intro!: accepts_broadcast)
     (metis snd_conv)+

lemma apply_accepts: "accepts (op_event se op) se (snd (session_apply op se))"
  by (cases op)
     (auto simp: record_llm_call_def record_tool_call_def record_step_def record_custom_event_def
        record_event_def record_advisory_def accepts_refl emit_accepts split: sum.split)

lemma numbered_accepts:
  assumes "numbered n evs se" "accepts e se se'" "n < 2 ^ 64 - 1"
  shows "\<exists>evs'. numbered (Suc n) (evs @ evs') se' \<and> (evs' = [] \<or> evs' = [ev_set_seq (se_seq se) e])"
proof -
  have "unat (se_seq se) + 1 < 2 ^ 64" using assms(1,3) by (simp add: numbered_def)
  then have up: "unat (se_seq se + 1) = unat (se_seq se) + 1"
    by (simp add: unat_word_ariths)
  then have less: "se_seq se < se_seq se + 1" by (simp add: word_less_nat_alt)
  then have below: "ev_seq x < se_seq se'" if "x \<in> set evs" for x
    using assms(1,2) that by (auto simp: numbered_def accepts_def)
  show ?thesis
  proof (cases "mset (se_critical se' @ se_advisory se') = mset (se_critical se @ se_advisory se)")
    case True
    with assms(1,2) up below have "numbered (Suc n) (evs @ []) se'"
      by (auto simp: numbered_def accepts_def)
    then show ?thesis by blast
  next
    case False
    with assms(2) have new: "se_seq se' = se_seq se + 1"
      "mset (se_critical se' @ se_advisory se') =
         add_mset (ev_set_seq (se_seq se) e) (mset (se_critical se @ se_advisory se))"
      by (auto simp: accepts_def)
    with assms(1) up below less have "numbered (Suc n) (evs @ [ev_set_seq (se_seq se) e]) se'"
      by (auto simp: numbered_def sorted_wrt_append)
    then show ?thesis by blast
  qed
qed

lemma sort_key_unique:
  assumes "mset xs = mset ys" "sorted_wrt (<) (map f ys)"
  shows "sort_key f xs = ys"
proof (rule properties_for_sort_key)
  have d: "distinct (map f ys)" using assms(2) by (rule sorted_wrt_less_distinct)
  show "mset ys = mset xs" using assms(1) by simp
  show "sorted (map f ys)" using assms(2) by (simp add: strict_sorted_iff)
  fix k
  assume k: "k \<in> set ys"
  have inj: "inj_on f (set ys)" using d by (simp add: distinct_map)
  have one: "filter (\<lambda>x. f k = f x) zs = filter (\<lambda>x. k = x) zs" if "set zs = set ys" for zs
    using inj k that by (auto intro!: filter_cong dest: inj_onD)
  have "mset (filter (\<lambda>x. k = x) ys) = mset (filter (\<lambda>x. k = x) xs)" using assms(1) by simp
  then have "length (filter (\<lambda>x. k = x) ys) = length (filter (\<lambda>x. k = x) xs)"
    by (rule mset_eq_length)
  moreover have "filter (\<lambda>x. k = x) zs = replicate (length (filter (\<lambda>x. k = x) zs)) k" for zs
    by (rule replicate_eqI [symmetric, THEN sym]) auto
  ultimately have "filter (\<lambda>x. k = x) ys = filter (\<lambda>x. k = x) xs" by metis
  with one [of ys] one [of xs] mset_eq_setD [OF assms(1)]
  show "filter (\<lambda>x. f k = f x) ys = filter (\<lambda>x. f k = f x) xs" by simp
qed

lemma session_log_numbered: "numbered n evs se \<Longrightarrow> session_log se = evs"
  unfolding session_log_def by (rule sort_key_unique) (simp_all add: numbered_def)

lemma op_event_cong: "se_id se' = se_id se \<Longrightarrow> op_event se' op = op_event se op"
  by (cases op) simp_all

lemma session_run_numbered:
  assumes "numbered n evs se" "n + length ops < 2 ^ 64"
  shows "\<exists>mid. numbered (n + length ops) (evs @ mid) (session_run ops se)
    \<and> se_id (session_run ops se) = se_id se \<and> se_start_time (session_run ops se) = se_start_time se
    \<and> se_finished (session_run ops se) = se_finished se
    \<and> (\<forall>e \<in> set mid. \<exists>op \<in> set ops. \<exists>k. e = ev_set_seq k (op_event se op))"
  using assms
proof (induction ops arbitrary: n evs se)
  case Nil
  then show ?case by (simp add: session_run_def)
next
  case (Cons op ops)
  let ?se = "snd (session_apply op se)"
  note acc = apply_accepts [of se op]
  obtain evs' where n: "numbered (Suc n) (evs @ evs') ?se"
    and e: "evs' = [] \<or> evs' = [ev_set_seq (se_seq se) (op_event se op)]"
    using numbered_accepts [OF Cons.prems(1) acc] Cons.prems(2) by auto
  have id: "se_id ?se = se_id se" "se_start_time ?se = se_start_time se" "se_finished ?se = se_finished se"
    using acc by (simp_all add: accepts_def)
  obtain mid where mid: "numbered (Suc n + length ops) ((evs @ evs') @ mid) (session_run ops ?se)"
    "se_id (session_run ops ?se) = se_id se" "se_start_time (session_run ops ?se) = se_start_time se"
    "se_finished (session_run ops ?se) = se_finished se"
    "\<forall>e \<in> set mid. \<exists>op \<in> set ops. \<exists>k. e = ev_set_seq k (op_event se op)"
    using Cons.IH [OF n] Cons.prems(2) id op_event_cong [OF id(1)] by auto
  have "session_run (op # ops) se = session_run ops ?se" by (simp add: session_run_def)
  with mid e show ?case by (intro exI [of _ "evs' @ mid"]) auto
qed

fun is_run_started :: "write_event \<Rightarrow> bool" where
  "is_run_started (RunStarted _ _ _ _ _ _ _ _ _ _) = True"
| "is_run_started _ = False"

fun plain_op :: "session_op \<Rightarrow> bool" where
  "plain_op (OpEvent _ e) \<longleftrightarrow> \<not> is_run_started e"
| "plain_op (OpAdvisory _ e) \<longleftrightarrow> \<not> is_run_started e"
| "plain_op _ \<longleftrightarrow> True"

lemma is_run_started_set_seq [simp]: "is_run_started (ev_set_seq n e) = is_run_started e"
  by (cases e) simp_all

lemma plain_op_event: "plain_op op \<Longrightarrow> \<not> is_run_started (op_event se op)"
  by (cases op) simp_all

text \<open>The part of a run record that only \<open>RunStarted\<close> sets.\<close>

definition start_fields :: "run_record \<Rightarrow>
  string \<times> string \<times> string \<times> json \<times> trigger_source \<times> string option \<times> string option \<times> datetime option" where
  "start_fields rr = (rr_run_id rr, rr_flow_id rr, rr_version_id rr, rr_inputs rr, rr_triggered_by rr,
     rr_config_hash rr, rr_parent_run_id rr, rr_started_at rr)"

lemma start_fields_keep:
  "\<forall>e \<in> set es. \<not> is_run_started e \<Longrightarrow> start_fields (fold apply_run_event es rr) = start_fields rr"
proof (induction es arbitrary: rr)
  case (Cons e es)
  have "start_fields (apply_run_event e rr) = start_fields rr"
    using Cons.prems by (cases e) (simp_all add: start_fields_def)
  with Cons show ?case by simp
qed simp

lemma session_start_numbered:
  assumes "session_start config eid now gone = Inr se"
  shows "numbered 2 [ev_set_seq 1 (run_started_event config eid now)] se \<and> se_id se = eid
    \<and> se_start_time se = now \<and> \<not> se_finished se"
  using assms
  by (auto simp: session_start_def handle_write_def session_next_def broadcast_def numbered_def Let_def
      split: if_splits)

lemma session_finish_numbered:
  assumes "numbered n evs se" "n < 2 ^ 64 - 1" "\<not> se_finished se"
  shows "fst (session_finish False u t status summ se) = Inr ()
    \<and> session_log (snd (session_finish False u t status summ se)) =
        evs @ [ev_set_seq (se_seq se) (run_completed_event se status summ u t)]"
proof -
  let ?ev = "run_completed_event se status summ u t"
  let ?se = "snd (handle_write False ?ev (se\<lparr>se_finished := True\<rparr>))"
  have ev: "run_completed_event (se\<lparr>se_finished := True\<rparr>) status summ u t = ?ev"
    by (simp add: run_completed_event_def)
  have n: "numbered n evs (se\<lparr>se_finished := True\<rparr>)" using assms(1) by (simp add: numbered_def)
  obtain evs' where "numbered (Suc n) (evs @ evs') ?se"
    "evs' = [] \<or> evs' = [ev_set_seq (se_seq se) ?ev]"
    using numbered_accepts [OF n handle_accepts(1) [where gone = False and e = ?ev] assms(2)] by auto
  moreover have "mset (se_critical ?se @ se_advisory ?se) \<noteq> mset evs"
    using n by (simp add: handle_write_def session_next_def numbered_def)
  ultimately have "numbered (Suc n) (evs @ [ev_set_seq (se_seq se) ?ev]) ?se"
    by (auto simp: numbered_def)
  then have "numbered (Suc n) (evs @ [ev_set_seq (se_seq se) ?ev])
      (snd (session_finish False u t status summ se))"
    using assms(3) by (simp add: session_finish_def Let_def ev numbered_def broadcast_def)
  moreover have "fst (session_finish False u t status summ se) = Inr ()"
    using assms(3) by (simp add: session_finish_def Let_def)
  ultimately show ?thesis by (simp add: session_log_numbered)
qed

text \<open>Operations of an observer session and the node each of them tracks.\<close>

datatype observer_op =
    ObLlm bool datetime llm_request llm_response
  | ObLlmFor bool datetime string llm_request llm_response
  | ObTool bool datetime string json json u64
  | ObStep bool datetime string json
  | ObCustom chan datetime string json

fun observer_apply :: "observer_op \<Rightarrow> observer \<Rightarrow> (session_error, unit) result \<times> observer" where
  "observer_apply (ObLlm gone now request response) ob = observer_llm_call gone now request response ob"
| "observer_apply (ObLlmFor gone now node_id request response) ob =
     observer_llm_call_for_node gone now node_id request response ob"
| "observer_apply (ObTool gone now tool inputs outputs duration_ms) ob =
     observer_tool_call gone now tool inputs outputs duration_ms ob"
| "observer_apply (ObStep gone now step_name data) ob = observer_step gone now step_name data ob"
| "observer_apply (ObCustom ch now name data) ob = observer_custom ch now name data ob"

fun tracked :: "observer_op \<Rightarrow> string option" where
  "tracked (ObLlm _ _ _ _) = Some ''observer''"
| "tracked (ObLlmFor _ _ node_id _ _) = Some node_id"
| "tracked (ObTool _ _ tool _ _ _) = Some tool"
| "tracked (ObStep _ _ step_name _) = Some step_name"
| "tracked (ObCustom _ _ _ _) = None"

definition observer_run :: "observer_op list \<Rightarrow> observer \<Rightarrow> observer" where
  "observer_run ops ob = fold (\<lambda>op s. snd (observer_apply op s)) ops ob"

fun inner_op :: "observer_op \<Rightarrow> session_op" where
  "inner_op (ObLlm gone now request response) = OpLlm gone now ''observer'' request response"
| "inner_op (ObLlmFor gone now node_id request response) = OpLlm gone now node_id request response"
| "inner_op (ObTool gone now tool inputs outputs duration_ms) = OpTool gone now tool inputs outputs duration_ms"
| "inner_op (ObStep gone now step_name data) = OpStep gone now step_name data"
| "inner_op (ObCustom ch now name data) = OpCustom ch now name data"

lemma observer_apply_eq:
  "snd (observer_apply op ob) =
     \<lparr>ob_inner = snd (session_apply (inner_op op) (ob_inner ob)),
      ob_seen = (case tracked op of None \<Rightarrow> ob_seen ob | Some n \<Rightarrow> bt_insert n () (ob_seen ob)),
      ob_topology_set = ob_topology_set ob\<rparr>"
  by (cases op)
     (simp_all add: observer_llm_call_def observer_llm_call_for_node_def observer_tool_call_def
        observer_step_def observer_custom_def on_inner_def track_node_def split: prod.split)

lemma observer_run_inner:
  "ob_inner (observer_run ops ob) = session_run (map inner_op ops) (ob_inner ob)
   \<and> ob_topology_set (observer_run ops ob) = ob_topology_set ob
   \<and> (bt_wf (ob_seen ob) \<longrightarrow> bt_wf (ob_seen (observer_run ops ob)))
   \<and> fst ` set (ob_seen (observer_run ops ob)) = fst ` set (ob_seen ob) \<union> {n. Some n \<in> tracked ` set ops}"
proof (induction ops arbitrary: ob)
  case Nil
  then show ?case by (simp add: observer_run_def session_run_def)
next
  case (Cons op ops)
  have "observer_run (op # ops) ob = observer_run ops (snd (observer_apply op ob))"
    by (simp add: observer_run_def)
  with Cons.IH [of "snd (observer_apply op ob)"] show ?case
    by (cases "tracked op") (auto simp: observer_apply_eq session_run_def)
qed

definition inferred_nodes :: "observer_op list \<Rightarrow> string list" where
  "inferred_nodes ops = sorted_list_of_set {n. Some n \<in> tracked ` set ops}"

lemma mset_cancel_right: "A + E = X + A \<Longrightarrow> E = (X :: 'a multiset)"
  by (simp add: union_commute)

section \<open>Properties\<close>

text \<open>
  A session brackets its run: whatever is recorded between \<open>start\<close> and \<open>finish\<close> (other than a
  further \<open>RunStarted\<close>), on whatever channels, the accepted events in the order of their numbers begin
  with \<open>RunStarted\<close> and end with \<open>RunCompleted\<close>, and the run record rebuilt from them has the
  configured flow, version, inputs, trigger, hash, parent and start time and the status, summary,
  duration and end time given to \<open>finish\<close>.
\<close>

theorem session_record:
  assumes "session_start config eid now gone = Inr se0" "length ops < 2 ^ 64 - 4" "list_all plain_op ops"
  shows "fst (session_finish False u t status summ (session_run ops se0)) = Inr ()
    \<and> (\<exists>mid n. session_log (snd (session_finish False u t status summ (session_run ops se0))) =
        ev_set_seq 1 (run_started_event config eid now) # mid
        @ [RunCompleted n WRITE_EVENT_SCHEMA_VERSION (exec_run_id eid) status (duration_ms_of now u) summ t])
    \<and> (\<exists>rr. reconstruct_run (exec_run_id eid) (of_run (exec_run_id eid)
            (session_log (snd (session_finish False u t status summ (session_run ops se0))))) = Some rr
        \<and> rr_status rr = status \<and> rr_llm_summary rr = summ
        \<and> rr_duration_ms rr = Some (duration_ms_of now u) \<and> rr_completed_at rr = Some t
        \<and> start_fields rr = (exec_run_id eid, unwrap_or (ec_session_name config) ''session'',
            unwrap_or (ec_version_id config) ''standalone'',
            unwrap_or (ec_trigger_inputs config) (json_object (ec_metadata config)),
            unwrap_or (ec_triggered_by config) (SrcManual ''session''),
            ec_config_hash config, ec_parent_run_id config, Some now))"
proof -
  let ?st = "ev_set_seq 1 (run_started_event config eid now)" and ?r = "exec_run_id eid"
  note start = session_start_numbered [OF assms(1)]
  obtain mid where mid: "numbered (2 + length ops) (?st # mid) (session_run ops se0)"
    "se_id (session_run ops se0) = eid" "se_start_time (session_run ops se0) = now"
    "\<not> se_finished (session_run ops se0)"
    and ops: "\<forall>e \<in> set mid. \<exists>op \<in> set ops. \<exists>k. e = ev_set_seq k (op_event se0 op)"
    using session_run_numbered [of 2 "[?st]" se0 ops] start assms(2) by auto
  have plain: "\<forall>e \<in> set mid. \<not> is_run_started e"
    using ops assms(3) plain_op_event by (fastforce simp: list_all_iff)
  let ?n = "se_seq (session_run ops se0)"
  let ?compl = "RunCompleted ?n WRITE_EVENT_SCHEMA_VERSION ?r status (duration_ms_of now u) summ t"
  have fin: "fst (session_finish False u t status summ (session_run ops se0)) = Inr ()
    \<and> session_log (snd (session_finish False u t status summ (session_run ops se0))) = ?st # mid @ [?compl]"
    using session_finish_numbered [OF mid(1) _ mid(4), of u t status summ] assms(2) mid(2,3)
    by (simp add: run_completed_event_def)
  have run: "of_run ?r (?st # mid @ [?compl]) = ?st # of_run ?r mid @ [?compl]"
    by (simp add: of_run_def run_started_event_def)
  have "start_fields (reconstruct_record ?r (?st # of_run ?r mid @ [?compl])) =
      start_fields (apply_run_event ?st (run_record_default\<lparr>rr_run_id := ?r\<rparr>))"
    unfolding reconstruct_record_def using start_fields_keep [of "of_run ?r mid @ [?compl]"] plain by simp
  with fin run show ?thesis
    by (auto simp: reconstruct_run_def reconstruct_record_def start_fields_def run_started_event_def
        run_record_default_def)
qed

definition demo_config :: "unit execution_config" where
  "demo_config = builder_config (with_version_id ''v1'' (with_session_name ''flow'' builder_new))"

definition demo_id :: execution_id where
  "demo_id = \<lparr>exec_run_id = ''run'', execution_hash = None\<rparr>"

theorem session_record_witness:
  "\<exists>se0. session_start demo_config demo_id 7 False = Inr se0
     \<and> (\<exists>rr. reconstruct_run ''run'' (of_run ''run'' (session_log (snd (session_finish False 2000007 2000008 Completed None
          (session_run [OpStep False 8 ''s'' JNull, OpCustom ChFull 9 ''c'' JNull] se0))))) = Some rr
        \<and> rr_status rr = Completed \<and> rr_duration_ms rr = Some 2)"
proof -
  obtain se0 where start: "session_start demo_config demo_id 7 False = Inr se0"
    by (simp add: session_start_def handle_write_def session_next_def Let_def)
  from session_record [OF start, of "[OpStep False 8 ''s'' JNull, OpCustom ChFull 9 ''c'' JNull]" 2000007 2000008 Completed None]
    start show ?thesis by (auto simp: demo_id_def duration_ms_of_def)
qed

text \<open>
  A session that is dropped without \<open>finish\<close> reports the failure through the advisory channel:
  the completion event is the next one in the log if that channel has room, and is lost without
  a trace if it is full or closed, so that the run then stays in its last recorded status for ever.
\<close>

theorem dropped_session_log:
  assumes "session_start config eid now gone = Inr se0" "length ops < 2 ^ 64 - 4"
  shows "\<exists>n. session_log (session_drop ch u t (session_run ops se0)) = session_log (session_run ops se0)
    @ (if ch = ChOpen
       then [RunCompleted n WRITE_EVENT_SCHEMA_VERSION (exec_run_id eid) Failed (duration_ms_of now u) None t]
       else [])"
proof -
  let ?se = "session_run ops se0" and ?st = "ev_set_seq 1 (run_started_event config eid now)"
  note start = session_start_numbered [OF assms(1)]
  obtain mid where mid: "numbered (2 + length ops) (?st # mid) ?se" "se_id ?se = eid"
    "se_start_time ?se = now" "\<not> se_finished ?se"
    using session_run_numbered [of 2 "[?st]" se0 ops] start assms(2) by auto
  let ?ev = "run_completed_event ?se Failed None u t"
  obtain evs where evs: "numbered (Suc (2 + length ops)) ((?st # mid) @ evs) (session_drop ch u t ?se)"
    "evs = [] \<or> evs = [ev_set_seq (se_seq ?se) ?ev]"
    using numbered_accepts [OF mid(1) handle_accepts(2) [where ch = ch and e = ?ev]] mid(4) assms(2)
    by (auto simp: session_drop_def)
  let ?new = "if ch = ChOpen then {#ev_set_seq (se_seq ?se) ?ev#} else {#}"
  have d: "mset (se_critical (session_drop ch u t ?se) @ se_advisory (session_drop ch u t ?se)) =
      ?new + mset (se_critical ?se @ se_advisory ?se)"
    using mid(4) by (cases ch) (simp_all add: session_drop_def handle_try_write_def session_next_def)
  have a: "mset ((?st # mid) @ evs) = mset (se_critical (session_drop ch u t ?se) @ se_advisory (session_drop ch u t ?se))"
    using evs(1) unfolding numbered_def by blast
  have c: "mset (?st # mid) = mset (se_critical ?se @ se_advisory ?se)"
    using mid(1) unfolding numbered_def by blast
  have "mset (?st # mid) + mset evs = ?new + mset (?st # mid)"
    using a [unfolded d, folded c] unfolding mset_append .
  then have "mset evs = ?new" by (rule mset_cancel_right)
  with evs(2) have "evs = (if ch = ChOpen then [ev_set_seq (se_seq ?se) ?ev] else [])"
    by (auto split: if_splits)
  with session_log_numbered [OF evs(1)] session_log_numbered [OF mid(1)] mid(2,3) show ?thesis
    by (auto simp: run_completed_event_def)
qed

theorem dropped_session_log_witness:
  "\<exists>se0. session_start demo_config demo_id 7 False = Inr se0
     \<and> session_log (session_drop ChFull 9 9 (session_run [] se0)) = session_log se0"
proof -
  obtain se0 where start: "session_start demo_config demo_id 7 False = Inr se0"
    by (simp add: session_start_def handle_write_def session_next_def Let_def)
  from dropped_session_log [OF start, of "[]" ChFull 9 9] start show ?thesis by (simp add: session_run_def)
qed

text \<open>
  The topology an observer session infers: without an explicit topology, finishing emits a hint
  whose nodes are the distinct tracked names in alphabetical order and whose edges chain
  neighbours of that list; without tracked names there is no hint.
\<close>

theorem observer_topology:
  assumes "observer_start name config eid now gone = Inr ob0"
  shows "\<exists>n. se_advisory (snd (observer_finish ChOpen gone' t u u' status (observer_run ops ob0))) =
    se_advisory (ob_inner (observer_run ops ob0)) @
    (if inferred_nodes ops = [] then []
     else [TopologyHint n WRITE_EVENT_SCHEMA_VERSION (exec_run_id eid) (inferred_nodes ops)
             (windows2 (inferred_nodes ops)) t])"
proof -
  let ?ob = "observer_run ops ob0"
  from assms(1) obtain se0 where start: "session_start (builder_config (observer_builder name config)) eid now gone = Inr se0"
    and ob0: "ob0 = \<lparr>ob_inner = se0, ob_seen = [], ob_topology_set = False\<rparr>"
    by (auto simp: observer_start_def)
  note run = observer_run_inner [of ops ob0]
  have seen: "map fst (ob_seen ?ob) = inferred_nodes ops" "\<not> ob_topology_set ?ob"
    using run bt_wf_keys [of "ob_seen ?ob"] by (simp_all add: ob0 inferred_nodes_def)
  have fin: "se_finished (ob_inner ?ob) = se_finished se0 \<and> se_id (ob_inner ?ob) = se_id se0"
  proof -
    have "se_finished (session_run os se) = se_finished se \<and> se_id (session_run os se) = se_id se" for os se
      unfolding session_run_def using apply_accepts
      by (induction os arbitrary: se) (simp_all add: accepts_def)
    with run ob0 show ?thesis by simp
  qed
  with session_start_numbered [OF start] have "\<not> se_finished (ob_inner ?ob)" "se_id (ob_inner ?ob) = eid"
    by simp_all
  then show ?thesis
    by (auto simp: observer_finish_def seen record_advisory_def check_finished_def emit_advisory_def
        handle_try_write_def handle_write_def session_next_def session_finish_def broadcast_def
        topology_event_def Let_def)
qed

theorem observer_topology_witness:
  "\<exists>ob0 n. observer_start ''o'' \<lparr>oc_run_store = None :: unit option, oc_redactor = None, oc_metadata = []\<rparr>
        demo_id 7 False = Inr ob0
     \<and> se_advisory (snd (observer_finish ChOpen False 9 10 10 Completed
         (observer_run [ObStep False 8 ''b'' JNull, ObStep False 8 ''a'' JNull] ob0)))
       = [TopologyHint n WRITE_EVENT_SCHEMA_VERSION ''run'' [''a'', ''b''] [(''a'', ''b'')] 9]"
proof -
  let ?c = "\<lparr>oc_run_store = None :: unit option, oc_redactor = None, oc_metadata = []\<rparr>"
  obtain ob0 where start: "observer_start ''o'' ?c demo_id 7 False = Inr ob0"
    by (simp add: observer_start_def session_start_def handle_write_def session_next_def Let_def)
  have keys: "{n. Some n \<in> tracked ` set [ObStep False 8 ''b'' JNull, ObStep False 8 ''a'' JNull]} = {''a'', ''b''}"
    by auto
  have adv: "se_advisory (ob_inner (observer_run [ObStep False 8 ''b'' JNull, ObStep False 8 ''a'' JNull] ob0)) = []"
    using start by (auto simp: observer_run_def observer_start_def session_start_def handle_write_def
        session_next_def broadcast_def observer_apply_eq record_step_def check_finished_def
        emit_critical_def Let_def)
  have ns: "inferred_nodes [ObStep False 8 ''b'' JNull, ObStep False 8 ''a'' JNull] = [''a'', ''b'']"
    unfolding inferred_nodes_def keys by simp
  from observer_topology [OF start, where ops = "[ObStep False 8 ''b'' JNull, ObStep False 8 ''a'' JNull]"
      and gone' = False and t = 9 and u = 10 and u' = 10 and status = Completed]
    start show ?thesis unfolding ns adv by (auto simp: demo_id_def)
qed

end
