(* ===== verification/State_Store.thy ===== *)
theory State_Store
  imports Flow_Types
begin

text \<open>
  The \<open>StateStore\<close> trait, \<open>defaults/in_memory_state.rs\<close> and the state store of the test support in
  \<open>node_ctx.rs\<close>: a scratchpad per run with snapshots.  A \<open>HashMap\<close> is an association list with
  distinct keys, of which no statement uses the order.  The contract of a state store is a
  locale; recovery from a checkpoint is proved from it once.
\<close>

section \<open>The trait and the in-memory store\<close>

record 's state_ops =
  so_get :: "string \<Rightarrow> string \<Rightarrow> 's \<Rightarrow> (state_error, json option) result"
  so_set :: "string \<Rightarrow> string \<Rightarrow> json \<Rightarrow> sensitivity \<Rightarrow> 's \<Rightarrow> (state_error, unit) result \<times> 's"
  so_snapshot :: "string \<Rightarrow> 's \<Rightarrow> (state_error, (string \<times> json) list) result"
  so_restore :: "string \<Rightarrow> (string \<times> json) list \<Rightarrow> 's \<Rightarrow> (state_error, unit) result \<times> 's"
  so_cleanup :: "string \<Rightarrow> 's \<Rightarrow> (state_error, unit) result \<times> 's"

type_synonym scratchpad = "(string \<times> json \<times> sensitivity) list"

record mem_state =
  ms_runs :: "(string \<times> scratchpad) list"

text \<open>\<open>HashMap::insert\<close>.\<close>

definition hm_insert :: "'k \<Rightarrow> 'v \<Rightarrow> ('k \<times> 'v) list \<Rightarrow> ('k \<times> 'v) list" where
  "hm_insert k v m = hm_entry k v (\<lambda>_. v) m"

definition state_new :: mem_state where
  "state_new = \<lparr>ms_runs = []\<rparr>"

definition state_get :: "string \<Rightarrow> string \<Rightarrow> mem_state \<Rightarrow> (state_error, json option) result" where
  "state_get run_id key st =
     Inr (map_option fst (Option.bind (bt_get run_id (ms_runs st)) (bt_get key)))"

definition state_set ::
  "string \<Rightarrow> string \<Rightarrow> json \<Rightarrow> sensitivity \<Rightarrow> mem_state \<Rightarrow> (state_error, unit) result \<times> mem_state" where
  "state_set run_id key v sens st =
     (Inr (), st\<lparr>ms_runs := hm_entry run_id [] (hm_insert key (v, sens)) (ms_runs st)\<rparr>)"

definition state_snapshot :: "string \<Rightarrow> mem_state \<Rightarrow> (state_error, (string \<times> json) list) result" where
  "state_snapshot run_id st =
     Inr (unwrap_or (map_option (map (\<lambda>(k, v). (k, fst v))) (bt_get run_id (ms_runs st))) [])"

definition insert_plain :: "(string \<times> json) list \<Rightarrow> scratchpad \<Rightarrow> scratchpad" where
  "insert_plain snap m = fold (\<lambda>(k, v). hm_insert k (v, SensNone)) snap m"

definition state_restore ::
  "string \<Rightarrow> (string \<times> json) list \<Rightarrow> mem_state \<Rightarrow> (state_error, unit) result \<times> mem_state" where
  "state_restore run_id snap st =
     (Inr (), st\<lparr>ms_runs := hm_entry run_id [] (\<lambda>_. insert_plain snap []) (ms_runs st)\<rparr>)"

definition state_cleanup :: "string \<Rightarrow> mem_state \<Rightarrow> (state_error, unit) result \<times> mem_state" where
  "state_cleanup run_id st = (Inr (), st\<lparr>ms_runs := bt_remove run_id (ms_runs st)\<rparr>)"

definition in_memory_state :: "mem_state state_ops" where
  "in_memory_state =
     \<lparr>so_get = state_get, so_set = state_set, so_snapshot = state_snapshot, so_restore = state_restore,
      so_cleanup = state_cleanup\<rparr>"

text \<open>The store of the test support differs in one operation: restoring does not clear the run.\<close>

definition test_restore ::
  "string \<Rightarrow> (string \<times> json) list \<Rightarrow> mem_state \<Rightarrow> (state_error, unit) result \<times> mem_state" where
  "test_restore run_id snap st =
     (Inr (), st\<lparr>ms_runs := hm_entry run_id [] (insert_plain snap) (ms_runs st)\<rparr>)"

definition test_state :: "mem_state state_ops" where
  "test_state = in_memory_state\<lparr>so_restore := test_restore\<rparr>"

section \<open>Sequences of operations\<close>

datatype state_cmd =
    SetCmd string string json sensitivity
  | RestoreCmd string "(string \<times> json) list"
  | CleanupCmd string

fun cmd_run :: "state_cmd \<Rightarrow> string" where
  "cmd_run (SetCmd r _ _ _) = r"
| "cmd_run (RestoreCmd r _) = r"
| "cmd_run (CleanupCmd r) = r"

fun state_step :: "'s state_ops \<Rightarrow> state_cmd \<Rightarrow> 's \<Rightarrow> 's" where
  "state_step ops (SetCmd r k v sens) st = snd (so_set ops r k v sens st)"
| "state_step ops (RestoreCmd r snap) st = snd (so_restore ops r snap st)"
| "state_step ops (CleanupCmd r) st = snd (so_cleanup ops r st)"

section \<open>The contract\<close>

text \<open>What a store promises, over the map of the values of each run.  Any operation may fail, and then
  changes nothing.\<close>

locale state_store =
  fixes ops :: "'s state_ops"
    and inv :: "'s \<Rightarrow> bool"
    and vals :: "'s \<Rightarrow> string \<Rightarrow> string \<Rightarrow> json option"
  assumes get_law: "inv s \<Longrightarrow> so_get ops r k s = Inr x \<Longrightarrow> x = vals s r k"
    and set_law: "inv s \<Longrightarrow> so_set ops r k v sens s = (res, s') \<Longrightarrow>
      inv s' \<and> vals s' = (if isl res then vals s else (vals s)(r := (vals s r)(k \<mapsto> v)))"
    and snapshot_law: "inv s \<Longrightarrow> so_snapshot ops r s = Inr snap \<Longrightarrow>
      distinct (map fst snap) \<and> bt_get k snap = vals s r k"
    and restore_law: "inv s \<Longrightarrow> distinct (map fst snap) \<Longrightarrow> so_restore ops r snap s = (res, s') \<Longrightarrow>
      inv s' \<and> vals s' = (if isl res then vals s else (vals s)(r := (\<lambda>k. bt_get k snap)))"
    and cleanup_law: "inv s \<Longrightarrow> so_cleanup ops r s = (res, s') \<Longrightarrow>
      inv s' \<and> vals s' = (if isl res then vals s else (vals s)(r := Map.empty))"
begin

lemma step_frame:
  assumes "inv s" "\<And>r snap. cmd = RestoreCmd r snap \<Longrightarrow> distinct (map fst snap)"
  shows "inv (state_step ops cmd s) \<and> (\<forall>r. r \<noteq> cmd_run cmd \<longrightarrow> vals (state_step ops cmd s) r = vals s r)"
proof (cases cmd)
  case (SetCmd r k v sens)
  then show ?thesis using set_law [OF assms(1), of r k v sens] by (cases "so_set ops r k v sens s") auto
next
  case (RestoreCmd r snap)
  then show ?thesis using restore_law [OF assms(1), of snap r] assms(2) by (cases "so_restore ops r snap s") auto
next
  case (CleanupCmd r)
  then show ?thesis using cleanup_law [OF assms(1), of r] by (cases "so_cleanup ops r s") auto
qed

lemma run_frame:
  assumes "inv s" "\<forall>r snap. RestoreCmd r snap \<in> set cs \<longrightarrow> distinct (map fst snap)"
  shows "inv (fold (state_step ops) cs s)
    \<and> (\<forall>r. r \<notin> cmd_run ` set cs \<longrightarrow> vals (fold (state_step ops) cs s) r = vals s r)"
  using assms
proof (induction cs arbitrary: s)
  case (Cons c cs)
  have "inv (state_step ops c s) \<and> (\<forall>r. r \<noteq> cmd_run c \<longrightarrow> vals (state_step ops c s) r = vals s r)"
    using step_frame [OF Cons.prems(1), of c] Cons.prems(2) by auto
  with Cons.IH [of "state_step ops c s"] Cons.prems(2) show ?case by auto
qed simp

lemma checkpoint_recovery:
  assumes "inv s" "so_snapshot ops r s = Inr snap"
    and "\<forall>r snap. RestoreCmd r snap \<in> set cs \<longrightarrow> distinct (map fst snap)"
    and "so_restore ops r snap (fold (state_step ops) cs s) = (Inr u, s')"
    and "so_get ops r k s' = Inr x"
  shows "x = vals s r k"
proof -
  have "inv (fold (state_step ops) cs s)" using run_frame [OF assms(1,3)] by simp
  moreover have "distinct (map fst snap)" "bt_get k snap = vals s r k"
    using snapshot_law [OF assms(1,2)] by simp_all
  ultimately have "inv s'" "vals s' r k = vals s r k"
    using restore_law [OF _ _ assms(4)] by simp_all
  with get_law [OF _ assms(5)] show ?thesis by simp
qed

end

section \<open>The in-memory store keeps the contract\<close>

definition state_inv :: "mem_state \<Rightarrow> bool" where
  "state_inv st \<longleftrightarrow> (\<forall>r m. bt_get r (ms_runs st) = Some m \<longrightarrow> distinct (map fst m))"

definition state_vals :: "mem_state \<Rightarrow> string \<Rightarrow> string \<Rightarrow> json option" where
  "state_vals st r k = map_option fst (Option.bind (bt_get r (ms_runs st)) (bt_get k))"

definition state_sens :: "mem_state \<Rightarrow> string \<Rightarrow> string \<Rightarrow> sensitivity option" where
  "state_sens st r k = map_option snd (Option.bind (bt_get r (ms_runs st)) (bt_get k))"

lemma bt_get_hm_insert [simp]: "bt_get k (hm_insert k' v m) = (if k = k' then Some v else bt_get k m)"
  by (simp add: hm_insert_def bt_get_entry)

lemma hm_insert_distinct [simp]: "distinct (map fst m) \<Longrightarrow> distinct (map fst (hm_insert k v m))"
proof -
  have "map fst (hm_modify k f m) = map fst m" for f by (induction m) auto
  then show "distinct (map fst m) \<Longrightarrow> distinct (map fst (hm_insert k v m))"
    by (auto simp: hm_insert_def hm_entry_def bt_get_None_iff)
qed

lemma insert_plain_distinct: "distinct (map fst m) \<Longrightarrow> distinct (map fst (insert_plain snap m))"
  unfolding insert_plain_def by (induction snap arbitrary: m) auto

lemma bt_get_insert_plain:
  "distinct (map fst snap) \<Longrightarrow> bt_get k (insert_plain snap m) =
     (case bt_get k snap of None \<Rightarrow> bt_get k m | Some v \<Rightarrow> Some (v, SensNone))"
  unfolding insert_plain_def
proof (induction snap arbitrary: m)
  case (Cons e snap)
  then show ?case
    using bt_get_None_iff [of "fst e" snap] by (cases e) (auto split: option.splits)
qed simp

lemma bt_get_plain [simp]: "bt_get k (map (\<lambda>(k, v). (k, fst v)) m) = map_option fst (bt_get k m)"
  by (induction m) auto

lemmas state_op_defs = state_get_def state_set_def state_snapshot_def state_restore_def state_cleanup_def

interpretation mem_states: state_store in_memory_state state_inv state_vals
proof (unfold_locales, goal_cases)
  case (1 s r k x)
  then show ?case by (simp add: in_memory_state_def state_get_def state_vals_def)
next
  case (2 s r k v sens res s')
  then show ?case
    by (auto simp: in_memory_state_def state_set_def state_inv_def state_vals_def bt_get_entry fun_eq_iff
        split: option.splits if_splits)
next
  case (3 s r snap k)
  then show ?case
    by (cases "bt_get r (ms_runs s)")
      (auto simp: in_memory_state_def state_snapshot_def state_inv_def state_vals_def comp_def case_prod_unfold
        simp flip: bt_get_plain)
next
  case (4 s snap r res s')
  then show ?case
    by (auto simp: in_memory_state_def state_restore_def state_inv_def state_vals_def bt_get_entry fun_eq_iff
        bt_get_insert_plain insert_plain_distinct split: option.splits if_splits)
next
  case (5 s r res s')
  then show ?case
    by (auto simp: in_memory_state_def state_cleanup_def state_inv_def state_vals_def fun_eq_iff split: if_splits)
qed

lemma state_new_inv: "state_inv state_new"
  by (simp add: state_inv_def state_new_def)

section \<open>Properties\<close>

text \<open>
  (C35) Recovery from a checkpoint: restoring a snapshot of a run, whatever was set, restored or
  cleaned up in the store since it was taken, gives every key of the run the value it had at the
  snapshot (keys set later disappear), leaves the values of every other run as they are, and resets the
  sensitivity of every restored key to none.
\<close>

theorem state_checkpoint_recovery:
  assumes "state_inv st" "state_snapshot r st = Inr snap"
    and "\<forall>r' snap'. RestoreCmd r' snap' \<in> set cs \<longrightarrow> distinct (map fst snap')"
    and "state_restore r snap (fold (state_step in_memory_state) cs st) = (res, st')"
  shows "state_get r k st' = state_get r k st
    \<and> (r' \<noteq> r \<longrightarrow> state_get r' k st' = state_get r' k (fold (state_step in_memory_state) cs st))
    \<and> (state_vals st r k \<noteq> None \<longrightarrow> state_sens st' r k = Some SensNone)"
proof -
  let ?s = "fold (state_step in_memory_state) cs st"
  have res: "res = Inr ()" using assms(4) by (simp add: state_restore_def)
  have snap: "so_snapshot in_memory_state r st = Inr snap" using assms(2) by (simp add: in_memory_state_def)
  have restore: "so_restore in_memory_state r snap ?s = (Inr (), st')"
    using assms(4) res by (simp add: in_memory_state_def)
  have inv: "state_inv ?s" using mem_states.run_frame [OF assms(1,3)] by simp
  have law: "distinct (map fst snap)" "bt_get k snap = state_vals st r k"
    using mem_states.snapshot_law [OF assms(1) snap] by simp_all
  have vals: "state_vals st' = (state_vals ?s)(r := (\<lambda>k. bt_get k snap))"
    using mem_states.restore_law [OF inv law(1) restore] by simp
  have get: "state_get r k st = Inr (state_vals st r k)" for r k st by (simp add: state_get_def state_vals_def)
  have "state_sens st' r k = Some SensNone" if "state_vals st r k \<noteq> None"
    using that law assms(4)
    by (auto simp: state_sens_def state_restore_def bt_get_entry bt_get_insert_plain split: option.splits)
  with vals law show ?thesis by (simp add: get)
qed

definition demo_pad :: mem_state where
  "demo_pad = snd (state_set ''r'' ''k'' (JBool True) Secret state_new)"

theorem state_checkpoint_recovery_witness:
  "\<exists>snap st'. state_snapshot ''r'' demo_pad = Inr snap
     \<and> state_restore ''r'' snap (fold (state_step in_memory_state) [SetCmd ''r'' ''k'' JNull SensNone] demo_pad) = (Inr (), st')
     \<and> state_get ''r'' ''k'' st' = Inr (Some (JBool True)) \<and> state_sens st' ''r'' ''k'' = Some SensNone"
proof -
  let ?cs = "[SetCmd ''r'' ''k'' JNull SensNone]"
  have inv: "state_inv demo_pad"
    using mem_states.set_law [OF state_new_inv, of "''r''" "''k''" "JBool True" Secret "Inr ()" demo_pad]
    by (simp add: in_memory_state_def demo_pad_def state_set_def)
  obtain snap where snap: "state_snapshot ''r'' demo_pad = Inr snap" by (simp add: state_snapshot_def)
  obtain st' where st': "state_restore ''r'' snap (fold (state_step in_memory_state) ?cs demo_pad) = (Inr (), st')"
    by (simp add: state_restore_def)
  have "state_get ''r'' ''k'' demo_pad = Inr (Some (JBool True))" "state_vals demo_pad ''r'' ''k'' \<noteq> None"
    by (simp_all add: demo_pad_def state_set_def state_new_def state_get_def state_vals_def bt_get_entry)
  with state_checkpoint_recovery [OF inv snap _ st', of "''k''"] snap st' show ?thesis by auto
qed

text \<open>The store of the test support does not keep the contract: a key set after the snapshot survives the
  restore.\<close>

lemma test_restore_keeps_later_keys:
  "bt_get k snap = None \<Longrightarrow> distinct (map fst snap) \<Longrightarrow>
     state_vals (snd (test_restore r snap st)) r k = state_vals st r k"
  by (auto simp: test_restore_def state_vals_def bt_get_entry bt_get_insert_plain split: option.splits)

end
