(* ===== verification/Node_Context.thy ===== *)
theory Node_Context
  imports Node_Exec State_Store
begin

text \<open>
  \<open>node_ctx.rs\<close> and \<open>defaults/env_secrets.rs\<close>: what a node sees of the engine.  A handler is a
  computation over the part of the world that one invocation can change: the state store, the two
  channels of the invocation and the published messages.  It returns a value, an error, or is
  blocked for ever on a full channel, which the timeout of the executor ends.  The outcome of a
  handler becomes an attempt of \<open>Node_Exec\<close>.
\<close>

section \<open>Errors as text\<close>

datatype queue_error = QueueErr string

fun secrets_error_to_string :: "secrets_error \<Rightarrow> string" where
  "secrets_error_to_string (SecretNotFound key) = ''secret not found: '' @ key"
| "secrets_error_to_string (SecretsProviderError message) = ''secrets provider error: '' @ message"

fun state_error_to_string :: "state_error \<Rightarrow> string" where
  "state_error_to_string (StateStoreError message) = ''state store error: '' @ message"

fun queue_error_to_string :: "queue_error \<Rightarrow> string" where
  "queue_error_to_string (QueueErr message) = ''queue error: '' @ message"

section \<open>Handlers as computations\<close>

datatype 'a node_res = NOk 'a | NErr node_error | NBlocked

type_synonym ('w, 'a) node_io = "'w \<Rightarrow> 'a node_res \<times> 'w"

text \<open>Sequencing with the \<open>?\<close> operator.\<close>

definition nbind :: "('w, 'a) node_io \<Rightarrow> ('a \<Rightarrow> ('w, 'b) node_io) \<Rightarrow> ('w, 'b) node_io" where
  "nbind m f w =
     (case m w of
        (NOk x, w1) \<Rightarrow> f x w1
      | (NErr e, w1) \<Rightarrow> (NErr e, w1)
      | (NBlocked, w1) \<Rightarrow> (NBlocked, w1))"

definition nret :: "'a \<Rightarrow> ('w, 'a) node_io" where
  "nret x w = (NOk x, w)"

definition nlift :: "(node_error, 'a) result \<Rightarrow> ('w, 'a) node_io" where
  "nlift r w = (case r of Inl e \<Rightarrow> (NErr e, w) | Inr x \<Rightarrow> (NOk x, w))"

lemma nbind_nret [simp]: "nbind (nret x) f = f x"
  by (simp add: nbind_def nret_def fun_eq_iff)

lemma nbind_nlift [simp]:
  "nbind (nlift (Inr x)) f = f x" "nbind (nlift (Inl e)) f w = (NErr e, w)"
  by (simp_all add: nbind_def nlift_def fun_eq_iff)

lemma nbind_OkE:
  assumes "nbind m f w = (NOk y, w')"
  obtains x w1 where "m w = (NOk x, w1)" "f x w1 = (NOk y, w')"
  using assms by (auto simp: nbind_def split: prod.splits node_res.splits)

lemma nbind_ErrE:
  assumes "nbind m f w = (NErr e, w')"
  obtains "m w = (NErr e, w')" | x w1 where "m w = (NOk x, w1)" "f x w1 = (NErr e, w')"
  using assms by (auto simp: nbind_def split: prod.splits node_res.splits)

lemma nlift_OkD: "nlift r w = (NOk x, w') \<Longrightarrow> r = Inr x \<and> w' = w"
  by (auto simp: nlift_def split: sum.splits)

lemma nlift_ErrD: "nlift r w = (NErr e, w') \<Longrightarrow> r = Inl e \<and> w' = w"
  by (auto simp: nlift_def split: sum.splits)

section \<open>The context\<close>

text \<open>An LLM provider: one answer per request, whole or as a stream of chunks in which an error may
  occur.\<close>

record llm_provider =
  lp_complete :: "llm_request \<Rightarrow> (node_error, llm_response) result"
  lp_complete_streaming :: "llm_request \<Rightarrow> (node_error, (node_error, llm_chunk) result list) result"
  lp_supports_streaming :: bool
  lp_name :: string

text \<open>The default implementation of \<open>complete_streaming\<close>.\<close>

definition default_complete_streaming ::
  "(llm_request \<Rightarrow> (node_error, llm_response) result) \<Rightarrow> llm_request
   \<Rightarrow> (node_error, (node_error, llm_chunk) result list) result" where
  "default_complete_streaming compl request =
     and_then (compl request) (\<lambda>resp. Inr [Inr (Done (lr_finish_reason resp))])"

record 's node_ctx =
  ctx_run_id :: string
  ctx_node_instance_id :: string
  ctx_secrets :: "string \<Rightarrow> (secrets_error, string option) result"
  ctx_state :: "'s state_ops"
  ctx_queue :: "string \<Rightarrow> string \<Rightarrow> (queue_error, unit) result"
  ctx_tool_definitions :: "tool_def list"
  ctx_llm_providers :: "(string \<times> llm_provider) list"

record 's node_world =
  nw_state :: 's
  nw_events :: "node_event list"
  nw_llm :: "llm_invocation_record list"
  nw_published :: "(string \<times> string) list"

text \<open>The capacity of both channels of an invocation; they are drained when the handler has returned.\<close>

definition NODE_CHANNEL_CAPACITY :: nat where
  "NODE_CHANNEL_CAPACITY = 1000"

definition ctx_secret :: "'s node_ctx \<Rightarrow> string \<Rightarrow> ('s node_world, string) node_io" where
  "ctx_secret ctx key =
     nlift (and_then (map_err (\<lambda>e. Fatal (''secrets provider error: '' @ secrets_error_to_string e))
         (ctx_secrets ctx key))
       (\<lambda>v. ok_or v (Fatal (''secret not found: '' @ key))))"

definition ctx_state_get :: "'s node_ctx \<Rightarrow> string \<Rightarrow> ('s node_world, json option) node_io" where
  "ctx_state_get ctx key w =
     nlift (map_err (\<lambda>e. Fatal (''state get error: '' @ state_error_to_string e))
       (so_get (ctx_state ctx) (ctx_run_id ctx) key (nw_state w))) w"

definition ctx_state_put :: "'s node_ctx \<Rightarrow> string \<Rightarrow> json \<Rightarrow> sensitivity \<Rightarrow> ('s node_world, unit) node_io" where
  "ctx_state_put ctx key v sens w =
     (case so_set (ctx_state ctx) (ctx_run_id ctx) key v sens (nw_state w) of
        (Inl e, s) \<Rightarrow> (NErr (Fatal (''state set error: '' @ state_error_to_string e)), w\<lparr>nw_state := s\<rparr>)
      | (Inr _, s) \<Rightarrow> (NOk (), w\<lparr>nw_state := s\<rparr>))"

definition ctx_state_set :: "'s node_ctx \<Rightarrow> string \<Rightarrow> json \<Rightarrow> ('s node_world, unit) node_io" where
  "ctx_state_set ctx key v = ctx_state_put ctx key v SensNone"

definition ctx_state_set_secret :: "'s node_ctx \<Rightarrow> string \<Rightarrow> json \<Rightarrow> ('s node_world, unit) node_io" where
  "ctx_state_set_secret ctx key v = ctx_state_put ctx key v Secret"

text \<open>\<open>try_send\<close>: an event that finds the channel full is dropped.\<close>

definition try_send :: "node_event \<Rightarrow> 's node_world \<Rightarrow> 's node_world" where
  "try_send ev w =
     (if length (nw_events w) < NODE_CHANNEL_CAPACITY then w\<lparr>nw_events := nw_events w @ [ev]\<rparr> else w)"

definition emit_sensitive :: "string \<Rightarrow> json \<Rightarrow> sensitivity \<Rightarrow> 's node_world \<Rightarrow> 's node_world" where
  "emit_sensitive name data sens w =
     try_send \<lparr>nev_name = name, nev_data = data, nev_sensitivity = sens\<rparr> w"

definition emit :: "string \<Rightarrow> json \<Rightarrow> 's node_world \<Rightarrow> 's node_world" where
  "emit name data w = try_send \<lparr>nev_name = name, nev_data = data, nev_sensitivity = SensNone\<rparr> w"

definition emit_llm_chunk :: "(llm_chunk \<Rightarrow> json) \<Rightarrow> llm_chunk \<Rightarrow> 's node_world \<Rightarrow> 's node_world" where
  "emit_llm_chunk to_value chunk w =
     try_send \<lparr>nev_name = ''__llm_chunk'', nev_data = to_value chunk, nev_sensitivity = SensNone\<rparr> w"

definition ctx_publish :: "'s node_ctx \<Rightarrow> string \<Rightarrow> string \<Rightarrow> ('s node_world, unit) node_io" where
  "ctx_publish ctx topic payload w =
     (case ctx_queue ctx topic payload of
        Inl e \<Rightarrow> (NErr (Fatal (''queue publish error: '' @ queue_error_to_string e)), w)
      | Inr _ \<Rightarrow> (NOk (), w\<lparr>nw_published := nw_published w @ [(topic, payload)]\<rparr>))"

definition llm_record_for :: "'s node_ctx \<Rightarrow> datetime \<Rightarrow> llm_request \<Rightarrow> llm_response \<Rightarrow> llm_invocation_record" where
  "llm_record_for ctx now request response =
     \<lparr>li_run_id = ctx_run_id ctx, li_node_id = ctx_node_instance_id ctx, li_request = request,
      li_response = response, li_timestamp = now\<rparr>"

text \<open>\<open>send\<close>: a record that finds the channel full waits; nothing drains it while the handler runs.  The
  receiver lives as long as the handler, so that the channel is never closed.\<close>

definition ctx_record_llm_call ::
  "'s node_ctx \<Rightarrow> datetime \<Rightarrow> llm_request \<Rightarrow> llm_response \<Rightarrow> ('s node_world, unit) node_io" where
  "ctx_record_llm_call ctx now request response w =
     (if length (nw_llm w) < NODE_CHANNEL_CAPACITY
      then (NOk (), w\<lparr>nw_llm := nw_llm w @ [llm_record_for ctx now request response]\<rparr>)
      else (NBlocked, w))"

definition llm_provider_named :: "'s node_ctx \<Rightarrow> string \<Rightarrow> llm_provider option" where
  "llm_provider_named ctx name = bt_get name (ctx_llm_providers ctx)"

definition available_tools :: "'s node_ctx \<Rightarrow> tool_def list" where
  "available_tools ctx = ctx_tool_definitions ctx"

text \<open>\<open>EnvSecretsProvider\<close> over the outcome of \<open>std::env::var\<close>: unset, unreadable or a value.\<close>

datatype env_var = EnvUnset | EnvUnreadable string | EnvValue string

definition env_secret :: "(string \<Rightarrow> env_var) \<Rightarrow> string \<Rightarrow> (secrets_error, string option) result" where
  "env_secret env key =
     (case env key of
        EnvValue val \<Rightarrow> Inr (Some val)
      | EnvUnset \<Rightarrow> Inr None
      | EnvUnreadable e \<Rightarrow> Inl (SecretsProviderError (''failed to read env var '' @ key @ '': '' @ e)))"

section \<open>An invocation as an attempt of the executor\<close>

definition fresh_world :: "'s \<Rightarrow> 's node_world" where
  "fresh_world s = \<lparr>nw_state = s, nw_events = [], nw_llm = [], nw_published = []\<rparr>"

fun timed_of :: "json node_res \<Rightarrow> timed_result" where
  "timed_of (NOk v) = Returned v"
| "timed_of (NErr e) = Raised e"
| "timed_of NBlocked = Elapsed"

definition run_attempt :: "('s node_world, json) node_io \<Rightarrow> u64 \<Rightarrow> 's \<Rightarrow> attempt \<times> 's" where
  "run_attempt handler duration_ms s =
     (case handler (fresh_world s) of
        (res, w) \<Rightarrow>
          (\<lparr>att_result = timed_of res, att_duration_ms = duration_ms, att_llm = nw_llm w,
            att_events = nw_events w\<rparr>, nw_state w))"

section \<open>The channels of an invocation\<close>

datatype ctx_cmd =
    CmdEvent node_event
  | CmdLlm datetime llm_request llm_response

fun ctx_cmds :: "'s node_ctx \<Rightarrow> ctx_cmd list \<Rightarrow> ('s node_world, unit) node_io" where
  "ctx_cmds ctx [] w = (NOk (), w)"
| "ctx_cmds ctx (CmdEvent ev # cs) w = ctx_cmds ctx cs (try_send ev w)"
| "ctx_cmds ctx (CmdLlm now request response # cs) w =
     nbind (ctx_record_llm_call ctx now request response) (\<lambda>_. ctx_cmds ctx cs) w"

fun cmd_events :: "ctx_cmd list \<Rightarrow> node_event list" where
  "cmd_events [] = []"
| "cmd_events (CmdEvent ev # cs) = ev # cmd_events cs"
| "cmd_events (_ # cs) = cmd_events cs"

fun cmd_records :: "'s node_ctx \<Rightarrow> ctx_cmd list \<Rightarrow> llm_invocation_record list" where
  "cmd_records ctx [] = []"
| "cmd_records ctx (CmdLlm now request response # cs) = llm_record_for ctx now request response # cmd_records ctx cs"
| "cmd_records ctx (_ # cs) = cmd_records ctx cs"

lemma try_send_events:
  "length (nw_events w) \<le> NODE_CHANNEL_CAPACITY \<Longrightarrow>
     nw_events (try_send ev w) = take NODE_CHANNEL_CAPACITY (nw_events w @ [ev])"
  by (auto simp: try_send_def)

lemma try_send_other [simp]:
  "nw_llm (try_send ev w) = nw_llm w" "nw_state (try_send ev w) = nw_state w"
  by (simp_all add: try_send_def)

text \<open>The commands before the first record for which there is no room.\<close>

fun reached :: "nat \<Rightarrow> ctx_cmd list \<Rightarrow> ctx_cmd list" where
  "reached n [] = []"
| "reached n (CmdEvent ev # cs) = CmdEvent ev # reached n cs"
| "reached 0 (CmdLlm now request response # cs) = []"
| "reached (Suc n) (CmdLlm now request response # cs) = CmdLlm now request response # reached n cs"

lemma ctx_cmds_channels:
  "length (nw_events w) \<le> NODE_CHANNEL_CAPACITY \<Longrightarrow> length (nw_llm w) + n = NODE_CHANNEL_CAPACITY \<Longrightarrow>
   ctx_cmds ctx cs w = (res, w') \<Longrightarrow>
     res = (if reached n cs = cs then NOk () else NBlocked)
     \<and> nw_events w' = take NODE_CHANNEL_CAPACITY (nw_events w @ cmd_events (reached n cs))
     \<and> nw_llm w' = nw_llm w @ cmd_records ctx (reached n cs) \<and> nw_state w' = nw_state w"
proof (induction n cs arbitrary: w rule: reached.induct)
  case (2 n ev cs)
  have room: "length (nw_events (try_send ev w)) \<le> NODE_CHANNEL_CAPACITY"
    using try_send_events [OF 2(2)] by simp
  have "take NODE_CHANNEL_CAPACITY (nw_events (try_send ev w) @ xs)
      = take NODE_CHANNEL_CAPACITY (nw_events w @ ev # xs)" for xs
    using 2(2) by (cases "length (nw_events w) = NODE_CHANNEL_CAPACITY") (simp_all add: try_send_def)
  with 2(1) [OF room] 2(3,4) show ?case by simp
next
  case (4 n now request response cs)
  let ?w = "w\<lparr>nw_llm := nw_llm w @ [llm_record_for ctx now request response]\<rparr>"
  have "ctx_cmds ctx cs ?w = (res, w')"
    using 4(3,4) by (simp add: nbind_def ctx_record_llm_call_def)
  with 4(1) [of ?w] 4(2,3) show ?case by simp
qed (auto simp: nbind_def ctx_record_llm_call_def)

lemma reached_all: "reached n cs = cs \<longleftrightarrow> length (cmd_records ctx cs) \<le> n"
  by (induction n cs rule: reached.induct) simp_all

lemma reached_records: "cmd_records ctx (reached n cs) = take n (cmd_records ctx cs)"
  by (induction n cs rule: reached.induct) simp_all

text \<open>
  The channels of one invocation are bounded: whatever a handler emits and records, the executor
  finds the first thousand events in their order, the rest being dropped, and the first thousand
  LLM records in their order; one more record blocks the handler until its timeout, and what it would
  have done afterwards does not happen.
\<close>

theorem invocation_channels:
  "run_attempt (nbind (ctx_cmds ctx cs) (\<lambda>_. nret out)) d s =
     (\<lparr>att_result = (if length (cmd_records ctx cs) \<le> 1000 then Returned out else Elapsed),
       att_duration_ms = d, att_llm = take 1000 (cmd_records ctx cs),
       att_events = take 1000 (cmd_events (reached 1000 cs))\<rparr>, s)"
proof -
  obtain res w' where run: "ctx_cmds ctx cs (fresh_world s) = (res, w')" by force
  from ctx_cmds_channels [OF _ _ run, of 1000]
  have "res = (if reached 1000 cs = cs then NOk () else NBlocked)"
    "nw_events w' = take 1000 (cmd_events (reached 1000 cs))"
    "nw_llm w' = cmd_records ctx (reached 1000 cs)" "nw_state w' = s"
    by (simp_all add: fresh_world_def NODE_CHANNEL_CAPACITY_def)
  then show ?thesis
    by (simp add: run_attempt_def nbind_def run nret_def reached_all [of _ _ ctx] reached_records)
qed

end
