(* ===== verification/Human_Input.thy ===== *)
theory Human_Input
  imports Node_Context
begin

text \<open>
  Human input: \<open>nodes/human_in_loop.rs\<close>, the registry of \<open>node_ctx.rs\<close> and
  \<open>Executor::provide_input\<close> of \<open>executor/mod.rs\<close>.  A waiting node holds the receiving end of a
  one-shot channel whose sender is registered under the run and the node; the operations of many
  nodes and callers interleave, so the component is a step relation.
\<close>

section \<open>Channels and registry\<close>

text \<open>A one-shot channel: both ends alive, a value on its way, the sender dropped, or the receiver
  dropped.\<close>

datatype oneshot = Waiting | Sent json | SenderDropped | ReceiverDropped

type_synonym human_key = "string \<times> string"

record human_state =
  hs_registry :: "(human_key \<times> nat) list"
  hs_chans :: "oneshot list"
  hs_owner :: "human_key list"

text \<open>Dropping the sender of a channel: what was sent stays.\<close>

definition drop_sender :: "nat \<Rightarrow> oneshot list \<Rightarrow> oneshot list" where
  "drop_sender ch cs = (if ch < length cs \<and> cs ! ch = Waiting then cs[ch := SenderDropped] else cs)"

text \<open>\<open>register_human_input\<close>; inserting over an earlier sender drops that one.\<close>

definition register_human_input ::
  "bool \<Rightarrow> string \<Rightarrow> string \<Rightarrow> nat \<Rightarrow> human_state \<Rightarrow> (node_error, unit) result \<times> human_state" where
  "register_human_input available run_id node_id ch st =
     (if available
      then (Inr (),
        st\<lparr>hs_chans := (case bt_get (run_id, node_id) (hs_registry st) of
               None \<Rightarrow> hs_chans st | Some old \<Rightarrow> drop_sender old (hs_chans st)),
           hs_registry := hm_insert (run_id, node_id) ch (hs_registry st)\<rparr>)
      else (Inl (Fatal ''human input registry not available''), st))"

text \<open>\<open>HumanInLoopNode::run\<close> up to the wait: a new channel, its registration and the advisory event; without
  a registry both ends are dropped again.  \<open>hs_owner\<close> remembers for which node a channel was made.\<close>

definition human_start ::
  "bool \<Rightarrow> string \<Rightarrow> string \<Rightarrow> json \<Rightarrow> human_state \<times> 's node_world
   \<Rightarrow> (node_error, nat) result \<times> human_state \<times> 's node_world" where
  "human_start available run_id node_id config sw =
     (case sw of (st, w) \<Rightarrow>
        let ch = length (hs_chans st);
            st1 = st\<lparr>hs_chans := hs_chans st @ [Waiting], hs_owner := hs_owner st @ [(run_id, node_id)]\<rparr>
        in case register_human_input available run_id node_id ch st1 of
             (Inl e, st2) \<Rightarrow> (Inl e, st2\<lparr>hs_chans := (hs_chans st2)[ch := ReceiverDropped]\<rparr>, w)
           | (Inr _, st2) \<Rightarrow> (Inr ch, st2, emit ''human_input_requested'' config w))"

text \<open>The wait itself: what the receiver finds, if anything.\<close>

definition human_await :: "nat \<Rightarrow> human_state \<Rightarrow> json node_res" where
  "human_await ch st =
     (case hs_chans st ! ch of
        Sent v \<Rightarrow> NOk v
      | SenderDropped \<Rightarrow> NErr (Fatal ''Human input canceled'')
      | _ \<Rightarrow> NBlocked)"

text \<open>The executor drops a handler at its timeout, and with it the receiver; the sender stays registered.\<close>

definition human_abort :: "nat \<Rightarrow> human_state \<Rightarrow> human_state" where
  "human_abort ch st = st\<lparr>hs_chans := (hs_chans st)[ch := ReceiverDropped]\<rparr>"

datatype executor_error =
    NodeNotFound string
  | ExecutionError string
  | WriteHandleErr

definition provide_input ::
  "bool \<Rightarrow> string \<Rightarrow> string \<Rightarrow> json \<Rightarrow> human_state \<Rightarrow> (executor_error, unit) result \<times> human_state" where
  "provide_input contended run_id node_id v st =
     (if contended then (Inl (ExecutionError ''human input registry lock contention''), st)
      else case bt_get (run_id, node_id) (hs_registry st) of
             None \<Rightarrow> (Inl (ExecutionError (''no human input sender registered for run='' @ run_id @
                        '' node='' @ node_id)), st)
           | Some ch \<Rightarrow>
               let st1 = st\<lparr>hs_registry := bt_remove (run_id, node_id) (hs_registry st)\<rparr>
               in if hs_chans st1 ! ch = ReceiverDropped
                  then (Inl (ExecutionError ''human input receiver dropped''), st1)
                  else (Inr (), st1\<lparr>hs_chans := (hs_chans st1)[ch := Sent v]\<rparr>))"

section \<open>Interleaving\<close>

definition human_init :: human_state where
  "human_init = \<lparr>hs_registry = [], hs_chans = [], hs_owner = []\<rparr>"

inductive human_step :: "human_state \<Rightarrow> human_state \<Rightarrow> bool" where
  start: "human_step st (fst (snd (human_start available r n config (st, w :: unit node_world))))"
| abort: "ch < length (hs_chans st) \<Longrightarrow> human_step st (human_abort ch st)"
| provide: "human_step st (snd (provide_input contended r n v st))"

text \<open>The executions that wait for a key: channels made for it that have neither a value nor a dropped
  end.\<close>

definition waiting_for :: "human_key \<Rightarrow> human_state \<Rightarrow> nat set" where
  "waiting_for key st = {ch. ch < length (hs_chans st) \<and> hs_chans st ! ch = Waiting \<and> hs_owner st ! ch = key}"

definition human_inv :: "human_state \<Rightarrow> bool" where
  "human_inv st \<longleftrightarrow>
     length (hs_owner st) = length (hs_chans st)
     \<and> (\<forall>key ch. bt_get key (hs_registry st) = Some ch \<longrightarrow>
          ch < length (hs_chans st) \<and> hs_owner st ! ch = key
          \<and> (hs_chans st ! ch = Waiting \<or> hs_chans st ! ch = ReceiverDropped))
     \<and> (\<forall>ch. ch < length (hs_chans st) \<longrightarrow> hs_chans st ! ch = Waiting \<longrightarrow>
          bt_get (hs_owner st ! ch) (hs_registry st) = Some ch)"

lemma human_inv_init: "human_inv human_init"
  by (simp add: human_inv_def human_init_def)

lemma length_drop_sender [simp]: "length (drop_sender ch cs) = length cs"
  by (simp add: drop_sender_def)

lemma nth_drop_sender:
  "i < length cs \<Longrightarrow> drop_sender ch cs ! i = (if i = ch \<and> cs ! i = Waiting then SenderDropped else cs ! i)"
  by (auto simp: drop_sender_def nth_list_update)

lemma human_inv_start:
  assumes "human_inv st"
  shows "human_inv (fst (snd (human_start available r n config (st, w))))"
  using assms
  by (auto simp: human_inv_def human_start_def register_human_input_def nth_append nth_drop_sender Let_def
      less_Suc_eq split: option.splits if_splits) (metis prod.inject)+

lemma human_inv_step:
  assumes "human_step st st'" "human_inv st"
  shows "human_inv st'"
  using assms
proof cases
  case (start available r n config w)
  with human_inv_start assms(2) show ?thesis by blast
next
  case (abort ch)
  with assms(2) show ?thesis by (auto simp: human_inv_def human_abort_def nth_list_update)
next
  case (provide contended r n v)
  with assms(2) show ?thesis
    by (auto simp: human_inv_def provide_input_def nth_list_update Let_def split: option.splits if_splits)
      (metis prod.inject)+
qed

lemma human_inv_reachable: "human_step\<^sup>*\<^sup>* human_init st \<Longrightarrow> human_inv st"
  by (induction rule: rtranclp_induct) (auto intro: human_inv_init human_inv_step)

lemma waiting_for_eq:
  assumes "human_inv st"
  shows "waiting_for key st = (case bt_get key (hs_registry st) of
      Some ch \<Rightarrow> if hs_chans st ! ch = Waiting then {ch} else {} | None \<Rightarrow> {})"
  using assms unfolding human_inv_def waiting_for_def by (fastforce split: option.splits)

section \<open>Properties\<close>

text \<open>
  (C34) Human input reaches exactly one execution: in every reachable state at most one execution waits for
  a run and node; input provided without contention is refused if none waits, changing no channel, and
  otherwise that execution receives exactly this value, waits no longer, and no other one notices.
\<close>

theorem human_input_delivery:
  assumes "human_step\<^sup>*\<^sup>* human_init st" "provide_input False r n v st = (res, st')"
  shows "waiting_for (r, n) st = {} \<and> isl res \<and> hs_chans st' = hs_chans st
    \<or> (\<exists>ch. waiting_for (r, n) st = {ch} \<and> res = Inr () \<and> human_await ch st' = NOk v
         \<and> waiting_for (r, n) st' = {} \<and> (\<forall>ch' \<noteq> ch. hs_chans st' ! ch' = hs_chans st ! ch'))"
proof -
  note inv = human_inv_reachable [OF assms(1)]
  have "human_step st st'" using human_step.provide [of st False r n v] assms(2) by simp
  then have inv': "human_inv st'" using human_inv_step inv by blast
  show ?thesis
  proof (cases "bt_get (r, n) (hs_registry st)")
    case None
    with waiting_for_eq [OF inv, of "(r, n)"] assms(2) show ?thesis by (auto simp: provide_input_def)
  next
    case (Some ch)
    then have ch: "ch < length (hs_chans st)" "hs_chans st ! ch = Waiting \<or> hs_chans st ! ch = ReceiverDropped"
      using inv by (auto simp: human_inv_def)
    with waiting_for_eq [OF inv, of "(r, n)"] waiting_for_eq [OF inv', of "(r, n)"] assms(2) Some show ?thesis
      by (auto simp: provide_input_def human_await_def Let_def split: if_splits)
  qed
qed

text \<open>
  A second execution of a node that waits for input cancels the first: after it has registered, the
  earlier execution fails with the message \<open>Human input canceled\<close> and the new one waits in its place.
\<close>

theorem human_restart_cancels:
  assumes "human_step\<^sup>*\<^sup>* human_init st" "ch \<in> waiting_for (r, n) st"
    and "human_start True r n config (st, w) = (res, st', w')"
  shows "human_await ch st' = NErr (Fatal ''Human input canceled'')
    \<and> res = Inr (length (hs_chans st)) \<and> waiting_for (r, n) st' = {length (hs_chans st)}"
proof -
  note inv = human_inv_reachable [OF assms(1)]
  have "human_inv st'" using human_inv_start [OF inv, of True r n config w] assms(3) by simp
  note w' = waiting_for_eq [OF this, of "(r, n)"]
  have reg: "bt_get (r, n) (hs_registry st) = Some ch" "hs_chans st ! ch = Waiting"
    using assms(2) by (auto simp: waiting_for_eq [OF inv] split: option.splits if_splits)
  then have "ch < length (hs_chans st)" using inv by (auto simp: human_inv_def)
  with reg assms(3) show ?thesis unfolding w'
    by (auto simp: human_start_def register_human_input_def human_await_def Let_def nth_append nth_drop_sender)
qed

text \<open>One node waiting.\<close>

definition demo_wait :: human_state where
  "demo_wait = fst (snd (human_start True ''r'' ''n'' JNull (human_init, fresh_world ())))"

lemma demo_wait_reachable: "human_step\<^sup>*\<^sup>* human_init demo_wait"
  unfolding demo_wait_def using human_step.start by blast

lemma demo_waiting: "waiting_for (''r'', ''n'') demo_wait = {0}"
  unfolding waiting_for_eq [OF human_inv_reachable [OF demo_wait_reachable]]
  by (simp add: demo_wait_def human_start_def register_human_input_def human_init_def)

theorem human_input_delivery_witness:
  "\<exists>res st'. provide_input False ''r'' ''n'' (JBool True) demo_wait = (res, st') \<and> res = Inr ()
     \<and> human_await 0 st' = NOk (JBool True)"
proof -
  obtain res st' where p: "provide_input False ''r'' ''n'' (JBool True) demo_wait = (res, st')" by force
  from human_input_delivery [OF demo_wait_reachable p] demo_waiting p show ?thesis by auto
qed

theorem human_restart_cancels_witness:
  "\<exists>res st' w'. human_start True ''r'' ''n'' JNull (demo_wait, fresh_world ()) = (res, st', w')
     \<and> human_await 0 st' = NErr (Fatal ''Human input canceled'')"
proof -
  obtain res st' w' where s: "human_start True ''r'' ''n'' JNull (demo_wait, fresh_world ()) = (res, st', w')"
    by (metis prod_cases3)
  from human_restart_cancels [OF demo_wait_reachable _ s, of 0] demo_waiting s show ?thesis by auto
qed

end
