(* ===== verification/Flow_Executor.thy ===== *)
theory Flow_Executor
  imports Executor Session Versioning Human_Input
begin

text \<open>
  \<open>executor/mod.rs\<close>: the entry point of the executor.  \<open>execute\<close> checks the node types, starts a
  session for the run, registers its event sender and spawns the run loop of \<open>Executor\<close>; when the
  loop has ended, the task finishes the session, broadcasts the completion and removes the sender.
  Many runs are active at a time, so the executor is a step relation over these operations.
\<close>

section \<open>State and operations\<close>

text \<open>The event of \<open>triggers/mod.rs\<close> that completes a run.\<close>

record run_completed =
  rce_run_id :: string
  rce_flow_id :: string
  rce_status :: run_status
  rce_outputs :: json

record executor_config =
  xc_max_traversals :: u32

definition executor_config_default :: executor_config where
  "executor_config_default = \<lparr>xc_max_traversals = 50\<rparr>"

text \<open>A spawned run: the context of its loop and its session.\<close>

record active_run =
  ar_ctx :: run_context
  ar_session :: session

record 's executor_state =
  xs_config :: executor_config
  xs_registry :: "string \<rightharpoonup> node_meta"
  xs_run_store :: 's
  xs_redactor :: redactor_ops
  xs_pipeline_config :: pipeline_config
  xs_senders :: "(string \<times> unit) list"
  xs_active :: "(string \<times> active_run) list"
  xs_completed :: "run_completed list"

fun session_error_to_string :: "session_error \<Rightarrow> string" where
  "session_error_to_string AlreadyFinished = ''session already finished''"
| "session_error_to_string ChannelClosed = ''write channel closed''"
| "session_error_to_string (PipelineError m) = ''pipeline error: '' @ m"

text \<open>The libraries the run loop uses (the rendering of tokens in errors, the parser of chunks, the
  clock), fixed for an engine.\<close>

record engine_lib =
  el_dbg :: "token \<Rightarrow> string"
  el_parse_chunk :: "json \<rightharpoonup> llm_chunk"
  el_now :: "nat \<Rightarrow> datetime"

definition unknown_node :: "(string \<rightharpoonup> node_meta) \<Rightarrow> graph_def \<Rightarrow> string option" where
  "unknown_node registry graph =
     map_option node_type (List.find (\<lambda>n. registry (node_type n) = None) (nodes graph))"

definition run_builder ::
  "'b hash_lib \<Rightarrow> 's executor_state \<Rightarrow> graph_def \<Rightarrow> string \<Rightarrow> json \<Rightarrow> trigger_source \<Rightarrow> string option
   \<Rightarrow> 's session_builder" where
  "run_builder lib ex graph version_id inputs source parent =
     (let b = with_trigger_inputs inputs (with_triggered_by source
                (with_config_hash (compute_config_hash lib graph) (with_version_id version_id
                (with_pipeline_config (xs_pipeline_config ex) (with_redactor (xs_redactor ex)
                (with_run_store (xs_run_store ex) (with_session_name (graph_id graph) builder_new)))))))
      in case parent of None \<Rightarrow> b | Some pid \<Rightarrow> with_parent_run_id pid b)"

definition run_context_of :: "engine_lib \<Rightarrow> 's executor_state \<Rightarrow> string \<Rightarrow> graph_def \<Rightarrow> json \<Rightarrow> run_context" where
  "run_context_of lib ex run_id graph inputs =
     \<lparr>rc_run_id = run_id, rc_graph = graph, rc_inputs = inputs, rc_registry = xs_registry ex,
      rc_max_traversals = xc_max_traversals (xs_config ex), rc_dbg = el_dbg lib,
      rc_parse_chunk = el_parse_chunk lib, rc_now = el_now lib\<rparr>"

definition executor_execute ::
  "'b hash_lib \<Rightarrow> engine_lib \<Rightarrow> execution_id \<Rightarrow> datetime \<Rightarrow> bool \<Rightarrow> graph_def \<Rightarrow> string \<Rightarrow> json
   \<Rightarrow> trigger_source \<Rightarrow> string option \<Rightarrow> 's executor_state
   \<Rightarrow> (executor_error, string) result \<times> 's executor_state" where
  "executor_execute hl lib eid now gone graph version_id inputs source parent ex =
     (case unknown_node (xs_registry ex) graph of
        Some ty \<Rightarrow> (Inl (NodeNotFound ty), ex)
      | None \<Rightarrow>
          (case session_start (builder_config (run_builder hl ex graph version_id inputs source parent)) eid now gone of
             Inl e \<Rightarrow> (Inl (ExecutionError (''session start failed: '' @ session_error_to_string e)), ex)
           | Inr se \<Rightarrow>
               let run_id = exec_run_id (se_id se)
               in (Inr run_id,
                   ex\<lparr>xs_senders := hm_insert run_id () (xs_senders ex),
                      xs_active := (run_id, \<lparr>ar_ctx = run_context_of lib ex run_id graph inputs,
                        ar_session = se\<rparr>) # xs_active ex\<rparr>)))"

text \<open>The end of the spawned task, after the loop has ended in \<open>st\<close> and the session has recorded \<open>ops\<close>.\<close>

definition complete_run ::
  "bool \<Rightarrow> datetime \<Rightarrow> datetime \<Rightarrow> session_op list \<Rightarrow> bool \<Rightarrow> run_state \<Rightarrow> string \<Rightarrow> active_run
   \<Rightarrow> 's executor_state \<Rightarrow> session \<times> 's executor_state" where
  "complete_run gone ended now ops cancelled st run_id ar ex =
     (let status = final_status (ar_ctx ar) cancelled st;
          se = snd (session_finish gone ended now status (run_summary st) (session_run ops (ar_session ar)));
          event = \<lparr>rce_run_id = rc_run_id (ar_ctx ar), rce_flow_id = graph_id (rc_graph (ar_ctx ar)),
                   rce_status = status, rce_outputs = empty_object\<rparr>
      in (se, ex\<lparr>xs_completed := xs_completed ex @ [event],
                 xs_senders := bt_remove run_id (xs_senders ex),
                 xs_active := bt_remove run_id (xs_active ex)\<rparr>))"

definition subscribe_run :: "string \<Rightarrow> 's executor_state \<Rightarrow> bool" where
  "subscribe_run run_id ex \<longleftrightarrow> bt_get run_id (xs_senders ex) \<noteq> None"

definition executor_new ::
  "executor_config \<Rightarrow> (string \<rightharpoonup> node_meta) \<Rightarrow> 's \<Rightarrow> redactor_ops \<Rightarrow> pipeline_config \<Rightarrow> 's executor_state" where
  "executor_new config registry store rdr pc =
     \<lparr>xs_config = config, xs_registry = registry, xs_run_store = store, xs_redactor = rdr,
      xs_pipeline_config = pc, xs_senders = [], xs_active = [], xs_completed = []\<rparr>"

section \<open>Interleaved runs\<close>

text \<open>A run starts under an id that no earlier run has had, as random identifiers do, and completes when
  its loop has ended.\<close>

inductive executor_reach ::
  "'b hash_lib \<Rightarrow> engine_lib \<Rightarrow> 's executor_state \<Rightarrow> string set \<Rightarrow> 's executor_state \<Rightarrow> bool" for hl lib ex0 where
  init: "executor_reach hl lib ex0 {} ex0"
| execute: "executor_reach hl lib ex0 used ex \<Longrightarrow> exec_run_id eid \<notin> used \<Longrightarrow>
     executor_execute hl lib eid now gone graph version_id inputs source parent ex = (res, ex') \<Longrightarrow>
     executor_reach hl lib ex0 (insert (exec_run_id eid) used) ex'"
| complete: "executor_reach hl lib ex0 used ex \<Longrightarrow> bt_get run_id (xs_active ex) = Some ar \<Longrightarrow>
     run_ends (ar_ctx ar) cancelled st \<Longrightarrow>
     executor_reach hl lib ex0 used (snd (complete_run gone ended now ops cancelled st run_id ar ex))"

section \<open>Properties\<close>

lemma find_None_iff_list: "List.find P xs = None \<longleftrightarrow> (\<forall>x \<in> set xs. \<not> P x)"
  by (induction xs) auto

lemma session_start_id: "session_start config eid now gone = Inr se \<Longrightarrow> se_id se = eid"
  using session_start_numbered by blast

text \<open>The senders are those of the active runs, whose ids have been used and whose contexts carry
  them.\<close>

definition senders_inv :: "string set \<Rightarrow> 's executor_state \<Rightarrow> bool" where
  "senders_inv used ex \<longleftrightarrow>
     (\<forall>e \<in> set (xs_active ex). fst e \<in> used)
     \<and> (\<forall>r. bt_get r (xs_senders ex) = None \<longleftrightarrow> bt_get r (xs_active ex) = None)
     \<and> (\<forall>r ar. bt_get r (xs_active ex) = Some ar \<longrightarrow> rc_run_id (ar_ctx ar) = r)"

lemma senders_inv_reach:
  "executor_reach hl lib (executor_new config registry store rdr pc) used ex \<Longrightarrow> senders_inv used ex"
proof (induction rule: executor_reach.induct)
  case init
  show ?case by (simp add: senders_inv_def executor_new_def)
next
  case (execute used ex eid now gone graph version_id inputs source parent res ex')
  then show ?case
    by (auto simp: executor_execute_def senders_inv_def run_context_of_def Let_def dest!: session_start_id
        split: option.splits sum.splits if_splits)
next
  case (complete used ex run_id ar cancelled st gone ended now ops)
  then show ?case
    by (auto simp: complete_run_def senders_inv_def Let_def) (auto simp: bt_remove_def)
qed

lemma execute_cases:
  assumes "executor_execute hl lib eid now gone graph version_id inputs source parent ex = (Inr run_id, ex')"
  obtains se where "unknown_node (xs_registry ex) graph = None"
    "session_start (builder_config (run_builder hl ex graph version_id inputs source parent)) eid now gone = Inr se"
    "run_id = exec_run_id eid"
    "bt_get run_id (xs_active ex') = Some \<lparr>ar_ctx = run_context_of lib ex run_id graph inputs, ar_session = se\<rparr>"
  using assms
  by (auto simp: executor_execute_def Let_def dest: session_start_id split: option.splits sum.splits)

lemma unknown_node_registered:
  "unknown_node (xs_registry ex) graph = None \<Longrightarrow> registered (run_context_of lib ex run_id graph inputs)"
  by (auto simp: unknown_node_def registered_def run_context_of_def find_None_iff_list)

lemma run_builder_config:
  "builder_config (run_builder hl ex graph version_id inputs source parent) =
     \<lparr>ec_session_name = Some (graph_id graph), ec_run_store = Inl (xs_run_store ex),
      ec_redactor = xs_redactor ex, ec_metadata = [], ec_pipeline_config = xs_pipeline_config ex,
      ec_critical_capacity = 1000, ec_advisory_capacity = 1000, ec_version_id = Some version_id,
      ec_config_hash = Some (compute_config_hash hl graph), ec_triggered_by = Some source,
      ec_trigger_inputs = Some inputs, ec_parent_run_id = parent\<rparr>"
  by (cases parent)
    (simp_all add: run_builder_def builder_config_def builder_new_def Let_def with_trigger_inputs_def
      with_triggered_by_def with_config_hash_def with_version_id_def with_pipeline_config_def with_redactor_def
      with_run_store_def with_session_name_def with_parent_run_id_def)

text \<open>
  (C11) The record of an executed flow tells what happened: when \<open>execute\<close> accepts a graph and the run
  loop ends, whatever the session has recorded meanwhile, the run record rebuilt from its log has the
  flow, version, inputs, trigger, configuration hash and parent given to \<open>execute\<close>, the status of the run
  loop and the summary of its LLM calls; the completion broadcast to the triggers names the same run,
  flow and status; and that status is \<open>Completed\<close> exactly if the run was not cancelled, every node of
  the graph completed and none failed.
\<close>

theorem executed_run_record:
  assumes "executor_execute hl lib eid now gone graph version_id inputs source parent ex = (Inr run_id, ex1)"
    and "bt_get run_id (xs_active ex1) = Some ar" "run_ends (ar_ctx ar) cancelled st"
    and "length ops < 2 ^ 64 - 4" "list_all plain_op ops"
    and "complete_run False ended t ops cancelled st run_id ar ex2 = (se, ex3)"
  shows "\<exists>rr. reconstruct_run run_id (of_run run_id (session_log se)) = Some rr
    \<and> start_fields rr = (run_id, graph_id graph, version_id, inputs, source,
        Some (compute_config_hash hl graph), parent, Some now)
    \<and> rr_llm_summary rr = run_summary st
    \<and> last (xs_completed ex3) = \<lparr>rce_run_id = run_id, rce_flow_id = graph_id graph, rce_status = rr_status rr,
        rce_outputs = empty_object\<rparr>
    \<and> (rr_status rr = Completed \<longleftrightarrow>
        \<not> cancelled \<and> rs_completed st = instance_id ` set (nodes graph) \<and> rs_failed st = {})"
proof -
  let ?config = "builder_config (run_builder hl ex graph version_id inputs source parent)"
  obtain se0 where e: "unknown_node (xs_registry ex) graph = None" "session_start ?config eid now gone = Inr se0"
    "run_id = exec_run_id eid"
    "bt_get run_id (xs_active ex1) = Some \<lparr>ar_ctx = run_context_of lib ex run_id graph inputs, ar_session = se0\<rparr>"
    using execute_cases [OF assms(1)] .
  then have ar: "ar_ctx ar = run_context_of lib ex run_id graph inputs" "ar_session ar = se0"
    using assms(2) by auto
  let ?status = "final_status (ar_ctx ar) cancelled st"
  have ids: "all_node_ids (ar_ctx ar) = instance_id ` set (nodes graph)"
    "rc_run_id (ar_ctx ar) = run_id" "rc_graph (ar_ctx ar) = graph"
    by (simp_all add: ar all_node_ids_def run_context_of_def)
  have fin: "se = snd (session_finish False ended t ?status (run_summary st) (session_run ops se0))"
    "last (xs_completed ex3) = \<lparr>rce_run_id = run_id, rce_flow_id = graph_id graph, rce_status = ?status,
        rce_outputs = empty_object\<rparr>"
    using assms(6) ids by (auto simp: complete_run_def ar(2) Let_def)
  obtain rr where rr: "reconstruct_run run_id (of_run run_id (session_log se)) = Some rr" "rr_status rr = ?status"
    "rr_llm_summary rr = run_summary st"
    "start_fields rr = (run_id, graph_id graph, version_id, inputs, source,
        Some (compute_config_hash hl graph), parent, Some now)"
    using session_record [OF e(2) assms(4,5), of ended t ?status "run_summary st"]
    unfolding run_builder_config e(3) [symmetric] fin(1) [symmetric] by auto
  have "registered (ar_ctx ar)" using unknown_node_registered [OF e(1)] ar(1) by simp
  then have "?status = Completed \<longleftrightarrow>
      \<not> cancelled \<and> rs_completed st = instance_id ` set (nodes graph) \<and> rs_failed st = {}"
    using run_completed_iff [of "ar_ctx ar" st] assms(3) ids(1)
    by (cases cancelled) (auto simp: final_status_def)
  with rr fin(2) show ?thesis by auto
qed

text \<open>
  A graph is executed exactly if every node type is registered: otherwise the caller learns the
  first unknown one in the order of the graph, no session starts and the executor is unchanged.
\<close>

theorem execute_checks_node_types:
  "(case executor_execute hl lib eid now False graph version_id inputs source parent ex of (res, ex') \<Rightarrow>
     (\<exists>run_id. res = Inr run_id) = (\<forall>n \<in> set (nodes graph). xs_registry ex (node_type n) \<noteq> None)
     \<and> (case res of Inr run_id \<Rightarrow> run_id = exec_run_id eid \<and> subscribe_run run_id ex'
        | Inl e \<Rightarrow> ex' = ex \<and> e = NodeNotFound (hd (filter (\<lambda>ty. xs_registry ex ty = None)
            (map node_type (nodes graph))))))"
proof -
  have find: "List.find P xs = (if \<exists>x \<in> set xs. P x then Some (hd (filter P xs)) else None)" for P :: "node_instance \<Rightarrow> bool" and xs
    by (induction xs) auto
  have hd: "node_type (hd (filter P xs)) = hd (map node_type (filter P xs))" if "\<exists>x \<in> set xs. P x" for P xs
    using that by (induction xs) auto
  have map: "map node_type (filter (\<lambda>n. xs_registry ex (node_type n) = None) xs) =
      filter (\<lambda>ty. xs_registry ex ty = None) (map node_type xs)" for xs
    by (simp add: filter_map comp_def)
  show ?thesis
    by (auto simp: executor_execute_def unknown_node_def find hd map session_start_def handle_write_def
        session_next_def broadcast_def subscribe_run_def Let_def)
qed

text \<open>
  Live subscriptions: in every reachable state of the executor, with many runs starting and
  completing in any order, a run can be subscribed to exactly while it is active.
\<close>

theorem subscribable_iff_active:
  assumes "executor_reach hl lib (executor_new config registry store rdr pc) used ex"
  shows "subscribe_run run_id ex \<longleftrightarrow> run_id \<in> fst ` set (xs_active ex)"
  using senders_inv_reach [OF assms] bt_get_None_iff [of run_id "xs_active ex"]
  by (auto simp: subscribe_run_def senders_inv_def)

section \<open>Witnesses\<close>

definition demo_engine :: "unit executor_state" where
  "demo_engine = executor_new \<lparr>xc_max_traversals = rc_max_traversals demo_ctx\<rparr> (rc_registry demo_ctx) ()
     default_redactor pipeline_config_default"

definition demo_engine_lib :: engine_lib where
  "demo_engine_lib = \<lparr>el_dbg = rc_dbg demo_ctx, el_parse_chunk = rc_parse_chunk demo_ctx, el_now = rc_now demo_ctx\<rparr>"

definition demo_run_id :: execution_id where
  "demo_run_id = \<lparr>exec_run_id = rc_run_id demo_ctx, execution_hash = None\<rparr>"

lemma demo_execute:
  "\<exists>ex1 se0. executor_execute demo_lib demo_engine_lib demo_run_id 7 False (rc_graph demo_ctx) ''v'' (rc_inputs demo_ctx)
      (SrcManual ''u'') None demo_engine = (Inr (rc_run_id demo_ctx), ex1)
    \<and> bt_get (rc_run_id demo_ctx) (xs_active ex1) = Some \<lparr>ar_ctx = demo_ctx, ar_session = se0\<rparr>"
proof -
  have "unknown_node (xs_registry demo_engine) (rc_graph demo_ctx) = None"
    using demo_registered
    by (auto simp: unknown_node_def demo_engine_def executor_new_def find_None_iff_list registered_def)
  moreover have "run_context_of demo_engine_lib demo_engine (rc_run_id demo_ctx) (rc_graph demo_ctx) (rc_inputs demo_ctx) = demo_ctx"
    by (simp add: run_context_of_def demo_engine_def executor_new_def demo_engine_lib_def)
  ultimately show ?thesis
    by (simp add: executor_execute_def session_start_def handle_write_def session_next_def broadcast_def demo_run_id_def Let_def)
qed

theorem executed_run_record_witness:
  "\<exists>ex1 ar se ex3 rr. executor_execute demo_lib demo_engine_lib demo_run_id 7 False (rc_graph demo_ctx) ''v''
      (rc_inputs demo_ctx) (SrcManual ''u'') None demo_engine = (Inr (rc_run_id demo_ctx), ex1)
    \<and> complete_run False 8 9 [] False (demo_end JNull) (rc_run_id demo_ctx) ar ex1 = (se, ex3)
    \<and> reconstruct_run (rc_run_id demo_ctx) (of_run (rc_run_id demo_ctx) (session_log se)) = Some rr
    \<and> rr_version_id rr = ''v''"
proof -
  obtain ex1 se0 where e: "executor_execute demo_lib demo_engine_lib demo_run_id 7 False (rc_graph demo_ctx) ''v''
      (rc_inputs demo_ctx) (SrcManual ''u'') None demo_engine = (Inr (rc_run_id demo_ctx), ex1)"
    "bt_get (rc_run_id demo_ctx) (xs_active ex1) = Some \<lparr>ar_ctx = demo_ctx, ar_session = se0\<rparr>"
    using demo_execute by blast
  let ?ar = "\<lparr>ar_ctx = demo_ctx, ar_session = se0\<rparr>"
  obtain se ex3 where c: "complete_run False 8 9 [] False (demo_end JNull) (rc_run_id demo_ctx) ?ar ex1 = (se, ex3)"
    by force
  have "run_ends (ar_ctx ?ar) False (demo_end JNull)" using demo_ends by simp
  from executed_run_record [OF e this _ _ c] obtain rr
    where "reconstruct_run (rc_run_id demo_ctx) (of_run (rc_run_id demo_ctx) (session_log se)) = Some rr"
      "rr_version_id rr = ''v''"
    by (auto simp: start_fields_def)
  with e(1) c show ?thesis by blast
qed

theorem execute_checks_node_types_witness:
  "\<exists>ty. fst (executor_execute demo_lib demo_engine_lib demo_run_id 7 False (rc_graph demo_ctx) ''v'' JNull
      (SrcManual ''u'') None (demo_engine\<lparr>xs_registry := Map.empty\<rparr>)) = Inl (NodeNotFound ty)"
proof -
  have "nodes (rc_graph demo_ctx) \<noteq> []" by code_simp
  with execute_checks_node_types [where hl = demo_lib and lib = demo_engine_lib and eid = demo_run_id and now = 7
      and graph = "rc_graph demo_ctx" and version_id = "''v''" and inputs = JNull and source = "SrcManual ''u''"
      and parent = None and ex = "demo_engine\<lparr>xs_registry := Map.empty\<rparr>"]
  show ?thesis by (auto split: prod.splits sum.splits simp: neq_Nil_conv)
qed

theorem subscribable_iff_active_witness:
  "\<exists>used ex. executor_reach demo_lib demo_engine_lib demo_engine used ex \<and> subscribe_run (rc_run_id demo_ctx) ex"
proof -
  obtain ex1 se0 where e: "executor_execute demo_lib demo_engine_lib demo_run_id 7 False (rc_graph demo_ctx) ''v''
      (rc_inputs demo_ctx) (SrcManual ''u'') None demo_engine = (Inr (rc_run_id demo_ctx), ex1)"
    "bt_get (rc_run_id demo_ctx) (xs_active ex1) = Some \<lparr>ar_ctx = demo_ctx, ar_session = se0\<rparr>"
    using demo_execute by blast
  have r: "executor_reach demo_lib demo_engine_lib demo_engine {rc_run_id demo_ctx} ex1"
    using executor_reach.execute [OF executor_reach.init _ e(1)] by (simp add: demo_run_id_def)
  moreover have "rc_run_id demo_ctx \<in> fst ` set (xs_active ex1)"
    using e(2) bt_get_None_iff [of "rc_run_id demo_ctx" "xs_active ex1"] by force
  ultimately show ?thesis
    using subscribable_iff_active [OF r [unfolded demo_engine_def]] by blast
qed

end
