(* ===== verification/Triggers.thy ===== *)
theory Triggers
  imports Flow_Executor Rust_Text
begin

text \<open>
  \<open>triggers/\<close>: the cron, flow and HTTP triggers, the runner that starts them and the dispatcher that
  turns their events into runs.  A trigger task is a function of what it receives, in order: each
  element of the list is one turn of its \<open>select!\<close> loop.  The \<open>cron\<close> crate (its parser and the
  computation of the next occurrence) and the Unicode upper-case mapping are parameters.
\<close>

section \<open>The trait (\<open>traits.rs\<close>)\<close>

text \<open>What a task has sent on the event channel, and its result once it has returned.\<close>

type_synonym task_run = "trigger_event list \<times> (trigger_error, unit) result option"

definition send_then :: "trigger_event \<Rightarrow> task_run \<Rightarrow> task_run" where
  "send_then event rest = (event # fst rest, snd rest)"

record 'e trigger_ops =
  tg_trigger_type :: string
  tg_description :: string
  tg_config_schema :: json
  tg_validate_config :: "json \<Rightarrow> (string list, unit) result"
  tg_start :: "json \<Rightarrow> 'e \<Rightarrow> task_run"

definition validation :: "string list \<Rightarrow> (string list, unit) result" where
  "validation errors = (if errors = [] then Inr () else Inl errors)"

definition quoted :: "string \<Rightarrow> string" where
  "quoted s = CHR 0x27 # s @ [CHR 0x27]"

definition missing_key :: "string \<Rightarrow> string" where
  "missing_key k = ''missing '' @ quoted k"

section \<open>The flow trigger\<close>

fun run_status_from_str :: "string \<Rightarrow> run_status option" where
  "run_status_from_str s =
     (if s = ''pending'' then Some Pending else if s = ''running'' then Some Running
      else if s = ''completed'' then Some Completed else if s = ''failed'' then Some Failed
      else if s = ''cancelled'' then Some Cancelled else if s = ''interrupted'' then Some Interrupted
      else None)"

definition parse_flow_config :: "json \<Rightarrow> (trigger_error, string \<times> string \<times> run_status list) result" where
  "parse_flow_config config =
     and_then (ok_or (get_str config ''source_flow_id'')
                 (TriggerConfig (missing_key ''source_flow_id'' @ '' in config''))) (\<lambda>source_flow_id.
     and_then (ok_or (get_str config ''flow_id'') (TriggerConfig (missing_key ''flow_id'' @ '' in config''))) (\<lambda>flow_id.
       let status_filter = (case Option.bind (jget config ''status_filter'') as_array of
                              Some arr \<Rightarrow> List.map_filter run_status_from_str (List.map_filter as_str arr)
                            | None \<Rightarrow> [Completed])
       in Inr (source_flow_id, flow_id, status_filter)))"

definition string_schema :: "string \<Rightarrow> json" where
  "string_schema desc = json_object [(''type'', JString ''string''), (''description'', JString desc)]"

definition flow_config_schema :: json where
  "flow_config_schema = json_object
     [(''type'', JString ''object''),
      (''properties'', json_object
        [(''source_flow_id'', string_schema ''Flow ID to watch for completions''),
         (''status_filter'', json_object
           [(''type'', JString ''array''),
            (''items'', json_object [(''type'', JString ''string'')]),
            (''description'', JString ''Run statuses that trigger (default: [\"completed\"])'')]),
         (''flow_id'', string_schema ''Flow to trigger on match'')]),
      (''required'', JArray [JString ''source_flow_id'', JString ''flow_id''])]"

definition flow_validate_config :: "json \<Rightarrow> (string list, unit) result" where
  "flow_validate_config config =
     validation ((if get_str config ''source_flow_id'' = None then [missing_key ''source_flow_id''] else [])
       @ (if get_str config ''flow_id'' = None then [missing_key ''flow_id''] else []))"

text \<open>A turn of the loop: a completion with the outcome of the \<open>send\<close> that may follow, a lag, the end of
  the broadcast, or the shutdown signal.\<close>

datatype flow_turn = GotCompletion run_completed bool | GotLagged u64 | GotClosed | GotShutdown

definition flow_event :: "string \<Rightarrow> run_completed \<Rightarrow> trigger_event" where
  "flow_event flow_id completed =
     \<lparr>te_flow_id = flow_id, te_version_id = None, te_inputs = rce_outputs completed,
      te_source = SrcFlow (rce_run_id completed) (rce_flow_id completed), idempotency_key = None\<rparr>"

fun flow_trigger_loop :: "string \<Rightarrow> string \<Rightarrow> run_status list \<Rightarrow> flow_turn list \<Rightarrow> task_run" where
  "flow_trigger_loop source_flow_id flow_id status_filter [] = ([], None)"
| "flow_trigger_loop source_flow_id flow_id status_filter (GotLagged n # turns) =
     flow_trigger_loop source_flow_id flow_id status_filter turns"
| "flow_trigger_loop source_flow_id flow_id status_filter (GotClosed # turns) = ([], Some (Inr ()))"
| "flow_trigger_loop source_flow_id flow_id status_filter (GotShutdown # turns) = ([], Some (Inr ()))"
| "flow_trigger_loop source_flow_id flow_id status_filter (GotCompletion completed sent # turns) =
     (if rce_flow_id completed \<noteq> source_flow_id then flow_trigger_loop source_flow_id flow_id status_filter turns
      else if rce_status completed \<notin> set status_filter
      then flow_trigger_loop source_flow_id flow_id status_filter turns
      else if sent
      then send_then (flow_event flow_id completed) (flow_trigger_loop source_flow_id flow_id status_filter turns)
      else ([], Some (Inr ())))"

definition flow_start :: "json \<Rightarrow> flow_turn list \<Rightarrow> task_run" where
  "flow_start config turns =
     (case parse_flow_config config of
        Inl e \<Rightarrow> ([], Some (Inl e))
      | Inr (source_flow_id, flow_id, status_filter) \<Rightarrow>
          flow_trigger_loop source_flow_id flow_id status_filter turns)"

definition flow_trigger :: "flow_turn list trigger_ops" where
  "flow_trigger =
     \<lparr>tg_trigger_type = ''flow'', tg_description = ''Flow completion trigger'',
      tg_config_schema = flow_config_schema, tg_validate_config = flow_validate_config,
      tg_start = flow_start\<rparr>"

section \<open>The cron trigger\<close>

definition normalize_cron_expression :: "string \<Rightarrow> string" where
  "normalize_cron_expression expr =
     (let n = length (split_whitespace expr)
      in if n = 5 then ''0 '' @ expr @ '' *'' else if n = 6 then ''0 '' @ expr else expr)"

text \<open>The \<open>cron\<close> crate: its parser, and the first occurrence after a point of time.\<close>

record 'sched cron_lib =
  cron_parse :: "string \<Rightarrow> (string, 'sched) result"
  cron_upcoming :: "'sched \<Rightarrow> datetime \<Rightarrow> datetime option"

definition parse_schedule :: "'sched cron_lib \<Rightarrow> json \<Rightarrow> (trigger_error, 'sched \<times> string) result" where
  "parse_schedule lib config =
     and_then (ok_or (get_str config ''schedule'') (TriggerConfig (missing_key ''schedule'' @ '' in config''))) (\<lambda>schedule_str.
     and_then (ok_or (get_str config ''flow_id'') (TriggerConfig (missing_key ''flow_id'' @ '' in config''))) (\<lambda>flow_id.
     and_then (map_err (\<lambda>e. TriggerConfig (''invalid cron expression '' @ quoted schedule_str @ '': '' @ e))
                 (cron_parse lib (normalize_cron_expression schedule_str))) (\<lambda>schedule.
       Inr (schedule, flow_id))))"

definition cron_config_schema :: json where
  "cron_config_schema = json_object
     [(''type'', JString ''object''),
      (''properties'', json_object
        [(''schedule'', string_schema ''Cron expression (5 or 7 field)''),
         (''flow_id'', string_schema ''Flow to trigger'')]),
      (''required'', JArray [JString ''schedule'', JString ''flow_id''])]"

definition cron_validate_config :: "'sched cron_lib \<Rightarrow> json \<Rightarrow> (string list, unit) result" where
  "cron_validate_config lib config =
     validation ((case get_str config ''schedule'' of
          None \<Rightarrow> [missing_key ''schedule'']
        | Some s \<Rightarrow>
            (case cron_parse lib (normalize_cron_expression s) of
               Inl _ \<Rightarrow> [''invalid cron expression: '' @ s] | Inr _ \<Rightarrow> []))
       @ (if get_str config ''flow_id'' = None then [missing_key ''flow_id''] else []))"

text \<open>\<open>DateTime::timestamp\<close>, whole seconds since the epoch, and its \<open>Display\<close>.\<close>

definition timestamp_secs :: "datetime \<Rightarrow> int" where
  "timestamp_secs t = t div 1000000000"

definition show_int :: "int \<Rightarrow> string" where
  "show_int i = (if i < 0 then ''-'' @ show_nat (nat (- i)) else show_nat (nat i))"

definition cron_key :: "string \<Rightarrow> datetime \<Rightarrow> string" where
  "cron_key flow_id tick = ''cron:'' @ flow_id @ '':'' @ show_int (timestamp_secs tick)"

definition cron_event :: "json \<Rightarrow> string \<Rightarrow> datetime \<Rightarrow> trigger_event" where
  "cron_event config flow_id tick =
     \<lparr>te_flow_id = flow_id, te_version_id = None, te_inputs = empty_object,
      te_source = SrcCron (unwrap_or (get_str config ''schedule'') []) tick,
      idempotency_key = Some (cron_key flow_id tick)\<rparr>"

text \<open>A turn of the loop reads the clock twice (\<open>now\<close>, and inside \<open>upcoming\<close>), sleeps and either fires at
  a third reading, with the outcome of the \<open>send\<close>, or is shut down.\<close>

datatype cron_wake = Fired datetime bool | WokenByShutdown

record cron_turn =
  ct_now :: datetime
  ct_from :: datetime
  ct_wake :: cron_wake

definition cron_delay :: "datetime \<Rightarrow> datetime \<Rightarrow> datetime" where
  "cron_delay now next = (if now \<le> next then next - now else 100000000)"

fun cron_loop :: "'sched cron_lib \<Rightarrow> json \<Rightarrow> 'sched \<Rightarrow> string \<Rightarrow> cron_turn list \<Rightarrow> task_run" where
  "cron_loop lib config schedule flow_id [] = ([], None)"
| "cron_loop lib config schedule flow_id (t # turns) =
     (case cron_upcoming lib schedule (ct_from t) of
        None \<Rightarrow> ([], Some (Inl (TriggerRuntime ''cron schedule has no upcoming occurrences'')))
      | Some next \<Rightarrow>
          (case ct_wake t of
             WokenByShutdown \<Rightarrow> ([], Some (Inr ()))
           | Fired tick sent \<Rightarrow>
               if sent then send_then (cron_event config flow_id tick) (cron_loop lib config schedule flow_id turns)
               else ([], Some (Inr ()))))"

definition cron_start :: "'sched cron_lib \<Rightarrow> json \<Rightarrow> cron_turn list \<Rightarrow> task_run" where
  "cron_start lib config turns =
     (case parse_schedule lib config of
        Inl e \<Rightarrow> ([], Some (Inl e))
      | Inr (schedule, flow_id) \<Rightarrow> cron_loop lib config schedule flow_id turns)"

definition cron_trigger :: "'sched cron_lib \<Rightarrow> cron_turn list trigger_ops" where
  "cron_trigger lib =
     \<lparr>tg_trigger_type = ''cron'', tg_description = ''Cron schedule trigger'',
      tg_config_schema = cron_config_schema, tg_validate_config = cron_validate_config lib,
      tg_start = cron_start lib\<rparr>"

section \<open>The HTTP trigger\<close>

record http_route =
  hr_path :: string
  hr_method :: string
  hr_flow_id :: string

definition http_routes :: "(string \<Rightarrow> string) \<Rightarrow> json \<Rightarrow> (trigger_error, http_route list) result" where
  "http_routes up config =
     and_then (ok_or (get_str config ''path'') (TriggerConfig (missing_key ''path'' @ '' in config''))) (\<lambda>path.
     if take 1 path \<noteq> ''/'' then Inl (TriggerConfig (''path must start with '/': '' @ path))
     else let method = unwrap_or (get_str config ''method'') ''POST''
          in and_then (ok_or (get_str config ''flow_id'') (TriggerConfig (missing_key ''flow_id'' @ '' in config'')))
               (\<lambda>flow_id. Inr [\<lparr>hr_path = path, hr_method = up method, hr_flow_id = flow_id\<rparr>]))"

definition http_config_schema :: json where
  "http_config_schema = json_object
     [(''type'', JString ''object''),
      (''properties'', json_object
        [(''path'', string_schema ''URL path for the webhook''),
         (''method'', json_object
           [(''type'', JString ''string''), (''default'', JString ''POST''), (''description'', JString ''HTTP method'')]),
         (''flow_id'', string_schema ''Flow to trigger'')]),
      (''required'', JArray [JString ''path'', JString ''flow_id''])]"

definition http_validate_config :: "json \<Rightarrow> (string list, unit) result" where
  "http_validate_config config =
     validation ((case get_str config ''path'' of
          None \<Rightarrow> [missing_key ''path'']
        | Some p \<Rightarrow> if take 1 p \<noteq> ''/'' then [''path must start with '/': '' @ p] else [])
       @ (if get_str config ''flow_id'' = None then [missing_key ''flow_id''] else []))"

text \<open>\<open>start\<close> waits for the shutdown signal, which has or has not come.\<close>

definition http_start :: "json \<Rightarrow> bool \<Rightarrow> task_run" where
  "http_start config shut = ([], if shut then Some (Inr ()) else None)"

definition http_trigger :: "bool trigger_ops" where
  "http_trigger =
     \<lparr>tg_trigger_type = ''http'', tg_description = ''HTTP webhook trigger'',
      tg_config_schema = http_config_schema, tg_validate_config = http_validate_config,
      tg_start = http_start\<rparr>"

section \<open>The runner (\<open>triggers/runner.rs\<close>)\<close>

record 'e trigger_instance =
  ti_trigger :: "'e trigger_ops"
  ti_flow_id :: string
  ti_config :: json

text \<open>One task per instance; an instance whose \<open>start\<close> fails is logged and sends nothing more.  After the
  shutdown signal the tasks are awaited: \<open>runner_shutdown\<close> ends when all of them have returned.\<close>

definition runner_start :: "('e trigger_instance \<times> 'e) list \<Rightarrow> task_run list" where
  "runner_start instances =
     map (\<lambda>(inst, env). tg_start (ti_trigger inst) (ti_config inst) env) instances"

definition runner_shutdown :: "task_run list \<Rightarrow> bool" where
  "runner_shutdown handles \<longleftrightarrow> list_all (\<lambda>task. snd task \<noteq> None) handles"

section \<open>The dispatcher (\<open>triggers/dispatcher.rs\<close>)\<close>

record dispatched_run =
  dr_flow_id :: string
  dr_version_id :: string
  dr_graph :: graph_def
  dr_inputs :: json
  dr_source :: trigger_source

definition resolve_event ::
  "('io, 's) flow_store_ops \<Rightarrow> 'io \<Rightarrow> 's \<Rightarrow> trigger_event \<Rightarrow> (flow_store_error, flow_version option) result" where
  "resolve_event ops io s event =
     (case te_version_id event of
        Some vid \<Rightarrow> versioning_get_at_version ops io vid s
      | None \<Rightarrow> versioning_get_current ops io (te_flow_id event) s)"

definition dispatch_of :: "trigger_event \<Rightarrow> flow_version \<Rightarrow> dispatched_run" where
  "dispatch_of event version =
     \<lparr>dr_flow_id = te_flow_id event, dr_version_id = fv_version_id version, dr_graph = fv_graph version,
      dr_inputs = te_inputs event, dr_source = te_source event\<rparr>"

text \<open>\<open>seen_keys.insert(key)\<close>: whether the event is to be skipped, and the keys afterwards.\<close>

definition check_key :: "trigger_event \<Rightarrow> string set \<Rightarrow> bool \<times> string set" where
  "check_key event seen =
     (case idempotency_key event of None \<Rightarrow> (False, seen) | Some key \<Rightarrow> (key \<in> seen, insert key seen))"

text \<open>Each event arrives at its own time: it comes with the flow store as it is then and the outcome of
  the system calls.\<close>

fun dispatcher_run ::
  "('io, 's) flow_store_ops \<Rightarrow> string set \<Rightarrow> (trigger_event \<times> 'io \<times> 's) list \<Rightarrow> dispatched_run list" where
  "dispatcher_run ops seen [] = []"
| "dispatcher_run ops seen ((event, io, s) # rest) =
     (case check_key event seen of (duplicate, seen') \<Rightarrow>
        if duplicate then dispatcher_run ops seen' rest
        else (case resolve_event ops io s event of
                Inr (Some version) \<Rightarrow> dispatch_of event version # dispatcher_run ops seen' rest
              | Inr None \<Rightarrow> dispatcher_run ops seen' rest
              | Inl _ \<Rightarrow> dispatcher_run ops seen' rest))"

section \<open>Reference definitions\<close>

text \<open>The elements whose key, if they have one, occurs neither in \<open>seen\<close> nor earlier in the list.\<close>

definition fresh_at :: "('a \<Rightarrow> 'k option) \<Rightarrow> 'k set \<Rightarrow> 'a list \<Rightarrow> nat \<Rightarrow> bool" where
  "fresh_at key seen xs i \<longleftrightarrow>
     (case key (xs ! i) of None \<Rightarrow> True | Some k \<Rightarrow> k \<notin> seen \<and> Some k \<notin> key ` set (take i xs))"

definition first_occurrences :: "('a \<Rightarrow> 'k option) \<Rightarrow> 'k set \<Rightarrow> 'a list \<Rightarrow> 'a list" where
  "first_occurrences key seen xs = map (\<lambda>i. xs ! i) (List.filter (fresh_at key seen xs) [0..<length xs])"

lemma first_occurrences_Nil [simp]: "first_occurrences key seen [] = []"
  by (simp add: first_occurrences_def)

lemma fresh_at_Suc:
  "fresh_at key seen (x # xs) (Suc i) = fresh_at key (seen \<union> (case key x of None \<Rightarrow> {} | Some k \<Rightarrow> {k})) xs i"
  by (auto simp: fresh_at_def split: option.splits)

lemma first_occurrences_Cons:
  "first_occurrences key seen (x # xs) =
     (case key x of None \<Rightarrow> x # first_occurrences key seen xs
      | Some k \<Rightarrow> (if k \<in> seen then [] else [x]) @ first_occurrences key (insert k seen) xs)"
proof -
  have split: "[0..<length (x # xs)] = 0 # map Suc [0..<length xs]"
    by (simp add: map_Suc_upt upt_conv_Cons del: upt_Suc)
  have "List.filter (fresh_at key seen (x # xs)) (map Suc [0..<length xs]) =
      map Suc (List.filter (fresh_at key (seen \<union> (case key x of None \<Rightarrow> {} | Some k \<Rightarrow> {k})) xs) [0..<length xs])"
    by (simp add: filter_map comp_def fresh_at_Suc)
  moreover have "fresh_at key seen (x # xs) 0 = (case key x of None \<Rightarrow> True | Some k \<Rightarrow> k \<notin> seen)"
    by (simp add: fresh_at_def split: option.split)
  ultimately show ?thesis
    unfolding first_occurrences_def split
    by (simp del: length_Cons upt_Suc add: comp_def split: option.split)
qed

lemma first_occurrences_subset: "set (first_occurrences key seen xs) \<subseteq> set xs"
  by (auto simp: first_occurrences_def)

lemma first_occurrences_keys:
  "distinct (List.map_filter key (first_occurrences key seen xs))
   \<and> set (List.map_filter key (first_occurrences key seen xs)) \<inter> seen = {}"
proof (induction xs arbitrary: seen)
  case (Cons x xs)
  then show ?case
    using Cons.IH [of "insert (the (key x)) seen"]
    by (auto simp: first_occurrences_Cons map_filter_simps split: option.split)
qed (simp add: map_filter_simps)

definition ok_version :: "(flow_store_error, flow_version option) result \<Rightarrow> flow_version option" where
  "ok_version r = (case r of Inr v \<Rightarrow> v | Inl _ \<Rightarrow> None)"

definition dispatch_arrival ::
  "('io, 's) flow_store_ops \<Rightarrow> trigger_event \<times> 'io \<times> 's \<Rightarrow> dispatched_run option" where
  "dispatch_arrival ops a =
     (case a of (event, io, s) \<Rightarrow> map_option (dispatch_of event) (ok_version (resolve_event ops io s event)))"

definition arrival_key :: "trigger_event \<times> 'io \<times> 's \<Rightarrow> string option" where
  "arrival_key a = idempotency_key (fst a)"

lemma dispatcher_run_eq:
  "dispatcher_run ops seen arrivals =
     List.map_filter (dispatch_arrival ops) (first_occurrences arrival_key seen arrivals)"
proof (induction arrivals arbitrary: seen)
  case (Cons a rest)
  obtain event io s where a: "a = (event, io, s)" by (metis prod_cases3)
  have key: "arrival_key (event, io, s) = idempotency_key event" by (simp add: arrival_key_def)
  show ?case
    unfolding a first_occurrences_Cons key
    by (auto simp: Cons.IH check_key_def dispatch_arrival_def ok_version_def map_filter_simps
        split: option.splits sum.splits)
qed (simp add: map_filter_simps)

section \<open>Decimal rendering is injective\<close>

lemma of_digit_char [simp]: "d < 10 \<Longrightarrow> of_char (digit_char d) = 48 + d"
  by (simp add: digit_char_def)

lemma show_nat_digits: "c \<in> set (show_nat n) \<Longrightarrow> \<exists>d < 10. c = digit_char d"
proof (induction n rule: show_nat.induct)
  case (1 n)
  then show ?case
    by (subst (asm) (2) show_nat.simps) (auto split: if_splits intro: exI [of _ "n mod 10"])
qed

lemma digits_val_show: "digits_val (show_nat n) = n"
proof (induction n rule: show_nat.induct)
  case (1 n)
  then show ?case
    by (subst show_nat.simps) (simp add: digits_val_def digit_val_def)
qed

lemma show_nat_inj: "show_nat n = show_nat m \<longleftrightarrow> n = m"
  using digits_val_show by metis

lemma show_int_chars: "c \<in> set (show_int i) \<Longrightarrow> c \<noteq> CHR '':''"
proof
  assume "c \<in> set (show_int i)" and c: "c = CHR '':''"
  then obtain d where "d < 10" "CHR '':'' = digit_char d"
    by (auto simp: show_int_def split: if_splits dest!: show_nat_digits)
  then have "of_char (CHR '':'') = 48 + d" using of_digit_char [of d] by metis
  with \<open>d < 10\<close> show False by simp
qed

lemma show_int_inj: "show_int i = show_int j \<longleftrightarrow> i = j"
proof -
  have minus: "show_nat m \<noteq> CHR ''-'' # s" for m s
  proof
    assume "show_nat m = CHR ''-'' # s"
    then obtain d where "d < 10" "CHR ''-'' = digit_char d"
      using show_nat_digits [of "CHR ''-''" m] by auto
    then have "of_char (CHR ''-'') = 48 + d" using of_digit_char [of d] by metis
    then show False by simp
  qed
  have minus': "CHR ''-'' # s \<noteq> show_nat m" for m s using minus [of m s] by auto
  show ?thesis by (auto simp: show_int_def show_nat_inj minus minus')
qed

text \<open>The rendered second has no colon, so the key determines the flow id and the second.\<close>

lemma cron_key_inj: "cron_key f t = cron_key f' t' \<longleftrightarrow> f = f' \<and> timestamp_secs t = timestamp_secs t'"
proof -
  have colon: "f @ CHR '':'' # a = f' @ CHR '':'' # b \<longleftrightarrow> f = f' \<and> a = b"
    if "CHR '':'' \<notin> set a" "CHR '':'' \<notin> set b" for f f' a b :: string
    using that by (auto simp: append_eq_append_conv2 Cons_eq_append_conv append_eq_Cons_conv)
  have "CHR '':'' \<notin> set (show_int i)" for i using show_int_chars by blast
  then show ?thesis by (simp add: cron_key_def colon show_int_inj)
qed

section \<open>Ticks of a schedule\<close>

text \<open>What the \<open>cron\<close> crate documents of \<open>upcoming\<close>: occurrences are whole seconds and lie after the point
  of time asked for.\<close>

definition cron_lib_ok :: "'sched cron_lib \<Rightarrow> bool" where
  "cron_lib_ok lib \<longleftrightarrow>
     (\<forall>schedule t next. cron_upcoming lib schedule t = Some next \<longrightarrow> t < next \<and> next mod 1000000000 = 0)"

text \<open>The clock does not run backwards, and a sleep does not end before its delay has passed.\<close>

fun cron_timed :: "'sched cron_lib \<Rightarrow> 'sched \<Rightarrow> datetime \<Rightarrow> cron_turn list \<Rightarrow> bool" where
  "cron_timed lib schedule prev [] \<longleftrightarrow> True"
| "cron_timed lib schedule prev (t # turns) \<longleftrightarrow>
     prev \<le> ct_now t \<and> ct_now t \<le> ct_from t \<and>
     (case (cron_upcoming lib schedule (ct_from t), ct_wake t) of
        (Some next, Fired tick _) \<Rightarrow>
          ct_now t + cron_delay (ct_now t) next \<le> tick \<and> cron_timed lib schedule tick turns
      | _ \<Rightarrow> True)"

lemma whole_second_between:
  assumes "prev < next_time" "next_time mod 1000000000 = 0" "next_time \<le> tick"
  shows "timestamp_secs prev < timestamp_secs tick"
proof -
  have "prev div 1000000000 < next_time div 1000000000"
    using assms(1,2) by (smt (verit) div_mult_mod_eq pos_mod_sign zdiv_mono1)
  also have "\<dots> \<le> tick div 1000000000" using assms(3) by (simp add: zdiv_mono1)
  finally show ?thesis by (simp add: timestamp_secs_def)
qed

lemma cron_loop_seconds:
  assumes "cron_lib_ok lib" "cron_timed lib schedule prev turns"
  shows "\<exists>ticks. fst (cron_loop lib config schedule flow_id turns) = map (cron_event config flow_id) ticks
    \<and> sorted_wrt (<) (timestamp_secs prev # map timestamp_secs ticks)"
  using assms(2)
proof (induction turns arbitrary: prev)
  case (Cons t turns)
  show ?case
  proof (cases "\<exists>next tick. cron_upcoming lib schedule (ct_from t) = Some next \<and> ct_wake t = Fired tick True")
    case False
    then show ?thesis by (auto intro!: exI [of _ "[]"] split: option.split cron_wake.split)
  next
    case True
    then obtain next_time tick where n: "cron_upcoming lib schedule (ct_from t) = Some next_time" "ct_wake t = Fired tick True"
      by blast
    with Cons.prems have c: "prev \<le> ct_now t" "ct_now t \<le> ct_from t"
        "ct_now t + cron_delay (ct_now t) next_time \<le> tick" "cron_timed lib schedule tick turns"
      by auto
    have l: "ct_from t < next_time" "next_time mod 1000000000 = 0"
      using assms(1) n(1) by (auto simp: cron_lib_ok_def)
    with c have "prev < next_time" "next_time \<le> tick" by (auto simp: cron_delay_def)
    with l have "timestamp_secs prev < timestamp_secs tick" by (intro whole_second_between)
    moreover obtain ticks where "fst (cron_loop lib config schedule flow_id turns) = map (cron_event config flow_id) ticks"
      "sorted_wrt (<) (timestamp_secs tick # map timestamp_secs ticks)"
      using Cons.IH [OF c(4)] by blast
    ultimately show ?thesis
      using n by (fastforce simp: send_then_def intro!: exI [of _ "tick # ticks"])
  qed
qed simp

lemma first_occurrences_distinct:
  assumes "distinct (map key xs)" "\<And>x k. x \<in> set xs \<Longrightarrow> key x = Some k \<Longrightarrow> k \<notin> seen"
  shows "first_occurrences key seen xs = xs"
  using assms
proof (induction xs arbitrary: seen)
  case (Cons x xs)
  show ?case
  proof (cases "key x")
    case None
    have "first_occurrences key seen xs = xs"
      by (rule Cons.IH) (use Cons.prems in auto)
    with None show ?thesis by (simp add: first_occurrences_Cons)
  next
    case (Some k)
    have "first_occurrences key (insert k seen) xs = xs"
      by (rule Cons.IH) (use Cons.prems Some in \<open>auto simp: image_iff\<close>)
    with Some Cons.prems(2) [of x k] show ?thesis by (simp add: first_occurrences_Cons)
  qed
qed simp

text \<open>
  No scheduled execution is lost to deduplication: with a clock that does not run backwards and sleeps
  that last at least as long as asked, the events of a cron trigger carry strictly increasing
  seconds, so that their idempotency keys differ and the dispatcher keeps every one of them; and in
  general two cron events have the same key exactly if they are for the same flow and the same second.
\<close>

theorem cron_ticks_not_deduplicated:
  assumes "cron_lib_ok lib"
    and "\<And>schedule flow_id. parse_schedule lib config = Inr (schedule, flow_id) \<Longrightarrow>
      cron_timed lib schedule start_time turns"
  shows "first_occurrences idempotency_key {} (fst (cron_start lib config turns)) = fst (cron_start lib config turns)
    \<and> (idempotency_key (cron_event config f t) = idempotency_key (cron_event config' f' t') \<longleftrightarrow>
        f = f' \<and> timestamp_secs t = timestamp_secs t')"
proof -
  have "distinct (map idempotency_key (fst (cron_start lib config turns)))"
  proof (cases "parse_schedule lib config")
    case (Inr sf)
    obtain schedule flow_id where sf: "sf = (schedule, flow_id)" by force
    obtain ticks where ticks: "fst (cron_loop lib config schedule flow_id turns) = map (cron_event config flow_id) ticks"
      "sorted_wrt (<) (map timestamp_secs ticks)"
      using cron_loop_seconds [OF assms(1), of schedule start_time turns config flow_id] assms(2) Inr sf by auto
    from ticks(2) have "distinct (map (\<lambda>t. Some (cron_key flow_id t)) ticks)"
      by (induction ticks) (auto simp: cron_key_inj)
    with ticks(1) Inr sf show ?thesis
      by (simp add: cron_start_def comp_def cron_event_def)
  qed (simp add: cron_start_def)
  then have "first_occurrences idempotency_key {} (fst (cron_start lib config turns)) = fst (cron_start lib config turns)"
    by (rule first_occurrences_distinct) simp
  then show ?thesis by (simp add: cron_event_def cron_key_inj)
qed

text \<open>The key is that of the wake-up, not of the scheduled time: when a sleep ends a moment early by the
  wall clock, the same occurrence fires twice under two keys.\<close>

definition each_second :: "unit cron_lib" where
  "each_second = \<lparr>cron_parse = (\<lambda>_. Inr ()),
     cron_upcoming = (\<lambda>_ t. Some ((t div 1000000000 + 1) * 1000000000))\<rparr>"

lemma cron_early_wake_fires_twice:
  "cron_upcoming each_second () 0 = cron_upcoming each_second () 999999999
   \<and> List.map_filter idempotency_key (fst (cron_loop each_second JNull () ''f''
       [\<lparr>ct_now = 0, ct_from = 0, ct_wake = Fired 999999999 True\<rparr>,
        \<lparr>ct_now = 999999999, ct_from = 999999999, ct_wake = Fired 1000000000 True\<rparr>]))
     = [''cron:f:0'', ''cron:f:1'']"
  by code_simp

section \<open>The flow trigger\<close>

fun turn_completion :: "flow_turn \<Rightarrow> run_completed option" where
  "turn_completion (GotCompletion completed _) = Some completed"
| "turn_completion _ = None"

definition completion_matches :: "string \<Rightarrow> run_status list \<Rightarrow> run_completed \<Rightarrow> bool" where
  "completion_matches source_flow_id status_filter completed \<longleftrightarrow>
     rce_flow_id completed = source_flow_id \<and> rce_status completed \<in> set status_filter"

text \<open>The turns that end the task: the broadcast is closed, the engine shuts down, or nobody receives the
  event of a matching completion.\<close>

fun turn_ends :: "string \<Rightarrow> run_status list \<Rightarrow> flow_turn \<Rightarrow> bool" where
  "turn_ends source_flow_id status_filter (GotCompletion completed sent) \<longleftrightarrow>
     completion_matches source_flow_id status_filter completed \<and> \<not> sent"
| "turn_ends source_flow_id status_filter (GotLagged _) \<longleftrightarrow> False"
| "turn_ends source_flow_id status_filter _ \<longleftrightarrow> True"

lemma flow_trigger_loop_eq:
  "flow_trigger_loop source_flow_id flow_id status_filter turns =
     (map (flow_event flow_id) (List.filter (completion_matches source_flow_id status_filter)
        (List.map_filter turn_completion (takeWhile (\<lambda>t. \<not> turn_ends source_flow_id status_filter t) turns))),
      if list_ex (turn_ends source_flow_id status_filter) turns then Some (Inr ()) else None)"
  by (induction source_flow_id flow_id status_filter turns rule: flow_trigger_loop.induct)
     (auto simp: map_filter_simps completion_matches_def send_then_def)

text \<open>
  A flow trigger chains flows: it refuses a configuration that lacks one of its two flow ids; otherwise
  it sends, in order, one event for each completion of the source flow with an accepted status (only
  \<open>Completed\<close> unless the configuration lists others), naming the completed run, until the broadcast is
  closed, the engine shuts down or nobody receives the event, and then it returns without an error.
\<close>

theorem flow_trigger_events:
  "flow_start config turns =
     (case (get_str config ''source_flow_id'', get_str config ''flow_id'') of
        (Some source_flow_id, Some flow_id) \<Rightarrow>
          (let accepted = (case Option.bind (jget config ''status_filter'') as_array of
                             None \<Rightarrow> [Completed]
                           | Some arr \<Rightarrow> List.map_filter run_status_from_str (List.map_filter as_str arr))
           in (map (flow_event flow_id) (List.filter (completion_matches source_flow_id accepted)
                 (List.map_filter turn_completion (takeWhile (\<lambda>t. \<not> turn_ends source_flow_id accepted t) turns))),
               if list_ex (turn_ends source_flow_id accepted) turns then Some (Inr ()) else None))
      | (None, _) \<Rightarrow> ([], Some (Inl (TriggerConfig (missing_key ''source_flow_id'' @ '' in config''))))
      | (Some _, None) \<Rightarrow> ([], Some (Inl (TriggerConfig (missing_key ''flow_id'' @ '' in config'')))))"
  by (simp add: flow_start_def parse_flow_config_def flow_trigger_loop_eq Let_def split: option.split)

section \<open>Dispatch\<close>

context flow_store begin

text \<open>The version an event resolves to is the one it names, or the current one of its flow; over an
  addressed store its graph has the hash of its id.\<close>

lemma resolve_addressed:
  assumes "inv s" "addressed lib s" "resolve_event ops io s event = Inr (Some v)"
  shows "compute_version_id lib (fv_graph v) = fv_version_id v \<and> vers s (fv_version_id v) = Some v
    \<and> (case te_version_id event of Some vid \<Rightarrow> fv_version_id v = vid
       | None \<Rightarrow> \<exists>h. heads s (te_flow_id event) = Some h \<and> fh_current_version_id h = fv_version_id v)"
proof -
  have stored: "compute_version_id lib (fv_graph v) = fv_version_id v \<and> fv_version_id v = k \<and> vers s k = Some v"
    if "fso_get_version ops io k s = Inr (Some v)" for k
    using get_version [OF assms(1) that] assms(2) by (auto simp: addressed_def)
  show ?thesis
  proof (cases "te_version_id event")
    case None
    with assms(3) obtain h where h: "fso_get_head ops io (te_flow_id event) s = Inr (Some h)"
      "fso_get_version ops io (fh_current_version_id h) s = Inr (Some v)"
      by (auto simp: resolve_event_def versioning_get_current_def split: option.splits)
    with stored [OF h(2)] get_head [OF assms(1) h(1)] None show ?thesis by auto
  next
    case (Some vid)
    with assms(3) stored [of vid] show ?thesis by (auto simp: resolve_event_def versioning_get_at_version_def)
  qed
qed

end

text \<open>A file store after some saves.\<close>

definition saved_files ::
  "'h hash_lib \<Rightarrow> (flow_version, 'b) doc_codec \<Rightarrow> (flow_head, 'b) doc_codec \<Rightarrow> 'b flow_files \<Rightarrow> bool" where
  "saved_files lib vc hc ff \<longleftrightarrow> (\<exists>rqs. list_all (request_ok lib vc hc) rqs \<and> ff = save_all lib vc hc rqs empty_files)"

lemma saved_files_ok: "saved_files lib vc hc ff \<Longrightarrow> ff_inv vc hc ff \<and> file_flows.addressed vc hc lib ff"
  using save_all_addressed [of lib vc hc] empty_files_ok [of vc hc lib] by (auto simp: saved_files_def)

text \<open>
  (C31) What the dispatcher returns: over file stores with any saves between the events and whatever system
  calls fail, the events whose idempotency key has not occurred before, in order, each with the
  version it names or else the current version of its flow, those that do not resolve left out; so no
  key is dispatched twice, and every dispatched graph has the hash of its version id.
\<close>

theorem dispatched_runs:
  assumes "list_all (\<lambda>(event, io, ff). saved_files lib vc hc ff) arrivals"
  shows "dispatcher_run (file_flow_store vc hc) {} arrivals =
      List.map_filter (dispatch_arrival (file_flow_store vc hc)) (first_occurrences arrival_key {} arrivals)
    \<and> distinct (List.map_filter arrival_key (first_occurrences arrival_key {} arrivals))
    \<and> list_all (\<lambda>d. compute_version_id lib (dr_graph d) = dr_version_id d)
        (dispatcher_run (file_flow_store vc hc) {} arrivals)"
proof -
  have "compute_version_id lib (dr_graph d) = dr_version_id d"
    if a: "(event, io, ff) \<in> set arrivals" and d: "dispatch_arrival (file_flow_store vc hc) (event, io, ff) = Some d"
    for event io ff d
  proof -
    from d obtain v where v: "resolve_event (file_flow_store vc hc) io ff event = Inr (Some v)" "d = dispatch_of event v"
      by (auto simp: dispatch_arrival_def ok_version_def split: sum.splits)
    have "saved_files lib vc hc ff" using assms a by (auto simp: list_all_iff)
    then have ok: "ff_inv vc hc ff" "file_flows.addressed vc hc lib ff" using saved_files_ok by auto
    from file_flows.resolve_addressed [OF ok v(1)] v(2) show ?thesis by (simp add: dispatch_of_def)
  qed
  then have "list_all (\<lambda>d. compute_version_id lib (dr_graph d) = dr_version_id d)
      (List.map_filter (dispatch_arrival (file_flow_store vc hc)) (first_occurrences arrival_key {} arrivals))"
    using first_occurrences_subset [of arrival_key "{}" arrivals]
    by (fastforce simp: list_all_iff map_filter_def)
  then show ?thesis
    using first_occurrences_keys [of arrival_key "{}" arrivals] by (simp add: dispatcher_run_eq)
qed

section \<open>Witnesses\<close>

theorem cron_ticks_not_deduplicated_witness:
  "cron_lib_ok each_second
   \<and> (let evs = fst (cron_start each_second
        (json_object [(''schedule'', JString ''* * * * *''), (''flow_id'', JString ''f'')])
        [\<lparr>ct_now = 0, ct_from = 0, ct_wake = Fired 1000000000 True\<rparr>,
         \<lparr>ct_now = 1000000001, ct_from = 1000000002, ct_wake = Fired 2000000003 True\<rparr>])
      in first_occurrences idempotency_key {} evs = evs \<and> length evs = 2)"
proof -
  have law: "cron_lib_ok each_second"
    by (auto simp: cron_lib_ok_def each_second_def)
  let ?config = "json_object [(''schedule'', JString ''* * * * *''), (''flow_id'', JString ''f'')]"
  let ?turns = "[\<lparr>ct_now = 0, ct_from = 0, ct_wake = Fired 1000000000 True\<rparr>,
         \<lparr>ct_now = 1000000001, ct_from = 1000000002, ct_wake = Fired 2000000003 True\<rparr>]"
  have "cron_timed each_second schedule 0 ?turns" for schedule
    by (cases schedule) code_simp
  moreover have "length (fst (cron_start each_second ?config ?turns)) = 2" by code_simp
  ultimately show ?thesis
    using law cron_ticks_not_deduplicated [OF law, of ?config 0 ?turns] by (simp add: Let_def)
qed

definition demo_arrivals ::
  "(trigger_event \<times> file_io \<times> (flow_version + flow_head) flow_files) list" where
  "demo_arrivals =
     (let s = save_all demo_lib demo_vc demo_hc [demo_request ''a'', demo_request ''b''] empty_files;
          event = \<lparr>te_flow_id = ''f'', te_version_id = None, te_inputs = JNull, te_source = SrcManual ''u'',
                   idempotency_key = Some ''k''\<rparr>
      in [(event, (\<lambda>_. None), s), (event, (\<lambda>_. None), s),
          (event\<lparr>te_version_id := Some ''a'', idempotency_key := None\<rparr>, (\<lambda>_. None), s),
          (event\<lparr>te_flow_id := ''g'', idempotency_key := None\<rparr>, (\<lambda>_. None), s)])"

lemma demo_arrivals_saved: "list_all (\<lambda>(event, io, ff). saved_files demo_lib demo_vc demo_hc ff) demo_arrivals"
proof -
  have "saved_files demo_lib demo_vc demo_hc
      (save_all demo_lib demo_vc demo_hc [demo_request ''a'', demo_request ''b''] empty_files)"
    unfolding saved_files_def by (rule exI [of _ "[demo_request ''a'', demo_request ''b'']"]) (simp add: demo_request_ok)
  then show ?thesis by (simp add: demo_arrivals_def Let_def)
qed

theorem dispatched_runs_witness:
  "map dr_version_id (dispatcher_run (file_flow_store demo_vc demo_hc) {} demo_arrivals) = [''b'', ''a'']
   \<and> list_all (\<lambda>d. compute_version_id demo_lib (dr_graph d) = dr_version_id d)
       (dispatcher_run (file_flow_store demo_vc demo_hc) {} demo_arrivals)"
proof -
  have "map dr_version_id (dispatcher_run (file_flow_store demo_vc demo_hc) {} demo_arrivals) = [''b'', ''a'']"
    by (simp add: demo_arrivals_def save_all_def save_one_def save_with_def demo_request_def versioning_save_def file_flow_store_def
        file_get_version_def file_put_version_def file_put_head_def file_get_head_def empty_files_def demo_vc_def
        demo_hc_def demo_lib_def compute_version_id_def named_graph_def new_version_def new_head_def atomic_write_def
        file_call_def doc_put_def hm_entry_def resolve_event_def versioning_get_current_def
        versioning_get_at_version_def check_key_def dispatch_of_def Let_def)
  then show ?thesis using dispatched_runs [OF demo_arrivals_saved] by blast
qed

end
