(* ===== verification/Llm_Node.thy ===== *)
theory Llm_Node
  imports Node_Context "HOL-Library.Sublist"
begin

text \<open>
  \<open>nodes/llm_call.rs\<close>: the node that calls an LLM provider, whole or streamed, keeps the
  conversation of its cycle in the state store and records the call.  JSON printing, parsing and the
  serializer of chunks and tool calls are parameters.  What the node does to the conversation is
  proved for every store that keeps the contract of \<open>State_Store\<close>.
\<close>

section \<open>The handler\<close>

record llm_lib =
  ll_to_string :: "json \<Rightarrow> string"
  ll_from_str :: "string \<Rightarrow> json option"
  ll_chunk_to_value :: "llm_chunk \<Rightarrow> json"
  ll_tool_calls_to_value :: "llm_tool_call list \<Rightarrow> json"

definition message :: "string \<Rightarrow> json \<Rightarrow> json" where
  "message role content = json_object [(''role'', JString role), (''content'', content)]"

definition prior_conversation :: "json option \<Rightarrow> string option \<Rightarrow> json list" where
  "prior_conversation prior system_prompt =
     (case prior of
        Some (JArray msgs) \<Rightarrow> msgs
      | _ \<Rightarrow> (case system_prompt of None \<Rightarrow> [] | Some sp \<Rightarrow> [message ''system'' (JString sp)]))"

text \<open>The messages an execution adds: user messages the first time, tool results on a back-edge.\<close>

definition first_messages :: "llm_lib \<Rightarrow> json \<Rightarrow> json list" where
  "first_messages lib inputs =
     (case jget inputs ''messages'' of
        Some (JArray input_msgs) \<Rightarrow> input_msgs
      | Some msg_val \<Rightarrow> [msg_val]
      | None \<Rightarrow> [message ''user'' (JString (ll_to_string lib inputs))])"

definition raw_inputs :: "json \<Rightarrow> json list" where
  "raw_inputs inputs = (case inputs of JArray arr \<Rightarrow> arr | JObject _ \<Rightarrow> [inputs] | _ \<Rightarrow> [])"

definition cycle_messages :: "json \<Rightarrow> json list" where
  "cycle_messages inputs =
     (case jget inputs ''tool_results'' of
        Some (JArray tool_results) \<Rightarrow> tool_results
      | _ \<Rightarrow>
          if jget inputs ''tool_call_id'' \<noteq> None then [inputs]
          else (case jget inputs ''messages'' of
                  Some (JArray input_msgs) \<Rightarrow> input_msgs
                | _ \<Rightarrow> raw_inputs inputs))"

definition request_messages :: "llm_lib \<Rightarrow> json option \<Rightarrow> string option \<Rightarrow> json \<Rightarrow> json list" where
  "request_messages lib prior system_prompt inputs =
     (let messages = prior_conversation prior system_prompt
      in messages @ (if prior = None \<or> messages = [] then first_messages lib inputs else cycle_messages inputs))"

definition tool_filter_of :: "json \<Rightarrow> string list option" where
  "tool_filter_of config =
     Option.bind (jget config ''tool_filter'') (\<lambda>v. map_option (List.map_filter as_str) (as_array v))"

definition tool_value :: "tool_def \<Rightarrow> json" where
  "tool_value t =
     json_object [(''type'', JString ''function''),
       (''function'', json_object [(''name'', JString (tool_name t)),
          (''description'', JString (tool_description t)), (''parameters'', tool_parameters t)])]"

definition request_tools :: "tool_def list \<Rightarrow> json \<Rightarrow> json list option" where
  "request_tools available config =
     (if unwrap_or (Option.bind (jget config ''tools_from_graph'') as_bool) True
      then let filtered = map tool_value (filter (\<lambda>t. case tool_filter_of config of
                 None \<Rightarrow> True | Some names \<Rightarrow> tool_name t \<in> set names) available)
           in if filtered = [] then None else Some filtered
      else None)"

definition build_request :: "llm_lib \<Rightarrow> tool_def list \<Rightarrow> string \<Rightarrow> string \<Rightarrow> json \<Rightarrow> json list \<Rightarrow> llm_request" where
  "build_request lib available provider model config messages =
     \<lparr>lq_provider = provider, lq_model = model, lq_messages = JArray messages,
      lq_tools = request_tools available config,
      lq_temperature = Option.bind (jget config ''temperature'') as_f64, lq_top_p = None,
      lq_max_tokens = map_option ucast (Option.bind (jget config ''max_tokens'') as_u64),
      lq_stop_sequences = None, lq_response_format = jget config ''response_format'', lq_seed = None,
      lq_extra_params = []\<rparr>"

text \<open>The accumulators of the streaming loop.\<close>

record stream_acc =
  sa_content :: string
  sa_parts :: "(u32, string \<times> string \<times> string) btree"
  sa_finish :: string
  sa_input :: "u32 option"
  sa_output :: "u32 option"

definition stream_start :: stream_acc where
  "stream_start = \<lparr>sa_content = [], sa_parts = [], sa_finish = ''stop'', sa_input = None, sa_output = None\<rparr>"

definition merge_part ::
  "string option \<Rightarrow> string option \<Rightarrow> string \<Rightarrow> string \<times> string \<times> string \<Rightarrow> string \<times> string \<times> string" where
  "merge_part i n args_delta e =
     (unwrap_or i (fst e), unwrap_or n (fst (snd e)), snd (snd e) @ args_delta)"

fun stream_chunk :: "llm_chunk \<Rightarrow> stream_acc \<Rightarrow> stream_acc" where
  "stream_chunk (TextDelta delta) acc = acc\<lparr>sa_content := sa_content acc @ delta\<rparr>"
| "stream_chunk (ToolCallDelta ix i n args_delta) acc =
     acc\<lparr>sa_parts := bt_insert ix
       (merge_part i n args_delta (unwrap_or (bt_get ix (sa_parts acc)) ([], [], []))) (sa_parts acc)\<rparr>"
| "stream_chunk (Usage it ot) acc =
     acc\<lparr>sa_input := (if it \<noteq> None then it else sa_input acc),
         sa_output := (if ot \<noteq> None then ot else sa_output acc)\<rparr>"
| "stream_chunk (Done fr) acc = acc\<lparr>sa_finish := fr\<rparr>"

fun stream_loop ::
  "llm_lib \<Rightarrow> (node_error, llm_chunk) result list \<Rightarrow> stream_acc \<Rightarrow> ('s node_world, stream_acc) node_io" where
  "stream_loop lib [] acc w = (NOk acc, w)"
| "stream_loop lib (Inl e # chunks) acc w = (NErr e, w)"
| "stream_loop lib (Inr chunk # chunks) acc w =
     stream_loop lib chunks (stream_chunk chunk acc) (emit_llm_chunk (ll_chunk_to_value lib) chunk w)"

definition part_call :: "llm_lib \<Rightarrow> string \<times> string \<times> string \<Rightarrow> llm_tool_call" where
  "part_call lib p =
     \<lparr>tc_id = fst p, tc_tool_name = fst (snd p),
      tc_arguments = unwrap_or (ll_from_str lib (snd (snd p))) (JObject [])\<rparr>"

definition total_of :: "u32 option \<Rightarrow> u32 option \<Rightarrow> u32 option" where
  "total_of i o1 = (case (i, o1) of (Some x, Some y) \<Rightarrow> Some (x + y) | _ \<Rightarrow> None)"

definition stream_response :: "llm_lib \<Rightarrow> string \<Rightarrow> u64 \<Rightarrow> stream_acc \<Rightarrow> llm_response" where
  "stream_response lib model latency_ms acc =
     \<lparr>lr_content = JString (sa_content acc),
      lr_tool_calls = (if sa_parts acc = [] then None else Some (map (part_call lib \<circ> snd) (sa_parts acc))),
      lr_model_used = model, lr_input_tokens = sa_input acc, lr_output_tokens = sa_output acc,
      lr_total_tokens = total_of (sa_input acc) (sa_output acc),
      lr_finish_reason = sa_finish acc, lr_latency_ms = latency_ms, lr_provider_request_id = None,
      lr_cost = None\<rparr>"

definition call_provider ::
  "llm_lib \<Rightarrow> llm_provider \<Rightarrow> u64 \<Rightarrow> json \<Rightarrow> string \<Rightarrow> llm_request \<Rightarrow> ('s node_world, llm_response) node_io" where
  "call_provider lib prov latency_ms config model request =
     (if unwrap_or (Option.bind (jget config ''stream'') as_bool) False \<and> lp_supports_streaming prov
      then nbind (nlift (lp_complete_streaming prov request)) (\<lambda>chunks.
           nbind (stream_loop lib chunks stream_start) (\<lambda>acc.
           nret (stream_response lib model latency_ms acc)))
      else nlift (lp_complete prov request))"

definition call_value :: "llm_tool_call \<Rightarrow> json" where
  "call_value tc =
     json_object [(''id'', JString (tc_id tc)), (''tool_name'', JString (tc_tool_name tc)),
       (''arguments'', tc_arguments tc)]"

definition assistant_message :: "llm_lib \<Rightarrow> llm_response \<Rightarrow> json" where
  "assistant_message lib response =
     (case lr_tool_calls response of
        Some tcs \<Rightarrow> json_object [(''role'', JString ''assistant''), (''content'', lr_content response),
                      (''tool_calls'', ll_tool_calls_to_value lib tcs)]
      | None \<Rightarrow> message ''assistant'' (lr_content response))"

definition llm_output :: "llm_response \<Rightarrow> json" where
  "llm_output response =
     json_object [(''content'', lr_content response),
       (''tool_calls'', case lr_tool_calls response of None \<Rightarrow> JNull | Some tcs \<Rightarrow> JArray (map call_value tcs)),
       (''finish_reason'', JString (lr_finish_reason response))]"

definition state_key :: "'s node_ctx \<Rightarrow> string" where
  "state_key ctx = ctx_node_instance_id ctx @ '':messages''"

text \<open>\<open>LlmCallNode::run\<close>; the clock gives the latency of a stream and the time of the record.\<close>

definition llm_call_run ::
  "llm_lib \<Rightarrow> u64 \<Rightarrow> datetime \<Rightarrow> json \<Rightarrow> json \<Rightarrow> 's node_ctx \<Rightarrow> ('s node_world, json) node_io" where
  "llm_call_run lib latency_ms now inputs config ctx =
     nbind (nlift (ok_or (get_str config ''provider'')
              (Validation ''missing required config field: provider''))) (\<lambda>provider_name.
     nbind (nlift (ok_or (get_str config ''model'')
              (Validation ''missing required config field: model''))) (\<lambda>model.
     nbind (nlift (ok_or (llm_provider_named ctx provider_name)
              (Fatal (''LLM provider '' @ [CHR 0x27] @ provider_name @ [CHR 0x27] @ '' not registered in engine''))))
       (\<lambda>prov.
     nbind (ctx_state_get ctx (state_key ctx)) (\<lambda>prior.
       let messages = request_messages lib prior (get_str config ''system_prompt'') inputs;
           request = build_request lib (available_tools ctx) provider_name model config messages
       in nbind (call_provider lib prov latency_ms config model request) (\<lambda>response.
          nbind (ctx_state_set ctx (state_key ctx) (JArray (messages @ [assistant_message lib response]))) (\<lambda>_.
          nbind (ctx_record_llm_call ctx now request response) (\<lambda>_.
          nret (llm_output response))))))))"

section \<open>Streaming\<close>

text \<open>What the chunks of a stream amount to, index by index.\<close>

definition text_of :: "llm_chunk list \<Rightarrow> string" where
  "text_of chunks = concat (List.map_filter (\<lambda>c. case c of TextDelta d \<Rightarrow> Some d | _ \<Rightarrow> None) chunks)"

definition deltas_of :: "u32 \<Rightarrow> llm_chunk list \<Rightarrow> (string option \<times> string option \<times> string) list" where
  "deltas_of ix chunks = List.map_filter (\<lambda>c. case c of ToolCallDelta j i n a \<Rightarrow>
     if j = ix then Some (i, n, a) else None | _ \<Rightarrow> None) chunks"

definition last_some :: "'a option list \<Rightarrow> 'a option" where
  "last_some xs = fold (\<lambda>x acc. if x \<noteq> None then x else acc) xs None"

definition indices_of :: "llm_chunk list \<Rightarrow> u32 set" where
  "indices_of chunks = {ix. deltas_of ix chunks \<noteq> []}"

definition part_of :: "(string option \<times> string option \<times> string) list \<Rightarrow> string \<times> string \<times> string" where
  "part_of ds = (unwrap_or (last_some (map fst ds)) [], unwrap_or (last_some (map (fst \<circ> snd) ds)) [],
     concat (map (snd \<circ> snd) ds))"

definition usages_of :: "llm_chunk list \<Rightarrow> (u32 option \<times> u32 option) list" where
  "usages_of chunks = List.map_filter (\<lambda>c. case c of Usage i o1 \<Rightarrow> Some (i, o1) | _ \<Rightarrow> None) chunks"

definition finishes_of :: "llm_chunk list \<Rightarrow> string list" where
  "finishes_of chunks = List.map_filter (\<lambda>c. case c of Done fr \<Rightarrow> Some fr | _ \<Rightarrow> None) chunks"

lemma map_filter_snoc: "List.map_filter f (xs @ [x]) = List.map_filter f xs @ (case f x of None \<Rightarrow> [] | Some y \<Rightarrow> [y])"
  by (simp add: map_filter_def split: option.splits)

lemma last_some_snoc: "last_some (xs @ [x]) = (if x \<noteq> None then x else last_some xs)"
  by (simp add: last_some_def)

lemmas stream_view_defs = text_of_def deltas_of_def usages_of_def finishes_of_def

lemma part_of_snoc: "part_of (ds @ [(i, n, a)]) = merge_part i n a (part_of ds)"
  by (cases i; cases n) (simp_all add: part_of_def merge_part_def last_some_snoc)

lemma stream_fold:
  "sa_content (fold stream_chunk chunks stream_start) = text_of chunks
   \<and> bt_wf (sa_parts (fold stream_chunk chunks stream_start))
   \<and> (\<forall>ix. bt_get ix (sa_parts (fold stream_chunk chunks stream_start)) =
        (if deltas_of ix chunks = [] then None else Some (part_of (deltas_of ix chunks))))
   \<and> sa_input (fold stream_chunk chunks stream_start) = last_some (map fst (usages_of chunks))
   \<and> sa_output (fold stream_chunk chunks stream_start) = last_some (map snd (usages_of chunks))
   \<and> sa_finish (fold stream_chunk chunks stream_start) = last (''stop'' # finishes_of chunks)"
proof (induction chunks rule: rev_induct)
  case Nil
  show ?case by (simp add: stream_start_def stream_view_defs last_some_def map_filter_simps)
next
  case (snoc c chunks)
  show ?case
  proof (cases c)
    case (ToolCallDelta ix i n a)
    have "unwrap_or (bt_get ix (sa_parts (fold stream_chunk chunks stream_start))) ([], [], []) =
        part_of (deltas_of ix chunks)"
      using snoc.IH by (simp add: part_of_def last_some_def)
    with snoc.IH ToolCallDelta show ?thesis
      by (simp add: stream_view_defs map_filter_snoc part_of_snoc)
  qed (use snoc.IH in \<open>simp_all add: stream_view_defs map_filter_snoc last_some_snoc\<close>)
qed

lemma stream_loop_ok:
  "stream_loop lib (map Inr chunks) acc w =
     (NOk (fold stream_chunk chunks acc), fold (emit_llm_chunk (ll_chunk_to_value lib)) chunks w)"
  by (induction chunks arbitrary: acc w) simp_all

lemma stream_loop_frame:
  "stream_loop lib chunks acc w = (res, w') \<Longrightarrow>
     nw_state w' = nw_state w \<and> nw_llm w' = nw_llm w \<and> res \<noteq> NBlocked"
  by (induction lib chunks acc w rule: stream_loop.induct) (auto simp: emit_llm_chunk_def)

lemma call_provider_frame:
  "call_provider lib prov latency_ms config model request w = (res, w') \<Longrightarrow>
     nw_state w' = nw_state w \<and> nw_llm w' = nw_llm w \<and> res \<noteq> NBlocked"
  by (auto simp: call_provider_def nbind_def nlift_def nret_def split: if_splits sum.splits prod.splits node_res.splits
      dest!: stream_loop_frame)

section \<open>The conversation of a cycle\<close>

text \<open>Executions of one node instance in a run, one after the other on the same state store.\<close>

record 's llm_exec =
  le_inputs :: json
  le_config :: json
  le_latency_ms :: u64
  le_now :: datetime
  le_ctx :: "'s node_ctx"
  le_duration_ms :: u64

fun llm_cycle :: "llm_lib \<Rightarrow> 's llm_exec list \<Rightarrow> 's \<Rightarrow> attempt list \<times> 's" where
  "llm_cycle lib [] s = ([], s)"
| "llm_cycle lib (e # es) s =
     (case run_attempt (llm_call_run lib (le_latency_ms e) (le_now e) (le_inputs e) (le_config e) (le_ctx e))
             (le_duration_ms e) s of
        (a, s1) \<Rightarrow> (case llm_cycle lib es s1 of (as, s2) \<Rightarrow> (a # as, s2)))"

definition cycle_records :: "attempt list \<Rightarrow> llm_invocation_record list" where
  "cycle_records as = concat (map att_llm as)"

abbreviation sent_messages :: "llm_invocation_record \<Rightarrow> json" where
  "sent_messages rec \<equiv> lq_messages (li_request rec)"

text \<open>What one execution may do to the values \<open>v\<close> of a store: nothing, or one recorded call after which
  the conversation is what was sent and the answer.\<close>

definition llm_effect ::
  "llm_lib \<Rightarrow> json \<Rightarrow> json \<Rightarrow> 's node_ctx \<Rightarrow> (string \<Rightarrow> string \<Rightarrow> json option) \<Rightarrow> llm_invocation_record list
   \<Rightarrow> (string \<Rightarrow> string \<Rightarrow> json option) \<Rightarrow> bool" where
  "llm_effect lib inputs config ctx v recs v' \<longleftrightarrow>
     (recs = [] \<and> v' = v) \<or>
     (\<exists>rec msgs. recs = [rec] \<and> li_node_id rec = ctx_node_instance_id ctx \<and> sent_messages rec = JArray msgs
        \<and> msgs = request_messages lib (v (ctx_run_id ctx) (state_key ctx)) (get_str config ''system_prompt'') inputs
        \<and> v' = v(ctx_run_id ctx := (v (ctx_run_id ctx))(state_key ctx \<mapsto>
             JArray (msgs @ [assistant_message lib (li_response rec)]))))"

text \<open>The later request continues the earlier one and its answer.\<close>

definition continues :: "llm_lib \<Rightarrow> llm_invocation_record \<Rightarrow> llm_invocation_record \<Rightarrow> bool" where
  "continues lib r1 r2 \<longleftrightarrow>
     (\<exists>m1 m2. sent_messages r1 = JArray m1 \<and> sent_messages r2 = JArray m2
        \<and> prefix (m1 @ [assistant_message lib (li_response r1)]) m2)"

definition one_per_success :: "attempt \<Rightarrow> bool" where
  "one_per_success a \<longleftrightarrow>
     (case att_result a of Returned _ \<Rightarrow> length (att_llm a) = 1 | Raised _ \<Rightarrow> att_llm a = [] | Elapsed \<Rightarrow> False)"

definition same_instance :: "'s state_ops \<Rightarrow> string \<Rightarrow> string \<Rightarrow> 's llm_exec \<Rightarrow> bool" where
  "same_instance ops r n e \<longleftrightarrow>
     ctx_state (le_ctx e) = ops \<and> ctx_run_id (le_ctx e) = r \<and> ctx_node_instance_id (le_ctx e) = n"

context state_store
begin

lemma state_get_value:
  assumes "ctx_state ctx = ops" "inv (nw_state w)" "ctx_state_get ctx k w = (res, w')"
  shows "w' = w \<and> (\<forall>x. res = NOk x \<longrightarrow> x = vals (nw_state w) (ctx_run_id ctx) k) \<and> res \<noteq> NBlocked"
  using assms get_law [of "nw_state w" "ctx_run_id ctx" k]
  by (cases "so_get ops (ctx_run_id ctx) k (nw_state w)") (auto simp: ctx_state_get_def nlift_def)

lemma state_set_value:
  assumes "ctx_state ctx = ops" "inv (nw_state w)" "ctx_state_set ctx k v w = (res, w')"
  shows "nw_llm w' = nw_llm w \<and> inv (nw_state w') \<and> res \<noteq> NBlocked
    \<and> vals (nw_state w') = (if res = NOk () then (vals (nw_state w))(ctx_run_id ctx :=
         (vals (nw_state w) (ctx_run_id ctx))(k \<mapsto> v)) else vals (nw_state w))"
proof -
  obtain r s where r: "so_set ops (ctx_run_id ctx) k v SensNone (nw_state w) = (r, s)" by force
  from set_law [OF assms(2) r] assms(1,3) r show ?thesis
    by (cases r) (auto simp: ctx_state_set_def ctx_state_put_def)
qed

lemma answer_effect:
  assumes "ctx_state ctx = ops" "inv (nw_state w)" "nw_llm w = []"
    and "prior = vals (nw_state w) (ctx_run_id ctx) (state_key ctx)"
    and "msgs = request_messages lib prior (get_str config ''system_prompt'') inputs"
    and "lq_messages req = JArray msgs"
    and "nbind (call_provider lib prov latency_ms config model req) (\<lambda>response.
      nbind (ctx_state_set ctx (state_key ctx) (JArray (msgs @ [assistant_message lib response]))) (\<lambda>_.
      nbind (ctx_record_llm_call ctx now req response) (\<lambda>_. nret (llm_output response)))) w = (res, w')"
  shows "inv (nw_state w') \<and> res \<noteq> NBlocked
    \<and> llm_effect lib inputs config ctx (vals (nw_state w)) (nw_llm w') (vals (nw_state w'))
    \<and> (nw_llm w' = [] \<longleftrightarrow> (\<exists>e. res = NErr e))"
proof -
  obtain p w2 where p: "call_provider lib prov latency_ms config model req w = (p, w2)" by force
  note pf = call_provider_frame [OF p]
  show ?thesis
  proof (cases p)
    case (NErr e)
    with assms(2,3,7) p pf show ?thesis by (auto simp: nbind_def llm_effect_def)
  next
    case NBlocked
    with pf show ?thesis by simp
  next
    case (NOk response)
    obtain q w3 where q: "ctx_state_set ctx (state_key ctx) (JArray (msgs @ [assistant_message lib response])) w2 = (q, w3)"
      by force
    have "inv (nw_state w2)" using assms(2) pf by simp
    note sf = state_set_value [OF assms(1) this q]
    have "(\<exists>e. res = NErr e \<and> q = NErr e \<and> w' = w3) \<or> (q = NOk () \<and> res = NOk (llm_output response)
        \<and> w' = w3\<lparr>nw_llm := [llm_record_for ctx now req response]\<rparr>)"
      using assms(3,7) p pf NOk q sf
      by (cases q) (auto simp: nbind_def ctx_record_llm_call_def nret_def NODE_CHANNEL_CAPACITY_def)
    with sf pf assms(3-6) show ?thesis by (auto simp: llm_effect_def llm_record_for_def)
  qed
qed

lemma llm_call_effect:
  assumes "ctx_state ctx = ops" "inv (nw_state w)" "nw_llm w = []"
    and "llm_call_run lib latency_ms now inputs config ctx w = (res, w')"
  shows "inv (nw_state w') \<and> res \<noteq> NBlocked
    \<and> llm_effect lib inputs config ctx (vals (nw_state w)) (nw_llm w') (vals (nw_state w'))
    \<and> (nw_llm w' = [] \<longleftrightarrow> (\<exists>e. res = NErr e))"
proof -
  obtain g w1 where g: "ctx_state_get ctx (state_key ctx) w = (g, w1)" by force
  note get = state_get_value [OF assms(1,2) g]
  have "(\<exists>e. res = NErr e \<and> w' = w) \<or> (\<exists>prior model prov req. g = NOk prior
      \<and> lq_messages req = JArray (request_messages lib prior (get_str config ''system_prompt'') inputs)
      \<and> nbind (call_provider lib prov latency_ms config model req) (\<lambda>response.
        nbind (ctx_state_set ctx (state_key ctx) (JArray (request_messages lib prior
          (get_str config ''system_prompt'') inputs @ [assistant_message lib response]))) (\<lambda>_.
        nbind (ctx_record_llm_call ctx now req response) (\<lambda>_. nret (llm_output response)))) w = (res, w'))"
    using assms(4) g get
    by (cases "get_str config ''provider''"; cases "get_str config ''model''";
        cases "llm_provider_named ctx (the (get_str config ''provider''))"; cases g)
      (fastforce simp: llm_call_run_def nbind_def nlift_def build_request_def Let_def)+
  then show ?thesis
  proof
    assume "\<exists>e. res = NErr e \<and> w' = w"
    with assms(2,3) show ?thesis by (auto simp: llm_effect_def)
  qed (use answer_effect [OF assms(1-3) _ refl] get in blast)
qed

lemma attempt_effect:
  assumes "same_instance ops r n e" "inv s"
    and "run_attempt (llm_call_run lib (le_latency_ms e) (le_now e) (le_inputs e) (le_config e) (le_ctx e))
      (le_duration_ms e) s = (a, s')"
  shows "inv s' \<and> one_per_success a \<and> llm_effect lib (le_inputs e) (le_config e) (le_ctx e) (vals s) (att_llm a) (vals s')"
proof -
  obtain res w' where run: "llm_call_run lib (le_latency_ms e) (le_now e) (le_inputs e) (le_config e) (le_ctx e)
    (fresh_world s) = (res, w')" by force
  have a: "att_result a = timed_of res" "att_llm a = nw_llm w'" "s' = nw_state w'"
    using assms(3) run by (auto simp: run_attempt_def)
  have "nw_state (fresh_world s) = s" "nw_llm (fresh_world s) = []" by (simp_all add: fresh_world_def)
  with llm_call_effect [OF _ _ _ run] assms(1,2) a show ?thesis
    by (cases res) (auto simp: same_instance_def one_per_success_def llm_effect_def)
qed

lemma cycle_chain:
  "list_all (same_instance ops r n) es \<Longrightarrow> inv s \<Longrightarrow> llm_cycle lib es s = (as, s') \<Longrightarrow>
     inv s' \<and> list_all one_per_success as \<and> sorted_wrt (continues lib) (cycle_records as)
     \<and> (\<forall>ms. vals s r (n @ '':messages'') = Some (JArray ms) \<longrightarrow> ms \<noteq> [] \<longrightarrow>
          (\<forall>rec \<in> set (cycle_records as). \<exists>m. sent_messages rec = JArray m \<and> prefix ms m))"
proof (induction es arbitrary: s as)
  case Nil
  then show ?case by (simp add: cycle_records_def)
next
  case (Cons e es)
  let ?k = "n @ '':messages''"
  obtain a s1 as1 where run: "run_attempt (llm_call_run lib (le_latency_ms e) (le_now e) (le_inputs e)
      (le_config e) (le_ctx e)) (le_duration_ms e) s = (a, s1)" "llm_cycle lib es s1 = (as1, s')" "as = a # as1"
    using Cons.prems(3) by (auto split: prod.splits)
  have e: "same_instance ops r n e" "list_all (same_instance ops r n) es" using Cons.prems(1) by simp_all
  have k: "state_key (le_ctx e) = ?k" "ctx_run_id (le_ctx e) = r"
    using e(1) by (simp_all add: same_instance_def state_key_def)
  note eff = attempt_effect [OF e(1) Cons.prems(2) run(1)]
  then have "inv s1" by simp
  note IH = Cons.IH [OF e(2) this run(2)]
  from eff consider (none) "att_llm a = []" "vals s1 = vals s"
    | (one) rec msgs where "att_llm a = [rec]" "sent_messages rec = JArray msgs"
      "msgs = request_messages lib (vals s r ?k) (get_str (le_config e) ''system_prompt'') (le_inputs e)"
      "vals s1 r ?k = Some (JArray (msgs @ [assistant_message lib (li_response rec)]))"
    unfolding llm_effect_def k by fastforce
  then show ?case
  proof cases
    case none
    with eff IH run(3) show ?thesis by (simp add: cycle_records_def)
  next
    case one
    have later: "\<forall>rec' \<in> set (cycle_records as1). \<exists>m. sent_messages rec' = JArray m
        \<and> prefix (msgs @ [assistant_message lib (li_response rec)]) m"
      using IH one(4) by blast
    have ms: "prefix ms msgs" if "vals s r ?k = Some (JArray ms)" "ms \<noteq> []" for ms
      using that one(3) by (simp add: request_messages_def prior_conversation_def)
    have recs: "cycle_records as = rec # cycle_records as1" using run(3) one(1) by (simp add: cycle_records_def)
    have "\<exists>m. sent_messages rec' = JArray m \<and> prefix ms m"
      if "vals s r ?k = Some (JArray ms)" "ms \<noteq> []" "rec' \<in> set (cycle_records as)" for ms rec'
      using ms [OF that(1,2)] that(3) later one(2) unfolding recs
      by (metis append_prefixD prefix_order.trans set_ConsD)
    moreover have "sorted_wrt (continues lib) (cycle_records as)"
      using later IH one(2) unfolding recs sorted_wrt.simps by (simp add: continues_def [of _ rec])
    ultimately show ?thesis using eff IH run(3) by simp
  qed
qed

end

section \<open>Properties\<close>

text \<open>
  (C12) The conversation of a cycle never loses a message: when a node calls its provider again and again
  in one run, whatever its inputs, configurations and providers are and whichever executions fail,
  every request starts with the whole of every earlier request followed by the answer to it; an
  execution that returns has recorded exactly one call and one that fails none.
\<close>

theorem llm_conversation_grows:
  assumes "list_all (same_instance in_memory_state r n) es" "state_inv s" "llm_cycle lib es s = (as, s')"
  shows "list_all one_per_success as \<and> sorted_wrt (continues lib) (cycle_records as)"
  using mem_states.cycle_chain [OF assms] by simp

definition plain_lib :: llm_lib where
  "plain_lib = \<lparr>ll_to_string = (\<lambda>_. ''text''), ll_from_str = (\<lambda>_. None), ll_chunk_to_value = (\<lambda>_. JNull),
     ll_tool_calls_to_value = (\<lambda>_. JNull)\<rparr>"

definition echo_provider :: llm_provider where
  "echo_provider =
     \<lparr>lp_complete = (\<lambda>_. Inl (Fatal ''no'')), lp_complete_streaming = (\<lambda>_. Inr (map Inr [TextDelta ''a'',
        ToolCallDelta 1 (Some ''i'') (Some ''f'') [], TextDelta ''b'', ToolCallDelta 0 (Some ''h'') (Some ''g'') []])),
      lp_supports_streaming = True, lp_name = ''echo''\<rparr>"

definition echo_exec :: "bool \<Rightarrow> mem_state llm_exec" where
  "echo_exec stream =
     \<lparr>le_inputs = JArray [JNull],
      le_config = JObject [(''model'', JString ''m''), (''provider'', JString ''p''), (''stream'', JBool stream)],
      le_latency_ms = 1, le_now = 2,
      le_ctx = \<lparr>ctx_run_id = ''r'', ctx_node_instance_id = ''n'', ctx_secrets = (\<lambda>_. Inr None),
        ctx_state = in_memory_state, ctx_queue = (\<lambda>_ _. Inr ()), ctx_tool_definitions = [],
        ctx_llm_providers = [(''p'', echo_provider)]\<rparr>,
      le_duration_ms = 3\<rparr>"

theorem llm_conversation_grows_witness:
  "\<exists>as s'. llm_cycle plain_lib [echo_exec True, echo_exec False, echo_exec True] state_new = (as, s')
     \<and> length (cycle_records as) = 2 \<and> sorted_wrt (continues plain_lib) (cycle_records as)"
proof -
  let ?es = "[echo_exec True, echo_exec False, echo_exec True]"
  obtain as s' where run: "llm_cycle plain_lib ?es state_new = (as, s')" by force
  have "list_all (same_instance in_memory_state ''r'' ''n'') ?es" by (simp add: same_instance_def echo_exec_def)
  from llm_conversation_grows [OF this state_new_inv run]
  have chain: "sorted_wrt (continues plain_lib) (cycle_records as)" by simp
  have "length (cycle_records as) = 2"
    using run
    by (auto simp: run_attempt_def llm_call_run_def echo_exec_def get_str_def llm_provider_named_def echo_provider_def
        nbind_def nlift_def nret_def ctx_state_get_def ctx_state_set_def ctx_state_put_def in_memory_state_def
        state_get_def state_set_def call_provider_def stream_loop.simps ctx_record_llm_call_def fresh_world_def
        NODE_CHANNEL_CAPACITY_def emit_llm_chunk_def try_send_def cycle_records_def Let_def)
  with run chain show ?thesis by blast
qed

text \<open>
  (C23) What a streamed call answers when no chunk is an error: the content is the concatenation of the
  text deltas; there is one tool call per index, in ascending order, with the last id and name given for
  it and the parsed concatenation of its argument deltas (the empty object when that does not parse);
  token counts and finish reason are the last ones reported, \<open>stop\<close> when there is none, and the total
  is their sum modulo \<open>2 ^ 32\<close>; every chunk has been given to \<open>emit_llm_chunk\<close> in order, which drops
  those for which the event channel has no room.
\<close>

theorem streamed_response:
  assumes "jget config ''stream'' = Some (JBool True)" "lp_supports_streaming prov"
    and "lp_complete_streaming prov request = Inr (map Inr chunks)"
  shows "call_provider lib prov latency_ms config model request w =
    (NOk \<lparr>lr_content = JString (text_of chunks),
      lr_tool_calls = (if indices_of chunks = {} then None
        else Some (map (\<lambda>ix. part_call lib (part_of (deltas_of ix chunks))) (sorted_list_of_set (indices_of chunks)))),
      lr_model_used = model, lr_input_tokens = last_some (map fst (usages_of chunks)),
      lr_output_tokens = last_some (map snd (usages_of chunks)),
      lr_total_tokens = total_of (last_some (map fst (usages_of chunks))) (last_some (map snd (usages_of chunks))),
      lr_finish_reason = last (''stop'' # finishes_of chunks), lr_latency_ms = latency_ms,
      lr_provider_request_id = None, lr_cost = None\<rparr>,
     fold (emit_llm_chunk (ll_chunk_to_value lib)) chunks w)"
proof -
  let ?acc = "fold stream_chunk chunks stream_start"
  note acc = stream_fold [of chunks]
  have keys: "fst ` set (sa_parts ?acc) = indices_of chunks"
  proof (rule set_eqI)
    fix ix
    show "ix \<in> fst ` set (sa_parts ?acc) \<longleftrightarrow> ix \<in> indices_of chunks"
      using bt_get_None_iff [of ix "sa_parts ?acc"] acc by (simp add: indices_of_def split: if_splits)
  qed
  have parts: "map (part_call lib \<circ> snd) (sa_parts ?acc) =
      map (\<lambda>ix. part_call lib (part_of (deltas_of ix chunks))) (map fst (sa_parts ?acc))"
  proof -
    have "snd e = part_of (deltas_of (fst e) chunks)" if "e \<in> set (sa_parts ?acc)" for e
      using bt_get_mem [of "sa_parts ?acc" "fst e" "snd e"] acc that by (simp split: if_splits)
    then show ?thesis by simp
  qed
  have "sa_parts ?acc = [] \<longleftrightarrow> indices_of chunks = {}" using keys by auto
  with acc parts bt_wf_keys [of "sa_parts ?acc"] keys assms show ?thesis
    by (simp add: call_provider_def nbind_def nlift_def stream_loop_ok nret_def stream_response_def)
qed

theorem streamed_response_witness:
  "\<exists>tcs resp. fst (call_provider plain_lib echo_provider 5 (le_config (echo_exec True)) ''m''
         (build_request plain_lib [] ''p'' ''m'' JNull []) (fresh_world state_new)) = NOk resp
     \<and> lr_content resp = JString ''ab'' \<and> lr_tool_calls resp = Some tcs \<and> map tc_id tcs = [''h'', ''i'']"
proof -
  let ?chunks = "[TextDelta ''a'', ToolCallDelta 1 (Some ''i'') (Some ''f'') [], TextDelta ''b'',
    ToolCallDelta 0 (Some ''h'') (Some ''g'') []]"
  have d: "deltas_of ix ?chunks = (if ix = 1 then [(Some ''i'', Some ''f'', [])]
      else if ix = 0 then [(Some ''h'', Some ''g'', [])] else [])" for ix
    by (simp add: deltas_of_def map_filter_simps)
  have ixs: "indices_of ?chunks = {0, 1}" by (auto simp: indices_of_def d)
  have tx: "text_of ?chunks = ''ab''" by (simp add: text_of_def map_filter_simps)
  have sl: "sorted_list_of_set {0, 1 :: u32} = [0, 1]" by simp
  have cfg: "jget (le_config (echo_exec True)) ''stream'' = Some (JBool True)"
    "lp_supports_streaming echo_provider" "lp_complete_streaming echo_provider (build_request plain_lib [] ''p'' ''m'' JNull []) = Inr (map Inr ?chunks)"
    by (simp_all add: echo_exec_def echo_provider_def)
  show ?thesis
    unfolding streamed_response [OF cfg] ixs sl tx
    by (simp add: d part_call_def part_of_def last_some_def)
qed

end
