(* ===== verification/Tool_Nodes.thy ===== *)
theory Tool_Nodes
  imports Llm_Node Versioning Expression_Eval
begin

text \<open>
  The built-in nodes of \<open>nodes/\<close> that route and answer tool calls: \<open>conditional.rs\<close>,
  \<open>tool_router.rs\<close>, \<open>json_lookup.rs\<close>, \<open>csv_tool.rs\<close>, \<open>jq_node.rs\<close> and \<open>http_node.rs\<close>.  File access, the
  CSV and JSON readers, the jq library, the HTTP client and Unicode case mapping are parameters.
\<close>

section \<open>Numbers\<close>

text \<open>\<open>f64::min\<close> and \<open>f64::max\<close> ignore a \<open>NaN\<close>; division by zero does not occur.\<close>

definition f64_min :: "f64 \<Rightarrow> f64 \<Rightarrow> f64" where
  "f64_min a b = (if a = NaN then b else if b = NaN then a else if f64_lt b a then b else a)"

definition f64_max :: "f64 \<Rightarrow> f64 \<Rightarrow> f64" where
  "f64_max a b = (if a = NaN then b else if b = NaN then a else if f64_lt a b then b else a)"

definition f64_div_nat :: "f64 \<Rightarrow> nat \<Rightarrow> f64" where
  "f64_div_nat a n = (case f64_of_int (int n) of Fin d \<Rightarrow>
     (case a of Fin x \<Rightarrow> f64_round (x / d) | _ \<Rightarrow> a) | _ \<Rightarrow> NaN)"

text \<open>\<open>str::parse::<f64>\<close>: an optional sign, then \<open>inf\<close>, \<open>infinity\<close> or \<open>nan\<close> in any case, or digits with at
  most one point and an optional exponent.\<close>

definition ascii_lower :: "char \<Rightarrow> char" where
  "ascii_lower c = (if CHR ''A'' \<le> c \<and> c \<le> CHR ''Z'' then char_of (of_char c + (32 :: nat)) else c)"

definition parse_exponent :: "string \<Rightarrow> int option" where
  "parse_exponent s =
     (case s of
        [] \<Rightarrow> Some 0
      | c # r \<Rightarrow>
          if ascii_lower c = CHR ''e''
          then (let neg = (peek r = Some (CHR ''-''));
                    ds = (if neg \<or> peek r = Some (CHR ''+'') then tl r else r)
                in if ds \<noteq> [] \<and> list_all is_ascii_digit ds
                   then Some (if neg then - int (digits_val ds) else int (digits_val ds)) else None)
          else None)"

definition parse_number :: "string \<Rightarrow> rat option" where
  "parse_number s =
     (let ip = takeWhile is_ascii_digit s;
          r = dropWhile is_ascii_digit s;
          point = (peek r = Some (CHR ''.''));
          fp = (if point then takeWhile is_ascii_digit (tl r) else []);
          r2 = (if point then dropWhile is_ascii_digit (tl r) else r)
      in if ip = [] \<and> fp = [] then None
         else map_option (\<lambda>e. of_nat (digits_val (ip @ fp)) * 10 powi (e - int (length fp))) (parse_exponent r2))"

definition f64_from_str :: "string \<Rightarrow> f64 option" where
  "f64_from_str s =
     (let neg = (peek s = Some (CHR ''-''));
          r = (if neg \<or> peek s = Some (CHR ''+'') then tl s else s);
          word = map ascii_lower r
      in if word = ''inf'' \<or> word = ''infinity'' then Some (if neg then NegInf else PosInf)
         else if word = ''nan'' then Some NaN
         else map_option (\<lambda>q. f64_round (if neg then - q else q)) (parse_number r))"

text \<open>A number of type \<open>f64\<close> as JSON: infinities and \<open>NaN\<close> become null.\<close>

definition json_of_f64 :: "f64 \<Rightarrow> json" where
  "json_of_f64 x = (case x of Fin _ \<Rightarrow> JNumber (Float x) | _ \<Rightarrow> JNull)"

definition json_of_nat :: "nat \<Rightarrow> json" where
  "json_of_nat n = JNumber (PosInt (of_nat n))"

section \<open>Metadata\<close>

definition node_ui_default :: node_ui_hints where
  "node_ui_default = \<lparr>icon = None, color = None, dynamic_ports = False\<rparr>"

definition plain_port :: "string \<Rightarrow> port_type \<Rightarrow> bool \<Rightarrow> string option \<Rightarrow> port_def" where
  "plain_port name ty required description =
     \<lparr>port_name = name, port_ty = ty, port_required = required, port_default = None,
      port_description = description, port_sensitivity = SensNone\<rparr>"

definition builtin_meta :: "string \<Rightarrow> string \<Rightarrow> string \<Rightarrow> port_def list \<Rightarrow> port_def list \<Rightarrow> json \<Rightarrow> node_meta" where
  "builtin_meta ty lbl cat ins outs schema =
     \<lparr>meta_node_type = ty, label = lbl, category = cat, meta_inputs = ins, meta_outputs = outs,
      config_schema = schema, ui = node_ui_default, execution = execution_hints_default\<rparr>"

definition string_field :: "string \<Rightarrow> json" where
  "string_field description = json_object [(''type'', JString ''string''), (''description'', JString description)]"

definition object_schema :: "(string \<times> json) list \<Rightarrow> string list \<Rightarrow> json" where
  "object_schema props required =
     json_object [(''type'', JString ''object''), (''properties'', json_object props),
       (''required'', JArray (map JString required))]"

definition typed :: "string \<Rightarrow> json" where
  "typed ty = json_object [(''type'', JString ty)]"

definition conditional_meta :: node_meta where
  "conditional_meta = builtin_meta ''conditional'' ''Conditional'' ''routing''
     [plain_port ''data'' PtJson True None] [plain_port ''data'' PtJson True None] (json_object [])"

definition tool_router_meta :: node_meta where
  "tool_router_meta = builtin_meta ''tool_router'' ''Tool Router'' ''routing''
     [plain_port ''tool_calls'' (PtList PtJson) True None] [plain_port ''tool_call'' PtJson True None] (json_object [])"

definition json_lookup_meta :: node_meta where
  "json_lookup_meta = builtin_meta ''json_lookup'' ''JSON Lookup'' ''tools''
     [plain_port ''input'' PtJson True None] [plain_port ''output'' PtJson True None]
     (object_schema [(''data_file'', string_field ''Path to JSON products file'')] [''data_file''])"

definition csv_tool_meta :: node_meta where
  "csv_tool_meta = builtin_meta ''csv_tool'' ''CSV Tool'' ''tools''
     [plain_port ''input'' PtJson True None] [plain_port ''output'' PtJson True None]
     (object_schema [(''data_file'', string_field ''Path to CSV file'')] [''data_file''])"

definition jq_meta :: node_meta where
  "jq_meta = builtin_meta ''jq'' ''JQ Transform'' ''transform''
     [plain_port ''input'' PtJson True (Some ''JSON input to transform'')]
     [plain_port ''output'' PtJson True (Some ''Transformed JSON output'')]
     (object_schema [(''expression'', string_field ''JQ expression to evaluate'')] [''expression''])"

definition http_meta :: node_meta where
  "http_meta = builtin_meta ''http_call'' ''HTTP Call'' ''integration''
     [plain_port ''body'' PtJson False None] [plain_port ''response'' PtJson True None]
     (object_schema [(''url'', typed ''string''), (''method'', typed ''string''), (''headers'', typed ''object''),
        (''auth_secret'', typed ''string'')] [''url''])"

definition human_in_loop_meta :: node_meta where
  "human_in_loop_meta = builtin_meta ''human_in_loop'' ''Human Input'' ''interaction''
     [plain_port ''prompt'' PtJson False None] [plain_port ''response'' PtJson True None] (json_object [])"

definition llm_call_meta :: node_meta where
  "llm_call_meta = builtin_meta ''llm_call'' ''LLM Call'' ''ai''
     [plain_port ''messages'' PtJson False None, plain_port ''context'' PtJson False None]
     [plain_port ''content'' PtJson True None, plain_port ''tool_calls'' (PtList PtJson) True None,
      plain_port ''finish_reason'' PtString True None]
     (object_schema [(''provider'', typed ''string''), (''model'', typed ''string''),
        (''system_prompt'', typed ''string''), (''temperature'', typed ''number''), (''max_tokens'', typed ''integer''),
        (''tools_from_graph'', typed ''boolean''),
        (''tool_filter'', json_object [(''type'', JString ''array''), (''items'', typed ''string'')]),
        (''api_key_secret'', typed ''string''),
        (''response_format'', json_object [(''type'', JString ''object''),
           (''description'', JString ''JSON schema or response format spec for structured output'')]),
        (''stream'', json_object [(''type'', JString ''boolean''),
           (''description'', JString ''Enable token-by-token streaming via LlmChunk events'')])]
       [''provider'', ''model''])"

section \<open>Routing\<close>

definition conditional_run :: "json \<Rightarrow> (node_error, json) result" where
  "conditional_run inputs = Inr inputs"

definition tool_router_run :: "json \<Rightarrow> (node_error, json) result" where
  "tool_router_run inputs =
     Inr (JArray (case inputs of
        JObject m \<Rightarrow> unwrap_or (Option.bind (bt_get ''tool_calls'' m) as_array) []
      | JArray arr \<Rightarrow> arr
      | _ \<Rightarrow> []))"

section \<open>Answers of the tool nodes\<close>

text \<open>What \<open>json_lookup\<close> and \<open>csv_tool\<close> read from a tool call and how they answer.\<close>

definition call_id :: "json \<Rightarrow> string" where
  "call_id inputs = unwrap_or (get_str inputs ''id'') []"

definition call_arguments :: "json \<Rightarrow> json" where
  "call_arguments inputs = unwrap_or (jget inputs ''arguments'') (json_object [])"

definition tool_answer :: "string \<Rightarrow> string \<Rightarrow> string \<Rightarrow> json" where
  "tool_answer tool_call_id name content =
     json_object [(''role'', JString ''tool''), (''tool_call_id'', JString tool_call_id),
       (''name'', JString name), (''content'', JString content)]"

section \<open>Product lookup (\<open>json_lookup.rs\<close>)\<close>

record text_lib =
  tl_to_lowercase :: "string \<Rightarrow> string"
  tl_to_uppercase :: "string \<Rightarrow> string"
  tl_to_string :: "json \<Rightarrow> string"

definition get_f64 :: "json \<Rightarrow> string \<Rightarrow> f64 option" where
  "get_f64 v k = Option.bind (jget v k) as_f64"

definition get_limit :: "json \<Rightarrow> nat \<Rightarrow> nat" where
  "get_limit args d = unwrap_or (map_option unat (Option.bind (jget args ''limit'') as_u64)) d"

definition product_matches :: "text_lib \<Rightarrow> json \<Rightarrow> json \<Rightarrow> bool" where
  "product_matches lib args product =
     ((case get_str args ''query'' of None \<Rightarrow> True
       | Some q \<Rightarrow> let q_lower = tl_to_lowercase lib q
                  in contains_str q_lower (tl_to_lowercase lib (unwrap_or (get_str product ''name'') []))
                   \<or> contains_str q_lower (tl_to_lowercase lib (unwrap_or (get_str product ''description'') [])))
      \<and> (case get_str args ''category'' of None \<Rightarrow> True
         | Some cat \<Rightarrow> map ascii_lower (unwrap_or (get_str product ''category'') []) = map ascii_lower cat)
      \<and> (case (get_f64 args ''max_price'', get_f64 product ''price'') of
           (Some m, Some p) \<Rightarrow> \<not> f64_lt m p | _ \<Rightarrow> True)
      \<and> (case (get_f64 args ''min_price'', get_f64 product ''price'') of
           (Some m, Some p) \<Rightarrow> \<not> f64_lt p m | _ \<Rightarrow> True))"

fun search_loop :: "(json \<Rightarrow> bool) \<Rightarrow> nat \<Rightarrow> json list \<Rightarrow> json list \<Rightarrow> json list" where
  "search_loop matches limit [] results = results"
| "search_loop matches limit (product # products) results =
     (if \<not> matches product then search_loop matches limit products results
      else let results = results @ [product]
           in if limit \<le> length results then results else search_loop matches limit products results)"

definition search_products :: "text_lib \<Rightarrow> json list \<Rightarrow> json \<Rightarrow> (node_error, string) result" where
  "search_products lib products args =
     (let results = search_loop (product_matches lib args) (get_limit args 10) products []
      in Inr (tl_to_string lib (json_object [(''products'', JArray results),
            (''count'', json_of_nat (length results))])))"

definition find_sku :: "string \<Rightarrow> json list \<Rightarrow> json option" where
  "find_sku sku products = List.find (\<lambda>p. get_str p ''sku'' = Some sku) products"

definition not_found :: "string \<Rightarrow> json" where
  "not_found sku = json_object [(''sku'', JString sku), (''error'', JString ''SKU not found'')]"

definition stock_entry :: "json list \<Rightarrow> string \<Rightarrow> json" where
  "stock_entry products sku =
     (case find_sku sku products of
        Some product \<Rightarrow>
          let stock = unwrap_or (Option.bind (jget product ''stock'') as_u64) 0
          in json_object [(''sku'', JString sku), (''name'', JString (unwrap_or (get_str product ''name'') [])),
               (''stock'', JNumber (PosInt stock)), (''in_stock'', JBool (0 < stock))]
      | None \<Rightarrow> not_found sku)"

definition strings_of :: "json list \<Rightarrow> string list" where
  "strings_of arr = List.map_filter as_str arr"

definition check_stock :: "text_lib \<Rightarrow> json list \<Rightarrow> json \<Rightarrow> (node_error, string) result" where
  "check_stock lib products args =
     and_then
       (case get_str args ''sku'' of
          Some sku \<Rightarrow> Inr [sku]
        | None \<Rightarrow>
            (case Option.bind (jget args ''skus'') as_array of
               Some arr \<Rightarrow> Inr (strings_of arr)
             | None \<Rightarrow> Inl (Fatal (''check_stock requires '' @ [CHR 0x27] @ ''sku'' @ [CHR 0x27] @ '' or '' @
                         [CHR 0x27] @ ''skus'' @ [CHR 0x27] @ '' argument''))))
       (\<lambda>skus. Inr (tl_to_string lib (json_object [(''stock'', JArray (map (stock_entry products) skus))])))"

definition price_of :: "json \<Rightarrow> f64" where
  "price_of product = unwrap_or (get_f64 product ''price'') (Fin 0)"

definition price_entry :: "json list \<Rightarrow> string \<Rightarrow> json" where
  "price_entry products sku =
     (case find_sku sku products of
        Some product \<Rightarrow>
          json_object [(''sku'', JString sku), (''name'', JString (unwrap_or (get_str product ''name'') [])),
            (''price'', json_of_f64 (price_of product))]
      | None \<Rightarrow> not_found sku)"

definition prices_of :: "json list \<Rightarrow> string list \<Rightarrow> (string \<times> f64) list" where
  "prices_of products skus =
     List.map_filter (\<lambda>sku. map_option (\<lambda>p. (sku, price_of p)) (find_sku sku products)) skus"

text \<open>\<open>min_by\<close> keeps the first of equal elements and \<open>max_by\<close> the last; incomparable prices count as equal.\<close>

definition min_price :: "(string \<times> f64) list \<Rightarrow> (string \<times> f64) option" where
  "min_price ps = (case ps of [] \<Rightarrow> None
     | p # qs \<Rightarrow> Some (fold (\<lambda>y acc. if f64_lt (snd y) (snd acc) then y else acc) qs p))"

definition max_price :: "(string \<times> f64) list \<Rightarrow> (string \<times> f64) option" where
  "max_price ps = (case ps of [] \<Rightarrow> None
     | p # qs \<Rightarrow> Some (fold (\<lambda>y acc. if f64_lt (snd y) (snd acc) then acc else y) qs p))"

definition price_value :: "(string \<times> f64) option \<Rightarrow> json" where
  "price_value p = (case p of None \<Rightarrow> JNull
     | Some (sku, price) \<Rightarrow> json_object [(''sku'', JString sku), (''price'', json_of_f64 price)])"

definition compare_prices :: "text_lib \<Rightarrow> json list \<Rightarrow> json \<Rightarrow> (node_error, string) result" where
  "compare_prices lib products args =
     and_then (ok_or (Option.bind (jget args ''skus'') as_array)
         (Fatal (''compare_prices requires '' @ [CHR 0x27] @ ''skus'' @ [CHR 0x27] @ '' array argument'')))
       (\<lambda>arr. let skus = strings_of arr; prices = prices_of products skus
         in Inr (tl_to_string lib (json_object [(''comparison'', JArray (map (price_entry products) skus)),
              (''cheapest'', price_value (min_price prices)),
              (''most_expensive'', price_value (max_price prices))])))"

text \<open>\<open>load_products\<close> over the outcome of reading the file and of parsing it as an array.\<close>

record 'f product_files =
  pf_read :: "string \<Rightarrow> (string, 'f) result"
  pf_parse :: "'f \<Rightarrow> (string, json list) result"

definition load_products :: "'f product_files \<Rightarrow> string \<Rightarrow> (node_error, json list) result" where
  "load_products fs path =
     and_then (map_err (\<lambda>e. Fatal (''failed to read JSON file: '' @ e)) (pf_read fs path)) (\<lambda>data.
       map_err (\<lambda>e. Fatal (''failed to parse JSON: '' @ e)) (pf_parse fs data))"

definition data_file_of :: "string \<Rightarrow> json \<Rightarrow> (node_error, string) result" where
  "data_file_of node config =
     ok_or (get_str config ''data_file'')
       (Fatal (node @ '' requires '' @ [CHR 0x27] @ ''data_file'' @ [CHR 0x27] @ '' in config''))"

definition json_lookup_run :: "text_lib \<Rightarrow> 'f product_files \<Rightarrow> json \<Rightarrow> json \<Rightarrow> (node_error, json) result" where
  "json_lookup_run lib fs inputs config =
     (let name = unwrap_or (get_str inputs ''tool_name'') ''search_products'';
          args = call_arguments inputs
      in and_then (data_file_of ''json_lookup'' config) (\<lambda>data_file.
         and_then (load_products fs data_file) (\<lambda>products.
         and_then
           (if name = ''search_products'' then search_products lib products args
            else if name = ''check_stock'' then check_stock lib products args
            else if name = ''compare_prices'' then compare_prices lib products args
            else Inl (Fatal (''unknown json_lookup operation: '' @ name)))
           (\<lambda>content. Inr (tool_answer (call_id inputs) name content)))))"

section \<open>Tables (\<open>csv_tool.rs\<close>)\<close>

text \<open>What the reader yields for a file: its headers and its records, each of which may be malformed.\<close>

record csv_file =
  csv_headers :: "(string, string list) result"
  csv_records :: "(string, string list) result list"

type_synonym csv_open = "(string, csv_file) result"

definition open_csv :: "csv_open \<Rightarrow> (node_error, csv_file) result" where
  "open_csv file = map_err (\<lambda>e. Fatal (''failed to open CSV: '' @ e)) file"

definition headers_of :: "csv_file \<Rightarrow> (node_error, string list) result" where
  "headers_of f = map_err (\<lambda>e. Fatal (''failed to read CSV headers: '' @ e)) (csv_headers f)"

definition record_error :: "string \<Rightarrow> node_error" where
  "record_error e = Fatal (''failed to read CSV record: '' @ e)"

definition row_of :: "string list \<Rightarrow> string list \<Rightarrow> (string, string) btree" where
  "row_of headers flds = bt_of_list (zip headers flds)"

definition row_value :: "(string, string) btree \<Rightarrow> json" where
  "row_value row = JObject (map (\<lambda>(k, v). (k, JString v)) row)"

fun sample_rows ::
  "string list \<Rightarrow> (string, string list) result list \<Rightarrow> (node_error, (string, string) btree list) result" where
  "sample_rows headers [] = Inr []"
| "sample_rows headers (Inl e # rs) = Inl (record_error e)"
| "sample_rows headers (Inr flds # rs) =
     and_then (sample_rows headers rs) (\<lambda>rows. Inr (row_of headers flds # rows))"

text \<open>The file is opened a second time to count its rows, malformed ones included.\<close>

definition count_rows :: "csv_open \<Rightarrow> (node_error, nat) result" where
  "count_rows file = and_then (open_csv file) (\<lambda>f. Inr (length (csv_records f)))"

definition list_columns :: "text_lib \<Rightarrow> csv_open \<Rightarrow> csv_open \<Rightarrow> (node_error, string) result" where
  "list_columns lib file again =
     and_then (open_csv file) (\<lambda>f.
     and_then (headers_of f) (\<lambda>headers.
     and_then (sample_rows headers (take 3 (csv_records f))) (\<lambda>samples.
     and_then (count_rows again) (\<lambda>n.
       Inr (tl_to_string lib (json_object [(''columns'', JArray (map JString headers)),
         (''sample_rows'', JArray (map row_value samples)), (''row_count'', json_of_nat n)]))))))"

fun index_of :: "'a \<Rightarrow> 'a list \<Rightarrow> nat option" where
  "index_of x [] = None"
| "index_of x (y # ys) = (if y = x then Some 0 else map_option Suc (index_of x ys))"

definition quoted_missing :: "string \<Rightarrow> string \<Rightarrow> node_error" where
  "quoted_missing what column = Fatal (what @ [CHR 0x27] @ column @ [CHR 0x27] @ '' not found in CSV'')"

definition requires :: "string \<Rightarrow> string \<Rightarrow> node_error" where
  "requires what arg = Fatal (what @ '' requires '' @ [CHR 0x27] @ arg @ [CHR 0x27] @ '' argument'')"

definition field_at :: "string list \<Rightarrow> nat \<Rightarrow> string option" where
  "field_at flds i = (if i < length flds then Some (flds ! i) else None)"

definition compare_fields :: "(f64 \<Rightarrow> f64 \<Rightarrow> bool) \<Rightarrow> string \<Rightarrow> string \<Rightarrow> bool" where
  "compare_fields p a b = (case (f64_from_str a, f64_from_str b) of (Some x, Some y) \<Rightarrow> p x y | _ \<Rightarrow> False)"

definition field_matches :: "text_lib \<Rightarrow> string \<Rightarrow> string \<Rightarrow> string \<Rightarrow> (node_error, bool) result" where
  "field_matches lib operator v f =
     (if operator = ''eq'' then Inr (f = v)
      else if operator = ''contains'' then Inr (contains_str (tl_to_lowercase lib v) (tl_to_lowercase lib f))
      else if operator = ''gt'' then Inr (compare_fields (\<lambda>a b. f64_lt b a) f v)
      else if operator = ''lt'' then Inr (compare_fields f64_lt f v)
      else if operator = ''gte'' then Inr (compare_fields (\<lambda>a b. f64_le b a) f v)
      else if operator = ''lte'' then Inr (compare_fields f64_le f v)
      else Inl (Fatal (''unknown operator: '' @ operator)))"

fun query_loop ::
  "text_lib \<Rightarrow> string list \<Rightarrow> nat \<Rightarrow> string \<Rightarrow> string \<Rightarrow> nat \<Rightarrow> (string, string list) result list
   \<Rightarrow> (string, string) btree list \<Rightarrow> (node_error, (string, string) btree list) result" where
  "query_loop lib headers col operator v limit [] matches = Inr matches"
| "query_loop lib headers col operator v limit (Inl e # rs) matches = Inl (record_error e)"
| "query_loop lib headers col operator v limit (Inr flds # rs) matches =
     and_then (field_matches lib operator v (unwrap_or (field_at flds col) [])) (\<lambda>matched.
       if matched
       then let matches = matches @ [row_of headers flds]
            in if limit \<le> length matches then Inr matches
               else query_loop lib headers col operator v limit rs matches
       else query_loop lib headers col operator v limit rs matches)"

definition value_text :: "text_lib \<Rightarrow> json \<Rightarrow> string" where
  "value_text lib v = (case v of JString s \<Rightarrow> s | _ \<Rightarrow> tl_to_string lib v)"

definition csv_query :: "text_lib \<Rightarrow> csv_open \<Rightarrow> json \<Rightarrow> (node_error, string) result" where
  "csv_query lib file args =
     and_then (ok_or (get_str args ''column'') (requires ''query'' ''column'')) (\<lambda>column.
     and_then (ok_or (jget args ''value'') (requires ''query'' ''value'')) (\<lambda>v.
     and_then (open_csv file) (\<lambda>f.
     and_then (headers_of f) (\<lambda>headers.
     and_then (ok_or (index_of column headers) (quoted_missing ''column '' column)) (\<lambda>col.
     and_then (query_loop lib headers col (unwrap_or (get_str args ''operator'') ''eq'') (value_text lib v)
         (get_limit args 20) (csv_records f) []) (\<lambda>matches.
       Inr (tl_to_string lib (json_object [(''matches'', JArray (map row_value matches)),
         (''count'', json_of_nat (length matches))]))))))))"

text \<open>\<open>groups.entry(key).or_default().push(x)\<close>.\<close>

definition group_push :: "string \<Rightarrow> f64 \<Rightarrow> (string, f64 list) btree \<Rightarrow> (string, f64 list) btree" where
  "group_push key x groups = bt_insert key (unwrap_or (bt_get key groups) [] @ [x]) groups"

fun group_loop ::
  "string \<Rightarrow> nat \<Rightarrow> nat option \<Rightarrow> (string, string list) result list \<Rightarrow> (string, f64 list) btree
   \<Rightarrow> (node_error, (string, f64 list) btree) result" where
  "group_loop operation col grp [] groups = Inr groups"
| "group_loop operation col grp (Inl e # rs) groups = Inl (record_error e)"
| "group_loop operation col grp (Inr flds # rs) groups =
     (let f = unwrap_or (field_at flds col) [];
          key = (case grp of Some gi \<Rightarrow> unwrap_or (field_at flds gi) ''unknown'' | None \<Rightarrow> ''_all'')
      in group_loop operation col grp rs
           (if operation = ''count'' then group_push key (Fin 1) groups
            else case f64_from_str f of Some x \<Rightarrow> group_push key x groups | None \<Rightarrow> groups))"

definition f64_sum :: "f64 list \<Rightarrow> f64" where
  "f64_sum xs = fold (\<lambda>x acc. f64_add acc x) xs (Fin 0)"

definition compute_aggregate :: "string \<Rightarrow> f64 list \<Rightarrow> (node_error, json) result" where
  "compute_aggregate operation xs =
     (if xs = [] then Inr JNull
      else if operation = ''sum'' then Inr (json_of_f64 (f64_sum xs))
      else if operation = ''avg'' then Inr (json_of_f64 (f64_div_nat (f64_sum xs) (length xs)))
      else if operation = ''min'' then Inr (json_of_f64 (fold (\<lambda>x acc. f64_min acc x) xs PosInf))
      else if operation = ''max'' then Inr (json_of_f64 (fold (\<lambda>x acc. f64_max acc x) xs NegInf))
      else if operation = ''count'' then Inr (json_of_nat (length xs))
      else Inl (Fatal (''unknown aggregate operation: '' @ operation)))"

fun aggregate_groups ::
  "string \<Rightarrow> (string, f64 list) btree \<Rightarrow> (node_error, (string, json) btree) result" where
  "aggregate_groups operation [] = Inr []"
| "aggregate_groups operation ((key, xs) # groups) =
     and_then (compute_aggregate operation xs) (\<lambda>v.
     and_then (aggregate_groups operation groups) (\<lambda>rest. Inr ((key, v) # rest)))"

definition csv_aggregate :: "text_lib \<Rightarrow> csv_open \<Rightarrow> json \<Rightarrow> (node_error, string) result" where
  "csv_aggregate lib file args =
     and_then (ok_or (get_str args ''column'') (requires ''aggregate'' ''column'')) (\<lambda>column.
     and_then (ok_or (get_str args ''operation'') (requires ''aggregate'' ''operation'')) (\<lambda>operation.
     and_then (open_csv file) (\<lambda>f.
     and_then (headers_of f) (\<lambda>headers.
     and_then (ok_or (index_of column headers) (quoted_missing ''column '' column)) (\<lambda>col.
       (case get_str args ''group_by'' of
          Some g \<Rightarrow>
            and_then (ok_or (index_of g headers) (quoted_missing ''group_by column '' g)) (\<lambda>gi.
            and_then (group_loop operation col (Some gi) (csv_records f) []) (\<lambda>groups.
            and_then (aggregate_groups operation groups) (\<lambda>results.
              Inr (tl_to_string lib (json_object [(''operation'', JString operation), (''column'', JString column),
                (''group_by'', JString g), (''results'', JObject results)])))))
        | None \<Rightarrow>
            and_then (group_loop operation col None (csv_records f) []) (\<lambda>groups.
            and_then (compute_aggregate operation (unwrap_or (bt_get ''_all'' groups) [])) (\<lambda>agg.
              Inr (tl_to_string lib (json_object [(''operation'', JString operation), (''column'', JString column),
                (''result'', agg)]))))))))))"

definition csv_tool_run ::
  "text_lib \<Rightarrow> (string \<Rightarrow> nat \<Rightarrow> csv_open) \<Rightarrow> json \<Rightarrow> json \<Rightarrow> (node_error, json) result" where
  "csv_tool_run lib reader inputs config =
     (let name = unwrap_or (get_str inputs ''tool_name'') ''query'';
          args = call_arguments inputs
      in and_then (data_file_of ''csv_tool'' config) (\<lambda>path.
         and_then
           (if name = ''list_columns'' then list_columns lib (reader path 0) (reader path 1)
            else if name = ''query'' then csv_query lib (reader path 0) args
            else if name = ''aggregate'' then csv_aggregate lib (reader path 0) args
            else Inl (Fatal (''unknown csv_tool operation: '' @ name)))
           (\<lambda>content. Inr (tool_answer (call_id inputs) name content))))"

section \<open>Transformation and HTTP (\<open>jq_node.rs\<close>, \<open>http_node.rs\<close>)\<close>

text \<open>The outcome of the blocking task: it panicked, jq failed, or jq printed a text.\<close>

datatype jq_outcome = JqJoinError string | JqError string | JqText string

record jq_lib =
  jq_to_string :: "json \<Rightarrow> (string, string) result"
  jq_run :: "string \<Rightarrow> string \<Rightarrow> jq_outcome"
  jq_trim :: "string \<Rightarrow> string"
  jq_from_str :: "string \<Rightarrow> (string, json) result"

definition jq_node_run :: "jq_lib \<Rightarrow> json \<Rightarrow> json \<Rightarrow> (node_error, json) result" where
  "jq_node_run lib inputs config =
     and_then (ok_or (get_str config ''expression'') (Validation ''config.expression is required'')) (\<lambda>expression.
     and_then (map_err (\<lambda>e. Fatal (''serialize input: '' @ e)) (jq_to_string lib inputs)) (\<lambda>input_str.
       (case jq_run lib expression input_str of
          JqJoinError e \<Rightarrow> Inl (Fatal (''jq task join: '' @ e))
        | JqError e \<Rightarrow> Inl (Fatal (''jq error: '' @ e))
        | JqText out \<Rightarrow> map_err (\<lambda>e. Fatal (''jq output parse: '' @ e)) (jq_from_str lib (jq_trim lib out)))))"

record http_request =
  hr_method :: string
  hr_url :: string
  hr_headers :: "(string \<times> string) list"
  hr_body :: "json option"

text \<open>A response: its status code, the text of its status and the outcome of reading its body.\<close>

record http_response =
  hs_status :: nat
  hs_status_text :: string
  hs_body :: "(string, string) result"

record http_lib =
  hl_uppercase :: "string \<Rightarrow> string"
  hl_valid_method :: "string \<Rightarrow> bool"
  hl_send :: "http_request \<Rightarrow> (string, http_response) result"
  hl_from_str :: "string \<Rightarrow> json option"

definition http_method :: "http_lib \<Rightarrow> json \<Rightarrow> string" where
  "http_method lib config =
     (let m = hl_uppercase lib (unwrap_or (get_str config ''method'') ''GET'')
      in if hl_valid_method lib m then m else ''GET'')"

definition custom_headers :: "json \<Rightarrow> (string \<times> string) list" where
  "custom_headers config =
     (case jget config ''headers'' of
        Some (JObject m) \<Rightarrow> List.map_filter (\<lambda>(k, v). map_option (\<lambda>s. (k, s)) (as_str v)) m
      | _ \<Rightarrow> [])"

definition auth_header :: "'s node_ctx \<Rightarrow> json \<Rightarrow> ('s node_world, (string \<times> string) list) node_io" where
  "auth_header ctx config =
     (case get_str config ''auth_secret'' of
        None \<Rightarrow> nret []
      | Some secret_name \<Rightarrow>
          nbind (ctx_secret ctx secret_name) (\<lambda>key. nret [(''Authorization'', ''Bearer '' @ key)]))"

definition build_http_request :: "http_lib \<Rightarrow> json \<Rightarrow> json \<Rightarrow> string \<Rightarrow> (string \<times> string) list \<Rightarrow> http_request" where
  "build_http_request lib inputs config url auth =
     (let m = http_method lib config
      in \<lparr>hr_method = m, hr_url = url, hr_headers = custom_headers config @ auth,
          hr_body = (if m = ''POST'' \<or> m = ''PUT'' \<or> m = ''PATCH'' then Some inputs else None)\<rparr>)"

definition http_answer :: "http_lib \<Rightarrow> http_response \<Rightarrow> (node_error, json) result" where
  "http_answer lib response =
     (if 200 \<le> hs_status response \<and> hs_status response < 300
      then and_then (map_err (\<lambda>e. Retryable (''failed to read response body: '' @ e)) (hs_body response))
        (\<lambda>body. Inr (json_object [(''response'', unwrap_or (hl_from_str lib body) (JString body))]))
      else if 500 \<le> hs_status response \<and> hs_status response < 600
      then Inl (Retryable (''HTTP '' @ hs_status_text response))
      else Inl (Fatal (''HTTP '' @ hs_status_text response)))"

definition http_node_run :: "http_lib \<Rightarrow> json \<Rightarrow> json \<Rightarrow> 's node_ctx \<Rightarrow> ('s node_world, json) node_io" where
  "http_node_run lib inputs config ctx =
     nbind (nlift (ok_or (get_str config ''url'') (Validation ''missing required config field: url''))) (\<lambda>url.
     nbind (auth_header ctx config) (\<lambda>auth.
     nbind (nlift (map_err (\<lambda>e. Retryable (''HTTP request failed: '' @ e))
         (hl_send lib (build_http_request lib inputs config url auth)))) (\<lambda>response.
       nlift (http_answer lib response))))"

section \<open>Bounded searches\<close>

lemma search_loop_take:
  "length results < max 1 limit \<Longrightarrow>
     search_loop p limit products results = take (max 1 limit) (results @ filter p products)"
proof (induction p limit products results rule: search_loop.induct)
  case (2 p limit product products results)
  then show ?case by (cases "limit \<le> Suc (length results)") (auto simp: max_def take_Cons' split: if_splits)
qed simp

lemma query_loop_take:
  assumes "\<And>f. field_matches lib operator v f = Inr (q f)"
  shows "length matches < max 1 limit \<Longrightarrow>
     query_loop lib headers col operator v limit (map Inr recs) matches =
       Inr (take (max 1 limit) (matches @ map (row_of headers)
         (filter (\<lambda>flds. q (unwrap_or (field_at flds col) [])) recs)))"
proof (induction recs arbitrary: matches)
  case (Cons flds recs)
  then show ?case by (cases "limit \<le> Suc (length matches)") (auto simp: assms max_def take_Cons')
qed simp

section \<open>Aggregation\<close>

definition known_operation :: "string \<Rightarrow> bool" where
  "known_operation operation \<longleftrightarrow> operation \<in> {''sum'', ''avg'', ''min'', ''max'', ''count''}"

text \<open>The numbers a group collects from well-formed records, in their order.\<close>

definition group_key :: "nat option \<Rightarrow> string list \<Rightarrow> string" where
  "group_key grp flds = (case grp of Some gi \<Rightarrow> unwrap_or (field_at flds gi) ''unknown'' | None \<Rightarrow> ''_all'')"

definition sample_of :: "string \<Rightarrow> nat \<Rightarrow> string list \<Rightarrow> f64 option" where
  "sample_of operation col flds =
     (if operation = ''count'' then Some (Fin 1) else f64_from_str (unwrap_or (field_at flds col) []))"

definition group_samples :: "string \<Rightarrow> nat \<Rightarrow> nat option \<Rightarrow> string list list \<Rightarrow> string \<Rightarrow> f64 list" where
  "group_samples operation col grp recs key =
     List.map_filter (sample_of operation col) (filter (\<lambda>flds. group_key grp flds = key) recs)"

lemma group_loop_step:
  "group_loop operation col grp (Inr flds # rs) groups =
     group_loop operation col grp rs (case sample_of operation col flds of
        None \<Rightarrow> groups | Some x \<Rightarrow> group_push (group_key grp flds) x groups)"
  by (simp add: group_key_def sample_of_def Let_def split: option.splits)

lemma group_loop_samples:
  "bt_wf groups \<Longrightarrow> (\<forall>key xs. bt_get key groups = Some xs \<longrightarrow> xs \<noteq> []) \<Longrightarrow>
   \<exists>gs. group_loop operation col grp (map Inr recs) groups = Inr gs \<and> bt_wf gs
     \<and> (\<forall>key. bt_get key gs =
          (let xs = unwrap_or (bt_get key groups) [] @ group_samples operation col grp recs key
           in if xs = [] then None else Some xs))"
proof (induction recs arbitrary: groups)
  case Nil
  then show ?case by (auto simp: group_samples_def map_filter_simps Let_def split: option.splits)
      (metis option.exhaust unwrap_or.simps)+
next
  case (Cons flds recs)
  show ?case
  proof (cases "sample_of operation col flds")
    case None
    then have "group_samples operation col grp (flds # recs) = group_samples operation col grp recs"
      by (auto simp: group_samples_def map_filter_simps fun_eq_iff)
    with Cons None show ?thesis by (simp add: group_loop_step del: group_loop.simps)
  next
    case (Some x)
    let ?k = "group_key grp flds"
    have s: "group_samples operation col grp (flds # recs) key =
        (if key = ?k then x # group_samples operation col grp recs key else group_samples operation col grp recs key)" for key
      using Some by (auto simp: group_samples_def map_filter_simps)
    have "\<forall>key xs. bt_get key (group_push ?k x groups) = Some xs \<longrightarrow> xs \<noteq> []"
      using Cons.prems(2) by (auto simp: group_push_def)
    with Cons.IH [of "group_push ?k x groups"] Cons.prems(1) Some show ?thesis
      by (auto simp: group_loop_step s group_push_def Let_def simp del: group_loop.simps)
  qed
qed

lemma known_aggregate: "known_operation operation \<Longrightarrow> \<exists>v. compute_aggregate operation xs = Inr v"
  by (auto simp: known_operation_def compute_aggregate_def)

lemma aggregate_groups_get:
  "known_operation operation \<Longrightarrow> \<exists>rs. aggregate_groups operation groups = Inr rs \<and> map fst rs = map fst groups
     \<and> (\<forall>key. bt_get key rs = map_option (\<lambda>xs. projr (compute_aggregate operation xs)) (bt_get key groups))"
proof (induction groups)
  case (Cons g groups)
  obtain key xs where g: "g = (key, xs)" by force
  obtain v where "compute_aggregate operation xs = Inr v" using known_aggregate [OF Cons.prems] by blast
  with Cons g show ?case by auto
qed simp

section \<open>Properties\<close>

text \<open>
  A table query returns, as rows keyed by the headers, the first matching records in the order of
  the file, at most as many as the limit and never fewer than one when the limit is zero, for a known
  operator and a well-formed file.
\<close>

theorem csv_query_result:
  assumes "get_str args ''column'' = Some column" "jget args ''value'' = Some v"
    and "index_of column headers = Some col"
    and "\<And>f. field_matches lib (unwrap_or (get_str args ''operator'') ''eq'') (value_text lib v) f = Inr (q f)"
  shows "csv_query lib (Inr \<lparr>csv_headers = Inr headers, csv_records = map Inr recs\<rparr>) args =
    (let rows = map (row_of headers) (take (max 1 (get_limit args 20))
           (filter (\<lambda>flds. q (unwrap_or (field_at flds col) [])) recs))
     in Inr (tl_to_string lib (json_object [(''matches'', JArray (map row_value rows)),
          (''count'', json_of_nat (length rows))])))"
  using assms query_loop_take [OF assms(4), of "[]" "get_limit args 20" headers col recs]
  by (simp add: csv_query_def open_csv_def headers_of_def Let_def take_map)

text \<open>
  Aggregation by group: for a known operation and a well-formed file the answer has one entry per
  group that has a number, and each entry aggregates exactly the numbers of the records of its
  group in their order, records whose field is not a number being skipped (unless records are counted).
\<close>

theorem csv_aggregate_result:
  assumes "get_str args ''column'' = Some column" "get_str args ''operation'' = Some operation"
    and "get_str args ''group_by'' = Some g" "index_of column headers = Some col" "index_of g headers = Some gi"
    and "known_operation operation"
  shows "\<exists>results. csv_aggregate lib (Inr \<lparr>csv_headers = Inr headers, csv_records = map Inr recs\<rparr>) args =
      Inr (tl_to_string lib (json_object [(''operation'', JString operation), (''column'', JString column),
        (''group_by'', JString g), (''results'', JObject results)]))
    \<and> bt_wf results
    \<and> (\<forall>key. bt_get key results =
         (let xs = group_samples operation col (Some gi) recs key
          in if xs = [] then None else Some (projr (compute_aggregate operation xs))))"
proof -
  obtain gs where gs: "group_loop operation col (Some gi) (map Inr recs) [] = Inr gs" "bt_wf gs"
    "\<And>key. bt_get key gs = (let xs = group_samples operation col (Some gi) recs key in if xs = [] then None else Some xs)"
    using group_loop_samples [of "[]" operation col "Some gi" recs] by auto
  obtain rs where rs: "aggregate_groups operation gs = Inr rs" "map fst rs = map fst gs"
    "\<And>key. bt_get key rs = map_option (\<lambda>xs. projr (compute_aggregate operation xs)) (bt_get key gs)"
    using aggregate_groups_get [OF assms(6), of gs] by blast
  have "bt_wf rs" using gs(2) rs(2) by (simp add: bt_wf_def)
  with assms gs rs show ?thesis
    by (auto simp: csv_aggregate_def open_csv_def headers_of_def Let_def)
qed

text \<open>
  Product search returns the first matching products in catalogue order, at most as many as the limit
  and never fewer than one when the limit is zero.
\<close>

theorem search_products_result:
  "search_products lib products args =
     (let results = take (max 1 (get_limit args 10)) (filter (product_matches lib args) products)
      in Inr (tl_to_string lib (json_object [(''products'', JArray results), (''count'', json_of_nat (length results))])))"
  using search_loop_take [of "[]" "get_limit args 10" "product_matches lib args" products]
  by (simp add: search_products_def)

text \<open>The answer of a tool node to a call.\<close>

lemma call_value_get:
  "get_str (call_value tc) ''id'' = Some (tc_id tc)" "get_str (call_value tc) ''tool_name'' = Some (tc_tool_name tc)"
  "jget (call_value tc) ''arguments'' = Some (tc_arguments tc)"
  by (simp_all add: call_value_def json_object_def bt_of_list_def get_str_def)

lemma tool_answer_get:
  "jget (tool_answer i n c) ''tool_results'' = None" "jget (tool_answer i n c) ''tool_call_id'' = Some (JString i)"
  "jget (tool_answer i n c) ''name'' = Some (JString n)" "jget (tool_answer i n c) ''content'' = Some (JString c)"
  by (simp_all add: tool_answer_def json_object_def bt_of_list_def)

definition answers_call :: "llm_tool_call \<Rightarrow> json \<Rightarrow> bool" where
  "answers_call tc out \<longleftrightarrow> (\<exists>content. out = tool_answer (tc_id tc) (tc_tool_name tc) content)"

lemma json_lookup_answers: "json_lookup_run lib fs (call_value tc) config = Inr out \<Longrightarrow> answers_call tc out"
  by (auto simp: json_lookup_run_def answers_call_def call_id_def call_value_get Let_def)

lemma csv_tool_answers: "csv_tool_run lib reader (call_value tc) config = Inr out \<Longrightarrow> answers_call tc out"
  by (auto simp: csv_tool_run_def answers_call_def call_id_def call_value_get Let_def)

text \<open>
  Tool calls make the round trip through a flow: the router takes exactly the calls of the model out of
  the output of the LLM node; a product lookup or table node that answers such a call echoes its id
  and name; and when the answers come back to the LLM node, one by one or as the array of a fan-in,
  exactly they are appended to the conversation.
\<close>

theorem tool_call_round_trip:
  assumes "lr_tool_calls response = Some tcs"
    and "list_all2 (\<lambda>tc out. json_lookup_run lib fs (call_value tc) config = Inr out
           \<or> csv_tool_run lib reader (call_value tc) config = Inr out) tcs outs"
  shows "tool_router_run (llm_output response) = Inr (JArray (map call_value tcs))
    \<and> list_all2 answers_call tcs outs
    \<and> cycle_messages (JArray outs) = outs \<and> list_all (\<lambda>out. cycle_messages out = [out]) outs"
proof -
  have answers: "list_all2 answers_call tcs outs"
    using assms(2) by (rule list_all2_mono) (auto intro: json_lookup_answers csv_tool_answers)
  have "cycle_messages out = [out]" if "answers_call tc out" for tc out
    using that by (auto simp: answers_call_def cycle_messages_def tool_answer_get)
  then have "list_all (\<lambda>out. cycle_messages out = [out]) outs"
    by (induction rule: list_all2_induct [OF answers]) simp_all
  with answers show ?thesis
    by (simp add: assms(1) tool_router_run_def llm_output_def json_object_def bt_of_list_def cycle_messages_def
        raw_inputs_def)
qed

section \<open>Witnesses\<close>

definition demo_text :: text_lib where
  "demo_text = \<lparr>tl_to_lowercase = map ascii_lower, tl_to_uppercase = id, tl_to_string = (\<lambda>_. ''text'')\<rparr>"

definition demo_table :: csv_file where
  "demo_table = \<lparr>csv_headers = Inr [''a'', ''b''],
     csv_records = map Inr [[''x'', ''1''], [''y'', ''2''], [''x'', ''3'']]\<rparr>"

definition demo_query :: json where
  "demo_query = JObject [(''column'', JString ''a''), (''limit'', json_of_nat 0), (''value'', JString ''x'')]"

theorem csv_query_result_witness:
  "\<exists>rows. csv_query demo_text (Inr demo_table) demo_query =
     Inr (tl_to_string demo_text (json_object [(''matches'', JArray (map row_value rows)), (''count'', json_of_nat 1)]))
     \<and> rows = [row_of [''a'', ''b''] [''x'', ''1'']]"
proof -
  have m: "field_matches demo_text (unwrap_or (get_str demo_query ''operator'') ''eq'')
      (value_text demo_text (JString ''x'')) f = Inr (f = ''x'')" for f
    by (simp add: field_matches_def demo_query_def get_str_def value_text_def)
  have "get_str demo_query ''column'' = Some ''a''" "jget demo_query ''value'' = Some (JString ''x'')"
    "index_of ''a'' [''a'', ''b''] = Some 0"
    by (simp_all add: demo_query_def get_str_def)
  from csv_query_result [OF this m, where recs = "[[''x'', ''1''], [''y'', ''2''], [''x'', ''3'']]"]
  show ?thesis by (simp add: demo_table_def demo_query_def get_limit_def json_of_nat_def field_at_def)
qed

theorem csv_aggregate_result_witness:
  "\<exists>results. csv_aggregate demo_text (Inr demo_table)
       (JObject [(''column'', JString ''b''), (''group_by'', JString ''a''), (''operation'', JString ''count'')]) =
     Inr (tl_to_string demo_text (json_object [(''operation'', JString ''count''), (''column'', JString ''b''),
        (''group_by'', JString ''a''), (''results'', JObject results)]))
     \<and> bt_get ''x'' results = Some (json_of_nat 2) \<and> bt_get ''z'' results = None"
proof -
  let ?args = "JObject [(''column'', JString ''b''), (''group_by'', JString ''a''), (''operation'', JString ''count'')]"
  let ?recs = "[[''x'', ''1''], [''y'', ''2''], [''x'', ''3'']]"
  have a: "get_str ?args ''column'' = Some ''b''" "get_str ?args ''operation'' = Some ''count''"
    "get_str ?args ''group_by'' = Some ''a''" "index_of ''b'' [''a'', ''b''] = Some 1" "index_of ''a'' [''a'', ''b''] = Some 0"
    "known_operation ''count''"
    by (simp_all add: get_str_def known_operation_def)
  have "group_samples ''count'' 1 (Some 0) ?recs ''x'' = [Fin 1, Fin 1]" "group_samples ''count'' 1 (Some 0) ?recs ''z'' = []"
    by (simp_all add: group_samples_def group_key_def sample_of_def field_at_def map_filter_simps)
  with csv_aggregate_result [OF a, where recs = ?recs and lib = demo_text] show ?thesis
    by (auto simp: demo_table_def compute_aggregate_def Let_def numeral_2_eq_2)
qed

definition demo_call :: llm_tool_call where
  "demo_call = \<lparr>tc_id = ''c1'', tc_tool_name = ''list_columns'', tc_arguments = JNull\<rparr>"

definition demo_answer :: llm_response where
  "demo_answer = \<lparr>lr_content = JNull, lr_tool_calls = Some [demo_call], lr_model_used = ''m'', lr_input_tokens = None,
     lr_output_tokens = None, lr_total_tokens = None, lr_finish_reason = ''tool_calls'', lr_latency_ms = 0,
     lr_provider_request_id = None, lr_cost = None\<rparr>"

theorem tool_call_round_trip_witness:
  "\<exists>out. csv_tool_run demo_text (\<lambda>_ _. Inr demo_table) (call_value demo_call)
       (JObject [(''data_file'', JString ''f'')]) = Inr out
     \<and> answers_call demo_call out \<and> cycle_messages (JArray [out]) = [out]"
proof -
  let ?config = "JObject [(''data_file'', JString ''f'')]"
  let ?fs = "\<lparr>pf_read = (\<lambda>_. Inl []), pf_parse = (\<lambda>_. Inl [])\<rparr> :: unit product_files"
  obtain out where out: "csv_tool_run demo_text (\<lambda>_ _. Inr demo_table) (call_value demo_call) ?config = Inr out"
    using call_value_get(2) [of demo_call]
    by (simp add: csv_tool_run_def data_file_of_def Let_def)
      (simp add: demo_call_def get_str_def list_columns_def open_csv_def headers_of_def demo_table_def count_rows_def)
  have "lr_tool_calls demo_answer = Some [demo_call]" by (simp add: demo_answer_def)
  from tool_call_round_trip [OF this, of demo_text ?fs ?config "\<lambda>_ _. Inr demo_table" "[out]"] out
  show ?thesis by auto
qed

end
