(* ===== verification/File_Run_Store.thy ===== *)
theory File_Run_Store
  imports Run_Store
begin

text \<open>
  \<open>defaults/file_run_store.rs\<close>: one JSONL file per run, rewritten through a temporary file that is
  renamed over it.  The JSON codec of events is a parameter (a line type \<open>'l\<close>, \<open>ser\<close>, \<open>de\<close> and
  the test for blank lines), the outcome of every system call of an operation is given by \<open>io\<close>,
  and every early return of the source is a branch.  The stat calls behind \<open>exists()\<close> and \<open>is_dir()\<close>
  are among them: the source reads a failing one as an absent file.  The store keeps the contract of
  \<open>Run_Store\<close> under the round-trip law of the codec, whatever other system calls fail, as long as
  the stat calls succeed; a failing one loses the log (\<open>failed_stat_loses_log\<close>).
\<close>

section \<open>The file system under \<open>runs/\<close>\<close>

text \<open>Run directories in \<open>read_dir\<close> order, \<open>events.jsonl\<close> and \<open>events.jsonl.tmp\<close> by run, as lists of lines.\<close>

record 'l file_store =
  fs_dirs :: "string list"
  fs_files :: "(string \<times> 'l list) list"
  fs_temps :: "(string \<times> 'l list) list"

datatype io_op =
    CreateRuns
  | CreateDir string
  | ReadFile string
  | CreateTemp string
  | WriteLine string nat
  | Fsync string
  | Rename string
  | ReadDir
  | ReadEntry string
  | StatEvents string
  | StatRuns
  | StatEntry string

text \<open>
  \<open>io op = None\<close>: the call succeeds; \<open>Some e\<close>: it fails with the rendered error \<open>e\<close>.  The last three
  are the stat calls of \<open>path.exists()\<close>, \<open>runs_dir.exists()\<close> and \<open>entry.path().is_dir()\<close>, which
  answer false when the call fails.
\<close>

type_synonym io_outcome = "io_op \<Rightarrow> string option"

record 'l codec =
  ser :: "write_event \<Rightarrow> (string, 'l) result"
  de :: "'l \<Rightarrow> (string, write_event) result"
  blank :: "'l \<Rightarrow> bool"

definition io_call :: "io_outcome \<Rightarrow> io_op \<Rightarrow> string \<Rightarrow> (run_store_error, unit) result" where
  "io_call io call msg = (case io call of None \<Rightarrow> Inr () | Some e \<Rightarrow> Inl (RunStoreError (msg @ e)))"

definition stat_ok :: "io_outcome \<Rightarrow> io_op \<Rightarrow> bool" where
  "stat_ok io call \<longleftrightarrow> io call = None"

definition file_put :: "string \<Rightarrow> 'l list \<Rightarrow> (string \<times> 'l list) list \<Rightarrow> (string \<times> 'l list) list" where
  "file_put r ls m = hm_entry r ls (\<lambda>_. ls) m"

section \<open>Operations\<close>

text \<open>\<open>FileRunStore::new\<close> on the files already under the base directory.\<close>

definition file_store_new :: "io_outcome \<Rightarrow> 'l file_store \<Rightarrow> (run_store_error, 'l file_store) result" where
  "file_store_new io fs =
     and_then (io_call io CreateRuns ''failed to create runs directory: '') (\<lambda>_. Inr fs)"

fun parse_lines :: "'l codec \<Rightarrow> 'l list \<Rightarrow> (run_store_error, write_event list) result" where
  "parse_lines c [] = Inr []"
| "parse_lines c (line # content) =
     (if blank c line then parse_lines c content
      else and_then (map_err (\<lambda>e. RunStoreError (''failed to deserialize event: '' @ e)) (de c line))
             (\<lambda>event. and_then (parse_lines c content) (\<lambda>events. Inr (event # events))))"

definition read_events ::
  "'l codec \<Rightarrow> io_outcome \<Rightarrow> 'l file_store \<Rightarrow> string \<Rightarrow> (run_store_error, write_event list) result" where
  "read_events c io fs run_id =
     (case bt_get run_id (fs_files fs) of
        None \<Rightarrow> Inr []
      | Some content \<Rightarrow>
          if \<not> stat_ok io (StatEvents run_id) then Inr []
          else and_then (io_call io (ReadFile run_id) ''failed to read events file: '')
            (\<lambda>_. and_then (parse_lines c content) (\<lambda>events. Inr (sort_key ev_seq events))))"

definition file_get_run ::
  "'l codec \<Rightarrow> io_outcome \<Rightarrow> 'l file_store \<Rightarrow> string \<Rightarrow> (run_store_error, run_record option) result" where
  "file_get_run c io fs run_id =
     and_then (read_events c io fs run_id) (\<lambda>events. Inr (reconstruct_run run_id events))"

text \<open>Serializing and writing events to the temporary file, one line each; \<open>n\<close> counts the lines.  The
  lines written before a failure stay in the temporary file.\<close>

fun write_lines ::
  "'l codec \<Rightarrow> io_outcome \<Rightarrow> string \<Rightarrow> nat \<Rightarrow> write_event list \<Rightarrow> 'l list \<Rightarrow>
     (run_store_error, unit) result \<times> 'l list" where
  "write_lines c io run_id n [] acc = (Inr (), acc)"
| "write_lines c io run_id n (event # events) acc =
     (case ser c event of
        Inl e \<Rightarrow> (Inl (RunStoreError (''failed to serialize event: '' @ e)), acc)
      | Inr line \<Rightarrow>
          (case io_call io (WriteLine run_id n) ''failed to write event: '' of
             Inl e \<Rightarrow> (Inl e, acc)
           | Inr _ \<Rightarrow> write_lines c io run_id (Suc n) events (acc @ [line])))"

definition file_write_run ::
  "'l codec \<Rightarrow> io_outcome \<Rightarrow> string \<Rightarrow> write_event list \<Rightarrow> 'l file_store \<Rightarrow>
     (run_store_error, unit) result \<times> 'l file_store" where
  "file_write_run c io run_id new_events fs =
     (case io_call io (CreateDir run_id) ''failed to create run directory: '' of
        Inl e \<Rightarrow> (Inl e, fs)
      | Inr _ \<Rightarrow>
          let fs = fs\<lparr>fs_dirs := List.insert run_id (fs_dirs fs)\<rparr>
          in case read_events c io fs run_id of
               Inl e \<Rightarrow> (Inl e, fs)
             | Inr existing \<Rightarrow>
                 let existing_seqs = set (map ev_seq existing);
                     deduped = List.filter (\<lambda>e. ev_seq e \<notin> existing_seqs) new_events
                 in if deduped = [] then (Inr (), fs)
                    else case io_call io (CreateTemp run_id) ''failed to create temp file: '' of
                      Inl e \<Rightarrow> (Inl e, fs)
                    | Inr _ \<Rightarrow>
                        case write_lines c io run_id 0 (existing @ deduped) [] of (res, ls) \<Rightarrow>
                          let fs = fs\<lparr>fs_temps := file_put run_id ls (fs_temps fs)\<rparr>
                          in case res of
                               Inl e \<Rightarrow> (Inl e, fs)
                             | Inr _ \<Rightarrow>
                                 case io_call io (Fsync run_id) ''failed to fsync: '' of
                                   Inl e \<Rightarrow> (Inl e, fs)
                                 | Inr _ \<Rightarrow>
                                     case io_call io (Rename run_id) ''failed to rename temp file: '' of
                                       Inl e \<Rightarrow> (Inl e, fs)
                                     | Inr _ \<Rightarrow> (Inr (), fs\<lparr>fs_files := file_put run_id ls (fs_files fs),
                                                             fs_temps := bt_remove run_id (fs_temps fs)\<rparr>))"

text \<open>The runs of a batch are written one after the other; the first error returns.\<close>

fun file_write_runs ::
  "'l codec \<Rightarrow> io_outcome \<Rightarrow> (string \<times> write_event list) list \<Rightarrow> 'l file_store \<Rightarrow>
     (run_store_error, unit) result \<times> 'l file_store" where
  "file_write_runs c io [] fs = (Inr (), fs)"
| "file_write_runs c io ((run_id, new_events) # by_run) fs =
     (case file_write_run c io run_id new_events fs of
        (Inl e, fs) \<Rightarrow> (Inl e, fs)
      | (Inr _, fs) \<Rightarrow> file_write_runs c io by_run fs)"

definition file_write_batch ::
  "'l codec \<Rightarrow> io_outcome \<Rightarrow> write_event list \<Rightarrow> 'l file_store \<Rightarrow>
     (run_store_error, unit) result \<times> 'l file_store" where
  "file_write_batch c io events fs = file_write_runs c io (group_by ev_run_id events) fs"

definition filter_accepts :: "run_filter \<Rightarrow> run_record \<Rightarrow> bool" where
  "filter_accepts flt record \<longleftrightarrow>
     opt_matches (rf_flow_id flt) (rr_flow_id record)
     \<and> opt_matches (rf_status flt) (rr_status record)
     \<and> opt_matches (rf_version_id flt) (rr_version_id record)
     \<and> (case rf_parent_run_id flt of None \<Rightarrow> True | Some pid \<Rightarrow> rr_parent_run_id record = Some pid)"

text \<open>
  The records of all run directories, in directory order; runs without events are skipped, and so are
  entries that do not answer to be directories.
\<close>

fun file_records ::
  "'l codec \<Rightarrow> io_outcome \<Rightarrow> 'l file_store \<Rightarrow> string list \<Rightarrow> (run_store_error, run_record list) result" where
  "file_records c io fs [] = Inr []"
| "file_records c io fs (run_id # entries) =
     and_then (io_call io (ReadEntry run_id) ''failed to read dir entry: '') (\<lambda>_.
     if \<not> stat_ok io (StatEntry run_id) then file_records c io fs entries
     else and_then (file_get_run c io fs run_id) (\<lambda>rec_opt.
     and_then (file_records c io fs entries) (\<lambda>records.
       Inr (case rec_opt of None \<Rightarrow> records | Some record \<Rightarrow> record # records))))"

definition file_list_runs ::
  "'l codec \<Rightarrow> io_outcome \<Rightarrow> 'l file_store \<Rightarrow> run_filter \<Rightarrow> (run_store_error, run_page) result" where
  "file_list_runs c io fs flt =
    (if \<not> stat_ok io StatRuns then Inr \<lparr>page_runs = [], page_total = 0\<rparr>
     else and_then (io_call io ReadDir ''failed to read runs directory: '') (\<lambda>_.
     and_then (file_records c io fs (fs_dirs fs)) (\<lambda>records.
       Inr (page_of flt (List.filter (filter_accepts flt) records)))))"

definition file_count_runs_by_version ::
  "'l codec \<Rightarrow> io_outcome \<Rightarrow> 'l file_store \<Rightarrow> string \<Rightarrow> (run_store_error, (string, nat) btree) result" where
  "file_count_runs_by_version c io fs flow_id =
    (if \<not> stat_ok io StatRuns then Inr []
     else and_then (io_call io ReadDir ''failed to read runs directory: '') (\<lambda>_.
     and_then (file_records c io fs (fs_dirs fs)) (\<lambda>records.
       Inr (fold (\<lambda>record counts.
              if rr_flow_id record = flow_id
              then bt_insert (rr_version_id record)
                     (unwrap_or (bt_get (rr_version_id record) counts) 0 + 1) counts
              else counts) records []))))"

definition file_get_node_results ::
  "'l codec \<Rightarrow> io_outcome \<Rightarrow> 'l file_store \<Rightarrow> string \<Rightarrow> (run_store_error, node_run_result list) result" where
  "file_get_node_results c io fs run_id =
     and_then (read_events c io fs run_id) (\<lambda>events. Inr (extract_node_results events))"

definition file_get_edge_results ::
  "'l codec \<Rightarrow> io_outcome \<Rightarrow> 'l file_store \<Rightarrow> string \<Rightarrow> (run_store_error, edge_run_result list) result" where
  "file_get_edge_results c io fs run_id =
     and_then (read_events c io fs run_id) (\<lambda>events. Inr (extract_edge_results events))"

definition file_get_node_detail ::
  "'l codec \<Rightarrow> io_outcome \<Rightarrow> 'l file_store \<Rightarrow> string \<Rightarrow> string \<Rightarrow>
     (run_store_error, node_run_detail option) result" where
  "file_get_node_detail c io fs run_id node_id =
     and_then (read_events c io fs run_id) (\<lambda>events. Inr (extract_node_detail events node_id))"

definition file_get_custom_events ::
  "'l codec \<Rightarrow> io_outcome \<Rightarrow> 'l file_store \<Rightarrow> string \<Rightarrow> (run_store_error, custom_event_record list) result" where
  "file_get_custom_events c io fs run_id =
     and_then (read_events c io fs run_id) (\<lambda>events. Inr (extract_custom_events events))"

definition file_get_llm_invocations ::
  "'l codec \<Rightarrow> io_outcome \<Rightarrow> 'l file_store \<Rightarrow> string \<Rightarrow> (run_store_error, llm_invocation_record list) result" where
  "file_get_llm_invocations c io fs run_id =
     and_then (read_events c io fs run_id) (\<lambda>events. Inr (extract_llm_invocations events))"

definition file_get_llm_invocations_for_node ::
  "'l codec \<Rightarrow> io_outcome \<Rightarrow> 'l file_store \<Rightarrow> string \<Rightarrow> string \<Rightarrow>
     (run_store_error, llm_invocation_record list) result" where
  "file_get_llm_invocations_for_node c io fs run_id node_id =
     and_then (file_get_llm_invocations c io fs run_id)
       (\<lambda>records. Inr (List.filter (\<lambda>r. li_node_id r = node_id) records))"

section \<open>The contract of the store\<close>

text \<open>Outcomes in which the stat calls succeed, and any outcome with its failing stat calls repaired.\<close>

definition is_stat :: "io_op \<Rightarrow> bool" where
  "is_stat call = (case call of StatEvents _ \<Rightarrow> True | StatRuns \<Rightarrow> True | StatEntry _ \<Rightarrow> True | _ \<Rightarrow> False)"

definition stats_ok :: "io_outcome \<Rightarrow> bool" where
  "stats_ok io \<longleftrightarrow> (\<forall>call. is_stat call \<longrightarrow> stat_ok io call)"

definition with_stats :: "io_outcome \<Rightarrow> io_outcome" where
  "with_stats io call = (if is_stat call then None else io call)"

lemma with_stats_id [simp]: "stats_ok io \<Longrightarrow> with_stats io = io"
  by (auto simp: with_stats_def stats_ok_def stat_ok_def)

lemma stats_ok_with_stats [simp]: "stats_ok (with_stats io)"
  by (simp add: with_stats_def stats_ok_def stat_ok_def)

lemma stats_ok_stat [simp]:
  "stats_ok io \<Longrightarrow> stat_ok io (StatEvents r)" "stats_ok io \<Longrightarrow> stat_ok io StatRuns"
  "stats_ok io \<Longrightarrow> stat_ok io (StatEntry r)"
  by (simp_all add: stats_ok_def is_stat_def)

text \<open>Events that the codec reads back as they were written, on a line that is not blank.\<close>

definition codable :: "'l codec \<Rightarrow> write_event \<Rightarrow> bool" where
  "codable c e \<longleftrightarrow> (case ser c e of Inl _ \<Rightarrow> True | Inr l \<Rightarrow> \<not> blank c l \<and> de c l = Inr e)"

definition file_inv :: "'l codec \<Rightarrow> 'l file_store \<Rightarrow> bool" where
  "file_inv c fs \<longleftrightarrow>
     (\<forall>r ls. bt_get r (fs_files fs) = Some ls \<longrightarrow>
        (\<exists>es. parse_lines c ls = Inr es \<and> list_all (codable c) es))"

definition file_log :: "'l codec \<Rightarrow> 'l file_store \<Rightarrow> string \<Rightarrow> write_event list" where
  "file_log c fs r =
     (case bt_get r (fs_files fs) of
        None \<Rightarrow> []
      | Some ls \<Rightarrow> (case parse_lines c ls of Inl _ \<Rightarrow> [] | Inr es \<Rightarrow> sort_key ev_seq es))"

lemma bt_get_file_put [simp]: "bt_get r (file_put r' ls m) = (if r = r' then Some ls else bt_get r m)"
  by (simp add: file_put_def bt_get_entry)

lemma file_log_sorted [simp]: "sorted (map ev_seq (file_log c fs r))"
  by (simp add: file_log_def split: option.split sum.split)

lemma file_log_codable: "file_inv c fs \<Longrightarrow> list_all (codable c) (file_log c fs r)"
  by (cases "bt_get r (fs_files fs)") (fastforce simp: file_inv_def file_log_def list_all_iff)+

lemma read_events_log: "read_events c io fs r = Inr es \<Longrightarrow> stats_ok io \<Longrightarrow> es = file_log c fs r"
  by (auto simp: read_events_def file_log_def split: option.splits)

lemma parse_lines_append:
  "parse_lines c ls = Inr es \<Longrightarrow> \<not> blank c l \<Longrightarrow> de c l = Inr e \<Longrightarrow>
     parse_lines c (ls @ [l]) = Inr (es @ [e])"
  by (induction ls arbitrary: es) auto

lemma write_lines_parse:
  "write_lines c io r n es acc = (Inr (), ls) \<Longrightarrow> list_all (codable c) es \<Longrightarrow>
     parse_lines c acc = Inr sofar \<Longrightarrow> parse_lines c ls = Inr (sofar @ es)"
proof (induction es arbitrary: n acc sofar)
  case (Cons e es)
  from Cons.prems(1) obtain l where l: "ser c e = Inr l"
    and rest: "write_lines c io r (Suc n) es (acc @ [l]) = (Inr (), ls)"
    by (auto split: sum.splits)
  from Cons.prems(2) have "codable c e" "list_all (codable c) es" by simp_all
  with l have "\<not> blank c l" "de c l = Inr e" "list_all (codable c) es"
    by (simp_all add: codable_def)
  with Cons.IH [OF rest, of "sofar @ [e]"] parse_lines_append [OF Cons.prems(3)] show ?case by simp
qed simp

text \<open>One run of a batch: either nothing changes in \<open>events.jsonl\<close> (and the write failed or there was
  nothing new), or the file holds the merged log.\<close>

lemma file_write_run_cases:
  assumes "file_write_run c io run_id new_events fs = (res, fs')" "stats_ok io"
  shows "fs_files fs' = fs_files fs
      \<and> (res = Inr () \<longrightarrow> ev_seq ` set new_events \<subseteq> ev_seq ` set (file_log c fs run_id))
    \<or> res = Inr () \<and> (\<exists>ls io n. fs_files fs' = file_put run_id ls (fs_files fs)
        \<and> write_lines c io run_id n (file_log c fs run_id
            @ List.filter (\<lambda>e. ev_seq e \<notin> ev_seq ` set (file_log c fs run_id)) new_events) [] = (Inr (), ls))"
proof -
  have log: "file_log c (fs\<lparr>fs_dirs := d\<rparr>) r = file_log c fs r" for d r
    by (simp add: file_log_def)
  show ?thesis
    using assms
    by (auto simp: file_write_run_def Let_def log filter_empty_conv dest!: read_events_log
        split: sum.splits if_splits prod.splits)
qed

lemma file_log_put: "fs_files fs' = fs_files fs \<Longrightarrow> file_log c fs' r = file_log c fs r"
  by (simp add: file_log_def)

lemma file_write_run_log:
  assumes "file_inv c fs" "list_all (codable c) b" "file_write_run c io run_id b fs = (res, fs')" "stats_ok io"
  shows "file_inv c fs' \<and> (\<forall>r. r \<noteq> run_id \<longrightarrow> file_log c fs' r = file_log c fs r)
    \<and> file_log c fs' run_id \<in> {file_log c fs run_id, merge_events (file_log c fs run_id) b}
    \<and> (res = Inr () \<longrightarrow> file_log c fs' run_id = merge_events (file_log c fs run_id) b)"
  using file_write_run_cases [OF assms(3,4)]
proof (elim disjE conjE exE)
  assume files: "fs_files fs' = fs_files fs"
    and known: "res = Inr () \<longrightarrow> ev_seq ` set b \<subseteq> ev_seq ` set (file_log c fs run_id)"
  from files assms(1) have "file_inv c fs'" by (simp add: file_inv_def)
  with known show ?thesis by (simp add: file_log_put [OF files] merge_events_known)
next
  fix ls io n
  let ?new = "List.filter (\<lambda>e. ev_seq e \<notin> ev_seq ` set (file_log c fs run_id)) b"
  assume files: "fs_files fs' = file_put run_id ls (fs_files fs)"
    and lines: "write_lines c io run_id n (file_log c fs run_id @ ?new) [] = (Inr (), ls)"
  have ok: "list_all (codable c) (file_log c fs run_id @ ?new)"
    using file_log_codable [OF assms(1), of run_id] assms(2) by (auto simp: list_all_iff)
  have "parse_lines c ls = Inr (file_log c fs run_id @ ?new)"
    using write_lines_parse [OF lines ok, of "[]"] by simp
  with files ok assms(1) show ?thesis
    by (auto simp: file_inv_def file_log_def merge_events_def Let_def)
qed

lemma file_write_runs_log:
  assumes "file_inv c fs" "distinct (map fst gs)" "list_all (\<lambda>g. list_all (codable c) (snd g)) gs"
    and "file_write_runs c io gs fs = (res, fs')" "stats_ok io"
  defines "target r \<equiv> case bt_get r gs of None \<Rightarrow> file_log c fs r | Some b \<Rightarrow> merge_events (file_log c fs r) b"
  shows "file_inv c fs' \<and> file_log c fs' r \<in> {file_log c fs r, target r}
    \<and> (res = Inr () \<longrightarrow> file_log c fs' r = target r)"
  using assms(1-4) unfolding target_def
proof (induction gs arbitrary: fs)
  case (Cons g gs)
  obtain run_id b where g: "g = (run_id, b)" by force
  obtain res1 fs1 where w: "file_write_run c io run_id b fs = (res1, fs1)" by force
  from Cons.prems g have b: "list_all (codable c) b" by simp
  note first = file_write_run_log [OF Cons.prems(1) b w assms(5)]
  have fresh: "bt_get run_id gs = None" using Cons.prems(2) g by (simp add: bt_get_None_iff)
  show ?case
  proof (cases res1)
    case (Inl e)
    with w Cons.prems(4) g have "res = Inl e" "fs' = fs1" by simp_all
    with first g show ?thesis by (cases "r = run_id") (auto split: option.split)
  next
    case (Inr u)
    with w Cons.prems(4) g have rest: "file_write_runs c io gs fs1 = (res, fs')" by simp
    from Inr first have "file_log c fs1 r = (if r = run_id then merge_events (file_log c fs r) b else file_log c fs r)"
      by simp
    with Cons.IH [OF _ _ _ rest] first Cons.prems(2,3) g fresh show ?thesis
      by (auto split: option.splits if_splits)
  qed
qed simp

lemma file_write_batch_log:
  assumes "file_inv c fs" "list_all (codable c) b" "file_write_batch c io b fs = (res, fs')" "stats_ok io"
  shows "file_inv c fs' \<and> file_log c fs' r \<in> {file_log c fs r, merge_events (file_log c fs r) (of_run r b)}
    \<and> (res = Inr () \<longrightarrow> file_log c fs' r = merge_events (file_log c fs r) (of_run r b))"
proof -
  have ok: "list_all (\<lambda>g. list_all (codable c) (snd g)) (group_by ev_run_id b)"
    unfolding list_all_iff
  proof (intro ballI)
    fix g e
    assume g: "g \<in> set (group_by ev_run_id b)" and e: "e \<in> set (snd g)"
    have "bt_get (fst g) (group_by ev_run_id b) = Some (snd g)"
      using g group_by_groups [of ev_run_id b] by (simp add: bt_get_distinct)
    from group_by_mem [OF this] e assms(2) show "codable c e" by (auto simp: list_all_iff)
  qed
  from file_write_runs_log [OF assms(1) _ ok, of io res fs' r] assms(3,4) group_by_groups [of ev_run_id b]
  show ?thesis
    by (auto simp: file_write_batch_def group_by_eq of_run_def merge_events_known split: if_splits)
qed

text \<open>The file store is a run store for the events its codec can represent, while its stat calls succeed.\<close>

interpretation filerun: run_store "file_inv c" "codable c" "file_log c"
  "\<lambda>io. file_write_batch c (with_stats io)" "\<lambda>io. file_get_run c (with_stats io)" for c
proof
  fix s io r x
  assume "file_get_run c (with_stats io) s r = Inr x"
  then show "x = reconstruct_run r (file_log c s r)"
    by (auto simp: file_get_run_def dest: read_events_log)
qed (use file_write_batch_log [OF _ _ prod.collapse [symmetric] stats_ok_with_stats] in \<open>blast | simp\<close>)+

text \<open>
  (C7) Retried writes are exactly-once in the file store, per run, while the stat calls succeed: if
  attempts to write a batch end in failures of any other system call (directory, read, temporary file,
  any line, fsync, rename) at any point, and a later attempt succeeds, then every run's log is the old
  log merged once with the batch's events of that run, and it reads back as such.  Run ids are single
  components of a path.
\<close>

theorem file_retry_exactly_once:
  assumes "file_inv c fs" "list_all (codable c) b" "list_all stats_ok (io # ios)"
    and "list_all (\<lambda>e. path_name (ev_run_id e)) b" "path_name r"
    and "file_write_batch c io b (fold (\<lambda>io st. snd (file_write_batch c io b st)) ios fs) = (Inr (), fs')"
  shows "file_inv c fs' \<and> file_log c fs' r = merge_events (file_log c fs r) (of_run r b)
    \<and> read_events c (\<lambda>_. None) fs' r = Inr (merge_events (file_log c fs r) (of_run r b))"
proof -
  have "fold (\<lambda>io st. snd (file_write_batch c (with_stats io) b st)) ios fs =
      fold (\<lambda>io st. snd (file_write_batch c io b st)) ios fs"
    using assms(3) by (intro fold_cong) (auto simp: list_all_iff)
  then have last: "file_write_batch c (with_stats io) b (filerun.attempts c ios b fs) = (Inr (), fs')"
    using assms(3,6) by (simp add: filerun.attempts_def)
  have inv: "file_inv c fs'"
    using filerun.inv_write [OF filerun.inv_attempts [OF assms(1,2)] assms(2), of io ios] last by simp
  have log: "file_log c fs' r = merge_events (file_log c fs r) (of_run r b)"
    using filerun.retry_until_success [OF assms(1,2), of io ios r] last by simp
  have "read_events c (\<lambda>_. None) fs' r = Inr (file_log c fs' r)"
    using inv by (fastforce simp: read_events_def file_log_def file_inv_def io_call_def stat_ok_def split: option.split)
  with inv log show ?thesis by simp
qed

text \<open>A codec on which the theorem is exercised: events are their own lines.\<close>

definition plain_codec :: "write_event codec" where
  "plain_codec = \<lparr>ser = Inr, de = Inr, blank = (\<lambda>_. False)\<rparr>"

definition empty_store :: "'l file_store" where
  "empty_store = \<lparr>fs_dirs = [], fs_files = [], fs_temps = []\<rparr>"

definition rename_fails :: io_outcome where
  "rename_fails call = (case call of Rename _ \<Rightarrow> Some ''disk full'' | _ \<Rightarrow> None)"

lemma codable_plain [simp]: "codable plain_codec e"
  by (simp add: codable_def plain_codec_def)

theorem file_retry_exactly_once_witness:
  "fst (file_write_batch plain_codec rename_fails [log_demo_started, log_demo_late] empty_store)
     = Inl (RunStoreError ''failed to rename temp file: disk full'')
   \<and> file_log plain_codec (snd (file_write_batch plain_codec (\<lambda>_. None) [log_demo_started, log_demo_late]
        (snd (file_write_batch plain_codec rename_fails [log_demo_started, log_demo_late] empty_store)))) ''r''
     = [log_demo_started, log_demo_late]"
proof -
  let ?b = "[log_demo_started, log_demo_late]"
  let ?fs' = "snd (file_write_batch plain_codec (\<lambda>_. None) ?b
        (snd (file_write_batch plain_codec rename_fails ?b empty_store)))"
  have fails: "fst (file_write_batch plain_codec rename_fails ?b empty_store)
     = Inl (RunStoreError ''failed to rename temp file: disk full'')"
    by code_simp
  have "fst (file_write_batch plain_codec (\<lambda>_. None) ?b
        (snd (file_write_batch plain_codec rename_fails ?b empty_store))) = Inr ()"
    by code_simp
  then have "file_write_batch plain_codec (\<lambda>_. None) ?b
      (fold (\<lambda>io st. snd (file_write_batch plain_codec io ?b st)) [rename_fails] empty_store) = (Inr (), ?fs')"
    by (simp add: prod_eq_iff)
  moreover have "list_all stats_ok [\<lambda>_. None, rename_fails]"
    by (simp add: stats_ok_def is_stat_def stat_ok_def rename_fails_def split: io_op.split)
  moreover have "list_all (\<lambda>e. path_name (ev_run_id e)) ?b" "path_name ''r''"
    by (simp_all add: log_demo_started_def log_demo_late_def path_name_def)
  ultimately show ?thesis
    using file_retry_exactly_once [of plain_codec empty_store ?b "\<lambda>_. None" "[rename_fails]" "''r''" ?fs'] fails
    by (simp add: file_inv_def empty_store_def file_log_def merge_events_def of_run_def
        log_demo_started_def log_demo_late_def)
qed

text \<open>Across runs a batch is not atomic: here the write reports an error although the first run's
  event is stored.\<close>

lemma file_batch_partial:
  "fst (file_write_batch plain_codec (\<lambda>call. if call = Rename ''s'' then Some ''e'' else None)
      [log_demo_late, RunCompleted 0 1 ''s'' Completed 3 None 9] empty_store) \<noteq> Inr ()
   \<and> file_log plain_codec (snd (file_write_batch plain_codec (\<lambda>call. if call = Rename ''s'' then Some ''e'' else None)
      [log_demo_late, RunCompleted 0 1 ''s'' Completed 3 None 9] empty_store)) ''r'' = [log_demo_late]"
  by code_simp

text \<open>
  A failing stat call is read as an absent file: the write succeeds and replaces the log of the run by
  the new batch.
\<close>

lemma failed_stat_loses_log:
  "fst (file_write_batch plain_codec (\<lambda>call. if call = StatEvents ''r'' then Some ''EACCES'' else None)
      [log_demo_late] (snd (file_write_batch plain_codec (\<lambda>_. None) [log_demo_started] empty_store))) = Inr ()
   \<and> file_log plain_codec (snd (file_write_batch plain_codec (\<lambda>_. None) [log_demo_started] empty_store)) ''r''
      = [log_demo_started]
   \<and> file_log plain_codec (snd (file_write_batch plain_codec
        (\<lambda>call. if call = StatEvents ''r'' then Some ''EACCES'' else None)
        [log_demo_late] (snd (file_write_batch plain_codec (\<lambda>_. None) [log_demo_started] empty_store)))) ''r''
      = [log_demo_late]"
  by code_simp

end
