(* ===== verification/Engine.thy ===== *)
theory Engine
  imports Triggers Tool_Nodes File_Run_Store
begin

text \<open>
  \<open>engine/\<close>: the facade over the executor, the flow store and the triggers, and the builder that
  assembles them.  Plugin loading is a parameter (the nodes found in each directory, or the error);
  calls that take effect at different times take the stores as they are then.
\<close>

section \<open>Errors\<close>

datatype engine_error =
    FlowNotFound string
  | EngineExecutorErr executor_error
  | EngineFlowStoreErr flow_store_error
  | EngineRunStoreErr run_store_error
  | BuildErr string
  | DylibErr string
  | EngineNotFound string

section \<open>Operations of the engine\<close>

definition event_source :: "string \<Rightarrow> trigger_event option \<Rightarrow> trigger_source" where
  "event_source request_id trigger_event =
     (case trigger_event of Some e \<Rightarrow> te_source e | None \<Rightarrow> SrcApi request_id)"

definition engine_execute ::
  "'b hash_lib \<Rightarrow> engine_lib \<Rightarrow> ('io, 'fs) flow_store_ops \<Rightarrow> 'io \<Rightarrow> 'fs \<Rightarrow> execution_id \<Rightarrow> string \<Rightarrow> datetime
   \<Rightarrow> bool \<Rightarrow> string \<Rightarrow> json \<Rightarrow> trigger_event option \<Rightarrow> 's executor_state
   \<Rightarrow> (engine_error, string) result \<times> 's executor_state" where
  "engine_execute hl lib ops io fs eid request_id now gone flow_id inputs trigger_event ex =
     (case versioning_get_current ops io flow_id fs of
        Inl e \<Rightarrow> (Inl (EngineFlowStoreErr e), ex)
      | Inr None \<Rightarrow> (Inl (FlowNotFound flow_id), ex)
      | Inr (Some version) \<Rightarrow>
          (case executor_execute hl lib eid now gone (fv_graph version) (fv_version_id version) inputs
                  (event_source request_id trigger_event) None ex of
             (res, ex') \<Rightarrow> (map_err EngineExecutorErr res, ex')))"

definition engine_execute_graph ::
  "'b hash_lib \<Rightarrow> engine_lib \<Rightarrow> execution_id \<Rightarrow> datetime \<Rightarrow> bool \<Rightarrow> graph_def \<Rightarrow> string \<Rightarrow> json
   \<Rightarrow> trigger_source \<Rightarrow> string option \<Rightarrow> 's executor_state
   \<Rightarrow> (engine_error, string) result \<times> 's executor_state" where
  "engine_execute_graph hl lib eid now gone graph version_id inputs source parent ex =
     (case executor_execute hl lib eid now gone graph version_id inputs source parent ex of
        (res, ex') \<Rightarrow> (map_err EngineExecutorErr res, ex'))"

definition engine_provide_input ::
  "bool \<Rightarrow> string \<Rightarrow> string \<Rightarrow> json \<Rightarrow> human_state \<Rightarrow> (engine_error, unit) result \<times> human_state" where
  "engine_provide_input contended run_id node_id v st =
     (case provide_input contended run_id node_id v st of (res, st') \<Rightarrow> (map_err EngineExecutorErr res, st'))"

definition engine_subscribe_run :: "string \<Rightarrow> 's executor_state \<Rightarrow> bool" where
  "engine_subscribe_run run_id ex = subscribe_run run_id ex"

text \<open>\<open>cancel_run\<close> is a placeholder in the source.\<close>

definition engine_cancel_run :: "string \<Rightarrow> 's executor_state \<Rightarrow> (engine_error, unit) result \<times> 's executor_state" where
  "engine_cancel_run run_id ex = (Inr (), ex)"

section \<open>Dispatch of trigger events\<close>

text \<open>One turn of the dispatch loop: the event, the flow store and the outcome of its system calls when the
  version is resolved and again when the flow is executed, and the executor at that time.\<close>

record ('io, 'fs, 's) dispatch_turn =
  dt_event :: trigger_event
  dt_io :: 'io
  dt_fs :: 'fs
  dt_io' :: 'io
  dt_fs' :: 'fs
  dt_eid :: execution_id
  dt_request_id :: string
  dt_now :: datetime
  dt_gone :: bool
  dt_executor :: "'s executor_state"

definition resolved_event :: "trigger_event \<Rightarrow> flow_version \<Rightarrow> trigger_event" where
  "resolved_event event version = event\<lparr>te_version_id := Some (fv_version_id version)\<rparr>"

definition dispatch_execute ::
  "'b hash_lib \<Rightarrow> engine_lib \<Rightarrow> ('io, 'fs) flow_store_ops \<Rightarrow> ('io, 'fs, 's) dispatch_turn \<Rightarrow> flow_version
   \<Rightarrow> (engine_error, string) result \<times> 's executor_state" where
  "dispatch_execute hl lib ops t version =
     engine_execute hl lib ops (dt_io' t) (dt_fs' t) (dt_eid t) (dt_request_id t) (dt_now t) (dt_gone t)
       (te_flow_id (dt_event t)) (te_inputs (dt_event t)) (Some (resolved_event (dt_event t) version)) (dt_executor t)"

fun engine_dispatch ::
  "'b hash_lib \<Rightarrow> engine_lib \<Rightarrow> ('io, 'fs) flow_store_ops \<Rightarrow> string set \<Rightarrow> ('io, 'fs, 's) dispatch_turn list
   \<Rightarrow> ((engine_error, string) result \<times> 's executor_state) list" where
  "engine_dispatch hl lib ops seen_keys [] = []"
| "engine_dispatch hl lib ops seen_keys (t # turns) =
     (case check_key (dt_event t) seen_keys of (duplicate, seen') \<Rightarrow>
        if duplicate then engine_dispatch hl lib ops seen' turns
        else (case resolve_event ops (dt_io t) (dt_fs t) (dt_event t) of
                Inr (Some version) \<Rightarrow>
                  dispatch_execute hl lib ops t version # engine_dispatch hl lib ops seen' turns
              | _ \<Rightarrow> engine_dispatch hl lib ops seen' turns))"

section \<open>The builder\<close>

record 'e trigger_registration =
  tr_trigger :: "'e trigger_ops"
  tr_flow_id :: string
  tr_config :: json

text \<open>The providers given to the builder; \<open>None\<close> asks for the default.  A node handler is known by its
  metadata.\<close>

record ('e, 's, 'fs, 'ts) engine_builder =
  eb_nodes :: "(string, node_meta) btree"
  eb_type_defs :: "type_def list"
  eb_triggers :: "'e trigger_registration list"
  eb_run_store :: "'s option"
  eb_flow_store :: "'fs option"
  eb_tag_store :: "'ts option"
  eb_redactor :: "redactor_ops option"
  eb_executor_config :: executor_config
  eb_pipeline_config :: pipeline_config
  eb_dylib_dirs :: "string list"
  eb_crash_recovery :: bool

definition engine_builder_new :: "('e, 's, 'fs, 'ts) engine_builder" where
  "engine_builder_new =
     \<lparr>eb_nodes = [], eb_type_defs = [], eb_triggers = [], eb_run_store = None, eb_flow_store = None,
      eb_tag_store = None, eb_redactor = None, eb_executor_config = executor_config_default,
      eb_pipeline_config = pipeline_config_default, eb_dylib_dirs = [], eb_crash_recovery = True\<rparr>"

definition builder_node :: "node_meta \<Rightarrow> ('e, 's, 'fs, 'ts) engine_builder \<Rightarrow> ('e, 's, 'fs, 'ts) engine_builder" where
  "builder_node handler b = b\<lparr>eb_nodes := bt_insert (meta_node_type handler) handler (eb_nodes b)\<rparr>"

definition builder_types :: "type_def list \<Rightarrow> ('e, 's, 'fs, 'ts) engine_builder \<Rightarrow> ('e, 's, 'fs, 'ts) engine_builder" where
  "builder_types defs b = b\<lparr>eb_type_defs := eb_type_defs b @ defs\<rparr>"

definition builder_trigger ::
  "'e trigger_ops \<Rightarrow> string \<Rightarrow> json \<Rightarrow> ('e, 's, 'fs, 'ts) engine_builder \<Rightarrow> ('e, 's, 'fs, 'ts) engine_builder" where
  "builder_trigger trigger flow_id config b =
     b\<lparr>eb_triggers := eb_triggers b @ [\<lparr>tr_trigger = trigger, tr_flow_id = flow_id, tr_config = config\<rparr>]\<rparr>"

text \<open>\<open>entry(node_type).or_insert_with(handler)\<close>.\<close>

definition or_insert :: "node_meta \<Rightarrow> (string, node_meta) btree \<Rightarrow> (string, node_meta) btree" where
  "or_insert handler m =
     (if bt_get (meta_node_type handler) m = None then bt_insert (meta_node_type handler) handler m else m)"

text \<open>A directory to scan: missing, or the result of scanning it.\<close>

type_synonym plugin_scan = "string \<Rightarrow> (string, node_meta list) result option"

fun scan_dirs :: "plugin_scan \<Rightarrow> string list \<Rightarrow> (string, node_meta) btree \<Rightarrow> (engine_error, (string, node_meta) btree) result" where
  "scan_dirs scan [] m = Inr m"
| "scan_dirs scan (dir # dirs) m =
     (case scan dir of
        None \<Rightarrow> scan_dirs scan dirs m
      | Some (Inl e) \<Rightarrow> Inl (DylibErr e)
      | Some (Inr handlers) \<Rightarrow> scan_dirs scan dirs (fold or_insert handlers m))"

definition builtins :: "node_meta list" where
  "builtins = [llm_call_meta, tool_router_meta, http_meta, conditional_meta, human_in_loop_meta, jq_meta,
     csv_tool_meta, json_lookup_meta]"

definition build_nodes :: "plugin_scan \<Rightarrow> ('e, 's, 'fs, 'ts) engine_builder \<Rightarrow> (engine_error, (string, node_meta) btree) result" where
  "build_nodes scan b =
     and_then (scan_dirs scan (eb_dylib_dirs b) (eb_nodes b)) (\<lambda>m. Inr (fold or_insert builtins m))"

section \<open>Crash recovery\<close>

definition running_filter :: run_filter where
  "running_filter = \<lparr>rf_flow_id = None, rf_status = Some Running, rf_version_id = None, rf_parent_run_id = None,
     rf_limit = None, rf_offset = None\<rparr>"

text \<open>The \<open>n\<close>-th call has its own system-call outcome and clock reading; a failed call is logged and the next
  run is marked.\<close>

fun mark_runs ::
  "('io \<Rightarrow> write_event list \<Rightarrow> 's \<Rightarrow> (run_store_error, unit) result \<times> 's) \<Rightarrow> (nat \<Rightarrow> 'io) \<Rightarrow> (nat \<Rightarrow> datetime)
   \<Rightarrow> nat \<Rightarrow> run_record list \<Rightarrow> 's \<Rightarrow> 's" where
  "mark_runs write_batch ios now n [] s = s"
| "mark_runs write_batch ios now n (run # runs) s =
     mark_runs write_batch ios now (Suc n) runs
       (snd (mark_interrupted (\<lambda>b. write_batch (ios n) b s) (rr_run_id run) (now n)))"

definition crash_recovery ::
  "('io \<Rightarrow> 's \<Rightarrow> run_filter \<Rightarrow> (run_store_error, run_page) result)
   \<Rightarrow> ('io \<Rightarrow> write_event list \<Rightarrow> 's \<Rightarrow> (run_store_error, unit) result \<times> 's)
   \<Rightarrow> 'io \<Rightarrow> (nat \<Rightarrow> 'io) \<Rightarrow> (nat \<Rightarrow> datetime) \<Rightarrow> 's \<Rightarrow> 's" where
  "crash_recovery list_runs write_batch io ios now s =
     (case list_runs io s running_filter of
        Inr page \<Rightarrow> if page_runs page \<noteq> [] then mark_runs write_batch ios now 0 (page_runs page) s else s
      | Inl e \<Rightarrow> s)"

section \<open>Building and running\<close>

record ('e, 's, 'fs, 'ts) engine =
  en_nodes :: "(string, node_meta) btree"
  en_type_defs :: "type_def list"
  en_executor :: "'s executor_state"
  en_flow_store :: 'fs
  en_tag_store :: 'ts
  en_run_store :: 's
  en_redactor :: redactor_ops
  en_trigger_runner :: "'e trigger_instance list option"
  en_trigger_event_rx :: bool
  en_trigger_handles :: nat
  en_shutdown_sent :: bool

text \<open>The outcome of creating the file-backed stores under \<open>./data\<close>, with rendered errors.\<close>

record ('s, 'fs, 'ts) default_stores =
  ds_flow_store :: "(string, 'fs) result"
  ds_tag_store :: "(string, 'ts) result"
  ds_run_store :: "(string, 's) result"

definition provider_or :: "'a option \<Rightarrow> string \<Rightarrow> (string, 'a) result \<Rightarrow> (engine_error, 'a) result" where
  "provider_or given what fallback =
     (case given of Some s \<Rightarrow> Inr s | None \<Rightarrow> map_err (\<lambda>e. BuildErr (''failed to create default '' @ what @ '': '' @ e)) fallback)"

definition instance_of :: "'e trigger_registration \<Rightarrow> 'e trigger_instance" where
  "instance_of reg = \<lparr>ti_trigger = tr_trigger reg, ti_flow_id = tr_flow_id reg, ti_config = tr_config reg\<rparr>"

definition engine_build ::
  "('s, 'fs, 'ts) default_stores \<Rightarrow> plugin_scan \<Rightarrow> ('s \<Rightarrow> 's) \<Rightarrow> ('e, 's, 'fs, 'ts) engine_builder
   \<Rightarrow> (engine_error, ('e, 's, 'fs, 'ts) engine) result" where
  "engine_build defaults scan recover b =
     and_then (provider_or (eb_flow_store b) ''flow store'' (ds_flow_store defaults)) (\<lambda>flow_store.
     and_then (provider_or (eb_tag_store b) ''tag store'' (ds_tag_store defaults)) (\<lambda>tag_store.
     and_then (provider_or (eb_run_store b) ''run store'' (ds_run_store defaults)) (\<lambda>run_store.
     and_then (build_nodes scan b) (\<lambda>m.
       let rdr = unwrap_or (eb_redactor b) default_redactor;
           runs = (if eb_crash_recovery b then recover run_store else run_store);
           has_triggers = (eb_triggers b \<noteq> [])
       in Inr \<lparr>en_nodes = m, en_type_defs = eb_type_defs b,
            en_executor = executor_new (eb_executor_config b) (\<lambda>ty. bt_get ty m) runs rdr (eb_pipeline_config b),
            en_flow_store = flow_store, en_tag_store = tag_store, en_run_store = runs, en_redactor = rdr,
            en_trigger_runner = (if has_triggers then Some (map instance_of (eb_triggers b)) else None),
            en_trigger_event_rx = has_triggers, en_trigger_handles = 0, en_shutdown_sent = False\<rparr>))))"

definition node_catalog :: "('e, 's, 'fs, 'ts) engine \<Rightarrow> node_meta list" where
  "node_catalog en = map snd (en_nodes en)"

definition node_handler :: "string \<Rightarrow> ('e, 's, 'fs, 'ts) engine \<Rightarrow> node_meta option" where
  "node_handler ty en = bt_get ty (en_nodes en)"

text \<open>The receiver is taken once; the tasks are those of the runner and the dispatch loop.\<close>

definition engine_start_triggers :: "('e, 's, 'fs, 'ts) engine \<Rightarrow> ('e, 's, 'fs, 'ts) engine" where
  "engine_start_triggers en =
     (if \<not> en_trigger_event_rx en then en
      else let en1 = en\<lparr>en_trigger_event_rx := False\<rparr>
           in case en_trigger_runner en of
                None \<Rightarrow> en1
              | Some instances \<Rightarrow> en1\<lparr>en_trigger_handles := length instances + 1\<rparr>)"

definition engine_shutdown :: "('e, 's, 'fs, 'ts) engine \<Rightarrow> ('e, 's, 'fs, 'ts) engine" where
  "engine_shutdown en =
     en\<lparr>en_shutdown_sent := (en_shutdown_sent en \<or> en_trigger_runner en \<noteq> None), en_trigger_handles := 0\<rparr>"

lemma start_triggers_once: "engine_start_triggers (engine_start_triggers en) = engine_start_triggers en"
  by (simp add: engine_start_triggers_def Let_def split: option.split)

section \<open>The node registry\<close>

lemma bt_get_or_insert:
  "bt_get ty (or_insert h m) =
     (case bt_get ty m of Some x \<Rightarrow> Some x | None \<Rightarrow> if ty = meta_node_type h then Some h else None)"
  by (auto simp: or_insert_def split: option.split)

lemma bt_get_fold_or_insert:
  "bt_get ty (fold or_insert hs m) =
     (case bt_get ty m of Some x \<Rightarrow> Some x | None \<Rightarrow> List.find (\<lambda>h. meta_node_type h = ty) hs)"
  by (induction hs arbitrary: m) (auto simp: bt_get_or_insert split: option.split)

text \<open>The plugins of the directories that exist, in order.\<close>

definition scanned :: "plugin_scan \<Rightarrow> string list \<Rightarrow> node_meta list" where
  "scanned scan dirs = concat (map (\<lambda>d. case scan d of Some (Inr hs) \<Rightarrow> hs | _ \<Rightarrow> []) dirs)"

lemma scan_dirs_eq:
  "scan_dirs scan dirs m =
     (case List.map_filter (\<lambda>d. case scan d of Some (Inl e) \<Rightarrow> Some e | _ \<Rightarrow> None) dirs of
        [] \<Rightarrow> Inr (fold or_insert (scanned scan dirs) m)
      | e # _ \<Rightarrow> Inl (DylibErr e))"
  by (induction scan dirs m rule: scan_dirs.induct)
     (auto simp: scanned_def map_filter_simps split: option.split sum.split list.split)

lemma find_append: "List.find P (xs @ ys) = (case List.find P xs of Some x \<Rightarrow> Some x | None \<Rightarrow> List.find P ys)"
  by (induction xs) auto

lemma build_nodes_get:
  "build_nodes scan b = Inr m \<Longrightarrow>
     bt_get ty m = (case bt_get ty (eb_nodes b) of Some h \<Rightarrow> Some h
       | None \<Rightarrow> List.find (\<lambda>h. meta_node_type h = ty) (scanned scan (eb_dylib_dirs b) @ builtins))"
  by (auto simp: build_nodes_def scan_dirs_eq bt_get_fold_or_insert find_append split: list.splits option.splits)

section \<open>Execution of triggered flows\<close>

lemma dispatch_execute_current:
  "dispatch_execute hl lib ops t version =
     engine_execute hl lib ops (dt_io' t) (dt_fs' t) (dt_eid t) (dt_request_id t) (dt_now t) (dt_gone t)
       (te_flow_id (dt_event t)) (te_inputs (dt_event t)) (Some (dt_event t)) (dt_executor t)"
  by (simp add: dispatch_execute_def engine_execute_def event_source_def resolved_event_def
      split: sum.split option.split)

definition turn_key :: "('io, 'fs, 's) dispatch_turn \<Rightarrow> string option" where
  "turn_key t = idempotency_key (dt_event t)"

definition turn_resolves :: "('io, 'fs) flow_store_ops \<Rightarrow> ('io, 'fs, 's) dispatch_turn \<Rightarrow> bool" where
  "turn_resolves ops t \<longleftrightarrow> ok_version (resolve_event ops (dt_io t) (dt_fs t) (dt_event t)) \<noteq> None"

lemma engine_dispatch_eq:
  "engine_dispatch hl lib ops seen turns =
     map (\<lambda>t. engine_execute hl lib ops (dt_io' t) (dt_fs' t) (dt_eid t) (dt_request_id t) (dt_now t) (dt_gone t)
            (te_flow_id (dt_event t)) (te_inputs (dt_event t)) (Some (dt_event t)) (dt_executor t))
       (List.filter (turn_resolves ops) (first_occurrences turn_key seen turns))"
proof (induction turns arbitrary: seen)
  case (Cons t turns)
  have key: "turn_key t = idempotency_key (dt_event t)" by (simp add: turn_key_def)
  show ?case
    unfolding first_occurrences_Cons key
    by (auto simp: Cons.IH check_key_def turn_resolves_def ok_version_def dispatch_execute_current
        split: option.splits sum.splits)
qed simp

text \<open>An accepted execution: the run that has become active, and what its log says.\<close>

lemma executor_execute_accepts:
  assumes "\<forall>n \<in> set (nodes graph). xs_registry ex (node_type n) \<noteq> None"
  shows "\<exists>ex' ar rr. executor_execute hl lib eid now False graph version_id inputs source parent ex = (Inr (exec_run_id eid), ex')
    \<and> bt_get (exec_run_id eid) (xs_active ex') = Some ar
    \<and> ar_ctx ar = run_context_of lib ex (exec_run_id eid) graph inputs
    \<and> reconstruct_run (exec_run_id eid) (session_log (ar_session ar)) = Some rr
    \<and> start_fields rr = (exec_run_id eid, graph_id graph, version_id, inputs, source,
        Some (compute_config_hash hl graph), parent, Some now)"
proof -
  let ?config = "builder_config (run_builder hl ex graph version_id inputs source parent)"
  have "unknown_node (xs_registry ex) graph = None"
    using assms by (simp add: unknown_node_def find_None_iff_list)
  moreover obtain se where se: "session_start ?config eid now False = Inr se"
    by (auto simp: session_start_def handle_write_def session_next_def broadcast_def Let_def)
  moreover have "session_log se = [ev_set_seq 1 (run_started_event ?config eid now)]" "se_id se = eid"
    using session_start_numbered [OF se] session_log_numbered by blast+
  ultimately show ?thesis
    by (simp add: executor_execute_def Let_def run_builder_config run_started_event_def reconstruct_run_def
        reconstruct_record_def start_fields_def)
qed

section \<open>Recovered runs\<close>

text \<open>What crash recovery needs of a run store beyond its contract: the listing of the running runs.\<close>

definition is_running :: "string \<Rightarrow> write_event list \<Rightarrow> bool" where
  "is_running r es \<longleftrightarrow> es \<noteq> [] \<and> rr_status (reconstruct_record r es) = Running"

locale run_listing = run_store inv ok log write_batch get_run
  for inv :: "'s \<Rightarrow> bool"
    and ok :: "write_event \<Rightarrow> bool"
    and log :: "'s \<Rightarrow> string \<Rightarrow> write_event list"
    and write_batch :: "'io \<Rightarrow> write_event list \<Rightarrow> 's \<Rightarrow> (run_store_error, unit) result \<times> 's"
    and get_run :: "'io \<Rightarrow> 's \<Rightarrow> string \<Rightarrow> (run_store_error, run_record option) result" +
  fixes list_runs :: "'io \<Rightarrow> 's \<Rightarrow> run_filter \<Rightarrow> (run_store_error, run_page) result"
  assumes list_running: "inv s \<Longrightarrow> list_runs io s running_filter = Inr page \<Longrightarrow>
      rr_run_id ` set (page_runs page) = {r. is_running r (log s r)} \<and> distinct (map rr_run_id (page_runs page))"
begin

text \<open>The synthetic event has the greatest number, so it is appended unless that number is taken.\<close>

lemma merge_interrupted:
  "sorted (map ev_seq es) \<Longrightarrow> - 1 \<notin> ev_seq ` set es \<Longrightarrow>
     merge_events es [interrupted_event r t] = es @ [interrupted_event r t]"
  by (simp add: merge_events_def Let_def sort_key_id_if_sorted sorted_append)

lemma mark_runs_log:
  assumes "inv s" "\<And>run n. run \<in> set runs \<Longrightarrow> ok (interrupted_event (rr_run_id run) (now n))"
    and "distinct (map rr_run_id runs)"
    and "\<And>run. run \<in> set runs \<Longrightarrow> - 1 \<notin> ev_seq ` set (log s (rr_run_id run))"
    and "\<And>n b s. inv s \<Longrightarrow> list_all ok b \<Longrightarrow> fst (write_batch (ios n) b s) = Inr ()"
  shows "inv (mark_runs write_batch ios now n runs s)
    \<and> (if r \<in> rr_run_id ` set runs
       then \<exists>m. log (mark_runs write_batch ios now n runs s) r = log s r @ [interrupted_event r (now m)]
       else log (mark_runs write_batch ios now n runs s) r = log s r)"
  using assms(1-4)
proof (induction runs arbitrary: n s)
  case (Cons run runs)
  let ?e = "interrupted_event (rr_run_id run) (now n)"
  define s1 where "s1 = snd (write_batch (ios n) [?e] s)"
  have okb: "list_all ok [?e]" using Cons.prems(2) [of run] by simp
  have inv1: "inv s1" unfolding s1_def using inv_write [OF Cons.prems(1) okb] .
  have log1: "log s1 q = (if q = rr_run_id run then log s q @ [?e] else log s q)" for q
    using write_ok [OF Cons.prems(1) okb assms(5) [OF Cons.prems(1) okb], of n q]
      merge_interrupted [OF log_sorted [OF Cons.prems(1)], of "rr_run_id run" "rr_run_id run" "now n"]
      merge_events_known [OF log_sorted [OF Cons.prems(1)], of "[]" q] Cons.prems(4) [of run]
    by (auto simp: s1_def of_run_def)
  have "- 1 \<notin> ev_seq ` set (log s1 (rr_run_id q))" if "q \<in> set runs" for q
  proof -
    from that Cons.prems(3) have "rr_run_id q \<noteq> rr_run_id run" by (metis distinct.simps(2) image_eqI list.set_map list.simps(9))
    with that Cons.prems(4) [of q] show ?thesis by (simp add: log1)
  qed
  then have rest: "inv (mark_runs write_batch ios now (Suc n) runs s1)
    \<and> (if r \<in> rr_run_id ` set runs
       then \<exists>m. log (mark_runs write_batch ios now (Suc n) runs s1) r = log s1 r @ [interrupted_event r (now m)]
       else log (mark_runs write_batch ios now (Suc n) runs s1) r = log s1 r)"
    using Cons.IH [OF inv1] Cons.prems(2,3) by simp
  have "mark_runs write_batch ios now n (run # runs) s = mark_runs write_batch ios now (Suc n) runs s1"
    by (simp add: mark_interrupted_def s1_def)
  with rest Cons.prems(3) show ?case
    by (cases "r = rr_run_id run") (auto simp: log1)
qed simp

lemma recovery_log:
  assumes "inv s" "\<And>r n. is_running r (log s r) \<Longrightarrow> ok (interrupted_event r (now n))"
    and "\<And>r. is_running r (log s r) \<Longrightarrow> - 1 \<notin> ev_seq ` set (log s r)"
    and "\<And>n b s. inv s \<Longrightarrow> list_all ok b \<Longrightarrow> fst (write_batch (ios n) b s) = Inr ()"
    and "list_runs io s running_filter = Inr page"
  shows "inv (crash_recovery list_runs write_batch io ios now s)
    \<and> (if is_running r (log s r)
       then \<exists>m. log (crash_recovery list_runs write_batch io ios now s) r = log s r @ [interrupted_event r (now m)]
       else log (crash_recovery list_runs write_batch io ios now s) r = log s r)"
proof -
  have l: "rr_run_id ` set (page_runs page) = {r. is_running r (log s r)}" "distinct (map rr_run_id (page_runs page))"
    using list_running [OF assms(1,5)] by auto
  then have running: "is_running (rr_run_id run) (log s (rr_run_id run))" if "run \<in> set (page_runs page)" for run
    using that by auto
  from mark_runs_log [where now = now and n = 0 and r = r and runs = "page_runs page",
      OF assms(1) assms(2) [OF running] l(2) assms(3) [OF running] assms(4)] l(1) assms(5)
  show ?thesis by (auto simp: crash_recovery_def)
qed

end

lemma reconstruct_run_id [simp]: "rr_run_id (reconstruct_record r es) = r"
proof -
  have "rr_run_id (apply_run_event e x) = rr_run_id x" for e x by (cases e) simp_all
  then have "rr_run_id (fold apply_run_event es x) = rr_run_id x" for x by (induction es arbitrary: x) simp_all
  then show ?thesis by (simp add: reconstruct_record_def)
qed

lemma interrupted_record:
  "reconstruct_record r (es @ [interrupted_event r t]) =
     (reconstruct_record r es)\<lparr>rr_status := Interrupted, rr_duration_ms := Some 0, rr_llm_summary := None,
       rr_completed_at := Some t\<rparr>"
  by (simp add: reconstruct_record_def interrupted_event_def)

lemma page_of_running: "page_runs (page_of running_filter runs) = runs"
  by (simp add: page_of_def running_filter_def)

text \<open>A listing of all runs with events, filtered by status.\<close>

lemma listed_running:
  assumes "distinct ids" "\<And>r. r \<in> set ids \<longleftrightarrow> es r \<noteq> []"
  defines "runs \<equiv> filter (\<lambda>x. rr_status x = Running) (map (\<lambda>r. reconstruct_record r (es r)) ids)"
  shows "rr_run_id ` set runs = {r. is_running r (es r)} \<and> distinct (map rr_run_id runs)"
proof -
  have "map rr_run_id runs = filter (\<lambda>r. is_running r (es r)) ids"
    using assms(2) unfolding runs_def by (auto simp: filter_map comp_def is_running_def intro!: filter_cong)
  then have ids: "rr_run_id ` set runs = set (filter (\<lambda>r. is_running r (es r)) ids)"
    "distinct (map rr_run_id runs)"
    using assms(1) by (metis list.set_map, simp)
  have "set (filter (\<lambda>r. is_running r (es r)) ids) = {r. is_running r (es r)}"
    using assms(2) by (auto simp: is_running_def)
  with ids show ?thesis by simp
qed

text \<open>Both stores list their running runs: the index of the in-memory store is an ordered map, and every
  file of the file store is in a directory of its own.\<close>

definition mem_listed :: "mem_store \<Rightarrow> bool" where
  "mem_listed st \<longleftrightarrow> mem_inv st \<and> bt_wf (mem_store.ms_runs st)"

lemma mem_listed_write:
  assumes "mem_listed st"
  shows "mem_listed (snd (mem_write_batch b st))"
proof -
  have "bt_wf (mem_store.ms_runs (fold mem_write_run gs s))" if "bt_wf (mem_store.ms_runs s)" for gs s
    using that by (induction gs arbitrary: s) (auto simp: mem_write_run_def Let_def)
  then show ?thesis
    using assms mem_write_batch_log [of st b] by (simp add: mem_listed_def mem_write_batch_def)
qed

lemma mem_runs_eq:
  assumes "mem_listed s"
  shows "map snd (mem_store.ms_runs s) =
      map (\<lambda>r. reconstruct_record r (mem_events s r)) (map fst (mem_store.ms_runs s))
    \<and> (\<forall>r. r \<in> set (map fst (mem_store.ms_runs s)) \<longleftrightarrow> mem_events s r \<noteq> [])"
proof -
  have get: "bt_get r (mem_store.ms_runs s) = map_option (reconstruct_record r) (bt_get r (ms_events s))"
    and ne: "bt_get r (ms_events s) = Some es \<Longrightarrow> es \<noteq> []" for r es
    using assms by (auto simp: mem_listed_def mem_inv_def)
  have "snd e = reconstruct_record (fst e) (mem_events s (fst e))" if "e \<in> set (mem_store.ms_runs s)" for e
    using assms that bt_get_mem [of "mem_store.ms_runs s" "fst e" "snd e"] get [of "fst e"]
    by (auto simp: mem_listed_def mem_events_def)
  moreover have "r \<in> set (map fst (mem_store.ms_runs s)) \<longleftrightarrow> mem_events s r \<noteq> []" for r
    using bt_get_None_iff [of r "mem_store.ms_runs s"] get [of r] ne [of r]
    by (auto simp: mem_events_def split: option.splits)
  ultimately show ?thesis by simp
qed

interpretation mem_list: run_listing mem_listed "\<lambda>_. True" mem_events "\<lambda>_ :: unit. mem_write_batch"
  "\<lambda>_. mem_get_run" "\<lambda>_ st flt. Inr (mem_list_runs st flt)"
proof unfold_locales
  fix s :: mem_store and page
  assume inv: "mem_listed s" and page: "Inr (mem_list_runs s running_filter) = (Inr page :: (run_store_error, run_page) result)"
  then have "page_runs page = filter (\<lambda>x. rr_status x = Running) (map snd (mem_store.ms_runs s))"
    using page_of_running by (auto simp: mem_list_runs_def opt_matches_def) (simp add: running_filter_def)
  moreover have "distinct (map fst (mem_store.ms_runs s))"
    using inv sorted_wrt_less_distinct by (auto simp: mem_listed_def bt_wf_def)
  ultimately show "rr_run_id ` set (page_runs page) = {r. is_running r (mem_events s r)}
      \<and> distinct (map rr_run_id (page_runs page))"
    using mem_runs_eq [OF inv] listed_running [of "map fst (mem_store.ms_runs s)" "mem_events s"] by simp
qed (use mem_listed_write in \<open>auto simp: mem_listed_def mem.log_sorted mem.get_ok mem_write_batch_log\<close>)

definition file_listed :: "'l codec \<Rightarrow> 'l file_store \<Rightarrow> bool" where
  "file_listed c fs \<longleftrightarrow>
     file_inv c fs \<and> distinct (fs_dirs fs) \<and> (\<forall>r. bt_get r (fs_files fs) \<noteq> None \<longrightarrow> r \<in> set (fs_dirs fs))"

lemma file_write_run_dirs:
  "distinct (fs_dirs fs) \<Longrightarrow> \<forall>r. bt_get r (fs_files fs) \<noteq> None \<longrightarrow> r \<in> set (fs_dirs fs) \<Longrightarrow>
   file_write_run c io run_id b fs = (res, fs') \<Longrightarrow>
   distinct (fs_dirs fs') \<and> (\<forall>r. bt_get r (fs_files fs') \<noteq> None \<longrightarrow> r \<in> set (fs_dirs fs'))"
  by (auto simp: file_write_run_def Let_def split: sum.splits if_splits prod.splits)

lemma file_listed_write:
  assumes "file_listed c fs" "list_all (codable c) b"
    and "stats_ok io"
  shows "file_listed c (snd (file_write_batch c io b fs))"
proof -
  have "distinct (fs_dirs fs') \<and> (\<forall>r. bt_get r (fs_files fs') \<noteq> None \<longrightarrow> r \<in> set (fs_dirs fs'))"
    if "distinct (fs_dirs fs)" "\<forall>r. bt_get r (fs_files fs) \<noteq> None \<longrightarrow> r \<in> set (fs_dirs fs)"
      "file_write_runs c io gs fs = (res, fs')" for gs fs res fs'
    using that
  proof (induction c io gs fs rule: file_write_runs.induct)
    case (2 c io run_id new_events by_run fs)
    obtain res1 fs1 where w: "file_write_run c io run_id new_events fs = (res1, fs1)" by force
    note d = file_write_run_dirs [OF 2(2,3) w]
    show ?case
    proof (cases res1)
      case (Inl e)
      with 2(4) w d show ?thesis by simp
    next
      case (Inr u)
      with 2(1) [OF w [symmetric, unfolded Inr] refl] 2(4) w d show ?thesis by simp
    qed
  qed simp
  from this [of fs "group_by ev_run_id b" "fst (file_write_batch c io b fs)" "snd (file_write_batch c io b fs)"]
    assms file_write_batch_log [OF _ assms(2), of fs io "fst (file_write_batch c io b fs)" "snd (file_write_batch c io b fs)"]
      assms(3)
  show ?thesis by (simp add: file_listed_def file_write_batch_def)
qed

lemma file_records_eq:
  "file_records c io fs rs = Inr records \<Longrightarrow> stats_ok io \<Longrightarrow>
     records = map (\<lambda>r. reconstruct_record r (file_log c fs r)) (filter (\<lambda>r. file_log c fs r \<noteq> []) rs)"
  by (induction rs arbitrary: records)
     (auto simp: file_get_run_def reconstruct_run_def dest!: read_events_log)

text \<open>
  Events that are written on a line that is not blank and read back equal.  Not every event is: JSON has
  no NaN or infinity, and a number printed and parsed again may differ in its last digit.  In a store of
  such events every write of such events succeeds unless a system call fails.
\<close>

definition writable :: "'l codec \<Rightarrow> write_event \<Rightarrow> bool" where
  "writable c e \<longleftrightarrow> (case ser c e of Inl _ \<Rightarrow> False | Inr l \<Rightarrow> \<not> blank c l \<and> de c l = Inr e)"

definition file_writable :: "'l codec \<Rightarrow> 'l file_store \<Rightarrow> bool" where
  "file_writable c fs \<longleftrightarrow> file_listed c fs \<and> (\<forall>r. list_all (writable c) (file_log c fs r))"

lemma writable_codable: "writable c e \<Longrightarrow> codable c e"
  by (simp add: writable_def codable_def split: sum.splits)

lemma writable_codables: "list_all (writable c) es \<Longrightarrow> list_all (codable c) es"
  by (simp add: list_all_iff writable_codable)

lemma file_writable_write:
  assumes "file_writable c fs" "list_all (writable c) b" "stats_ok io"
  shows "file_writable c (snd (file_write_batch c io b fs))"
proof -
  have listed: "file_listed c fs" and inv: "file_inv c fs"
    using assms(1) by (simp_all add: file_writable_def file_listed_def)
  have b: "list_all (codable c) b" by (rule writable_codables [OF assms(2)])
  have "list_all (writable c) (file_log c (snd (file_write_batch c io b fs)) r)" for r
    using file_write_batch_log [OF inv b prod.collapse [symmetric] assms(3), of r] assms(1,2)
    by (auto simp: file_writable_def list_all_iff set_merge_events of_run_def)
  with file_listed_write [OF listed b assms(3)] show ?thesis by (simp add: file_writable_def)
qed

lemma file_list_running:
  assumes "file_listed c s" "file_list_runs c io s running_filter = Inr page" "stats_ok io"
  shows "rr_run_id ` set (page_runs page) = {r. is_running r (file_log c s r)} \<and> distinct (map rr_run_id (page_runs page))"
proof -
  obtain records where "file_records c io s (fs_dirs s) = Inr records"
    "page = page_of running_filter (filter (filter_accepts running_filter) records)"
    using assms(2,3) by (auto simp: file_list_runs_def)
  then have "page_runs page = filter (\<lambda>x. rr_status x = Running)
      (map (\<lambda>r. reconstruct_record r (file_log c s r)) (filter (\<lambda>r. file_log c s r \<noteq> []) (fs_dirs s)))"
    using file_records_eq [of c io s "fs_dirs s"] assms(3)
    by (simp add: page_of_running) (simp add: filter_accepts_def [abs_def] running_filter_def opt_matches_def)
  moreover have "r \<in> set (fs_dirs s)" if "file_log c s r \<noteq> []" for r
    using that assms(1) by (auto simp: file_listed_def file_log_def split: option.splits)
  ultimately show ?thesis
    using assms(1) listed_running [of "filter (\<lambda>r. file_log c s r \<noteq> []) (fs_dirs s)" "file_log c s"]
    by (auto simp: file_listed_def)
qed

interpretation file_list: run_listing "file_writable c" "writable c" "file_log c"
  "\<lambda>io. file_write_batch c (with_stats io)" "\<lambda>io. file_get_run c (with_stats io)"
  "\<lambda>io. file_list_runs c (with_stats io)" for c
proof unfold_locales
  fix s :: "'a file_store" and io page
  assume "file_writable c s" "file_list_runs c (with_stats io) s running_filter = Inr page"
  then show "rr_run_id ` set (page_runs page) = {r. is_running r (file_log c s r)}
      \<and> distinct (map rr_run_id (page_runs page))"
    using file_list_running [of c s "with_stats io" page] by (simp add: file_writable_def)
next
  fix s :: "'a file_store" and io b
  assume "file_writable c s" "list_all (writable c) b"
  then show "file_writable c (snd (file_write_batch c (with_stats io) b s))"
    by (rule file_writable_write) simp
next
  fix s :: "'a file_store" and io b r
  assume "file_writable c s" "list_all (writable c) b"
  then have "file_inv c s" "list_all (codable c) b" by (auto simp: file_writable_def file_listed_def writable_codables)
  note log = file_write_batch_log [OF this prod.collapse [symmetric] stats_ok_with_stats, of io r]
  show "file_log c (snd (file_write_batch c (with_stats io) b s)) r
      \<in> {file_log c s r, merge_events (file_log c s r) (of_run r b)}"
    using log by blast
  show "fst (file_write_batch c (with_stats io) b s) = Inr () \<Longrightarrow>
      file_log c (snd (file_write_batch c (with_stats io) b s)) r = merge_events (file_log c s r) (of_run r b)"
    using log by blast
qed (auto simp: file_writable_def file_listed_def intro: filerun.get_ok)

lemma mark_runs_outcomes:
  "mark_runs (\<lambda>io. write_batch (f io)) ios now n runs s = mark_runs write_batch (\<lambda>n. f (ios n)) now n runs s"
  by (induction runs arbitrary: n s) simp_all

lemma crash_recovery_outcomes:
  "crash_recovery (\<lambda>io. list_runs (f io)) (\<lambda>io. write_batch (f io)) io ios now s =
     crash_recovery list_runs write_batch (f io) (\<lambda>n. f (ios n)) now s"
  by (simp add: crash_recovery_def mark_runs_outcomes split: sum.split)

text \<open>Without failing system calls, writes and queries succeed in such a store.\<close>

definition no_faults :: io_outcome where
  "no_faults = (\<lambda>_. None)"

lemma io_call_no_faults [simp]: "io_call no_faults call msg = Inr ()"
  by (simp add: io_call_def no_faults_def)

lemma stats_ok_no_faults [simp]: "stats_ok no_faults" "with_stats no_faults = no_faults"
  by (simp_all add: stats_ok_def stat_ok_def no_faults_def with_stats_def fun_eq_iff)

lemma write_lines_total: "list_all (writable c) es \<Longrightarrow> fst (write_lines c no_faults r n es acc) = Inr ()"
  by (induction es arbitrary: n acc) (auto simp: writable_def split: sum.splits)

lemma read_events_total: "file_inv c fs \<Longrightarrow> read_events c no_faults fs r = Inr (file_log c fs r)"
  by (fastforce simp: read_events_def file_inv_def file_log_def split: option.split sum.split)

lemma file_write_run_total:
  assumes "file_inv c fs" "list_all (writable c) (file_log c fs r)" "list_all (writable c) es"
  shows "fst (file_write_run c no_faults r es fs) = Inr ()"
proof -
  have "read_events c no_faults (fs\<lparr>fs_dirs := d\<rparr>) r = Inr (file_log c fs r)" for d
    using read_events_total [of c "fs\<lparr>fs_dirs := d\<rparr>" r] assms(1) by (simp add: file_inv_def file_log_def)
  moreover have "fst (write_lines c no_faults r 0 (file_log c fs r
      @ filter (\<lambda>e. ev_seq e \<notin> set (map ev_seq (file_log c fs r))) es) []) = Inr ()"
    using assms(2,3) by (intro write_lines_total) (auto simp: list_all_iff)
  ultimately show ?thesis
    by (simp add: file_write_run_def Let_def split: prod.split sum.split) (metis fst_conv sum.distinct(1))
qed

lemma file_write_runs_total:
  assumes "file_inv c fs" "\<And>r. list_all (writable c) (file_log c fs r)"
    and "list_all (\<lambda>g. list_all (writable c) (snd g)) gs"
  shows "fst (file_write_runs c no_faults gs fs) = Inr ()"
  using assms
proof (induction gs arbitrary: fs)
  case (Cons g gs)
  obtain r es where g: "g = (r, es)" by force
  with Cons.prems(3) have es: "list_all (writable c) es" by simp
  obtain fs1 where w: "file_write_run c no_faults r es fs = (Inr (), fs1)"
    using file_write_run_total [OF Cons.prems(1,2) es, of r] by (metis prod.collapse)
  note log = file_write_run_log [OF Cons.prems(1) writable_codables [OF es] w stats_ok_no_faults(1)]
  have "list_all (writable c) (file_log c fs1 q)" for q
    using log Cons.prems(2) [of q] es by (cases "q = r") (auto simp: list_all_iff set_merge_events)
  with Cons.IH [of fs1] log Cons.prems(3) w g show ?case by simp
qed simp

lemma file_write_total:
  assumes "file_writable c fs" "list_all (writable c) b"
  shows "fst (file_write_batch c no_faults b fs) = Inr ()"
proof -
  have "list_all (\<lambda>g. list_all (writable c) (snd g)) (group_by ev_run_id b)"
    unfolding list_all_iff
  proof (intro ballI)
    fix g e
    assume g: "g \<in> set (group_by ev_run_id b)" and e: "e \<in> set (snd g)"
    have "bt_get (fst g) (group_by ev_run_id b) = Some (snd g)"
      using g group_by_groups [of ev_run_id b] by (simp add: bt_get_distinct)
    from group_by_mem [OF this] e assms(2) show "writable c e" by (auto simp: list_all_iff)
  qed
  then have "fst (file_write_runs c no_faults (group_by ev_run_id b) fs) = Inr ()"
    using assms(1) by (intro file_write_runs_total) (auto simp: file_writable_def file_listed_def)
  then show ?thesis by (simp add: file_write_batch_def)
qed

lemma file_list_total: "file_inv c fs \<Longrightarrow> \<exists>page. file_list_runs c no_faults fs flt = Inr page"
proof -
  assume inv: "file_inv c fs"
  have "\<exists>records. file_records c no_faults fs rs = Inr records" for rs
    by (induction rs) (auto simp: file_get_run_def read_events_total [OF inv])
  then show ?thesis by (auto simp: file_list_runs_def)
qed

section \<open>Properties\<close>

text \<open>
  (C30) Crash recovery when no system call fails: on a file store whose stored events, and the recovery
  events of its running runs, are written and read back equal (so no event holds a number that JSON
  does not carry exactly), and in which no event of a running run has the number reserved for recovery,
  every run that was running is reported as interrupted at one of the recovery times, with the rest of
  its record kept, and every other run is reported as before.
\<close>

theorem crash_recovery_interrupts_running:
  assumes "file_writable c fs"
    and "\<And>r n. is_running r (file_log c fs r) \<Longrightarrow> writable c (interrupted_event r (now n))"
    and "\<And>r. is_running r (file_log c fs r) \<Longrightarrow> - 1 \<notin> ev_seq ` set (file_log c fs r)"
  shows "case file_get_run c no_faults fs r of
      Inr (Some record) \<Rightarrow>
        if rr_status record = Running
        then \<exists>n. file_get_run c no_faults
               (crash_recovery (file_list_runs c) (file_write_batch c) no_faults (\<lambda>_. no_faults) now fs) r
             = Inr (Some (record\<lparr>rr_status := Interrupted, rr_duration_ms := Some 0, rr_llm_summary := None,
                 rr_completed_at := Some (now n)\<rparr>))
        else file_get_run c no_faults
               (crash_recovery (file_list_runs c) (file_write_batch c) no_faults (\<lambda>_. no_faults) now fs) r
             = Inr (Some record)
    | result \<Rightarrow> file_get_run c no_faults
        (crash_recovery (file_list_runs c) (file_write_batch c) no_faults (\<lambda>_. no_faults) now fs) r = result"
proof -
  let ?fs' = "crash_recovery (file_list_runs c) (file_write_batch c) no_faults (\<lambda>_. no_faults) now fs"
  have inv: "file_inv c fs" using assms(1) by (simp add: file_writable_def file_listed_def)
  obtain page where page: "file_list_runs c no_faults fs running_filter = Inr page"
    using file_list_total [OF inv] by blast
  have total: "fst (file_write_batch c (with_stats no_faults) b s) = Inr ()"
    if "file_writable c s" "list_all (writable c) b" for b s
    using file_write_total [OF that] by simp
  note log = file_list.recovery_log [where c = c and io = no_faults and ios = "\<lambda>_. no_faults" and now = now and r = r,
      OF assms(1,2,3) total, unfolded crash_recovery_outcomes stats_ok_no_faults, OF _ _ _ _ page]
  have get: "file_get_run c no_faults s r = Inr (reconstruct_run r (file_log c s r))" if "file_inv c s" for s
    using read_events_total [OF that] by (simp add: file_get_run_def)
  have inv': "file_inv c ?fs'" using log by (simp add: file_writable_def file_listed_def)
  show ?thesis
  proof (cases "is_running r (file_log c fs r)")
    case True
    then obtain m where "file_log c ?fs' r = file_log c fs r @ [interrupted_event r (now m)]" using log by auto
    with True show ?thesis
      by (auto simp: get [OF inv] get [OF inv'] reconstruct_run_def is_running_def interrupted_record)
  next
    case False
    then have "file_log c ?fs' r = file_log c fs r" using log by simp
    with False show ?thesis
      by (auto simp: get [OF inv] get [OF inv'] reconstruct_run_def is_running_def)
  qed
qed

text \<open>
  What the dispatch loop of the engine executes: the events whose idempotency key has not occurred
  before and that resolve to a version, in order and each key at most once; each starts its flow as a
  call of \<open>execute\<close> with the event's inputs and source does, that is, in the version that is current
  by then, whichever version the event names.
\<close>

theorem triggered_runs:
  "engine_dispatch hl lib ops {} turns =
     map (\<lambda>t. engine_execute hl lib ops (dt_io' t) (dt_fs' t) (dt_eid t) (dt_request_id t) (dt_now t) (dt_gone t)
            (te_flow_id (dt_event t)) (te_inputs (dt_event t)) (Some (dt_event t)) (dt_executor t))
       (List.filter (turn_resolves ops) (first_occurrences turn_key {} turns))
   \<and> distinct (List.map_filter turn_key (first_occurrences turn_key {} turns))"
  using engine_dispatch_eq first_occurrences_keys by blast

text \<open>
  Chained flows, end to end: when a run of flow \<open>a\<close> completes, a flow trigger from \<open>a\<close> to \<open>b\<close> that
  receives the completion sends an event, and when the dispatch loop receives it and \<open>b\<close> has a current
  version with registered node types, a run of that version starts; its record names the completed run
  as its origin.  Its inputs are the empty object, since completions carry no outputs.
\<close>

theorem chained_flow:
  assumes "complete_run gone ended now ops cancelled st run_id ar ex = (se, ex1)"
    and "final_status (ar_ctx ar) cancelled st = Completed"
    and "config = json_object [(''source_flow_id'', JString (graph_id (rc_graph (ar_ctx ar)))), (''flow_id'', JString b)]"
    and "dt_event t = last (fst (flow_start config [GotCompletion (last (xs_completed ex1)) True]))"
    and "versioning_get_current store (dt_io t) b (dt_fs t) \<in> range (\<lambda>v. Inr (Some v))"
    and "versioning_get_current store (dt_io' t) b (dt_fs' t) = Inr (Some v)" "\<not> dt_gone t"
    and "\<forall>n \<in> set (nodes (fv_graph v)). xs_registry (dt_executor t) (node_type n) \<noteq> None"
  shows "\<exists>ex2 ar2 rr. engine_dispatch hl lib store {} [t] = [(Inr (exec_run_id (dt_eid t)), ex2)]
    \<and> bt_get (exec_run_id (dt_eid t)) (xs_active ex2) = Some ar2 \<and> rc_graph (ar_ctx ar2) = fv_graph v
    \<and> reconstruct_run (exec_run_id (dt_eid t)) (session_log (ar_session ar2)) = Some rr
    \<and> rr_version_id rr = fv_version_id v \<and> rr_inputs rr = empty_object
    \<and> rr_triggered_by rr = SrcFlow (rc_run_id (ar_ctx ar)) (graph_id (rc_graph (ar_ctx ar)))"
proof -
  let ?a = "graph_id (rc_graph (ar_ctx ar))"
  have c: "last (xs_completed ex1) =
      \<lparr>rce_run_id = rc_run_id (ar_ctx ar), rce_flow_id = ?a, rce_status = Completed, rce_outputs = empty_object\<rparr>"
    using assms(1,2) by (auto simp: complete_run_def Let_def)
  have "parse_flow_config config = Inr (?a, b, [Completed])"
    by (simp add: assms(3) parse_flow_config_def get_str_def json_object_def bt_of_list_def)
  then have ev: "dt_event t = \<lparr>te_flow_id = b, te_version_id = None, te_inputs = empty_object,
      te_source = SrcFlow (rc_run_id (ar_ctx ar)) ?a, idempotency_key = None\<rparr>"
    by (simp add: assms(4) c flow_start_def flow_event_def send_then_def)
  then have one: "engine_dispatch hl lib store {} [t] =
      [engine_execute hl lib store (dt_io' t) (dt_fs' t) (dt_eid t) (dt_request_id t) (dt_now t) (dt_gone t)
        b empty_object (Some (dt_event t)) (dt_executor t)]"
    using assms(5) by (auto simp: check_key_def resolve_event_def dispatch_execute_current)
  obtain ex2 ar2 rr where "executor_execute hl lib (dt_eid t) (dt_now t) False (fv_graph v) (fv_version_id v) empty_object
      (te_source (dt_event t)) None (dt_executor t) = (Inr (exec_run_id (dt_eid t)), ex2)"
    "bt_get (exec_run_id (dt_eid t)) (xs_active ex2) = Some ar2"
    "ar_ctx ar2 = run_context_of lib (dt_executor t) (exec_run_id (dt_eid t)) (fv_graph v) empty_object"
    "reconstruct_run (exec_run_id (dt_eid t)) (session_log (ar_session ar2)) = Some rr"
    "start_fields rr = (exec_run_id (dt_eid t), graph_id (fv_graph v), fv_version_id v, empty_object,
        te_source (dt_event t), Some (compute_config_hash hl (fv_graph v)), None, Some (dt_now t))"
    using executor_execute_accepts [OF assms(8)] by metis
  with one assms(6,7) ev show ?thesis
    by (auto simp: engine_execute_def event_source_def run_context_of_def start_fields_def)
qed

text \<open>
  The registry of a built engine: a node type is handled by the handler given to the builder, else by
  the first plugin of the scanned directories with this type, else by the built-in node; so the
  executor knows the same types as the catalogue and all eight built-in ones.
\<close>

theorem built_registry:
  assumes "engine_build defaults scan recover b = Inr en"
  shows "xs_registry (en_executor en) ty =
      (case bt_get ty (eb_nodes b) of Some h \<Rightarrow> Some h
       | None \<Rightarrow> List.find (\<lambda>h. meta_node_type h = ty) (scanned scan (eb_dylib_dirs b) @ builtins))
    \<and> node_handler ty en = xs_registry (en_executor en) ty
    \<and> list_all (\<lambda>h. xs_registry (en_executor en) (meta_node_type h) \<noteq> None) builtins"
proof -
  obtain m where m: "build_nodes scan b = Inr m" "en_nodes en = m"
    "xs_registry (en_executor en) = (\<lambda>ty. bt_get ty m)"
    using assms by (auto simp: engine_build_def Let_def executor_new_def)
  have "list_all (\<lambda>h. bt_get (meta_node_type h) m \<noteq> None) builtins"
    unfolding list_all_iff
  proof
    fix h assume h: "h \<in> set builtins"
    then have "List.find (\<lambda>x. meta_node_type x = meta_node_type h) (scanned scan (eb_dylib_dirs b) @ builtins) \<noteq> None"
      unfolding find_None_iff_list by auto
    then show "bt_get (meta_node_type h) m \<noteq> None"
      unfolding build_nodes_get [OF m(1)] by (simp split: option.split)
  qed
  with m build_nodes_get [OF m(1), of ty] show ?thesis by (simp add: node_handler_def)
qed

section \<open>Witnesses\<close>

definition demo_files :: "write_event file_store" where
  "demo_files = \<lparr>fs_dirs = [''run''], fs_files = [(''run'',
     [RunStarted 1 1 ''run'' ''f'' ''v'' JNull (SrcManual ''u'') None None 5])], fs_temps = []\<rparr>"

theorem crash_recovery_interrupts_running_witness:
  "\<exists>n record. file_get_run plain_codec no_faults
      (crash_recovery (file_list_runs plain_codec) (file_write_batch plain_codec) no_faults (\<lambda>_. no_faults)
        (\<lambda>n. 7 + int n) demo_files) ''run'' = Inr (Some record)
    \<and> rr_status record = Interrupted \<and> rr_completed_at record = Some (7 + int n) \<and> rr_started_at record = Some 5"
proof -
  have ok: "writable plain_codec e" for e by (simp add: writable_def plain_codec_def)
  have files: "bt_get r (fs_files demo_files) = (if r = ''run''
      then Some [RunStarted 1 1 ''run'' ''f'' ''v'' JNull (SrcManual ''u'') None None 5] else None)" for r
    by (auto simp: demo_files_def)
  have parse: "parse_lines plain_codec ls = Inr ls" for ls
    by (induction ls) (simp_all add: plain_codec_def)
  have listed: "file_listed plain_codec demo_files"
    by (auto simp: file_listed_def file_inv_def files parse) (simp_all add: demo_files_def)
  have log: "file_log plain_codec demo_files r = (if r = ''run''
      then [RunStarted 1 1 ''run'' ''f'' ''v'' JNull (SrcManual ''u'') None None 5] else [])" for r
    by (simp add: file_log_def files plain_codec_def)
  have get: "file_get_run plain_codec no_faults demo_files ''run'' = Inr (Some
      (reconstruct_record ''run'' [RunStarted 1 1 ''run'' ''f'' ''v'' JNull (SrcManual ''u'') None None 5]))"
    by (simp add: file_get_run_def read_events_def files plain_codec_def reconstruct_run_def stat_ok_def no_faults_def [THEN fun_cong])
  have fresh: "- 1 \<notin> ev_seq ` set (file_log plain_codec demo_files r)" for r
    by (cases "r = ''run''") (simp_all add: log)
  have writable: "file_writable plain_codec demo_files"
    using listed by (simp add: file_writable_def list_all_iff ok)
  from crash_recovery_interrupts_running [OF writable ok fresh, where r = "''run''" and now = "\<lambda>n. 7 + int n"] get
  show ?thesis by (auto simp: reconstruct_record_def run_record_default_def)
qed

definition demo_saved :: "(flow_version + flow_head) flow_files" where
  "demo_saved = save_all demo_lib demo_vc demo_hc [demo_request ''a'', demo_request ''b''] empty_files"

lemma demo_saved_get:
  "versioning_get_current (file_flow_store demo_vc demo_hc) (\<lambda>_. None) ''f'' demo_saved
     = Inr (Some (new_version demo_lib 1 ''f'' (named_graph ''b'' []) None None))"
  "versioning_get_at_version (file_flow_store demo_vc demo_hc) (\<lambda>_. None) ''a'' demo_saved
     = Inr (Some (new_version demo_lib 1 ''f'' (named_graph ''a'' []) None None))"
  by (simp_all add: demo_saved_def save_all_def save_one_def save_with_def demo_request_def versioning_save_def file_flow_store_def
      file_get_version_def file_put_version_def file_put_head_def file_get_head_def empty_files_def demo_vc_def
      demo_hc_def demo_lib_def compute_version_id_def named_graph_def new_version_def new_head_def atomic_write_def
      file_call_def doc_put_def hm_entry_def versioning_get_current_def versioning_get_at_version_def Let_def)

definition demo_turn ::
  "trigger_event \<Rightarrow> (file_io, (flow_version + flow_head) flow_files, unit) dispatch_turn" where
  "demo_turn event =
     \<lparr>dt_event = event, dt_io = (\<lambda>_. None), dt_fs = demo_saved, dt_io' = (\<lambda>_. None), dt_fs' = demo_saved,
      dt_eid = \<lparr>exec_run_id = ''next'', execution_hash = None\<rparr>, dt_request_id = ''q'', dt_now = 9, dt_gone = False,
      dt_executor = demo_engine\<rparr>"

definition idle_ctx :: run_context where
  "idle_ctx = demo_ctx\<lparr>rc_graph := named_graph ''idle'' []\<rparr>"

theorem chained_flow_witness:
  "\<exists>(t :: (file_io, _, unit) dispatch_turn) ex2 ar2 rr. engine_dispatch demo_lib demo_engine_lib (file_flow_store demo_vc demo_hc) {} [t] = [(Inr ''next'', ex2)]
    \<and> bt_get ''next'' (xs_active ex2) = Some ar2
    \<and> reconstruct_run ''next'' (session_log (ar_session ar2)) = Some rr \<and> rr_version_id rr = ''b''
    \<and> rr_triggered_by rr = SrcFlow (rc_run_id idle_ctx) ''idle''"
proof -
  let ?ar = "\<lparr>ar_ctx = idle_ctx, ar_session = undefined\<rparr>"
  let ?v = "new_version demo_lib 1 ''f'' (named_graph ''b'' []) None None"
  define config where "config = json_object [(''source_flow_id'', JString (graph_id (rc_graph (ar_ctx ?ar)))), (''flow_id'', JString ''f'')]"
  define c where "c = complete_run False 8 9 [] False (run_init idle_ctx) (rc_run_id idle_ctx) ?ar demo_engine"
  define t where "t = demo_turn (last (fst (flow_start config [GotCompletion (last (xs_completed (snd c))) True])))"
  have turn: "dt_event t = last (fst (flow_start config [GotCompletion (last (xs_completed (snd c))) True]))"
    "exec_run_id (dt_eid t) = ''next''" "\<not> dt_gone t"
    "versioning_get_current (file_flow_store demo_vc demo_hc) (dt_io t) ''f'' (dt_fs t) \<in> range (\<lambda>v. Inr (Some v))"
    "versioning_get_current (file_flow_store demo_vc demo_hc) (dt_io' t) ''f'' (dt_fs' t) = Inr (Some ?v)"
    by (simp_all add: t_def demo_turn_def demo_saved_get)
  have v: "\<forall>n \<in> set (nodes (fv_graph ?v)). xs_registry (dt_executor t) (node_type n) \<noteq> None" "fv_version_id ?v = ''b''"
    by (simp_all add: new_version_def named_graph_def demo_lib_def compute_version_id_def)
  have idle: "graph_id (rc_graph idle_ctx) = ''idle''" by (simp add: idle_ctx_def named_graph_def)
  have status: "final_status (ar_ctx ?ar) False (run_init idle_ctx) = Completed"
    by simp code_simp
  have "complete_run False 8 9 [] False (run_init idle_ctx) (rc_run_id idle_ctx) ?ar demo_engine = (fst c, snd c)"
    by (simp add: c_def)
  from chained_flow [OF this status config_def turn(1,4,5,3) v(1), of demo_lib demo_engine_lib]
  have "\<exists>ex2 ar2 rr. engine_dispatch demo_lib demo_engine_lib (file_flow_store demo_vc demo_hc) {} [t] = [(Inr ''next'', ex2)]
    \<and> bt_get ''next'' (xs_active ex2) = Some ar2 \<and> rc_graph (ar_ctx ar2) = fv_graph ?v
    \<and> reconstruct_run ''next'' (session_log (ar_session ar2)) = Some rr \<and> rr_version_id rr = ''b''
    \<and> rr_inputs rr = empty_object \<and> rr_triggered_by rr = SrcFlow (rc_run_id idle_ctx) ''idle''"
    unfolding turn(2) v(2) by (simp only: active_run.simps idle)
  then show ?thesis by blast
qed

theorem built_registry_witness:
  "\<exists>en. engine_build \<lparr>ds_flow_store = Inr (), ds_tag_store = Inr (), ds_run_store = Inr ()\<rparr> (\<lambda>_. None) (\<lambda>s. s)
      (engine_builder_new :: (unit, unit, unit, unit) engine_builder) = Inr en
    \<and> xs_registry (en_executor en) ''jq'' = Some jq_meta"
proof -
  let ?b = "engine_builder_new :: (unit, unit, unit, unit) engine_builder"
  obtain en where en: "engine_build \<lparr>ds_flow_store = Inr (), ds_tag_store = Inr (), ds_run_store = Inr ()\<rparr> (\<lambda>_. None) (\<lambda>s. s)
      ?b = Inr en"
    by (simp add: engine_build_def engine_builder_new_def provider_or_def build_nodes_def Let_def)
  with built_registry [OF en, of "''jq''"] show ?thesis
    by (simp add: engine_builder_new_def scanned_def builtins_def llm_call_meta_def tool_router_meta_def http_meta_def
        conditional_meta_def human_in_loop_meta_def jq_meta_def builtin_meta_def)
qed

text \<open>The version an event names is resolved and then not used: an event for version \<open>a\<close> runs the current
  version \<open>b\<close>.\<close>

lemma dispatch_ignores_version:
  "\<exists>ex2 ar2 rr. engine_dispatch demo_lib demo_engine_lib (file_flow_store demo_vc demo_hc) {}
      [demo_turn \<lparr>te_flow_id = ''f'', te_version_id = Some ''a'', te_inputs = JNull, te_source = SrcManual ''u'',
         idempotency_key = None\<rparr>] = [(Inr ''next'', ex2)]
    \<and> bt_get ''next'' (xs_active ex2) = Some ar2
    \<and> reconstruct_run ''next'' (session_log (ar_session ar2)) = Some rr \<and> rr_version_id rr = ''b''"
proof -
  let ?g = "named_graph ''b'' []"
  obtain ex2 ar2 rr where "executor_execute demo_lib demo_engine_lib \<lparr>exec_run_id = ''next'', execution_hash = None\<rparr> 9 False
      ?g ''b'' JNull (SrcManual ''u'') None demo_engine = (Inr ''next'', ex2)"
    "bt_get ''next'' (xs_active ex2) = Some ar2" "reconstruct_run ''next'' (session_log (ar_session ar2)) = Some rr"
    "rr_version_id rr = ''b''"
    using executor_execute_accepts [of ?g demo_engine demo_lib demo_engine_lib
        "\<lparr>exec_run_id = ''next'', execution_hash = None\<rparr>" 9 "''b''" JNull "SrcManual ''u''" None]
    by (auto simp: named_graph_def start_fields_def)
  then show ?thesis
    by (simp add: demo_turn_def check_key_def resolve_event_def demo_saved_get dispatch_execute_current engine_execute_def
        event_source_def new_version_def demo_lib_def compute_version_id_def) (simp add: named_graph_def)
qed

end
