(* ===== verification/Framework_Adapters.thy ===== *)
theory Framework_Adapters
  imports Session Rust_Text
begin

text \<open>
  \<open>cleargate-adapters\<close>: callbacks of LangChain, LangGraph and Semantic Kernel, translated into adapter
  events, and the session that pairs starts with ends and records them through an observer session.
  What the session records is characterised against a reference that looks, for every end, for the
  last unanswered start.
\<close>

section \<open>Events and JSON readers\<close>

datatype adapter_event =
    LlmStart string json datetime
  | LlmEnd string json u64 datetime
  | ToolStart string string json datetime
  | ToolEnd string string json u64 datetime
  | NodeTransition string string datetime
  | StepStart string json datetime
  | StepEnd string json datetime

text \<open>\<open>raw.get(k).and_then(|v| v.as_str()).unwrap_or(d)\<close>, \<open>raw.get(k).cloned().unwrap_or_default()\<close> and
  \<open>raw.get(k).and_then(|v| v.as_u64()).unwrap_or(0)\<close>.\<close>

definition str_or :: "json \<Rightarrow> string \<Rightarrow> string \<Rightarrow> string" where
  "str_or raw k d = unwrap_or (get_str raw k) d"

definition get_or_null :: "json \<Rightarrow> string \<Rightarrow> json" where
  "get_or_null raw k = unwrap_or (jget raw k) JNull"

definition u64_or_zero :: "json \<Rightarrow> string \<Rightarrow> u64" where
  "u64_or_zero raw k = unwrap_or (Option.bind (jget raw k) as_u64) 0"

section \<open>LangChain\<close>

definition extract_model_from_repr :: "json \<Rightarrow> string option" where
  "extract_model_from_repr serialized =
     Option.bind (get_str serialized ''repr'') (\<lambda>repr.
     Option.bind (snd (split_once ''model='' repr)) (\<lambda>rest.
       case fst (split_once ''model='' rest) of
         [] \<Rightarrow> None
       | quote # after \<Rightarrow>
           if quote \<noteq> CHR 0x27 \<and> quote \<noteq> CHR 0x22 then None
           else let model = fst (split_once [quote] after) in if model = [] then None else Some model))"

definition kwargs_model :: "json \<Rightarrow> json option" where
  "kwargs_model k =
     or_else (jget k ''model_name'') (or_else (jget k ''model'')
       (Option.bind (jget k ''kwargs'') (\<lambda>kk. or_else (jget kk ''model_name'') (jget kk ''model''))))"

definition start_model :: "json \<Rightarrow> json \<Rightarrow> string" where
  "start_model raw serialized =
     unwrap_or
       (or_else (get_str raw ''model'')
         (or_else (Option.bind (Option.bind (jget serialized ''kwargs'') kwargs_model) as_str)
           (or_else (extract_model_from_repr serialized)
             (Option.bind (Option.bind (Option.bind (jget serialized ''id'') as_array) list_last) as_str))))
       ''unknown''"

definition start_provider :: "json \<Rightarrow> json \<Rightarrow> string" where
  "start_provider raw serialized =
     unwrap_or (get_str raw ''provider'')
       (unwrap_or (map_option (\<lambda>s. unwrap_or (or_else (strip_prefix ''langchain_'' s) (strip_prefix ''langchain-'' s)) s)
           (Option.bind (Option.bind (Option.bind (jget serialized ''id'') as_array) list_first) as_str))
         ''langchain'')"

definition first_generation :: "json \<Rightarrow> json option" where
  "first_generation response =
     Option.bind (Option.bind (Option.bind (Option.bind (jget response ''generations'') as_array) list_first) as_array)
       list_first"

definition end_model :: "json \<Rightarrow> json \<Rightarrow> string" where
  "end_model llm_output response =
     unwrap_or (Option.bind
       (or_else (jget llm_output ''model_name'') (or_else (jget llm_output ''model'')
         (Option.bind (Option.bind (first_generation response) (\<lambda>g. jget g ''generation_info'')) (\<lambda>gi. jget gi ''model''))))
       as_str) ''unknown''"

definition chain_name :: "json \<Rightarrow> string" where
  "chain_name raw =
     unwrap_or (Option.bind (Option.bind (Option.bind (Option.bind (jget raw ''serialized'')
       (\<lambda>s. jget s ''id'')) as_array) list_last) as_str) ''chain''"

definition langchain_llm_start :: "datetime \<Rightarrow> json \<Rightarrow> string \<Rightarrow> adapter_event" where
  "langchain_llm_start now raw run_id =
     (let serialized = get_or_null raw ''serialized'';
          prompts = get_or_null raw ''prompts''
      in LlmStart run_id (json_object
           [(''provider'', JString (start_provider raw serialized)), (''model'', JString (start_model raw serialized)),
            (''messages'', prompts)]) now)"

definition langchain_llm_end :: "datetime \<Rightarrow> json \<Rightarrow> string \<Rightarrow> adapter_event" where
  "langchain_llm_end now raw run_id =
     (let response = get_or_null raw ''response'';
          content = unwrap_or (Option.bind (first_generation response) (\<lambda>g. jget g ''text'')) (JString []);
          llm_output = get_or_null response ''llm_output'';
          usage = get_or_null llm_output ''token_usage''
      in LlmEnd run_id (json_object
           [(''content'', content), (''model'', JString (end_model llm_output response)),
            (''usage'', json_object
              [(''prompt_tokens'', get_or_null usage ''prompt_tokens''),
               (''completion_tokens'', get_or_null usage ''completion_tokens''),
               (''total_tokens'', get_or_null usage ''total_tokens'')])])
           (u64_or_zero raw ''duration_ms'') now)"

definition langchain_translate :: "datetime \<Rightarrow> json \<Rightarrow> adapter_event list" where
  "langchain_translate now raw =
     (case get_str raw ''callback'' of
        None \<Rightarrow> []
      | Some callback \<Rightarrow>
          let run_id = str_or raw ''run_id'' ''unknown''
          in if callback = ''on_llm_start'' then [langchain_llm_start now raw run_id]
             else if callback = ''on_llm_end'' then [langchain_llm_end now raw run_id]
             else if callback = ''on_tool_start'' then
               [ToolStart run_id (unwrap_or (Option.bind (jget raw ''serialized'') (\<lambda>s. get_str s ''name'')) ''unknown'')
                  (unwrap_or (jget raw ''input_str'') (JString [])) now]
             else if callback = ''on_tool_end'' then
               [ToolEnd run_id (str_or raw ''tool_name'' ''unknown'') (get_or_null raw ''output'')
                  (u64_or_zero raw ''duration_ms'') now]
             else if callback = ''on_chain_start'' then [StepStart (chain_name raw) (get_or_null raw ''inputs'') now]
             else if callback = ''on_chain_end'' then [StepEnd (chain_name raw) (get_or_null raw ''outputs'') now]
             else [])"

section \<open>LangGraph\<close>

definition langgraph_translate :: "datetime \<Rightarrow> json \<Rightarrow> adapter_event list" where
  "langgraph_translate now raw =
     (case get_str raw ''callback'' of
        None \<Rightarrow> []
      | Some callback \<Rightarrow>
          if callback = ''node_start'' then [StepStart (str_or raw ''node'' ''unknown'') (get_or_null raw ''state'') now]
          else if callback = ''node_end'' then [StepEnd (str_or raw ''node'' ''unknown'') (get_or_null raw ''state'') now]
          else if callback = ''edge'' then
            [NodeTransition (str_or raw ''from'' ''unknown'') (str_or raw ''to'' ''unknown'') now]
          else if callback = ''on_llm_start'' then
            [LlmStart (str_or raw ''node'' ''unknown'') (get_or_null raw ''request'') now]
          else if callback = ''on_llm_end'' then
            [LlmEnd (str_or raw ''node'' ''unknown'') (get_or_null raw ''response'') (u64_or_zero raw ''duration_ms'') now]
          else if callback = ''state_update'' then
            [StepStart (str_or raw ''node'' ''state'' @ ''_state_update'') (get_or_null raw ''updates'') now]
          else [])"

section \<open>Semantic Kernel\<close>

definition function_node :: "json \<Rightarrow> string" where
  "function_node raw = str_or raw ''plugin_name'' ''unknown'' @ ''.'' @ str_or raw ''function_name'' ''unknown''"

definition kernel_translate :: "datetime \<Rightarrow> json \<Rightarrow> adapter_event list" where
  "kernel_translate now raw =
     (case get_str raw ''callback'' of
        None \<Rightarrow> []
      | Some callback \<Rightarrow>
          if callback = ''function_invoking'' then
            [ToolStart (function_node raw) (str_or raw ''function_name'' ''unknown'') (get_or_null raw ''arguments'') now]
          else if callback = ''function_invoked'' then
            [ToolEnd (function_node raw) (str_or raw ''function_name'' ''unknown'') (get_or_null raw ''result'')
               (u64_or_zero raw ''duration_ms'') now]
          else if callback = ''prompt_rendering'' then
            [StepStart ''prompt_rendering'' (get_or_null raw ''template'') now]
          else if callback = ''prompt_rendered'' then
            [StepEnd ''prompt_rendering'' (get_or_null raw ''rendered_prompt'') now]
          else if callback = ''on_llm_start'' then
            [LlmStart (str_or raw ''service_id'' ''llm'') (get_or_null raw ''request'') now]
          else if callback = ''on_llm_end'' then
            [LlmEnd (str_or raw ''service_id'' ''llm'') (get_or_null raw ''response'') (u64_or_zero raw ''duration_ms'') now]
          else [])"

section \<open>Requests and responses\<close>

text \<open>\<open>v as u32\<close> keeps the low 32 bits.\<close>

definition get_u32 :: "json \<Rightarrow> string \<Rightarrow> u32 option" where
  "get_u32 raw k = map_option ucast (Option.bind (jget raw k) as_u64)"

definition parse_llm_request :: "json \<Rightarrow> llm_request" where
  "parse_llm_request raw =
     \<lparr>lq_provider = str_or raw ''provider'' ''unknown'', lq_model = str_or raw ''model'' ''unknown'',
      lq_messages = unwrap_or (jget raw ''messages'') (JArray []),
      lq_tools = Option.bind (jget raw ''tools'') as_array,
      lq_temperature = Option.bind (jget raw ''temperature'') as_f64,
      lq_top_p = Option.bind (jget raw ''top_p'') as_f64, lq_max_tokens = get_u32 raw ''max_tokens'',
      lq_stop_sequences = None, lq_response_format = jget raw ''response_format'',
      lq_seed = Option.bind (jget raw ''seed'') as_u64, lq_extra_params = []\<rparr>"

definition usage_u32 :: "json \<Rightarrow> string \<Rightarrow> string \<Rightarrow> u32 option" where
  "usage_u32 raw k k' =
     map_option ucast (Option.bind (Option.bind (jget raw ''usage'') (\<lambda>u. or_else (jget u k) (jget u k'))) as_u64)"

definition parse_llm_response :: "json \<Rightarrow> u64 \<Rightarrow> llm_response" where
  "parse_llm_response raw duration_ms =
     \<lparr>lr_content = unwrap_or (or_else (jget raw ''content'') (jget raw ''text'')) (JString []),
      lr_tool_calls = None, lr_model_used = str_or raw ''model'' ''unknown'',
      lr_input_tokens = usage_u32 raw ''prompt_tokens'' ''input_tokens'',
      lr_output_tokens = usage_u32 raw ''completion_tokens'' ''output_tokens'',
      lr_total_tokens = Option.bind (jget raw ''usage'') (\<lambda>u. get_u32 u ''total_tokens''),
      lr_finish_reason = unwrap_or (Option.bind (or_else (jget raw ''finish_reason'') (jget raw ''stop_reason'')) as_str)
        ''stop'',
      lr_latency_ms = duration_ms, lr_provider_request_id = get_str raw ''id'', lr_cost = None\<rparr>"

section \<open>The adapter session\<close>

record adapter =
  ad_translate :: "datetime \<Rightarrow> json \<Rightarrow> adapter_event list"
  ad_framework_name :: string

definition langchain_adapter :: adapter where
  "langchain_adapter = \<lparr>ad_translate = langchain_translate, ad_framework_name = ''langchain''\<rparr>"

definition langgraph_adapter :: adapter where
  "langgraph_adapter = \<lparr>ad_translate = langgraph_translate, ad_framework_name = ''langgraph''\<rparr>"

definition kernel_adapter :: adapter where
  "kernel_adapter = \<lparr>ad_translate = kernel_translate, ad_framework_name = ''semantic_kernel''\<rparr>"

record adapter_session =
  as_observer :: observer
  as_adapter :: adapter
  as_seen_edges :: "(string \<times> string) list"
  as_pending_llm :: "(string, json) btree"
  as_pending_tool :: "(string, string \<times> json \<times> datetime) btree"

definition adapter_start ::
  "string \<Rightarrow> adapter \<Rightarrow> 's observer_config \<Rightarrow> execution_id \<Rightarrow> datetime \<Rightarrow> bool \<Rightarrow> (session_error, adapter_session) result" where
  "adapter_start name ad config eid now gone =
     and_then (observer_start name config eid now gone) (\<lambda>ob.
       Inr \<lparr>as_observer = ob, as_adapter = ad, as_seen_edges = [], as_pending_llm = [], as_pending_tool = []\<rparr>)"

definition with_observer ::
  "(observer \<Rightarrow> (session_error, unit) result \<times> observer) \<Rightarrow> adapter_session
   \<Rightarrow> (session_error, unit) result \<times> adapter_session" where
  "with_observer f s = (case f (as_observer s) of (res, ob) \<Rightarrow> (res, s\<lparr>as_observer := ob\<rparr>))"

text \<open>\<open>gone\<close>: the write channel is closed; \<open>now\<close>: the clock of the record.\<close>

fun handle_event ::
  "bool \<times> datetime \<Rightarrow> adapter_event \<Rightarrow> adapter_session \<Rightarrow> (session_error, unit) result \<times> adapter_session" where
  "handle_event env (LlmStart node_id request _) s =
     (Inr (), s\<lparr>as_pending_llm := bt_insert node_id request (as_pending_llm s)\<rparr>)"
| "handle_event (gone, now) (LlmEnd node_id response duration_ms _) s =
     (let request_json = unwrap_or (bt_get node_id (as_pending_llm s)) (json_object []);
          s1 = s\<lparr>as_pending_llm := bt_remove node_id (as_pending_llm s)\<rparr>
      in with_observer (observer_llm_call_for_node gone now node_id (parse_llm_request request_json)
           (parse_llm_response response duration_ms)) s1)"
| "handle_event env (ToolStart node_id tool inputs timestamp) s =
     (Inr (), s\<lparr>as_pending_tool := bt_insert node_id (tool, inputs, timestamp) (as_pending_tool s)\<rparr>)"
| "handle_event (gone, now) (ToolEnd node_id tool outputs duration_ms _) s =
     (case unwrap_or (bt_get node_id (as_pending_tool s)) (tool, json_object [], now) of (name, inputs, _) \<Rightarrow>
        let s1 = s\<lparr>as_pending_tool := bt_remove node_id (as_pending_tool s)\<rparr>
        in with_observer (observer_tool_call gone now name inputs outputs duration_ms) s1)"
| "handle_event env (NodeTransition from to _) s = (Inr (), s\<lparr>as_seen_edges := as_seen_edges s @ [(from, to)]\<rparr>)"
| "handle_event (gone, now) (StepStart name data _) s = with_observer (observer_step gone now name data) s"
| "handle_event (gone, now) (StepEnd name data _) s = with_observer (observer_step gone now (name @ ''_end'') data) s"

text \<open>The loop of \<open>on_event\<close>: the first error returns; \<open>env n\<close> is what the \<open>n\<close>-th event meets.\<close>

fun handle_events ::
  "(nat \<Rightarrow> bool \<times> datetime) \<Rightarrow> nat \<Rightarrow> adapter_event list \<Rightarrow> adapter_session
   \<Rightarrow> (session_error, unit) result \<times> adapter_session" where
  "handle_events env n [] s = (Inr (), s)"
| "handle_events env n (e # es) s =
     (case handle_event (env n) e s of
        (Inl err, s1) \<Rightarrow> (Inl err, s1)
      | (Inr _, s1) \<Rightarrow> handle_events env (Suc n) es s1)"

definition on_event ::
  "datetime \<Rightarrow> (nat \<Rightarrow> bool \<times> datetime) \<Rightarrow> json \<Rightarrow> adapter_session \<Rightarrow> (session_error, unit) result \<times> adapter_session" where
  "on_event now env raw s = handle_events env 0 (ad_translate (as_adapter s) now raw) s"

definition adapter_finish ::
  "chan \<Rightarrow> bool \<Rightarrow> datetime \<Rightarrow> datetime \<Rightarrow> datetime \<Rightarrow> run_status \<Rightarrow> adapter_session \<Rightarrow> (session_error, unit) result \<times> session" where
  "adapter_finish ch gone now ended completed status s =
     (let es = as_seen_edges s;
          ob = (if es \<noteq> []
                then snd (set_flow_topology ch now (remdups_adj (sort (concat (map (\<lambda>(a, b). [a, b]) es)))) es (as_observer s))
                else as_observer s)
      in observer_finish ch gone now ended completed status ob)"

section \<open>What is recorded\<close>

text \<open>The request of the last start of a node that no end has answered, in the events so far (latest
  first).\<close>

fun open_llm :: "string \<Rightarrow> adapter_event list \<Rightarrow> json option" where
  "open_llm n [] = None"
| "open_llm n (e # past) =
     (case e of
        LlmStart m request _ \<Rightarrow> if m = n then Some request else open_llm n past
      | LlmEnd m _ _ _ \<Rightarrow> if m = n then None else open_llm n past
      | _ \<Rightarrow> open_llm n past)"

fun open_tool :: "string \<Rightarrow> adapter_event list \<Rightarrow> (string \<times> json) option" where
  "open_tool n [] = None"
| "open_tool n (e # past) =
     (case e of
        ToolStart m tool inputs _ \<Rightarrow> if m = n then Some (tool, inputs) else open_tool n past
      | ToolEnd m _ _ _ _ \<Rightarrow> if m = n then None else open_tool n past
      | _ \<Rightarrow> open_tool n past)"

fun recorded :: "bool \<times> datetime \<Rightarrow> adapter_event list \<Rightarrow> adapter_event \<Rightarrow> observer_op list" where
  "recorded (gone, now) past (LlmEnd n response duration_ms _) =
     [ObLlmFor gone now n (parse_llm_request (unwrap_or (open_llm n past) (json_object [])))
        (parse_llm_response response duration_ms)]"
| "recorded (gone, now) past (ToolEnd n tool outputs duration_ms _) =
     (case unwrap_or (open_tool n past) (tool, json_object []) of (name, inputs) \<Rightarrow>
        [ObTool gone now name inputs outputs duration_ms])"
| "recorded (gone, now) past (StepStart name data _) = [ObStep gone now name data]"
| "recorded (gone, now) past (StepEnd name data _) = [ObStep gone now (name @ ''_end'') data]"
| "recorded env past _ = []"

fun recorded_ops :: "(nat \<Rightarrow> bool \<times> datetime) \<Rightarrow> nat \<Rightarrow> adapter_event list \<Rightarrow> adapter_event list \<Rightarrow> observer_op list" where
  "recorded_ops env n past [] = []"
| "recorded_ops env n past (e # es) = recorded (env n) past e @ recorded_ops env (Suc n) (e # past) es"

text \<open>A callback, with the clock of its translation and what its events meet.\<close>

type_synonym callback = "datetime \<times> (nat \<Rightarrow> bool \<times> datetime) \<times> json"

definition channel_open :: "callback \<Rightarrow> bool" where
  "channel_open c \<longleftrightarrow> (case c of (_, env, _) \<Rightarrow> \<forall>n. \<not> fst (env n))"

fun on_events :: "callback list \<Rightarrow> adapter_session \<Rightarrow> (session_error, unit) result list \<times> adapter_session" where
  "on_events [] s = ([], s)"
| "on_events ((now, env, raw) # cs) s =
     (case on_event now env raw s of (res, s1) \<Rightarrow>
        case on_events cs s1 of (results, s2) \<Rightarrow> (res # results, s2))"

definition translated :: "(datetime \<Rightarrow> json \<Rightarrow> adapter_event list) \<Rightarrow> callback list \<Rightarrow> adapter_event list" where
  "translated tr cs = concat (map (\<lambda>(now, _, raw). tr now raw) cs)"

fun callback_ops ::
  "(datetime \<Rightarrow> json \<Rightarrow> adapter_event list) \<Rightarrow> adapter_event list \<Rightarrow> callback list \<Rightarrow> observer_op list" where
  "callback_ops tr past [] = []"
| "callback_ops tr past ((now, env, raw) # cs) =
     recorded_ops env 0 past (tr now raw) @ callback_ops tr (rev (tr now raw) @ past) cs"

fun transition_of :: "adapter_event \<Rightarrow> (string \<times> string) option" where
  "transition_of (NodeTransition from to _) = Some (from, to)"
| "transition_of _ = None"

text \<open>The pending maps hold the unanswered starts.\<close>

definition pending_ok :: "adapter_event list \<Rightarrow> adapter_session \<Rightarrow> bool" where
  "pending_ok past s \<longleftrightarrow>
     (\<forall>n. bt_get n (as_pending_llm s) = open_llm n past)
     \<and> (\<forall>n. map_option (\<lambda>(tool, inputs, _). (tool, inputs)) (bt_get n (as_pending_tool s)) = open_tool n past)"

text \<open>While the session is open and its channel accepts writes, recording succeeds.\<close>

lemma record_open:
  assumes "\<not> se_finished (ob_inner ob)" "op = ObLlmFor False now n rq rs \<or> op = ObTool False now n i out d \<or> op = ObStep False now n x"
  shows "observer_apply op ob = (Inr (), snd (observer_apply op ob)) \<and> \<not> se_finished (ob_inner (snd (observer_apply op ob)))"
  using assms
  by (auto simp: observer_llm_call_for_node_def observer_tool_call_def observer_step_def on_inner_def track_node_def
      record_llm_call_def record_tool_call_def record_step_def check_finished_def emit_critical_def handle_write_def
      session_next_def broadcast_def)

lemma handle_event_records:
  assumes "pending_ok past s" "\<not> se_finished (ob_inner (as_observer s))" "\<not> fst env"
  shows "\<exists>s'. handle_event env e s = (Inr (), s') \<and> pending_ok (e # past) s'
    \<and> \<not> se_finished (ob_inner (as_observer s'))
    \<and> as_observer s' = observer_run (recorded env past e) (as_observer s)
    \<and> as_seen_edges s' = as_seen_edges s @ (case transition_of e of None \<Rightarrow> [] | Some t \<Rightarrow> [t])"
proof -
  obtain now where env: "env = (False, now)" using assms(3) by (cases env) auto
  note rec = record_open [OF assms(2), of _ now]
  show ?thesis
  proof (cases e)
    case (LlmEnd n response d ts)
    let ?op = "ObLlmFor False now n (parse_llm_request (unwrap_or (open_llm n past) (json_object []))) (parse_llm_response response d)"
    have "bt_get n (as_pending_llm s) = open_llm n past" using assms(1) by (simp add: pending_ok_def)
    with LlmEnd env rec [of ?op] assms(1) show ?thesis
      by (auto simp: with_observer_def observer_run_def pending_ok_def Let_def split: prod.split)
  next
    case (ToolEnd n tool out d ts)
    obtain name inputs where op: "unwrap_or (open_tool n past) (tool, json_object []) = (name, inputs)" by force
    let ?op = "ObTool False now name inputs out d"
    have "\<exists>ts. unwrap_or (bt_get n (as_pending_tool s)) (tool, json_object [], now) = (name, inputs, ts)"
      using assms(1) op unfolding pending_ok_def
      by (cases "bt_get n (as_pending_tool s)") (auto dest!: spec [of _ n] sym [of "Some _"])
    with ToolEnd env rec [of ?op] assms(1) op show ?thesis
      by (auto simp: with_observer_def observer_run_def pending_ok_def Let_def split: prod.split)
  next
    case (StepStart name x ts)
    with env rec [of "ObStep False now name x"] assms(1) show ?thesis
      by (auto simp: with_observer_def observer_run_def pending_ok_def split: prod.split)
  next
    case (StepEnd name x ts)
    with env rec [of "ObStep False now (name @ ''_end'') x"] assms(1) show ?thesis
      by (auto simp: with_observer_def observer_run_def pending_ok_def split: prod.split)
  qed (use env assms in \<open>auto simp: pending_ok_def observer_run_def\<close>)
qed

lemma handle_event_adapter: "as_adapter (snd (handle_event env e s)) = as_adapter s"
  by (cases env; cases e) (simp_all add: with_observer_def Let_def split: prod.split)

lemma handle_events_adapter: "as_adapter (snd (handle_events env n es s)) = as_adapter s"
proof (induction es arbitrary: n s)
  case (Cons e es)
  then show ?case using handle_event_adapter [of "env n" e s]
    by (cases "handle_event (env n) e s") (auto split: sum.split)
qed simp

lemma handle_events_records:
  assumes "pending_ok past s" "\<not> se_finished (ob_inner (as_observer s))" "\<And>n. \<not> fst (env n)"
  shows "\<exists>s'. handle_events env n es s = (Inr (), s') \<and> pending_ok (rev es @ past) s'
    \<and> \<not> se_finished (ob_inner (as_observer s'))
    \<and> as_observer s' = observer_run (recorded_ops env n past es) (as_observer s)
    \<and> as_seen_edges s' = as_seen_edges s @ List.map_filter transition_of es"
  using assms(1,2)
proof (induction es arbitrary: n past s)
  case Nil
  then show ?case by (simp add: observer_run_def map_filter_simps)
next
  case (Cons e es)
  obtain s1 where s1: "handle_event (env n) e s = (Inr (), s1)" "pending_ok (e # past) s1"
    "\<not> se_finished (ob_inner (as_observer s1))"
    "as_observer s1 = observer_run (recorded (env n) past e) (as_observer s)"
    "as_seen_edges s1 = as_seen_edges s @ (case transition_of e of None \<Rightarrow> [] | Some t \<Rightarrow> [t])"
    using handle_event_records [OF Cons.prems assms(3), where e = e] by blast
  obtain s2 where s2: "handle_events env (Suc n) es s1 = (Inr (), s2)" "pending_ok (rev es @ e # past) s2"
    "\<not> se_finished (ob_inner (as_observer s2))"
    "as_observer s2 = observer_run (recorded_ops env (Suc n) (e # past) es) (as_observer s1)"
    "as_seen_edges s2 = as_seen_edges s1 @ List.map_filter transition_of es"
    using Cons.IH [OF s1(2,3)] by blast
  show ?case using s1 s2 by (auto simp: observer_run_def map_filter_simps split: option.split)
qed

lemma on_events_records:
  assumes "pending_ok past s" "\<not> se_finished (ob_inner (as_observer s))" "list_all channel_open cs"
  shows "\<exists>s'. on_events cs s = (replicate (length cs) (Inr ()), s')
    \<and> as_observer s' = observer_run (callback_ops (ad_translate (as_adapter s)) past cs) (as_observer s)
    \<and> as_seen_edges s' = as_seen_edges s @ List.map_filter transition_of (translated (ad_translate (as_adapter s)) cs)"
  using assms
proof (induction cs arbitrary: past s)
  case Nil
  then show ?case by (simp add: observer_run_def map_filter_simps translated_def)
next
  case (Cons c cs)
  obtain now env raw where c: "c = (now, env, raw)" by (cases c)
  let ?es = "ad_translate (as_adapter s) now raw"
  have env: "\<And>n. \<not> fst (env n)" and cs: "list_all channel_open cs"
    using Cons.prems(3) c by (auto simp: channel_open_def [of "(now, env, raw)"])
  obtain s1 where s1: "handle_events env 0 ?es s = (Inr (), s1)" "pending_ok (rev ?es @ past) s1"
    "\<not> se_finished (ob_inner (as_observer s1))"
    "as_observer s1 = observer_run (recorded_ops env 0 past ?es) (as_observer s)"
    "as_seen_edges s1 = as_seen_edges s @ List.map_filter transition_of ?es"
    using handle_events_records [where es = ?es and env = env and n = 0, OF Cons.prems(1,2) env] by blast
  have ad: "as_adapter s1 = as_adapter s" using handle_events_adapter [of env 0 ?es s] s1(1) by simp
  from Cons.IH [OF s1(2,3) cs] s1(1,4,5) c show ?case
    by (auto simp: on_event_def ad observer_run_def translated_def map_filter_def)
qed

section \<open>Adapters that identify calls\<close>

text \<open>
  An adapter correlates the start of a model call with its end by the node of the events it makes. It
  identifies calls when that node is a function of the payload: then calls under different keys may
  overlap in any way and each end is recorded with the request of its own start.
\<close>

fun llm_node_of :: "adapter_event \<Rightarrow> string option" where
  "llm_node_of (LlmStart n _ _) = Some n"
| "llm_node_of (LlmEnd n _ _ _) = Some n"
| "llm_node_of _ = None"

lemma open_llm_other: "list_all (\<lambda>e. llm_node_of e \<noteq> Some n) es \<Longrightarrow> open_llm n (es @ past) = open_llm n past"
  by (induction es) (auto split: adapter_event.splits)

lemma callback_ops_append:
  "callback_ops tr past (cs @ cs') = callback_ops tr past cs @ callback_ops tr (rev (translated tr cs) @ past) cs'"
  by (induction tr past cs rule: callback_ops.induct) (simp_all add: translated_def)

locale call_keys =
  fixes translate :: "datetime \<Rightarrow> json \<Rightarrow> adapter_event list"
    and key :: "json \<Rightarrow> string"
  assumes llm_key: "list_all (\<lambda>e. llm_node_of e \<in> {None, Some (key raw)}) (translate now raw)"
begin

lemma other_keys:
  assumes "list_all (\<lambda>(_, _, raw). key raw \<noteq> n) cs"
  shows "list_all (\<lambda>e. llm_node_of e \<noteq> Some n) (rev (translated translate cs))"
proof -
  have "llm_node_of e \<noteq> Some n" if "(now, env, raw) \<in> set cs" "e \<in> set (translate now raw)" for now env raw e
    using that assms llm_key [of raw now] by (fastforce simp: list_all_iff)
  then show ?thesis by (auto simp: translated_def list_all_iff)
qed

lemma call_paired:
  assumes "translate now raw = [LlmStart n request ts]" "translate now' raw' = [LlmEnd n response d ts']"
    and "list_all (\<lambda>(_, _, r). key r \<noteq> n) mid" "env' 0 = (gone, clock)"
  shows "callback_ops translate past ((now, env, raw) # mid @ [(now', env', raw')]) =
    callback_ops translate past ((now, env, raw) # mid)
      @ [ObLlmFor gone clock n (parse_llm_request request) (parse_llm_response response d)]"
  using assms open_llm_other [OF other_keys [OF assms(3)]] by (simp add: callback_ops_append)

end

lemma list_all_if: "list_all P (if b then xs else ys) = (if b then list_all P xs else list_all P ys)"
  by simp

interpretation langchain: call_keys langchain_translate "\<lambda>raw. str_or raw ''run_id'' ''unknown''"
  by unfold_locales
    (simp add: langchain_translate_def langchain_llm_start_def langchain_llm_end_def Let_def list_all_if split: option.split)

interpretation langgraph: call_keys langgraph_translate "\<lambda>raw. str_or raw ''node'' ''unknown''"
  by unfold_locales (simp add: langgraph_translate_def list_all_if split: option.split)

interpretation kernel: call_keys kernel_translate "\<lambda>raw. str_or raw ''service_id'' ''llm''"
  by unfold_locales (simp add: kernel_translate_def list_all_if split: option.split)

section \<open>Properties\<close>

lemma adapter_start_ok:
  assumes "adapter_start name ad config eid now gone = Inr s0"
  shows "pending_ok [] s0" "\<not> se_finished (ob_inner (as_observer s0))" "as_adapter s0 = ad" "as_seen_edges s0 = []"
proof -
  obtain ob where ob: "observer_start name config eid now gone = Inr ob"
    "s0 = \<lparr>as_observer = ob, as_adapter = ad, as_seen_edges = [], as_pending_llm = [], as_pending_tool = []\<rparr>"
    using assms by (cases "observer_start name config eid now gone") (auto simp: adapter_start_def)
  then show "pending_ok [] s0" "as_adapter s0 = ad" "as_seen_edges s0 = []" by (simp_all add: pending_ok_def)
  from ob show "\<not> se_finished (ob_inner (as_observer s0))"
    using session_start_numbered
    by (cases "session_start (builder_config (observer_builder name config)) eid now gone")
      (fastforce simp: observer_start_def)+
qed

text \<open>
  (C21) An adapter session records a trace of framework callbacks. For every adapter and every
  sequence of callbacks met with an open channel, each call succeeds and the observer ends in the
  state of the observer operations of the reference \<open>callback_ops\<close>: every end of a model call with
  the request of the last unanswered start of its node, every end of a tool call with the name and
  inputs of its start, every step under its name; the transitions seen are those of the trace, in order.
\<close>

theorem adapter_session_records:
  assumes "adapter_start name ad config eid now gone = Inr s0" "list_all channel_open cs"
  shows "\<exists>s. on_events cs s0 = (replicate (length cs) (Inr ()), s)
    \<and> as_observer s = observer_run (callback_ops (ad_translate ad) [] cs) (as_observer s0)
    \<and> as_seen_edges s = List.map_filter transition_of (translated (ad_translate ad) cs)"
  using on_events_records [OF adapter_start_ok(1,2) [OF assms(1)] assms(2)] adapter_start_ok(3,4) [OF assms(1)]
  by simp

definition demo_observer_config :: "unit observer_config" where
  "demo_observer_config = \<lparr>oc_run_store = None, oc_redactor = None, oc_metadata = []\<rparr>"

lemma demo_adapter_start: "\<exists>s0. adapter_start ''agent'' ad demo_observer_config demo_id 7 False = Inr s0"
  by (simp add: adapter_start_def observer_start_def session_start_def handle_write_def session_next_def Let_def)

definition graph_call :: "string \<Rightarrow> string \<Rightarrow> json \<Rightarrow> callback" where
  "graph_call cb k v =
     (8, \<lambda>_. (False, 9), json_object [(''callback'', JString cb), (''node'', JString ''writer''), (k, v)])"

lemma graph_call_open [simp]: "channel_open (graph_call cb k v)"
  by (simp add: graph_call_def channel_open_def)

theorem adapter_session_records_witness:
  "\<exists>s0 s. adapter_start ''agent'' langgraph_adapter demo_observer_config demo_id 7 False = Inr s0
     \<and> on_events [graph_call ''node_start'' ''state'' JNull] s0 = ([Inr ()], s)
     \<and> as_observer s = observer_run [ObStep False 9 ''writer'' JNull] (as_observer s0)"
proof -
  obtain s0 where start: "adapter_start ''agent'' langgraph_adapter demo_observer_config demo_id 7 False = Inr s0"
    using demo_adapter_start by blast
  have "callback_ops langgraph_translate [] [graph_call ''node_start'' ''state'' JNull] = [ObStep False 9 ''writer'' JNull]"
    by (simp add: langgraph_translate_def graph_call_def json_object_def bt_of_list_def get_str_def str_or_def
        get_or_null_def)
  then show ?thesis
    using adapter_session_records [OF start, of "[graph_call ''node_start'' ''state'' JNull]"] start
    by (auto simp: langgraph_adapter_def [THEN arg_cong, of ad_translate])
qed

text \<open>The request and the response of a LangChain call, as they are recorded.\<close>

lemma langchain_request:
  "langchain_llm_start now raw n = LlmStart n request ts \<Longrightarrow>
     lq_provider (parse_llm_request request) = start_provider raw (get_or_null raw ''serialized'')
     \<and> lq_model (parse_llm_request request) = start_model raw (get_or_null raw ''serialized'')
     \<and> lq_messages (parse_llm_request request) = get_or_null raw ''prompts''"
  by (auto simp: langchain_llm_start_def parse_llm_request_def json_object_def bt_of_list_def str_or_def get_str_def Let_def)

definition token_count :: "json \<Rightarrow> string \<Rightarrow> u32 option" where
  "token_count raw k =
     get_u32 (get_or_null (get_or_null (get_or_null raw ''response'') ''llm_output'') ''token_usage'') k"

lemma as_u64_or_null: "as_u64 (unwrap_or (jget v k) JNull) = Option.bind (jget v k) as_u64"
  by (cases "jget v k") simp_all

lemma langchain_response:
  "langchain_llm_end now raw n = LlmEnd n response d ts \<Longrightarrow>
     lr_content (parse_llm_response response d) =
       unwrap_or (Option.bind (first_generation (get_or_null raw ''response'')) (\<lambda>g. jget g ''text'')) (JString [])
     \<and> lr_input_tokens (parse_llm_response response d) = token_count raw ''prompt_tokens''
     \<and> lr_output_tokens (parse_llm_response response d) = token_count raw ''completion_tokens''
     \<and> lr_total_tokens (parse_llm_response response d) = token_count raw ''total_tokens''
     \<and> lr_latency_ms (parse_llm_response response d) = u64_or_zero raw ''duration_ms''"
  by (auto simp: langchain_llm_end_def parse_llm_response_def json_object_def bt_of_list_def str_or_def usage_u32_def
      get_u32_def token_count_def get_or_null_def as_u64_or_null Let_def)

text \<open>
  Overlapping LangChain calls are told apart. Between the \<open>on_llm_start\<close> of a run and its
  \<open>on_llm_end\<close> any callbacks of other runs may come: the end is recorded, as the last operation of
  the trace, on the node of the run, with the provider, model and prompts of its own start, the text
  of the first generation, and the token counts of the response modulo $2^{32}$.
\<close>

theorem langchain_call_recorded:
  assumes "get_str raw ''callback'' = Some ''on_llm_start''" "get_str raw' ''callback'' = Some ''on_llm_end''"
    and "get_str raw ''run_id'' = Some n" "get_str raw' ''run_id'' = Some n"
    and "list_all (\<lambda>(_, _, r). str_or r ''run_id'' ''unknown'' \<noteq> n) mid" "env' 0 = (gone, clock)"
  shows "\<exists>request response.
    callback_ops langchain_translate past ((now, env, raw) # mid @ [(now', env', raw')]) =
      callback_ops langchain_translate past ((now, env, raw) # mid) @ [ObLlmFor gone clock n request response]
    \<and> lq_provider request = start_provider raw (get_or_null raw ''serialized'')
    \<and> lq_model request = start_model raw (get_or_null raw ''serialized'')
    \<and> lq_messages request = get_or_null raw ''prompts''
    \<and> lr_content response =
        unwrap_or (Option.bind (first_generation (get_or_null raw' ''response'')) (\<lambda>g. jget g ''text'')) (JString [])
    \<and> lr_input_tokens response = token_count raw' ''prompt_tokens''
    \<and> lr_output_tokens response = token_count raw' ''completion_tokens''
    \<and> lr_total_tokens response = token_count raw' ''total_tokens''
    \<and> lr_latency_ms response = u64_or_zero raw' ''duration_ms''"
proof -
  obtain request ts where start: "langchain_llm_start now raw n = LlmStart n request ts"
    by (simp add: langchain_llm_start_def Let_def)
  obtain response d ts' where finish: "langchain_llm_end now' raw' n = LlmEnd n response d ts'"
    by (simp add: langchain_llm_end_def Let_def)
  have "langchain_translate now raw = [LlmStart n request ts]"
    using assms(1,3) start by (simp add: langchain_translate_def str_or_def)
  moreover have "langchain_translate now' raw' = [LlmEnd n response d ts']"
    using assms(2,4) finish by (simp add: langchain_translate_def str_or_def)
  ultimately show ?thesis
    using langchain.call_paired [where n = n and mid = mid and env' = env', OF _ _ assms(5,6)] langchain_request [OF start] langchain_response [OF finish]
    by blast
qed

definition chain_call :: "string \<Rightarrow> string \<Rightarrow> json \<Rightarrow> callback" where
  "chain_call cb run v =
     (8, \<lambda>_. (False, 9), json_object [(''callback'', JString cb), (''run_id'', JString run), (''prompts'', v)])"

theorem langchain_call_recorded_witness:
  "\<exists>request response.
    callback_ops langchain_translate []
      [chain_call ''on_llm_start'' ''a'' (JString ''hi''), chain_call ''on_llm_start'' ''b'' JNull,
       chain_call ''on_llm_end'' ''a'' JNull] = [ObLlmFor False 9 ''a'' request response]
    \<and> lq_messages request = JString ''hi'' \<and> lr_content response = JString []"
proof -
  let ?raw = "\<lambda>cb run v. json_object [(''callback'', JString cb), (''run_id'', JString run), (''prompts'', v)]"
  let ?env = "\<lambda>_ :: nat. (False, 9 :: datetime)"
  have "callback_ops langchain_translate []
      [(8, ?env, ?raw ''on_llm_start'' ''a'' (JString ''hi'')), (8, ?env, ?raw ''on_llm_start'' ''b'' JNull)] = []"
    by (simp add: langchain_translate_def langchain_llm_start_def str_or_def get_str_def json_object_def
        bt_of_list_def Let_def)
  then show ?thesis
    using langchain_call_recorded [of "?raw ''on_llm_start'' ''a'' (JString ''hi'')" "?raw ''on_llm_end'' ''a'' JNull"
        "''a''" "[(8, ?env, ?raw ''on_llm_start'' ''b'' JNull)]" ?env False 9 "[]" 8 ?env 8]
    by (auto simp: chain_call_def str_or_def get_str_def json_object_def bt_of_list_def get_or_null_def first_generation_def)
qed

text \<open>
  LangGraph calls are identified by their graph node: when a node starts a second call before its
  first has ended, the first end is recorded with the second request, and the second with none.
\<close>

theorem langgraph_overlapping_calls:
  "\<exists>r1 r2 a1 a2.
    callback_ops langgraph_translate []
      [graph_call ''on_llm_start'' ''request'' (json_object [(''model'', JString ''one'')]),
       graph_call ''on_llm_start'' ''request'' (json_object [(''model'', JString ''two'')]),
       graph_call ''on_llm_end'' ''response'' JNull, graph_call ''on_llm_end'' ''response'' JNull]
    = [ObLlmFor False 9 ''writer'' r1 a1, ObLlmFor False 9 ''writer'' r2 a2]
    \<and> lq_model r1 = ''two'' \<and> lq_model r2 = ''unknown''"
  by (simp add: graph_call_def langgraph_translate_def parse_llm_request_def str_or_def get_or_null_def get_str_def
      json_object_def bt_of_list_def u64_or_zero_def)

text \<open>The nodes of the topology a session reports: the ends of the transitions, sorted, without duplicates.\<close>

lemma distinct_remdups_adj_sorted: "sorted xs \<Longrightarrow> distinct (remdups_adj xs)"
  by (induction xs rule: remdups_adj.induct) auto

lemma sort_dedup: "remdups_adj (sort xs) = sorted_list_of_set (set xs)" for xs :: "string list"
  by (rule sorted_distinct_set_unique) (simp_all add: sorted_remdups_adj distinct_remdups_adj_sorted)

theorem adapter_topology:
  assumes "as_seen_edges s \<noteq> []"
  shows "adapter_finish ch gone now ended completed status s =
    observer_finish ch gone now ended completed status
      (snd (set_flow_topology ch now
        (sorted_list_of_set (fst ` set (as_seen_edges s) \<union> snd ` set (as_seen_edges s))) (as_seen_edges s) (as_observer s)))"
proof -
  have "set (concat (map (\<lambda>(a, b). [a, b]) (as_seen_edges s))) =
      fst ` set (as_seen_edges s) \<union> snd ` set (as_seen_edges s)" by force
  with assms show ?thesis by (simp only: adapter_finish_def Let_def sort_dedup) simp
qed

end
