(* ===== verification/Provider_Stream.thy ===== *)
theory Provider_Stream
  imports Rust_Text Json
begin

text \<open>
  \<open>cleargate-providers\<close>, the streamed answers: the adapters that turn the bytes of an HTTP response
  into chunks, for OpenAI, OpenAI-compatible servers, Gemini, Anthropic and Ollama.  What the network
  delivers is a list of polls; \<open>serde_json::from_str\<close> for the type of a provider's events is a
  parameter.  The delivered chunks are compared with those of the complete lines of the text.
\<close>

section \<open>Chunks and errors (\<open>traits.rs\<close>)\<close>

datatype provider_error =
    RequestFailed string
  | InvalidResponse string
  | ApiError string
  | StreamError string

fun provider_error_to_string :: "provider_error \<Rightarrow> string" where
  "provider_error_to_string (RequestFailed e) = ''HTTP request failed: '' @ e"
| "provider_error_to_string (InvalidResponse e) = ''Invalid response: '' @ e"
| "provider_error_to_string (ApiError e) = ''API error: '' @ e"
| "provider_error_to_string (StreamError e) = ''Streaming error: '' @ e"

record provider_chunk =
  pc_content :: string
  pc_is_final :: bool
  pc_prompt_tokens :: "u64 option"
  pc_completion_tokens :: "u64 option"

type_synonym chunk_item = "(provider_error, provider_chunk) result"

text \<open>The running totals of prompt and completion tokens.\<close>

type_synonym token_totals = "u64 option \<times> u64 option"

type_synonym line_handler = "token_totals \<Rightarrow> string \<Rightarrow> token_totals \<times> chunk_item option"

section \<open>Lines\<close>

fun find_line :: "string \<Rightarrow> (string \<times> string) option" where
  "find_line [] = None"
| "find_line (c # s) =
     (if c = CHR 0x0A then Some ([], s) else map_option (\<lambda>(line, rest). (c # line, rest)) (find_line s))"

lemma find_line_Some: "find_line s = Some (line, rest) \<Longrightarrow> s = line @ CHR 0x0A # rest"
  by (induction s arbitrary: line) (auto split: if_splits)

text \<open>The inner loop of \<open>poll_next\<close>: it returns at the first line that gives an item.\<close>

function scan_lines :: "line_handler \<Rightarrow> token_totals \<Rightarrow> string \<Rightarrow> chunk_item option \<times> token_totals \<times> string" where
  "scan_lines h tk buf =
     (case find_line buf of
        None \<Rightarrow> (None, tk, buf)
      | Some (line, rest) \<Rightarrow>
          (case h tk (trim line) of
             (tk', Some item) \<Rightarrow> (Some item, tk', rest)
           | (tk', None) \<Rightarrow> scan_lines h tk' rest))"
  by pat_completeness auto
termination
  by (relation "measure (\<lambda>(h, tk, buf). length buf)") (auto dest!: find_line_Some)

declare scan_lines.simps [simp del]

section \<open>The adapter\<close>

datatype net_poll = NetBytes string | NetError string | NetEnd | NetPending

datatype poll_result = PollItem chunk_item | PollDone | PollPending

fun poll_next :: "line_handler \<Rightarrow> net_poll \<Rightarrow> token_totals \<times> string \<Rightarrow> poll_result \<times> token_totals \<times> string" where
  "poll_next h (NetBytes bytes) (tk, buf) =
     (case scan_lines h tk (buf @ from_utf8_lossy bytes) of
        (Some item, s) \<Rightarrow> (PollItem item, s)
      | (None, s) \<Rightarrow> (PollPending, s))"
| "poll_next h (NetError e) s =
     (PollItem (Inl (StreamError (provider_error_to_string (StreamError (''Stream error: '' @ e))))), s)"
| "poll_next h NetEnd s = (PollDone, s)"
| "poll_next h NetPending s = (PollPending, s)"

text \<open>A consumer polls until the stream is done.\<close>

fun drain :: "line_handler \<Rightarrow> net_poll list \<Rightarrow> token_totals \<times> string \<Rightarrow> chunk_item list \<times> token_totals \<times> string" where
  "drain h [] s = ([], s)"
| "drain h (p # ps) s =
     (case poll_next h p s of
        (PollItem item, s1) \<Rightarrow> (case drain h ps s1 of (items, s2) \<Rightarrow> (item # items, s2))
      | (PollPending, s1) \<Rightarrow> drain h ps s1
      | (PollDone, s1) \<Rightarrow> ([], s1))"

lemma drain_item:
  "poll_next h p s = (PollItem item, s1) \<Longrightarrow> drain h (p # ps) s = (item # fst (drain h ps s1), snd (drain h ps s1))"
  by (simp split: prod.split)

definition stream_new :: "token_totals \<times> string" where
  "stream_new = ((None, None), [])"

definition newer :: "u64 option \<Rightarrow> u64 option \<Rightarrow> u64 option" where
  "newer old seen = (case seen of Some n \<Rightarrow> Some n | None \<Rightarrow> old)"

definition plain_chunk :: "string \<Rightarrow> bool \<Rightarrow> provider_chunk" where
  "plain_chunk content final =
     \<lparr>pc_content = content, pc_is_final = final, pc_prompt_tokens = None, pc_completion_tokens = None\<rparr>"

definition total_chunk :: "token_totals \<Rightarrow> string \<Rightarrow> provider_chunk" where
  "total_chunk tk content =
     \<lparr>pc_content = content, pc_is_final = True, pc_prompt_tokens = fst tk, pc_completion_tokens = snd tk\<rparr>"

definition sse_parse_error :: "string \<Rightarrow> chunk_item" where
  "sse_parse_error e = Inl (InvalidResponse (''Failed to parse SSE data: '' @ e))"

section \<open>OpenAI\<close>

record openai_usage =
  ou_prompt_tokens :: u64
  ou_completion_tokens :: u64

record openai_delta =
  od_content :: "string option"

record openai_stream_choice =
  osc_delta :: openai_delta
  osc_finish_reason :: "string option"

record openai_stream_response =
  osr_choices :: "openai_stream_choice list"
  osr_usage :: "openai_usage option"

text \<open>The body of the loop for the providers that end with \<open>[DONE]\<close>: the counts, content and end of a
  decoded response are arguments.\<close>

definition sse_line ::
  "(string \<Rightarrow> (string, 'r) result) \<Rightarrow> ('r \<Rightarrow> token_totals) \<Rightarrow> ('r \<Rightarrow> string) \<Rightarrow> ('r \<Rightarrow> bool) \<Rightarrow> line_handler" where
  "sse_line decode counts content is_final tk line =
     (case strip_prefix ''data: '' line of
        None \<Rightarrow> (tk, None)
      | Some data \<Rightarrow>
          if data = ''[DONE]'' then (tk, Some (Inr (total_chunk tk [])))
          else (case decode data of
                  Inl e \<Rightarrow> (tk, Some (sse_parse_error e))
                | Inr r \<Rightarrow> ((newer (fst tk) (fst (counts r)), newer (snd tk) (snd (counts r))),
                     Some (Inr (plain_chunk (content r) (is_final r))))))"

definition openai_counts :: "openai_stream_response \<Rightarrow> token_totals" where
  "openai_counts r = (map_option ou_prompt_tokens (osr_usage r), map_option ou_completion_tokens (osr_usage r))"

definition openai_content :: "openai_stream_response \<Rightarrow> string" where
  "openai_content r = unwrap_or (Option.bind (list_first (osr_choices r)) (\<lambda>c. od_content (osc_delta c))) []"

definition openai_is_final :: "openai_stream_response \<Rightarrow> bool" where
  "openai_is_final r \<longleftrightarrow> Option.bind (list_first (osr_choices r)) osc_finish_reason \<noteq> None"

definition openai_line :: "(string \<Rightarrow> (string, openai_stream_response) result) \<Rightarrow> line_handler" where
  "openai_line decode = sse_line decode openai_counts openai_content openai_is_final"

text \<open>The adapter of the compatible provider has the same body.\<close>

definition openai_compatible_line :: "(string \<Rightarrow> (string, openai_stream_response) result) \<Rightarrow> line_handler" where
  "openai_compatible_line decode = sse_line decode openai_counts openai_content openai_is_final"

section \<open>Gemini\<close>

record gemini_part =
  gp_text :: string

record gemini_content =
  gc_role :: string
  gc_parts :: "gemini_part list"

record gemini_candidate =
  gd_content :: gemini_content
  gd_finish_reason :: "string option"

record gemini_usage =
  gu_prompt_token_count :: "u64 option"
  gu_candidates_token_count :: "u64 option"
  gu_total_token_count :: "u64 option"

record gemini_response =
  gr_candidates :: "gemini_candidate list"
  gr_usage_metadata :: "gemini_usage option"

definition gemini_counts :: "gemini_response \<Rightarrow> token_totals" where
  "gemini_counts r =
     (Option.bind (gr_usage_metadata r) gu_prompt_token_count, Option.bind (gr_usage_metadata r) gu_candidates_token_count)"

definition gemini_text :: "gemini_response \<Rightarrow> string" where
  "gemini_text r =
     unwrap_or (map_option gp_text (Option.bind (list_first (gr_candidates r)) (\<lambda>c. list_first (gc_parts (gd_content c))))) []"

definition gemini_is_final :: "gemini_response \<Rightarrow> bool" where
  "gemini_is_final r \<longleftrightarrow> Option.bind (list_first (gr_candidates r)) gd_finish_reason \<noteq> None"

definition gemini_line :: "(string \<Rightarrow> (string, gemini_response) result) \<Rightarrow> line_handler" where
  "gemini_line decode = sse_line decode gemini_counts gemini_text gemini_is_final"

section \<open>Anthropic\<close>

record anthropic_usage =
  au_input_tokens :: u64
  au_output_tokens :: u64

datatype anthropic_event =
    MessageStart anthropic_usage
  | ContentBlockStart
  | ContentBlockDelta "string option"
  | ContentBlockStop
  | MessageDelta anthropic_usage
  | MessageStop
  | Ping

fun anthropic_event_step :: "token_totals \<Rightarrow> anthropic_event \<Rightarrow> token_totals \<times> chunk_item option" where
  "anthropic_event_step tk (MessageStart usage) = ((Some (au_input_tokens usage), snd tk), None)"
| "anthropic_event_step tk (ContentBlockDelta text) = (tk, Some (Inr (plain_chunk (unwrap_or text []) False)))"
| "anthropic_event_step tk (MessageDelta usage) = ((fst tk, Some (au_output_tokens usage)), None)"
| "anthropic_event_step tk MessageStop = (tk, Some (Inr (total_chunk tk [])))"
| "anthropic_event_step tk _ = (tk, None)"

definition anthropic_line :: "(string \<Rightarrow> (string, anthropic_event) result) \<Rightarrow> line_handler" where
  "anthropic_line decode tk line =
     (if line \<noteq> [] \<and> take 6 line = ''data: ''
      then (case decode (drop 6 line) of
              Inl e \<Rightarrow> (tk, Some (sse_parse_error e))
            | Inr event \<Rightarrow> anthropic_event_step tk event)
      else (tk, None))"

section \<open>Ollama\<close>

record ollama_call =
  oc_id :: "string option"
  oc_call_type :: "string option"
  oc_name :: string
  oc_arguments :: json

record ollama_message =
  om_role :: string
  om_content :: string
  om_tool_calls :: "ollama_call list option"
  om_tool_call_id :: "string option"

record ollama_stream_response =
  os_model :: string
  os_message :: "ollama_message option"
  os_done :: bool
  os_prompt_eval_count :: "u64 option"
  os_eval_count :: "u64 option"

definition ollama_line :: "(string \<Rightarrow> (string, ollama_stream_response) result) \<Rightarrow> line_handler" where
  "ollama_line decode tk line =
     (if line = [] then (tk, None)
      else (case decode line of
              Inl e \<Rightarrow> (tk, Some (Inl (InvalidResponse (''Failed to parse JSON: '' @ e))))
            | Inr r \<Rightarrow>
                let tk' = (newer (fst tk) (os_prompt_eval_count r), newer (snd tk) (os_eval_count r));
                    content = unwrap_or (map_option om_content (os_message r)) []
                in (tk', Some (Inr (if os_done r then total_chunk tk' content else plain_chunk content False)))))"

section \<open>The five adapters\<close>

definition openai_poll_next ::
  "(string \<Rightarrow> (string, openai_stream_response) result) \<Rightarrow> net_poll \<Rightarrow> token_totals \<times> string \<Rightarrow> poll_result \<times> token_totals \<times> string" where
  "openai_poll_next decode = poll_next (openai_line decode)"

definition openai_compatible_poll_next ::
  "(string \<Rightarrow> (string, openai_stream_response) result) \<Rightarrow> net_poll \<Rightarrow> token_totals \<times> string \<Rightarrow> poll_result \<times> token_totals \<times> string" where
  "openai_compatible_poll_next decode = poll_next (openai_compatible_line decode)"

definition gemini_poll_next ::
  "(string \<Rightarrow> (string, gemini_response) result) \<Rightarrow> net_poll \<Rightarrow> token_totals \<times> string \<Rightarrow> poll_result \<times> token_totals \<times> string" where
  "gemini_poll_next decode = poll_next (gemini_line decode)"

definition anthropic_poll_next ::
  "(string \<Rightarrow> (string, anthropic_event) result) \<Rightarrow> net_poll \<Rightarrow> token_totals \<times> string \<Rightarrow> poll_result \<times> token_totals \<times> string" where
  "anthropic_poll_next decode = poll_next (anthropic_line decode)"

definition ollama_poll_next ::
  "(string \<Rightarrow> (string, ollama_stream_response) result) \<Rightarrow> net_poll \<Rightarrow> token_totals \<times> string \<Rightarrow> poll_result \<times> token_totals \<times> string" where
  "ollama_poll_next decode = poll_next (ollama_line decode)"

text \<open>The two OpenAI adapters do the same.\<close>

lemma openai_compatible_adapter: "openai_compatible_poll_next = openai_poll_next"
  by (simp add: fun_eq_iff openai_compatible_poll_next_def openai_poll_next_def openai_compatible_line_def openai_line_def)

section \<open>The items of a text\<close>

function line_items :: "line_handler \<Rightarrow> token_totals \<Rightarrow> string \<Rightarrow> chunk_item list \<times> token_totals \<times> string" where
  "line_items h tk buf =
     (case find_line buf of
        None \<Rightarrow> ([], tk, buf)
      | Some (line, rest) \<Rightarrow>
          (case h tk (trim line) of (tk', item) \<Rightarrow>
             case line_items h tk' rest of (items, s) \<Rightarrow>
               ((case item of None \<Rightarrow> items | Some it \<Rightarrow> it # items), s)))"
  by pat_completeness auto
termination
  by (relation "measure (\<lambda>(h, tk, buf). length buf)") (auto dest!: find_line_Some)

declare line_items.simps [simp del]

lemma find_line_append: "find_line s = Some (line, rest) \<Longrightarrow> find_line (s @ t) = Some (line, rest @ t)"
  by (induction s arbitrary: line) (auto split: if_splits)

lemma find_line_newline: "CHR 0x0A \<notin> set line \<Longrightarrow> find_line (line @ CHR 0x0A # rest) = Some (line, rest)"
  by (induction line) auto

lemma find_line_None: "find_line s = None \<longleftrightarrow> CHR 0x0A \<notin> set s"
  by (induction s) auto

lemma line_items_append:
  "line_items h tk (buf @ t) =
     (case line_items h tk buf of (items, tk', rest) \<Rightarrow>
        case line_items h tk' (rest @ t) of (items', s) \<Rightarrow> (items @ items', s))"
proof (induction h tk buf rule: line_items.induct)
  case (1 h tk buf)
  show ?case
  proof (cases "find_line buf")
    case (Some lr)
    obtain line rest where lr: "lr = (line, rest)" by force
    obtain tk' item where h: "h tk (trim line) = (tk', item)" by (cases "h tk (trim line)")
    note ih = 1 [OF Some lr [symmetric] h [symmetric]]
    show ?thesis
      using Some lr h ih
      by (simp add: line_items.simps [of h tk "buf @ t"] line_items.simps [of h tk buf] find_line_append
          split: prod.split option.split)
  qed (simp add: line_items.simps [of h tk buf] split: prod.split)
qed

lemma scan_items:
  "line_items h tk buf =
     (case scan_lines h tk buf of
        (Some item, tk', rest) \<Rightarrow> (item # fst (line_items h tk' rest), snd (line_items h tk' rest))
      | (None, tk', rest) \<Rightarrow> ([], tk', rest))"
proof (induction h tk buf rule: scan_lines.induct)
  case (1 h tk buf)
  show ?case
  proof (cases "find_line buf")
    case (Some lr)
    obtain line rest where lr: "lr = (line, rest)" by force
    obtain tk' item where h: "h tk (trim line) = (tk', item)" by (cases "h tk (trim line)")
    show ?thesis
      using Some lr h 1 [OF Some lr [symmetric] h [symmetric]]
      by (cases item) (simp_all add: line_items.simps [of h tk buf] scan_lines.simps [of h tk buf] split: prod.split)
  qed (simp add: line_items.simps [of h tk buf] scan_lines.simps [of h tk buf])
qed

section \<open>What a consumer receives\<close>

fun poll_text :: "net_poll \<Rightarrow> string" where
  "poll_text (NetBytes bytes) = from_utf8_lossy bytes"
| "poll_text _ = []"

definition polls_text :: "net_poll list \<Rightarrow> string" where
  "polls_text ps = concat (map poll_text ps)"

fun undisturbed :: "net_poll \<Rightarrow> bool" where
  "undisturbed (NetBytes _) \<longleftrightarrow> True"
| "undisturbed NetPending \<longleftrightarrow> True"
| "undisturbed _ \<longleftrightarrow> False"

text \<open>What is delivered and what is left in the buffer are together the items of the text.\<close>

lemma drain_items:
  assumes "list_all undisturbed ps"
  shows "line_items h tk (buf @ polls_text ps) =
    (case drain h ps (tk, buf) of (items, tk', rest) \<Rightarrow>
       case line_items h tk' rest of (items', s) \<Rightarrow> (items @ items', s))"
  using assms
proof (induction ps arbitrary: tk buf)
  case (Cons p ps)
  show ?case
  proof (cases p)
    case (NetBytes bytes)
    let ?buf = "buf @ from_utf8_lossy bytes"
    obtain item tk' rest where scan: "scan_lines h tk ?buf = (item, tk', rest)" by (cases "scan_lines h tk ?buf")
    have eq: "buf @ polls_text (p # ps) = ?buf @ polls_text ps" by (simp add: NetBytes polls_text_def)
    have ps: "list_all undisturbed ps" using Cons.prems by simp
    from Cons.IH [OF ps, of tk' rest] show ?thesis
      using scan_items [of h tk ?buf] line_items_append [of h tk' rest "polls_text ps"]
      unfolding eq line_items_append [of h tk ?buf]
      by (cases item) (auto simp: NetBytes scan split: prod.splits)
  qed (use Cons in \<open>simp_all add: polls_text_def\<close>)
qed (simp add: polls_text_def split: prod.split)

lemma drain_length: "length (fst (drain h ps s)) \<le> length ps"
proof (induction ps arbitrary: s)
  case (Cons p ps)
  obtain r s1 where "poll_next h p s = (r, s1)" by (cases "poll_next h p s")
  then show ?case using Cons [of s1] by (cases r) (auto split: prod.split)
qed simp

section \<open>Line protocols\<close>

text \<open>
  What the adapters share: blank lines are skipped and leave the totals alone, token counts are never
  forgotten, and only a final chunk reports them.  A server that sends its events in packets of their
  own, with any blank lines between them, has each of them delivered.
\<close>

locale line_protocol =
  fixes handle :: line_handler
  assumes blank: "handle tk [] = (tk, None)"
    and counts_kept: "handle tk line = (tk', item) \<Longrightarrow> fst tk \<noteq> None \<longrightarrow> fst tk' \<noteq> None"
      "handle tk line = (tk', item) \<Longrightarrow> snd tk \<noteq> None \<longrightarrow> snd tk' \<noteq> None"
    and counts_final: "handle tk line = (tk', Some (Inr c)) \<Longrightarrow> \<not> pc_is_final c \<Longrightarrow>
      pc_prompt_tokens c = None \<and> pc_completion_tokens c = None"
begin

lemma scan_blank: "scan_lines handle tk (replicate n (CHR 0x0A) @ buf) = scan_lines handle tk buf"
proof (induction n)
  case (Suc n)
  have "trim [] = []" by (simp add: trim_def)
  with Suc show ?case by (simp add: scan_lines.simps [of handle tk "CHR 0x0A # _"] blank)
qed simp

text \<open>A packet: a line and at least one newline.\<close>

lemma poll_event:
  assumes "CHR 0x0A \<notin> set line" "utf8_valid line" "handle tk (trim line) = (tk', Some item)"
  shows "poll_next handle (NetBytes (line @ replicate (Suc n) (CHR 0x0A))) (tk, replicate m (CHR 0x0A)) =
    (PollItem item, tk', replicate n (CHR 0x0A))"
proof -
  have nl: "utf8_valid (replicate k (CHR 0x0A))" for k
  proof (induction k)
    case (Suc k)
    have "utf8_valid [CHR 0x0A]" by (rule ascii_utf8) simp
    with Suc show ?case using utf8_valid_append [of "[CHR 0x0A]" "replicate k (CHR 0x0A)"] by simp
  qed simp
  have "utf8_valid (line @ replicate (Suc n) (CHR 0x0A))" using utf8_valid_append [OF assms(2)] nl by blast
  then have "scan_lines handle tk (replicate m (CHR 0x0A) @ from_utf8_lossy (line @ replicate (Suc n) (CHR 0x0A))) =
      scan_lines handle tk (line @ CHR 0x0A # replicate n (CHR 0x0A))"
    by (simp add: scan_blank)
  also have "\<dots> = (Some item, tk', replicate n (CHR 0x0A))"
    using assms(3) by (simp add: scan_lines.simps [of handle tk "line @ _"] find_line_newline [OF assms(1)])
  finally show ?thesis by simp
qed

text \<open>The items of a sequence of lines that all give one.\<close>

fun handle_all :: "token_totals \<Rightarrow> string list \<Rightarrow> chunk_item list" where
  "handle_all tk [] = []"
| "handle_all tk (line # lines) =
     (case handle tk (trim line) of
        (tk', None) \<Rightarrow> handle_all tk' lines
      | (tk', Some item) \<Rightarrow> item # handle_all tk' lines)"

lemma events_delivered:
  assumes "list_all (\<lambda>line. CHR 0x0A \<notin> set line \<and> utf8_valid line \<and> (\<forall>tk. snd (handle tk (trim line)) \<noteq> None)) lines"
  shows "fst (drain handle (map (\<lambda>line. NetBytes (line @ replicate (Suc n) (CHR 0x0A))) lines)
      (tk, replicate m (CHR 0x0A))) = handle_all tk lines"
  using assms
proof (induction lines arbitrary: tk m)
  case (Cons line lines)
  from Cons.prems have "\<forall>tk. snd (handle tk (trim line)) \<noteq> None" by simp
  then obtain tk' item where h: "handle tk (trim line) = (tk', Some item)" by (metis not_None_eq prod.collapse)
  moreover have "CHR 0x0A \<notin> set line" "utf8_valid line" using Cons.prems by simp_all
  ultimately have "poll_next handle (NetBytes (line @ replicate (Suc n) (CHR 0x0A))) (tk, replicate m (CHR 0x0A)) =
      (PollItem item, tk', replicate n (CHR 0x0A))"
    by (rule poll_event [rotated 2])
  then show ?case using h Cons by (simp only: list.map drain_item) simp
qed simp

end

text \<open>The providers.\<close>

interpretation sse: line_protocol "sse_line decode counts content is_final" for decode counts content is_final
  by unfold_locales
    (auto simp: sse_line_def strip_prefix_def newer_def plain_chunk_def total_chunk_def sse_parse_error_def
      split: option.splits if_splits sum.splits)

interpretation openai: line_protocol "openai_line decode" for decode
  unfolding openai_line_def by (rule sse.line_protocol_axioms)

interpretation openai_compatible: line_protocol "openai_compatible_line decode" for decode
  unfolding openai_compatible_line_def by (rule sse.line_protocol_axioms)

interpretation gemini: line_protocol "gemini_line decode" for decode
  unfolding gemini_line_def by (rule sse.line_protocol_axioms)

lemma anthropic_step_laws:
  assumes "anthropic_event_step tk ev = (tk', item)"
  shows "fst tk \<noteq> None \<longrightarrow> fst tk' \<noteq> None" "snd tk \<noteq> None \<longrightarrow> snd tk' \<noteq> None"
    "item = Some (Inr c) \<Longrightarrow> \<not> pc_is_final c \<Longrightarrow> pc_prompt_tokens c = None \<and> pc_completion_tokens c = None"
  using assms by (cases ev; auto simp: plain_chunk_def total_chunk_def)+

interpretation anthropic: line_protocol "anthropic_line decode" for decode
  by unfold_locales
    (auto simp: anthropic_line_def sse_parse_error_def split: if_splits sum.splits dest: anthropic_step_laws)

interpretation ollama: line_protocol "ollama_line decode" for decode
  by unfold_locales
    (auto simp: ollama_line_def newer_def plain_chunk_def total_chunk_def Let_def
      split: option.splits if_splits sum.splits)

section \<open>Properties\<close>

text \<open>
  (C22) A provider's stream loses nothing but its end. Whatever the packets, the chunks a consumer
  receives before the response ends, followed by those that are still in the adapter's buffer at that
  point, are exactly the chunks of the complete lines of the text, in order; and at most one chunk is
  delivered per poll, so those in the buffer are lost.
\<close>

theorem stream_delivers:
  assumes "list_all undisturbed ps" "drain h (ps @ [NetEnd]) stream_new = (items, tk, rest)"
  shows "items @ fst (line_items h tk rest) = fst (line_items h (None, None) (polls_text ps)) \<and> length items \<le> length ps"
proof -
  have ended: "drain h (ps @ [NetEnd]) s = drain h ps s" for s
    using assms(1)
  proof (induction ps arbitrary: s)
    case (Cons p ps)
    obtain r s1 where "poll_next h p s = (r, s1)" by (cases "poll_next h p s")
    with Cons show ?case by (cases r) simp_all
  qed simp
  show ?thesis
    using drain_items [OF assms(1), of h "(None, None)" "[]"] assms(2) drain_length [of h ps stream_new]
    by (simp add: ended stream_new_def split: prod.splits)
qed

text \<open>Evaluating the adapter on ASCII text.\<close>

definition text_line :: "string \<Rightarrow> string" where
  "text_line s = s @ [CHR 0x0A]"

lemma text_line_lossy [simp]: "from_utf8_lossy (text_line s) = text_line s" if "list_all (\<lambda>c. of_char c < (0x80 :: nat)) s"
  using that by (simp add: text_line_def ascii_utf8)

lemma scan_text_line:
  assumes "CHR 0x0A \<notin> set s" "s \<noteq> []" "ascii_graphic (hd s)" "ascii_graphic (last s)" "h tk s = (tk', Some item)"
  shows "scan_lines h tk (text_line s @ rest) = (Some item, tk', rest)"
  using assms by (simp add: scan_lines.simps [of h tk "s @ _"] text_line_def find_line_newline trim_graphic)

definition demo_openai_response :: "string \<Rightarrow> openai_stream_response" where
  "demo_openai_response s =
     \<lparr>osr_choices = [\<lparr>osc_delta = \<lparr>od_content = Some s\<rparr>, osc_finish_reason = None\<rparr>], osr_usage = None\<rparr>"

definition demo_decode :: "string \<Rightarrow> (string, openai_stream_response) result" where
  "demo_decode s = (if s = ''x'' then Inl ''bad'' else Inr (demo_openai_response s))"

lemma demo_line:
  "openai_line demo_decode tk ''data: a'' = (tk, Some (Inr (plain_chunk ''a'' False)))"
  "openai_line demo_decode tk ''data: b'' = (tk, Some (Inr (plain_chunk ''b'' False)))"
  "openai_line demo_decode tk ''data: [DONE]'' = (tk, Some (Inr (total_chunk tk [])))"
  by (simp_all add: openai_line_def sse_line_def strip_prefix_def demo_decode_def demo_openai_response_def
      openai_counts_def openai_content_def openai_is_final_def newer_def)

lemma demo_scan:
  "scan_lines (openai_line demo_decode) tk (text_line ''data: a'' @ rest) = (Some (Inr (plain_chunk ''a'' False)), tk, rest)"
  "scan_lines (openai_line demo_decode) tk (text_line ''data: b'' @ rest) = (Some (Inr (plain_chunk ''b'' False)), tk, rest)"
  "scan_lines (openai_line demo_decode) tk (text_line ''data: [DONE]'' @ rest) = (Some (Inr (total_chunk tk [])), tk, rest)"
  by (rule scan_text_line; simp add: demo_line ascii_graphic_def)+

lemma scan_nothing: "scan_lines h tk [] = (None, tk, [])"
  by (simp add: scan_lines.simps)

theorem stream_delivers_witness:
  "length (fst (line_items (openai_line demo_decode) (None, None)
      (polls_text [NetBytes (text_line ''data: a''), NetPending, NetBytes (text_line ''data: b'')]))) = 2"
proof -
  let ?ps = "[NetBytes (text_line ''data: a''), NetPending, NetBytes (text_line ''data: b'')]"
  have "drain (openai_line demo_decode) (?ps @ [NetEnd]) stream_new =
      ([Inr (plain_chunk ''a'' False), Inr (plain_chunk ''b'' False)], (None, None), [])"
    using demo_scan [where rest = "[]"] by (simp add: stream_new_def)
  moreover have "fst (line_items (openai_line demo_decode) (None, None) []) = []" by (simp add: line_items.simps)
  moreover have "list_all undisturbed ?ps" by simp
  ultimately have "fst (line_items (openai_line demo_decode) (None, None) (polls_text ?ps)) =
      [Inr (plain_chunk ''a'' False), Inr (plain_chunk ''b'' False)]"
    using stream_delivers [of ?ps "openai_line demo_decode"] by (metis append_Nil2)
  then show ?thesis by (simp only:) simp
qed

text \<open>Two events in the last packet: the second, here the one with the token counts, is lost.\<close>

theorem coalesced_events_lost:
  "fst (drain (openai_line demo_decode)
      [NetBytes (text_line ''data: a'' @ text_line ''data: [DONE]''), NetEnd] stream_new)
     = [Inr (plain_chunk ''a'' False)]"
  "fst (line_items (openai_line demo_decode) (None, None) (text_line ''data: a'' @ text_line ''data: [DONE]''))
     = [Inr (plain_chunk ''a'' False), Inr (total_chunk (None, None) [])]"
proof -
  have "utf8_valid (text_line ''data: a'' @ text_line ''data: [DONE]'')"
    by (rule ascii_utf8) (simp add: text_line_def)
  then show "fst (drain (openai_line demo_decode)
      [NetBytes (text_line ''data: a'' @ text_line ''data: [DONE]''), NetEnd] stream_new)
     = [Inr (plain_chunk ''a'' False)]"
    using demo_scan(1) by (simp add: stream_new_def)
  show "fst (line_items (openai_line demo_decode) (None, None) (text_line ''data: a'' @ text_line ''data: [DONE]''))
     = [Inr (plain_chunk ''a'' False), Inr (total_chunk (None, None) [])]"
    using demo_scan(3) [where rest = "[]"]
    by (simp add: scan_items [of _ _ "text_line _ @ _"] scan_items [of _ _ "text_line _"] demo_scan(1)
        scan_items [of _ _ "[]"] scan_nothing)
qed

text \<open>A character that is split between packets becomes two replacement characters.\<close>

theorem split_character_corrupted:
  "polls_text [NetBytes [CHR 0xC3], NetBytes [CHR 0xA9]] = replacement_character @ replacement_character"
  "from_utf8_lossy [CHR 0xC3, CHR 0xA9] = [CHR 0xC3, CHR 0xA9]"
  by code_simp+

section \<open>A well-behaved server\<close>

definition sse_event :: "string \<Rightarrow> net_poll" where
  "sse_event data = NetBytes (''data: '' @ data @ [CHR 0x0A, CHR 0x0A])"

text \<open>An encoding the decoder understands: valid UTF-8 on one line that \<open>trim\<close> leaves alone.\<close>

definition good_event :: "(string \<Rightarrow> (string, 'r) result) \<Rightarrow> 'r \<times> string \<Rightarrow> bool" where
  "good_event decode ev \<longleftrightarrow>
     (case ev of (r, data) \<Rightarrow> decode data = Inr r \<and> CHR 0x0A \<notin> set data \<and> utf8_valid data
        \<and> trim (''data: '' @ data) = ''data: '' @ data \<and> data \<noteq> ''[DONE]'')"

fun sse_totals :: "('r \<Rightarrow> token_totals) \<Rightarrow> 'r list \<Rightarrow> token_totals \<Rightarrow> token_totals" where
  "sse_totals counts [] tk = tk"
| "sse_totals counts (r # rs) tk =
     sse_totals counts rs (newer (fst tk) (fst (counts r)), newer (snd tk) (snd (counts r)))"

lemma data_utf8: "utf8_valid data \<Longrightarrow> utf8_valid (''data: '' @ data)"
proof -
  have "utf8_valid ''data: ''" by (rule ascii_utf8) simp
  then show "utf8_valid data \<Longrightarrow> ?thesis" using utf8_valid_append by blast
qed

lemma utf8_done: "utf8_valid ''[DONE]''"
  by (rule ascii_utf8) simp

lemma sse_poll:
  assumes "CHR 0x0A \<notin> set data" "utf8_valid data"
    "sse_line decode counts content is_final tk (trim (''data: '' @ data)) = (tk', Some item)"
  shows "poll_next (sse_line decode counts content is_final) (sse_event data) (tk, replicate m (CHR 0x0A)) =
    (PollItem item, tk', [CHR 0x0A])"
proof -
  have "sse_event data = NetBytes ((''data: '' @ data) @ replicate (Suc 1) (CHR 0x0A))" by (simp add: sse_event_def)
  then show ?thesis
    using sse.poll_event [OF _ data_utf8 [OF assms(2)] assms(3), of 1 m] assms(1) by (simp only:) simp
qed

lemma sse_drain:
  assumes "list_all (good_event decode) evs"
  shows "drain (sse_line decode counts content is_final)
      (map (\<lambda>(r, data). sse_event data) evs @ [sse_event ''[DONE]'', NetEnd]) (tk, replicate m (CHR 0x0A)) =
    (map (\<lambda>(r, data). Inr (plain_chunk (content r) (is_final r))) evs
       @ [Inr (total_chunk (sse_totals counts (map fst evs) tk) [])],
     sse_totals counts (map fst evs) tk, [CHR 0x0A])"
  using assms
proof (induction evs arbitrary: tk m)
  case Nil
  have trim: "trim (''data: '' @ ''[DONE]'') = ''data: [DONE]''" by (simp add: trim_graphic ascii_graphic_def)
  have "sse_line decode counts content is_final tk (trim (''data: '' @ ''[DONE]'')) = (tk, Some (Inr (total_chunk tk [])))"
    unfolding trim by (simp add: sse_line_def strip_prefix_def)
  from sse_poll [OF _ utf8_done this, of m] have "poll_next (sse_line decode counts content is_final) (sse_event ''[DONE]'')
      (tk, replicate m (CHR 0x0A)) = (PollItem (Inr (total_chunk tk [])), tk, [CHR 0x0A])"
    by simp
  from drain_item [OF this] show ?case by simp
next
  case (Cons ev evs)
  obtain r data where ev: "ev = (r, data)" by force
  let ?tk = "(newer (fst tk) (fst (counts r)), newer (snd tk) (snd (counts r)))"
  have g: "decode data = Inr r" "CHR 0x0A \<notin> set data" "utf8_valid data" "trim (''data: '' @ data) = ''data: '' @ data"
    "data \<noteq> ''[DONE]''"
    using Cons.prems ev by (simp_all add: good_event_def)
  have "sse_line decode counts content is_final tk (trim (''data: '' @ data)) =
      (?tk, Some (Inr (plain_chunk (content r) (is_final r))))"
    unfolding g(4) using g by (simp add: sse_line_def strip_prefix_def)
  from drain_item [OF sse_poll [OF g(2,3) this]] Cons.IH [of ?tk 1] Cons.prems ev
  show ?case by (simp del: drain.simps)
qed

lemma list_last_Cons: "list_last (x # xs) = or_else (list_last xs) (Some x)"
  by (cases xs) simp_all

lemma openai_totals:
  "sse_totals openai_counts rs tk =
     (let u = list_last (List.map_filter osr_usage rs)
      in (newer (fst tk) (map_option ou_prompt_tokens u), newer (snd tk) (map_option ou_completion_tokens u)))"
proof (induction rs arbitrary: tk)
  case (Cons r rs)
  then show ?case
    by (cases "list_last (List.map_filter osr_usage rs)")
      (auto simp: map_filter_simps openai_counts_def newer_def list_last_Cons Let_def simp del: list_last.simps(2)
        split: option.split)
qed (simp add: newer_def map_filter_simps)

lemma map_filter_map: "List.map_filter f (map g xs) = List.map_filter (f \<circ> g) xs"
  by (simp add: List.map_filter_def filter_map comp_def)

text \<open>
  (C24) An OpenAI stream that is sent event by event arrives as it was sent: for each response, in order,
  one chunk with the delta of that response and whether it is the last, and after \<open>[DONE]\<close> a final chunk
  with the last token counts the server reported.
\<close>

theorem openai_stream_arrives:
  assumes "list_all (good_event decode) evs"
  shows "\<exists>tk rest.
    drain (openai_line decode) (map (\<lambda>(r, data). sse_event data) evs @ [sse_event ''[DONE]'', NetEnd]) stream_new =
      (map (\<lambda>(r, data). Inr (plain_chunk (openai_content r) (openai_is_final r))) evs @ [Inr (total_chunk tk [])], tk, rest)
    \<and> fst tk = map_option ou_prompt_tokens (list_last (List.map_filter (osr_usage \<circ> fst) evs))
    \<and> snd tk = map_option ou_completion_tokens (list_last (List.map_filter (osr_usage \<circ> fst) evs))"
proof -
  let ?tk = "sse_totals openai_counts (map fst evs) (None, None)"
  have "drain (openai_line decode) (map (\<lambda>(r, data). sse_event data) evs @ [sse_event ''[DONE]'', NetEnd]) stream_new =
      (map (\<lambda>(r, data). Inr (plain_chunk (openai_content r) (openai_is_final r))) evs @ [Inr (total_chunk ?tk [])],
       ?tk, [CHR 0x0A])"
    using sse_drain [OF assms, of openai_counts openai_content openai_is_final "(None, None)" 0]
    by (simp add: openai_line_def stream_new_def)
  moreover have "newer None x = x" for x by (cases x) (simp_all add: newer_def)
  then have "fst ?tk = map_option ou_prompt_tokens (list_last (List.map_filter (osr_usage \<circ> fst) evs))"
    "snd ?tk = map_option ou_completion_tokens (list_last (List.map_filter (osr_usage \<circ> fst) evs))"
    by (simp_all add: openai_totals map_filter_map Let_def)
  ultimately show ?thesis by (intro exI [of _ ?tk] exI [of _ "[CHR 0x0A]"] conjI)
qed

theorem openai_stream_arrives_witness:
  "\<exists>tk rest.
    drain (openai_line demo_decode) [sse_event ''a'', sse_event ''b'', sse_event ''[DONE]'', NetEnd] stream_new =
      ([Inr (plain_chunk ''a'' False), Inr (plain_chunk ''b'' False), Inr (total_chunk tk [])], tk, rest)
    \<and> tk = (None, None)"
proof -
  let ?evs = "[(demo_openai_response ''a'', ''a''), (demo_openai_response ''b'', ''b'')]"
  have "trim ''data: a'' = ''data: a''" "trim ''data: b'' = ''data: b''" by (rule trim_graphic; simp add: ascii_graphic_def)+
  moreover have "utf8_valid ''a''" "utf8_valid ''b''" by (rule ascii_utf8; simp)+
  ultimately have "list_all (good_event demo_decode) ?evs" by (simp add: good_event_def demo_decode_def del: utf8_valid.simps)
  from openai_stream_arrives [OF this] obtain tk rest where
    "drain (openai_line demo_decode) [sse_event ''a'', sse_event ''b'', sse_event ''[DONE]'', NetEnd] stream_new =
      ([Inr (plain_chunk ''a'' False), Inr (plain_chunk ''b'' False), Inr (total_chunk tk [])], tk, rest)"
    "fst tk = None" "snd tk = None"
    by (auto simp: openai_content_def openai_is_final_def demo_openai_response_def map_filter_simps)
  then show ?thesis by (metis prod.collapse)
qed

end
