(* ===== verification/Providers.thy ===== *)
theory Providers
  imports Provider_Stream Tool_Nodes
begin

text \<open>
  \<open>cleargate-providers\<close>, the requests: pricing, the requests each provider builds from a completion
  request, what it makes of the answer, and the mock provider.  The HTTP client, which also
  serialises the body and parses the answer, is a parameter that maps a call to its reply; so are
  Unicode lower-casing, the JSON text of tool arguments and fresh identifiers.  A slice that is cut
  inside a character panics.
\<close>

section \<open>Requests and responses (\<open>traits.rs\<close>)\<close>

text \<open>An \<open>f32\<close> is only passed on: its bits.\<close>

type_synonym f32 = "32 word"

record provider_call =
  pt_id :: string
  pt_call_type :: string
  pt_name :: string
  pt_arguments :: string

record provider_message =
  pm_role :: string
  pm_content :: string
  pm_tool_calls :: "provider_call list option"
  pm_tool_call_id :: "string option"
  pm_name :: "string option"

record completion_request =
  cq_model :: string
  cq_messages :: "provider_message list"
  cq_temperature :: "f32 option"
  cq_max_tokens :: "u32 option"
  cq_stream :: bool
  cq_tools :: "json list option"

record completion_response =
  cp_content :: string
  cp_prompt_tokens :: u64
  cp_completion_tokens :: u64
  cp_model :: string
  cp_provider :: string
  cp_tool_calls :: "provider_call list option"
  cp_finish_reason :: string

section \<open>Pricing (\<open>pricing.rs\<close>)\<close>

record model_pricing =
  mp_prompt :: f64
  mp_completion :: f64

type_synonym pricing_calculator = "string \<rightharpoonup> model_pricing"

definition add_models :: "(string \<times> model_pricing) list \<Rightarrow> pricing_calculator" where
  "add_models models = fold (\<lambda>(model, pricing) p. p(model \<mapsto> pricing)) models Map.empty"

definition calculate_cost :: "pricing_calculator \<Rightarrow> string \<Rightarrow> u64 \<Rightarrow> u64 \<Rightarrow> f64 option" where
  "calculate_cost pricing model prompt_tokens completion_tokens =
     map_option (\<lambda>p. f64_add (f64_mul (f64_of_int (uint prompt_tokens)) (mp_prompt p))
                        (f64_mul (f64_of_int (uint completion_tokens)) (mp_completion p))) (pricing model)"

fun f64_ceil :: "f64 \<Rightarrow> f64" where
  "f64_ceil (Fin q) = Fin (of_int \<lceil>q\<rceil>)"
| "f64_ceil x = x"

definition estimate_prompt_tokens :: "string \<Rightarrow> u64" where
  "estimate_prompt_tokens s = f64_to_u64 (f64_ceil (f64_div_nat (f64_of_int (int (length s))) 4))"

text \<open>\<open>model[..model.rfind('-')?]\<close>.\<close>

definition before_last_dash :: "string \<Rightarrow> string option" where
  "before_last_dash s =
     (case dropWhile (\<lambda>c. c \<noteq> CHR ''-'') (rev s) of [] \<Rightarrow> None | _ # r \<Rightarrow> Some (rev r))"

definition normalize_model_name :: "pricing_calculator \<Rightarrow> string \<Rightarrow> string" where
  "normalize_model_name pricing model =
     (if pricing model \<noteq> None then model
      else case before_last_dash model of
             Some base \<Rightarrow> if pricing base \<noteq> None then base else model
           | None \<Rightarrow> model)"

section \<open>The HTTP exchange\<close>

record 'b http_call =
  hc_url :: string
  hc_headers :: "(string \<times> string) list"
  hc_body :: 'b

record 'r http_reply =
  hr_status :: string
  hr_success :: bool
  hr_text :: "(string, string) result"
  hr_json :: "(string, 'r) result"
  hr_bytes :: "net_poll list"

type_synonym ('b, 'r) http_client = "'b http_call \<Rightarrow> (string, 'r http_reply) result"

text \<open>\<open>response.text().await.unwrap_or_default()\<close>.\<close>

definition error_text :: "'r http_reply \<Rightarrow> string" where
  "error_text reply = (case hr_text reply of Inl _ \<Rightarrow> [] | Inr t \<Rightarrow> t)"

definition send_checked :: "('b, 'r) http_client \<Rightarrow> 'b http_call \<Rightarrow> (provider_error, 'r http_reply) result" where
  "send_checked client call =
     and_then (map_err RequestFailed (client call)) (\<lambda>reply.
       if \<not> hr_success reply then Inl (ApiError (error_text reply)) else Inr reply)"

definition send_json ::
  "('b, 'r) http_client \<Rightarrow> 'b http_call \<Rightarrow> ('r \<Rightarrow> completion_response) \<Rightarrow> (provider_error, completion_response) result" where
  "send_json client call convert =
     and_then (send_checked client call) (\<lambda>reply.
     and_then (map_err InvalidResponse (hr_json reply)) (\<lambda>r. Inr (convert r)))"

text \<open>The chunks a consumer of the stream receives.\<close>

definition send_stream ::
  "('b, 'r) http_client \<Rightarrow> 'b http_call \<Rightarrow> line_handler \<Rightarrow> (provider_error, chunk_item list) result" where
  "send_stream client call h =
     and_then (send_checked client call) (\<lambda>reply. Inr (fst (drain h (hr_bytes reply) stream_new)))"

definition json_header :: "string \<times> string" where
  "json_header = (''Content-Type'', ''application/json'')"

section \<open>OpenAI (\<open>openai.rs\<close>)\<close>

record openai_provider =
  op_api_key :: string
  op_pricing :: pricing_calculator

record openai_request =
  oq_model :: string
  oq_messages :: "provider_message list"
  oq_temperature :: "f32 option"
  oq_max_tokens :: "u32 option"
  oq_max_completion_tokens :: "u32 option"
  oq_stream :: "bool option"

record openai_response =
  or_choices :: "string list"
  or_usage :: openai_usage
  or_model :: string

definition openai_new :: "string \<Rightarrow> (string \<times> model_pricing) list \<Rightarrow> openai_provider" where
  "openai_new api_key models = \<lparr>op_api_key = api_key, op_pricing = add_models models\<rparr>"

definition uses_max_completion_tokens :: "(string \<Rightarrow> string) \<Rightarrow> string \<Rightarrow> bool" where
  "uses_max_completion_tokens to_lowercase model \<longleftrightarrow>
     (let model_lower = to_lowercase model
      in take 2 model_lower = ''o1'' \<or> take 2 model_lower = ''o3''
       \<or> contains_str ''gpt-4-turbo'' model_lower \<or> contains_str ''gpt-4o'' model_lower
       \<or> contains_str ''gpt-4.5'' model_lower \<or> contains_str ''gpt-5'' model_lower
       \<or> contains_str ''chatgpt-4o'' model_lower)"

definition openai_body :: "(string \<Rightarrow> string) \<Rightarrow> completion_request \<Rightarrow> bool option \<Rightarrow> openai_request" where
  "openai_body to_lowercase req stream =
     (let (max_tokens, max_completion_tokens) =
            (if uses_max_completion_tokens to_lowercase (cq_model req) then (None, cq_max_tokens req)
             else (cq_max_tokens req, None))
      in \<lparr>oq_model = cq_model req, oq_messages = cq_messages req, oq_temperature = cq_temperature req,
          oq_max_tokens = max_tokens, oq_max_completion_tokens = max_completion_tokens, oq_stream = stream\<rparr>)"

definition openai_call :: "openai_provider \<Rightarrow> openai_request \<Rightarrow> openai_request http_call" where
  "openai_call p body =
     \<lparr>hc_url = ''https://api.openai.com/v1/chat/completions'',
      hc_headers = [(''Authorization'', ''Bearer '' @ op_api_key p), json_header], hc_body = body\<rparr>"

definition openai_answer :: "string \<Rightarrow> openai_response \<Rightarrow> completion_response" where
  "openai_answer provider r =
     \<lparr>cp_content = unwrap_or (list_first (or_choices r)) [], cp_prompt_tokens = ou_prompt_tokens (or_usage r),
      cp_completion_tokens = ou_completion_tokens (or_usage r), cp_model = or_model r, cp_provider = provider,
      cp_tool_calls = None, cp_finish_reason = ''stop''\<rparr>"

definition openai_complete ::
  "(openai_request, openai_response) http_client \<Rightarrow> (string \<Rightarrow> string) \<Rightarrow> openai_provider \<Rightarrow> completion_request
   \<Rightarrow> (provider_error, completion_response) result" where
  "openai_complete client to_lowercase p req =
     send_json client (openai_call p (openai_body to_lowercase req None)) (openai_answer ''openai'')"

definition openai_stream ::
  "(openai_request, 'r) http_client \<Rightarrow> (string \<Rightarrow> (string, openai_stream_response) result) \<Rightarrow> (string \<Rightarrow> string)
   \<Rightarrow> openai_provider \<Rightarrow> completion_request \<Rightarrow> (provider_error, chunk_item list) result" where
  "openai_stream client decode to_lowercase p req =
     send_stream client (openai_call p (openai_body to_lowercase req (Some True))) (openai_line decode)"

section \<open>OpenAI-compatible servers (\<open>openai_compatible.rs\<close>)\<close>

record compatible_provider =
  co_base_url :: string
  co_api_key :: "string option"
  co_api_key_header :: string
  co_api_key_format :: string
  co_pricing :: pricing_calculator

record compatible_request =
  ct_model :: string
  ct_messages :: "provider_message list"
  ct_temperature :: "f32 option"
  ct_max_tokens :: "u32 option"
  ct_stream :: "bool option"

definition compatible_new ::
  "string \<Rightarrow> string option \<Rightarrow> string option \<Rightarrow> string option \<Rightarrow> (string \<times> model_pricing) list \<Rightarrow> compatible_provider" where
  "compatible_new base_url api_key api_key_header api_key_format models =
     \<lparr>co_base_url = trim_end_matches (CHR ''/'') base_url, co_api_key = api_key,
      co_api_key_header = unwrap_or api_key_header ''Authorization'',
      co_api_key_format = unwrap_or api_key_format ''Bearer {key}'', co_pricing = add_models models\<rparr>"

definition ends_with :: "string \<Rightarrow> string \<Rightarrow> bool" where
  "ends_with pat s \<longleftrightarrow> take (length pat) (rev s) = rev pat"

definition compatible_api_url :: "compatible_provider \<Rightarrow> string" where
  "compatible_api_url p =
     (if contains_str ''/v1/chat/completions'' (co_base_url p) then co_base_url p
      else if ends_with ''/v1'' (co_base_url p) then co_base_url p @ ''/chat/completions''
      else co_base_url p @ ''/v1/chat/completions'')"

text \<open>\<open>str::replace\<close> for a pattern that is not empty.\<close>

fun replace_all :: "string \<Rightarrow> string \<Rightarrow> string \<Rightarrow> string" where
  "replace_all pat new [] = []"
| "replace_all pat new (c # s) =
     (if take (length pat) (c # s) = pat then new @ replace_all pat new (drop (length pat - 1) s)
      else c # replace_all pat new s)"

definition format_api_key :: "compatible_provider \<Rightarrow> string option" where
  "format_api_key p = map_option (\<lambda>key. replace_all ''{key}'' key (co_api_key_format p)) (co_api_key p)"

definition compatible_body :: "completion_request \<Rightarrow> bool option \<Rightarrow> compatible_request" where
  "compatible_body req stream =
     \<lparr>ct_model = cq_model req, ct_messages = cq_messages req, ct_temperature = cq_temperature req,
      ct_max_tokens = cq_max_tokens req, ct_stream = stream\<rparr>"

definition compatible_call :: "compatible_provider \<Rightarrow> compatible_request \<Rightarrow> compatible_request http_call" where
  "compatible_call p body =
     \<lparr>hc_url = compatible_api_url p,
      hc_headers = json_header # (case format_api_key p of None \<Rightarrow> [] | Some v \<Rightarrow> [(co_api_key_header p, v)]),
      hc_body = body\<rparr>"

definition compatible_complete ::
  "(compatible_request, openai_response) http_client \<Rightarrow> compatible_provider \<Rightarrow> completion_request
   \<Rightarrow> (provider_error, completion_response) result" where
  "compatible_complete client p req =
     send_json client (compatible_call p (compatible_body req None)) (openai_answer ''openai-compatible'')"

definition compatible_stream ::
  "(compatible_request, 'r) http_client \<Rightarrow> (string \<Rightarrow> (string, openai_stream_response) result) \<Rightarrow> compatible_provider
   \<Rightarrow> completion_request \<Rightarrow> (provider_error, chunk_item list) result" where
  "compatible_stream client decode p req =
     send_stream client (compatible_call p (compatible_body req (Some True))) (openai_compatible_line decode)"

section \<open>Anthropic (\<open>anthropic.rs\<close>)\<close>

record anthropic_provider =
  ap_api_key :: string
  ap_pricing :: pricing_calculator

record anthropic_message =
  am_role :: string
  am_content :: string

record anthropic_request =
  aq_model :: string
  aq_messages :: "anthropic_message list"
  aq_max_tokens :: u32
  aq_temperature :: "f32 option"
  aq_stream :: "bool option"

record anthropic_response =
  an_content :: "string list"
  an_usage :: anthropic_usage
  an_model :: string

definition anthropic_new :: "string \<Rightarrow> (string \<times> model_pricing) list \<Rightarrow> anthropic_provider" where
  "anthropic_new api_key models = \<lparr>ap_api_key = api_key, ap_pricing = add_models models\<rparr>"

definition anthropic_body :: "completion_request \<Rightarrow> bool option \<Rightarrow> anthropic_request" where
  "anthropic_body req stream =
     \<lparr>aq_model = cq_model req,
      aq_messages = map (\<lambda>m. \<lparr>am_role = pm_role m, am_content = pm_content m\<rparr>) (cq_messages req),
      aq_max_tokens = unwrap_or (cq_max_tokens req) 4096, aq_temperature = cq_temperature req, aq_stream = stream\<rparr>"

definition anthropic_call :: "anthropic_provider \<Rightarrow> anthropic_request \<Rightarrow> anthropic_request http_call" where
  "anthropic_call p body =
     \<lparr>hc_url = ''https://api.anthropic.com/v1/messages'',
      hc_headers = [(''x-api-key'', ap_api_key p), (''anthropic-version'', ''2023-06-01''), json_header],
      hc_body = body\<rparr>"

definition anthropic_answer :: "anthropic_response \<Rightarrow> completion_response" where
  "anthropic_answer r =
     \<lparr>cp_content = unwrap_or (list_first (an_content r)) [], cp_prompt_tokens = au_input_tokens (an_usage r),
      cp_completion_tokens = au_output_tokens (an_usage r), cp_model = an_model r, cp_provider = ''anthropic'',
      cp_tool_calls = None, cp_finish_reason = ''stop''\<rparr>"

definition anthropic_complete ::
  "(anthropic_request, anthropic_response) http_client \<Rightarrow> anthropic_provider \<Rightarrow> completion_request
   \<Rightarrow> (provider_error, completion_response) result" where
  "anthropic_complete client p req =
     send_json client (anthropic_call p (anthropic_body req None)) anthropic_answer"

definition anthropic_stream ::
  "(anthropic_request, 'r) http_client \<Rightarrow> (string \<Rightarrow> (string, anthropic_event) result) \<Rightarrow> anthropic_provider
   \<Rightarrow> completion_request \<Rightarrow> (provider_error, chunk_item list) result" where
  "anthropic_stream client decode p req =
     send_stream client (anthropic_call p (anthropic_body req (Some True))) (anthropic_line decode)"

section \<open>Gemini (\<open>gemini.rs\<close>)\<close>

record gemini_provider =
  ge_base_url :: string
  ge_api_key :: string
  ge_pricing :: pricing_calculator

record gemini_generation_config =
  gg_temperature :: "f32 option"
  gg_max_output_tokens :: "u32 option"

record gemini_request =
  gq_contents :: "gemini_content list"
  gq_generation_config :: "gemini_generation_config option"

definition gemini_new :: "string option \<Rightarrow> string \<Rightarrow> (string \<times> model_pricing) list \<Rightarrow> gemini_provider" where
  "gemini_new base_url api_key models =
     \<lparr>ge_base_url = unwrap_or base_url ''https://generativelanguage.googleapis.com/v1beta'', ge_api_key = api_key,
      ge_pricing = add_models models\<rparr>"

definition gemini_api_url :: "gemini_provider \<Rightarrow> string \<Rightarrow> string" where
  "gemini_api_url p model = ge_base_url p @ ''/models/'' @ model @ '':generateContent''"

definition gemini_stream_api_url :: "gemini_provider \<Rightarrow> string \<Rightarrow> string" where
  "gemini_stream_api_url p model = ge_base_url p @ ''/models/'' @ model @ '':streamGenerateContent?alt=sse''"

definition gemini_message :: "string \<Rightarrow> string \<Rightarrow> gemini_content" where
  "gemini_message role s = \<lparr>gc_role = role, gc_parts = [\<lparr>gp_text = s\<rparr>]\<rparr>"

fun contents_loop :: "string option \<Rightarrow> provider_message list \<Rightarrow> gemini_content list" where
  "contents_loop system_message [] = []"
| "contents_loop system_message (msg # messages) =
     (if pm_role msg = ''system'' then
        contents_loop (Some (case system_message of
            None \<Rightarrow> pm_content msg
          | Some sys \<Rightarrow> sys @ [CHR 0x0A] @ pm_content msg)) messages
      else if pm_role msg = ''user'' then
        gemini_message ''user'' (case system_message of
            None \<Rightarrow> pm_content msg
          | Some sys \<Rightarrow> sys @ [CHR 0x0A, CHR 0x0A] @ pm_content msg) # contents_loop None messages
      else if pm_role msg = ''assistant'' then
        gemini_message ''model'' (pm_content msg) # contents_loop system_message messages
      else gemini_message ''user'' (pm_content msg) # contents_loop system_message messages)"

definition messages_to_contents :: "provider_message list \<Rightarrow> gemini_content list" where
  "messages_to_contents messages = contents_loop None messages"

definition gemini_body :: "completion_request \<Rightarrow> gemini_request" where
  "gemini_body req =
     \<lparr>gq_contents = messages_to_contents (cq_messages req),
      gq_generation_config =
        (if cq_temperature req \<noteq> None \<or> cq_max_tokens req \<noteq> None
         then Some \<lparr>gg_temperature = cq_temperature req, gg_max_output_tokens = cq_max_tokens req\<rparr> else None)\<rparr>"

definition gemini_call :: "gemini_provider \<Rightarrow> string \<Rightarrow> gemini_request \<Rightarrow> gemini_request http_call" where
  "gemini_call p url body =
     \<lparr>hc_url = url, hc_headers = [(''x-goog-api-key'', ge_api_key p), json_header], hc_body = body\<rparr>"

datatype 'a or_panic = Returns 'a | Panics

text \<open>\<open>&s[..n]\<close>.\<close>

definition is_char_boundary :: "nat \<Rightarrow> string \<Rightarrow> bool" where
  "is_char_boundary n s \<longleftrightarrow> n = 0 \<or> n = length s \<or> n < length s \<and> \<not> is_cont (byte_at s n)"

definition excerpt :: "string \<Rightarrow> string or_panic" where
  "excerpt response_text =
     (if 500 < length response_text
      then if is_char_boundary 500 response_text then Returns (take 500 response_text @ ''...'') else Panics
      else Returns response_text)"

definition gemini_answer :: "string \<Rightarrow> gemini_response \<Rightarrow> completion_response" where
  "gemini_answer model r =
     \<lparr>cp_content = gemini_text r, cp_prompt_tokens = unwrap_or (fst (gemini_counts r)) 0,
      cp_completion_tokens = unwrap_or (snd (gemini_counts r)) 0, cp_model = model, cp_provider = ''gemini'',
      cp_tool_calls = None, cp_finish_reason = ''stop''\<rparr>"

definition gemini_complete ::
  "(gemini_request, 'r) http_client \<Rightarrow> (string \<Rightarrow> (string, gemini_response) result) \<Rightarrow> gemini_provider
   \<Rightarrow> completion_request \<Rightarrow> (provider_error, completion_response) result or_panic" where
  "gemini_complete client decode p req =
     (case client (gemini_call p (gemini_api_url p (cq_model req)) (gemini_body req)) of
        Inl e \<Rightarrow> Returns (Inl (RequestFailed e))
      | Inr reply \<Rightarrow>
          (case hr_text reply of
             Inl e \<Rightarrow> Returns (Inl (InvalidResponse (''Failed to read response: '' @ e)))
           | Inr response_text \<Rightarrow>
               if \<not> hr_success reply
               then Returns (Inl (ApiError (''Gemini API error ('' @ hr_status reply @ ''): '' @ response_text)))
               else (case decode response_text of
                       Inl e \<Rightarrow>
                         (case excerpt response_text of
                            Panics \<Rightarrow> Panics
                          | Returns x \<Rightarrow> Returns (Inl (InvalidResponse
                              (''Failed to parse Gemini response: '' @ e @ ''. Raw response: '' @ x))))
                     | Inr r \<Rightarrow> Returns (Inr (gemini_answer (cq_model req) r)))))"

definition gemini_stream ::
  "(gemini_request, 'r) http_client \<Rightarrow> (string \<Rightarrow> (string, gemini_response) result) \<Rightarrow> gemini_provider
   \<Rightarrow> completion_request \<Rightarrow> (provider_error, chunk_item list) result" where
  "gemini_stream client decode p req =
     send_stream client (gemini_call p (gemini_stream_api_url p (cq_model req)) (gemini_body req)) (gemini_line decode)"

section \<open>Ollama (\<open>ollama.rs\<close>)\<close>

record ollama_provider =
  ol_base_url :: string
  ol_api_key :: "string option"
  ol_pricing :: pricing_calculator

record ollama_options =
  oo_num_predict :: "u32 option"
  oo_temperature :: "f32 option"

record ollama_request =
  lo_model :: string
  lo_messages :: "ollama_message list"
  lo_tools :: "json list option"
  lo_options :: "ollama_options option"
  lo_stream :: "bool option"

record ollama_response =
  ls_model :: string
  ls_message :: ollama_message
  ls_done :: bool
  ls_prompt_eval_count :: "u64 option"
  ls_eval_count :: "u64 option"

definition ollama_new :: "string option \<Rightarrow> string option \<Rightarrow> (string \<times> model_pricing) list \<Rightarrow> ollama_provider" where
  "ollama_new base_url api_key models =
     \<lparr>ol_base_url = unwrap_or base_url ''http://localhost:11434'', ol_api_key = api_key, ol_pricing = add_models models\<rparr>"

definition ollama_new_local :: "(string \<times> model_pricing) list \<Rightarrow> ollama_provider" where
  "ollama_new_local models = ollama_new None None models"

definition ollama_new_hosted :: "string \<Rightarrow> string option \<Rightarrow> (string \<times> model_pricing) list \<Rightarrow> ollama_provider" where
  "ollama_new_hosted base_url api_key models = ollama_new (Some base_url) api_key models"

text \<open>\<open>serde_json\<close>'s reader and writer of values.\<close>

record json_text =
  jt_from_str :: "string \<Rightarrow> (string, json) result"
  jt_to_string :: "json \<Rightarrow> (string, string) result"

definition to_ollama_call :: "json_text \<Rightarrow> provider_call \<Rightarrow> ollama_call" where
  "to_ollama_call jt tc =
     \<lparr>oc_id = Some (pt_id tc), oc_call_type = Some (pt_call_type tc), oc_name = pt_name tc,
      oc_arguments = (case jt_from_str jt (pt_arguments tc) of Inr v \<Rightarrow> v | Inl _ \<Rightarrow> JObject [])\<rparr>"

definition convert_messages :: "json_text \<Rightarrow> provider_message list \<Rightarrow> ollama_message list" where
  "convert_messages jt messages =
     map (\<lambda>m. \<lparr>om_role = pm_role m, om_content = pm_content m,
        om_tool_calls = map_option (map (to_ollama_call jt)) (pm_tool_calls m),
        om_tool_call_id = pm_tool_call_id m\<rparr>) messages"

text \<open>\<open>uuid i\<close> is the identifier generated for the \<open>i\<close>-th call.\<close>

definition from_ollama_call :: "json_text \<Rightarrow> string \<Rightarrow> ollama_call \<Rightarrow> provider_call" where
  "from_ollama_call jt fresh tc =
     \<lparr>pt_id = unwrap_or (oc_id tc) fresh, pt_call_type = unwrap_or (oc_call_type tc) ''function'',
      pt_name = oc_name tc,
      pt_arguments = (case jt_to_string jt (oc_arguments tc) of Inr s \<Rightarrow> s | Inl _ \<Rightarrow> ''{}'')\<rparr>"

definition convert_tool_calls :: "json_text \<Rightarrow> (nat \<Rightarrow> string) \<Rightarrow> ollama_call list \<Rightarrow> provider_call list" where
  "convert_tool_calls jt uuid calls = map (\<lambda>(i, tc). from_ollama_call jt (uuid i) tc) (enumerate 0 calls)"

definition ollama_body :: "json_text \<Rightarrow> completion_request \<Rightarrow> bool \<Rightarrow> ollama_request" where
  "ollama_body jt req stream =
     \<lparr>lo_model = cq_model req, lo_messages = convert_messages jt (cq_messages req), lo_tools = cq_tools req,
      lo_options =
        (if cq_max_tokens req \<noteq> None \<or> cq_temperature req \<noteq> None
         then Some \<lparr>oo_num_predict = cq_max_tokens req, oo_temperature = cq_temperature req\<rparr> else None),
      lo_stream = Some stream\<rparr>"

definition ollama_call_for :: "ollama_provider \<Rightarrow> ollama_request \<Rightarrow> ollama_request http_call" where
  "ollama_call_for p body =
     \<lparr>hc_url = ol_base_url p @ ''/api/chat'',
      hc_headers = json_header # (case ol_api_key p of None \<Rightarrow> [] | Some key \<Rightarrow> [(''Authorization'', ''Bearer '' @ key)]),
      hc_body = body\<rparr>"

definition ollama_answer :: "json_text \<Rightarrow> (nat \<Rightarrow> string) \<Rightarrow> ollama_response \<Rightarrow> completion_response" where
  "ollama_answer jt uuid r =
     (let tool_calls = (case om_tool_calls (ls_message r) of
            None \<Rightarrow> None
          | Some tcs \<Rightarrow> if tcs = [] then None else Some (convert_tool_calls jt uuid tcs))
      in \<lparr>cp_content = om_content (ls_message r), cp_prompt_tokens = unwrap_or (ls_prompt_eval_count r) 0,
          cp_completion_tokens = unwrap_or (ls_eval_count r) 0, cp_model = ls_model r, cp_provider = ''ollama'',
          cp_tool_calls = tool_calls,
          cp_finish_reason = (if tool_calls \<noteq> None then ''tool_calls'' else ''stop'')\<rparr>)"

definition ollama_complete ::
  "(ollama_request, ollama_response) http_client \<Rightarrow> json_text \<Rightarrow> (nat \<Rightarrow> string) \<Rightarrow> ollama_provider
   \<Rightarrow> completion_request \<Rightarrow> (provider_error, completion_response) result" where
  "ollama_complete client jt uuid p req =
     send_json client (ollama_call_for p (ollama_body jt req False)) (ollama_answer jt uuid)"

definition ollama_stream ::
  "(ollama_request, 'r) http_client \<Rightarrow> json_text \<Rightarrow> (string \<Rightarrow> (string, ollama_stream_response) result)
   \<Rightarrow> ollama_provider \<Rightarrow> completion_request \<Rightarrow> (provider_error, chunk_item list) result" where
  "ollama_stream client jt decode p req =
     send_stream client (ollama_call_for p (ollama_body jt req True)) (ollama_line decode)"

section \<open>The mock provider (\<open>mock.rs\<close>)\<close>

record mock_provider =
  mk_name :: string
  mk_latency_ms :: u64
  mk_latency_variance_ms :: u64
  mk_num_chunks :: nat
  mk_pricing :: pricing_calculator

definition mock_new :: "string \<Rightarrow> u64 \<Rightarrow> u64 \<Rightarrow> nat \<Rightarrow> (string \<times> model_pricing) list \<Rightarrow> mock_provider" where
  "mock_new name latency_ms latency_variance_ms num_chunks models =
     \<lparr>mk_name = name, mk_latency_ms = latency_ms, mk_latency_variance_ms = latency_variance_ms,
      mk_num_chunks = (if num_chunks = 0 then 20 else num_chunks), mk_pricing = add_models models\<rparr>"

definition mock_instant :: "(string \<times> model_pricing) list \<Rightarrow> mock_provider" where
  "mock_instant models = mock_new ''mock'' 0 0 20 models"

definition mock_realistic :: "(string \<times> model_pricing) list \<Rightarrow> mock_provider" where
  "mock_realistic models = mock_new ''mock'' 200 0 20 models"

text \<open>What the generator draws: a variance of at most \<open>latency_variance_ms\<close> and a coin.\<close>

definition saturating_add :: "u64 \<Rightarrow> u64 \<Rightarrow> u64" where
  "saturating_add a b = (if unat a + unat b < 2 ^ 64 then a + b else - 1)"

definition saturating_sub :: "u64 \<Rightarrow> u64 \<Rightarrow> u64" where
  "saturating_sub a b = (if b \<le> a then a - b else 0)"

definition calculate_latency :: "u64 \<Rightarrow> bool \<Rightarrow> mock_provider \<Rightarrow> u64" where
  "calculate_latency variance coin p =
     (if mk_latency_variance_ms p = 0 then mk_latency_ms p
      else if coin then saturating_add (mk_latency_ms p) variance
      else saturating_sub (mk_latency_ms p) (min variance (mk_latency_ms p)))"

definition mock_prompt_tokens :: "completion_request \<Rightarrow> u64" where
  "mock_prompt_tokens req = of_nat (max (sum_list (map (\<lambda>m. length (pm_content m)) (cq_messages req)) div 4) 1)"

definition mock_completion_tokens :: "completion_request \<Rightarrow> u64" where
  "mock_completion_tokens req =
     (case cq_max_tokens req of
        Some m \<Rightarrow> let least = m div 2 in ucast (least + (m - least) div 2)
      | None \<Rightarrow> 30)"

definition mock_text :: string where
  "mock_text = ''Mock response for benchmarking''"

definition generate_response :: "mock_provider \<Rightarrow> completion_request \<Rightarrow> completion_response" where
  "generate_response p req =
     \<lparr>cp_content = mock_text, cp_prompt_tokens = mock_prompt_tokens req,
      cp_completion_tokens = mock_completion_tokens req, cp_model = cq_model req, cp_provider = mk_name p,
      cp_tool_calls = None, cp_finish_reason = ''stop''\<rparr>"

definition mock_chunk :: "mock_provider \<Rightarrow> completion_request \<Rightarrow> nat \<Rightarrow> provider_chunk" where
  "mock_chunk p req i =
     (let n = mk_num_chunks p; chars_per_chunk = length mock_text div n; is_final = (i = n - 1);
          start = i * chars_per_chunk;
          stop = (if is_final then length mock_text else (i + 1) * chars_per_chunk)
      in \<lparr>pc_content = drop start (take stop mock_text), pc_is_final = is_final,
          pc_prompt_tokens = (if is_final then Some (mock_prompt_tokens req) else None),
          pc_completion_tokens = (if is_final then Some (mock_completion_tokens req) else None)\<rparr>)"

definition mock_stream :: "mock_provider \<Rightarrow> completion_request \<Rightarrow> chunk_item list" where
  "mock_stream p req = map (\<lambda>i. Inr (mock_chunk p req i)) [0..<mk_num_chunks p]"

definition mock_chunk_delay :: "u64 \<Rightarrow> mock_provider \<Rightarrow> nat \<Rightarrow> u64" where
  "mock_chunk_delay latency p i =
     (let delay = (if 0 < latency then latency div of_nat (mk_num_chunks p) else 0)
      in if 0 < delay \<and> 0 < i then delay else 0)"

definition mock_complete :: "u64 \<Rightarrow> bool \<Rightarrow> mock_provider \<Rightarrow> completion_request \<Rightarrow> u64 \<times> completion_response" where
  "mock_complete variance coin p req = (calculate_latency variance coin p, generate_response p req)"

section \<open>Outcomes of an exchange\<close>

lemma send_checked_cases:
  "send_checked client call =
     (case client call of
        Inl e \<Rightarrow> Inl (RequestFailed e)
      | Inr reply \<Rightarrow> if hr_success reply then Inr reply else Inl (ApiError (error_text reply)))"
  by (cases "client call") (simp_all add: send_checked_def)

lemma send_json_cases:
  "send_json client call convert =
     (case client call of
        Inl e \<Rightarrow> Inl (RequestFailed e)
      | Inr reply \<Rightarrow>
          if \<not> hr_success reply then Inl (ApiError (error_text reply))
          else (case hr_json reply of Inl e \<Rightarrow> Inl (InvalidResponse e) | Inr r \<Rightarrow> Inr (convert r)))"
  by (auto simp: send_json_def send_checked_cases split: sum.split)

lemmas complete_defs = openai_complete_def compatible_complete_def anthropic_complete_def ollama_complete_def

text \<open>A completion and a stream of the same request fail in the same way.\<close>

lemma send_stream_errors:
  "send_stream client call h = Inl e \<longleftrightarrow> send_checked client call = Inl e"
  "send_checked client call = Inl e \<Longrightarrow> send_json client call convert = Inl e"
  by (cases "send_checked client call"; simp add: send_stream_def send_json_def)+

text \<open>
  Gemini's \<open>complete\<close> panics exactly when a successful answer of more than 500 bytes does not
  parse and its 500th byte lies inside a character; every other exchange returns, and a parsed
  answer is returned with the text of its first candidate and its token counts, zero where missing.
\<close>

theorem gemini_complete_outcome:
  "(gemini_complete client decode p req = Panics \<longleftrightarrow>
     (\<exists>reply response_text e.
        client (gemini_call p (gemini_api_url p (cq_model req)) (gemini_body req)) = Inr reply
        \<and> hr_success reply \<and> hr_text reply = Inr response_text \<and> decode response_text = Inl e
        \<and> 500 < length response_text \<and> is_cont (byte_at response_text 500)))
   \<and> (gemini_complete client decode p req = Returns (Inr answer) \<longleftrightarrow>
     (\<exists>reply response_text r.
        client (gemini_call p (gemini_api_url p (cq_model req)) (gemini_body req)) = Inr reply
        \<and> hr_success reply \<and> hr_text reply = Inr response_text \<and> decode response_text = Inr r
        \<and> answer = gemini_answer (cq_model req) r))"
  by (auto simp: gemini_complete_def excerpt_def is_char_boundary_def split: sum.splits or_panic.splits if_splits)

section \<open>Gemini's contents\<close>

definition plain_content :: "provider_message \<Rightarrow> gemini_content" where
  "plain_content m = gemini_message (if pm_role m = ''assistant'' then ''model'' else ''user'') (pm_content m)"

lemma contents_no_system:
  "list_all (\<lambda>m. pm_role m \<noteq> ''system'') ms \<Longrightarrow> contents_loop None ms = map plain_content ms"
  by (induction ms) (auto simp: plain_content_def)

fun join_lines :: "string list \<Rightarrow> string" where
  "join_lines [] = []"
| "join_lines [s] = s"
| "join_lines (s # ss) = s @ [CHR 0x0A] @ join_lines ss"

lemma contents_system_prefix:
  "list_all (\<lambda>m. pm_role m = ''system'') sys \<Longrightarrow>
     contents_loop (Some s) (sys @ ms) = contents_loop (Some (join_lines (s # map pm_content sys))) ms"
proof (induction sys arbitrary: s)
  case (Cons m sys)
  have "join_lines ((s @ CHR 0x0A # pm_content m) # map pm_content sys) = join_lines (s # map pm_content (m # sys))"
    by (cases sys) simp_all
  with Cons show ?case by simp
qed simp

text \<open>
  A conversation that opens with system messages, followed by a user message and any others
  that are not system messages, reaches Gemini with the system texts, one per line, and a blank line
  in front of the first user text; all other texts and their order are kept, and assistant messages
  have the role \<open>model\<close>.
\<close>

theorem gemini_system_prompt:
  assumes "sys \<noteq> []" "list_all (\<lambda>m. pm_role m = ''system'') sys" "pm_role first_user = ''user''"
    and "list_all (\<lambda>m. pm_role m \<noteq> ''system'') others"
  shows "messages_to_contents (sys @ first_user # others) =
    gemini_message ''user'' (join_lines (map pm_content sys) @ [CHR 0x0A, CHR 0x0A] @ pm_content first_user)
      # map plain_content others"
proof (cases sys)
  case (Cons m sys')
  with assms contents_system_prefix [of sys' "pm_content m" "first_user # others"] contents_no_system [of others]
  show ?thesis by (simp add: messages_to_contents_def)
qed (use assms in simp)

definition demo_message :: "string \<Rightarrow> string \<Rightarrow> provider_message" where
  "demo_message role s =
     \<lparr>pm_role = role, pm_content = s, pm_tool_calls = None, pm_tool_call_id = None, pm_name = None\<rparr>"

theorem gemini_system_prompt_witness:
  "messages_to_contents [demo_message ''system'' ''be brief'', demo_message ''user'' ''hi'', demo_message ''assistant'' ''yes''] =
     [gemini_message ''user'' (''be brief'' @ [CHR 0x0A, CHR 0x0A] @ ''hi''), gemini_message ''model'' ''yes'']"
  using gemini_system_prompt [of "[demo_message ''system'' ''be brief'']" "demo_message ''user'' ''hi''"
      "[demo_message ''assistant'' ''yes'']"]
  by (simp add: demo_message_def plain_content_def)

text \<open>A system message after the last user message does not reach the model; one between two user
  messages is put in front of the second.\<close>

theorem gemini_late_system_message:
  "pm_role m = ''system'' \<Longrightarrow> messages_to_contents (ms @ [m]) = messages_to_contents ms"
  "messages_to_contents [demo_message ''user'' ''a'', demo_message ''system'' ''s'', demo_message ''user'' ''b''] =
     [gemini_message ''user'' ''a'', gemini_message ''user'' (''s'' @ [CHR 0x0A, CHR 0x0A] @ ''b'')]"
proof -
  have "pm_role m = ''system'' \<Longrightarrow> contents_loop s (ms @ [m]) = contents_loop s ms" for s
    by (induction s ms rule: contents_loop.induct) simp_all
  then show "pm_role m = ''system'' \<Longrightarrow> messages_to_contents (ms @ [m]) = messages_to_contents ms"
    by (simp add: messages_to_contents_def)
qed (simp add: messages_to_contents_def demo_message_def)

section \<open>Tool calls of Ollama\<close>

text \<open>The JSON text of a value can be written and read back.\<close>

definition readable :: "json_text \<Rightarrow> json \<Rightarrow> bool" where
  "readable jt v \<longleftrightarrow> (case jt_to_string jt v of Inr s \<Rightarrow> jt_from_str jt s = Inr v | Inl _ \<Rightarrow> False)"

lemma ollama_call_round_trip:
  "readable jt (oc_arguments tc) \<Longrightarrow>
     to_ollama_call jt (from_ollama_call jt fresh tc) =
       tc\<lparr>oc_id := Some (unwrap_or (oc_id tc) fresh), oc_call_type := Some (unwrap_or (oc_call_type tc) ''function'')\<rparr>"
  by (auto simp: readable_def to_ollama_call_def from_ollama_call_def split: sum.splits)

text \<open>
  Tool calls survive the round trip through the provider: sent back in the conversation, the
  calls of an Ollama answer have the name and arguments they came with, and the identifier and type
  too, or a generated identifier and \<open>function\<close> where the model gave none.  The finish reason says
  whether there are calls.
\<close>

theorem ollama_tool_call_round_trip:
  assumes "om_tool_calls (ls_message r) = Some calls" "calls \<noteq> []" "list_all (\<lambda>tc. readable jt (oc_arguments tc)) calls"
  shows "cp_finish_reason (ollama_answer jt uuid r) = ''tool_calls'' \<and>
    map om_tool_calls (convert_messages jt [m\<lparr>pm_tool_calls := cp_tool_calls (ollama_answer jt uuid r)\<rparr>]) =
      [Some (map (\<lambda>(i, tc). tc\<lparr>oc_id := Some (unwrap_or (oc_id tc) (uuid i)),
                              oc_call_type := Some (unwrap_or (oc_call_type tc) ''function'')\<rparr>) (enumerate 0 calls))]"
proof -
  have "to_ollama_call jt (from_ollama_call jt (uuid i) tc) =
      tc\<lparr>oc_id := Some (unwrap_or (oc_id tc) (uuid i)), oc_call_type := Some (unwrap_or (oc_call_type tc) ''function'')\<rparr>"
    if "(i, tc) \<in> set (enumerate 0 calls)" for i tc
    using that assms(3) by (intro ollama_call_round_trip) (auto simp: list_all_iff in_set_enumerate_eq)
  then show ?thesis
    using assms(1,2) by (auto simp: ollama_answer_def convert_messages_def convert_tool_calls_def)
qed

definition demo_json_text :: json_text where
  "demo_json_text =
     \<lparr>jt_from_str = (\<lambda>s. if s = ''true'' then Inr (JBool True) else Inl ''unexpected''), jt_to_string = (\<lambda>v. Inr ''true'')\<rparr>"

definition demo_ollama_response :: ollama_response where
  "demo_ollama_response =
     \<lparr>ls_model = ''m'',
      ls_message = \<lparr>om_role = ''assistant'', om_content = [],
        om_tool_calls = Some [\<lparr>oc_id = None, oc_call_type = None, oc_name = ''f'', oc_arguments = JBool True\<rparr>],
        om_tool_call_id = None\<rparr>,
      ls_done = True, ls_prompt_eval_count = None, ls_eval_count = None\<rparr>"

theorem ollama_tool_call_round_trip_witness:
  "map om_tool_calls (convert_messages demo_json_text [(demo_message ''assistant'' [])
       \<lparr>pm_tool_calls := cp_tool_calls (ollama_answer demo_json_text (\<lambda>_. ''id'') demo_ollama_response)\<rparr>]) =
     [Some [\<lparr>oc_id = Some ''id'', oc_call_type = Some ''function'', oc_name = ''f'', oc_arguments = JBool True\<rparr>]]"
  using ollama_tool_call_round_trip [of demo_ollama_response
      "[\<lparr>oc_id = None, oc_call_type = None, oc_name = ''f'', oc_arguments = JBool True\<rparr>]" demo_json_text "\<lambda>_. ''id''"
      "demo_message ''assistant'' []"]
  by (simp add: demo_ollama_response_def demo_json_text_def readable_def)

section \<open>The mock provider\<close>

lemma concat_slices:
  "i * k \<le> length s \<Longrightarrow> concat (map (\<lambda>j. drop (j * k) (take ((j + 1) * k) s)) [0..<i]) = take (i * k) s"
proof (induction i)
  case (Suc i)
  then have "i * k \<le> length s" by simp
  with Suc have "concat (map (\<lambda>j. drop (j * k) (take ((j + 1) * k) s)) [0..<Suc i]) =
      take (i * k) s @ drop (i * k) (take (i * k + k) s)"
    by (simp add: add.commute)
  also have "\<dots> = take (i * k + k) s" by (metis append_take_drop_id drop_take min.absorb1 le_add1 take_take)
  also have "i * k + k = Suc i * k" by simp
  finally show ?case .
qed simp

text \<open>
  The mock provider streams what it completes: whatever number of chunks is configured, the
  stream has that many (twenty for zero), their contents put together are the content of the
  completion, and exactly the last one is final and reports the token counts of the completion.
\<close>

theorem mock_stream_completes:
  "let q = mock_new name latency variance chunks models; answer = generate_response q req
   in length (mock_stream q req) = (if chunks = 0 then 20 else chunks)
    \<and> (\<exists>cs c. mock_stream q req = map Inr (cs @ [c])
        \<and> concat (map pc_content (cs @ [c])) = cp_content answer
        \<and> list_all (\<lambda>d. \<not> pc_is_final d \<and> pc_prompt_tokens d = None \<and> pc_completion_tokens d = None) cs
        \<and> pc_is_final c \<and> pc_prompt_tokens c = Some (cp_prompt_tokens answer)
        \<and> pc_completion_tokens c = Some (cp_completion_tokens answer))"
proof -
  define q where "q = mock_new name latency variance chunks models"
  define answer where "answer = generate_response q req"
  define n where "n = mk_num_chunks q"
  define k where "k = length mock_text div n"
  have n: "n = (if chunks = 0 then 20 else chunks)" "0 < n" by (simp_all add: n_def q_def mock_new_def)
  obtain m where m: "n = Suc m" using n(2) gr0_conv_Suc by blast
  let ?cs = "map (mock_chunk q req) [0..<m]" and ?c = "mock_chunk q req m"
  have "n * k \<le> length mock_text" by (simp add: k_def)
  then have mk: "m * k \<le> length mock_text" using m by simp
  have "map pc_content ?cs = map (\<lambda>j. drop (j * k) (take ((j + 1) * k) mock_text)) [0..<m]"
    using m by (auto simp: mock_chunk_def Let_def n_def [symmetric] k_def)
  moreover have "pc_content ?c = drop (m * k) mock_text"
    using m by (simp add: mock_chunk_def Let_def n_def [symmetric] k_def)
  ultimately have "concat (map pc_content (?cs @ [?c])) = mock_text"
    using concat_slices [OF mk] by (simp only: map_append concat_append) simp
  moreover have "mock_stream q req = map Inr (?cs @ [?c])"
    using m by (simp add: mock_stream_def n_def [symmetric])
  moreover have "list_all (\<lambda>d. \<not> pc_is_final d \<and> pc_prompt_tokens d = None \<and> pc_completion_tokens d = None) ?cs"
    using m by (auto simp: list_all_iff mock_chunk_def Let_def n_def [symmetric])
  moreover have "pc_is_final ?c \<and> pc_prompt_tokens ?c = Some (cp_prompt_tokens answer)
      \<and> pc_completion_tokens ?c = Some (cp_completion_tokens answer)"
    using m by (simp add: mock_chunk_def Let_def n_def [symmetric] answer_def generate_response_def)
  moreover have "length (mock_stream q req) = n" by (simp add: mock_stream_def n_def)
  ultimately show ?thesis
    unfolding q_def [symmetric] answer_def [symmetric] Let_def n(1) [symmetric]
    by (intro conjI exI [of _ ?cs] exI [of _ ?c]) (simp_all add: answer_def generate_response_def)
qed

text \<open>The completion tokens lie between half of the limit and the limit, without overflow.\<close>

lemma mock_completion_bounds:
  assumes "cq_max_tokens req = Some m"
  shows "unat (mock_completion_tokens req) = unat m div 2 + (unat m - unat m div 2) div 2"
    "unat m div 2 \<le> unat (mock_completion_tokens req)" "unat (mock_completion_tokens req) \<le> unat m"
proof -
  have d: "unat (m div 2) = unat m div 2" by (simp add: unat_div)
  then have "m div 2 \<le> m" by (simp add: word_le_nat_alt)
  then have s: "unat (m - m div 2) = unat m - unat m div 2" using d by (simp add: unat_sub)
  have m32: "unat m < 2 ^ 32" using unsigned_less [of m] by simp
  then have "unat (m div 2) + unat ((m - m div 2) div 2) < 2 ^ LENGTH(32)"
    using d s by (simp add: unat_div)
  then have "unat (m div 2 + (m - m div 2) div 2) = unat m div 2 + (unat m - unat m div 2) div 2"
    using d s by (subst unat_add_lem [THEN iffD1]) (simp_all add: unat_div)
  moreover have "unat m div 2 + (unat m - unat m div 2) div 2 \<le> unat m" by simp
  then have "unat m div 2 + (unat m - unat m div 2) div 2 < 2 ^ 64" by (rule le_less_trans) (use m32 in simp)
  ultimately show e: "unat (mock_completion_tokens req) = unat m div 2 + (unat m - unat m div 2) div 2"
    using assms by (simp add: mock_completion_tokens_def Let_def unsigned_ucast_eq take_bit_nat_eq_self)
  show "unat m div 2 \<le> unat (mock_completion_tokens req)" "unat (mock_completion_tokens req) \<le> unat m"
    unfolding e by simp_all
qed

text \<open>
  The simulated latency stays within the variance of the configured one, also at the ends of
  the 64-bit range, where it saturates.
\<close>

theorem mock_latency_bounds:
  assumes "variance \<le> mk_latency_variance_ms p"
  shows "unat (calculate_latency variance coin p) \<le> unat (mk_latency_ms p) + unat (mk_latency_variance_ms p)
    \<and> unat (mk_latency_ms p) \<le> unat (calculate_latency variance coin p) + unat (mk_latency_variance_ms p)"
proof -
  let ?l = "mk_latency_ms p" and ?v = "mk_latency_variance_ms p"
  have v: "unat variance \<le> unat ?v" using assms by (simp add: word_le_nat_alt)
  have max: "unat (- 1 :: u64) = 2 ^ 64 - 1" by (simp add: unsigned_minus_1_eq_mask mask_eq_exp_minus_1)
  have "unat ?l < 2 ^ 64" using unsigned_less [of ?l] by simp
  then have add: "unat (saturating_add ?l variance) \<le> unat ?l + unat variance
      \<and> unat ?l \<le> unat (saturating_add ?l variance)"
    unfolding saturating_add_def using max by (simp add: unat_add_lem [THEN iffD1])
  have "min variance ?l \<le> ?l" by simp
  then have "unat (saturating_sub ?l (min variance ?l)) = unat ?l - unat (min variance ?l)"
    by (simp add: saturating_sub_def unat_sub)
  moreover have "unat (min variance ?l) \<le> unat variance" by (simp add: min_def word_le_nat_alt)
  ultimately have "unat (saturating_sub ?l (min variance ?l)) \<le> unat ?l
      \<and> unat ?l \<le> unat (saturating_sub ?l (min variance ?l)) + unat variance" by simp
  with add v show ?thesis unfolding calculate_latency_def by auto
qed

theorem mock_latency_bounds_witness:
  "(5 :: u64) \<le> mk_latency_variance_ms (mock_new ''m'' 3 8 0 [])
     \<and> unat (calculate_latency 5 False (mock_new ''m'' 3 8 0 [])) \<le> 11"
  using mock_latency_bounds [of 5 "mock_new ''m'' 3 8 0 []" False] by (simp add: mock_new_def)

section \<open>Model names\<close>

lemma before_last_dash_append: "before_last_dash s = Some base \<Longrightarrow> \<exists>suffix. s = base @ CHR ''-'' # suffix \<and> CHR ''-'' \<notin> set suffix"
proof -
  assume "before_last_dash s = Some base"
  then obtain c r where r: "dropWhile (\<lambda>c. c \<noteq> CHR ''-'') (rev s) = c # r" "base = rev r"
    by (auto simp: before_last_dash_def split: list.splits)
  then have "c = CHR ''-''" using hd_dropWhile [of "\<lambda>c. c \<noteq> CHR ''-''" "rev s"] by fastforce
  moreover have "rev s = takeWhile (\<lambda>c. c \<noteq> CHR ''-'') (rev s) @ c # r" using r(1) takeWhile_dropWhile_id by metis
  then have "s = rev r @ c # rev (takeWhile (\<lambda>c. c \<noteq> CHR ''-'') (rev s))"
    by (metis append.assoc append_Cons append_Nil rev.simps(2) rev_append rev_rev_ident)
  ultimately show ?thesis using r(2) set_takeWhileD by (metis (mono_tags, lifting) set_rev)
qed

text \<open>Normalising a name twice changes nothing more, and finds a price if the name or its stem has one.\<close>

theorem normalize_model_name_spec:
  "normalize_model_name pricing (normalize_model_name pricing model) = normalize_model_name pricing model"
  "pricing (normalize_model_name pricing model) = None \<longleftrightarrow>
     pricing model = None \<and> (\<forall>base suffix. model = base @ CHR ''-'' # suffix \<and> CHR ''-'' \<notin> set suffix \<longrightarrow> pricing base = None)"
proof -
  show "normalize_model_name pricing (normalize_model_name pricing model) = normalize_model_name pricing model"
    by (auto simp: normalize_model_name_def split: option.splits)
  have "before_last_dash (base @ CHR ''-'' # suffix) = Some base" if "CHR ''-'' \<notin> set suffix" for base suffix
    using that by (simp add: before_last_dash_def) (subst dropWhile_append2, auto)
  then show "pricing (normalize_model_name pricing model) = None \<longleftrightarrow>
      pricing model = None \<and> (\<forall>base suffix. model = base @ CHR ''-'' # suffix \<and> CHR ''-'' \<notin> set suffix \<longrightarrow> pricing base = None)"
    using before_last_dash_append [of model]
    by (cases "before_last_dash model") (fastforce simp: normalize_model_name_def split: if_splits)+
qed

section \<open>The address of a compatible server\<close>

lemma trim_end_matches_slashes: "trim_end_matches c (s @ replicate n c) = trim_end_matches c s"
proof -
  have "dropWhile (\<lambda>x. x = c) (replicate n c @ r) = dropWhile (\<lambda>x. x = c) r" for r by (induction n) simp_all
  then show ?thesis by simp
qed

text \<open>Slashes at the end of the base address do not matter, and the request goes to the completions
  endpoint whether the base has no path, ends in \<open>/v1\<close> or names the endpoint.\<close>

lemma contains_str_append_right: "contains_str pat t \<Longrightarrow> contains_str pat (s @ t)"
  by (induction s) simp_all

lemma contains_str_refl: "contains_str pat pat"
  by (cases pat) simp_all

lemma ends_with_append: "ends_with pat s \<Longrightarrow> \<exists>r. s = r @ pat"
  unfolding ends_with_def by (metis append_take_drop_id rev_append rev_rev_ident)

theorem compatible_url:
  "compatible_new (base @ replicate n (CHR ''/'')) key header fmt models = compatible_new base key header fmt models"
  "contains_str ''/v1/chat/completions'' (compatible_api_url p)"
proof -
  show "compatible_new (base @ replicate n (CHR ''/'')) key header fmt models = compatible_new base key header fmt models"
    by (simp only: compatible_new_def trim_end_matches_slashes)
  have "contains_str ''/v1/chat/completions'' (co_base_url p @ ''/chat/completions'')" if e: "ends_with ''/v1'' (co_base_url p)"
  proof -
    obtain r where "co_base_url p = r @ ''/v1''" using ends_with_append [OF e] by blast
    then have "co_base_url p @ ''/chat/completions'' = r @ ''/v1/chat/completions''" by simp
    then show ?thesis using contains_str_append_right [OF contains_str_refl] by metis
  qed
  then show "contains_str ''/v1/chat/completions'' (compatible_api_url p)"
    using contains_str_append_right [OF contains_str_refl] by (simp add: compatible_api_url_def del: contains_str.simps)
qed

end
