(* ===== verification/Message_Queue.thy ===== *)
theory Message_Queue
  imports Flow_Prelude "HOL-Library.Sublist"
begin

text \<open>
  \<open>defaults/in_memory_queue.rs\<close>: topics are broadcast channels, and every subscription has a task that
  forwards from the broadcast channel into a bounded channel of its own.  Publishers, forwarding
  tasks and consumers interleave freely.  The ring of the broadcast channel holds \<open>cap\<close> messages, at
  least the 1000 asked for (the library rounds up); a task that falls further behind skips what was
  overwritten.  The log of a topic, the start of a subscription and the record of a lag are
  auxiliary: they only serve the statements.
\<close>

section \<open>Messages\<close>

record internal_message =
  im_payload :: string
  im_headers :: "(string \<times> string) list"

record queue_message =
  qm_payload :: string
  qm_headers :: "(string \<times> string) list"
  qm_receipt :: string

definition QUEUE_CAPACITY :: nat where
  "QUEUE_CAPACITY = 1000"

definition to_queue_message :: "string \<Rightarrow> internal_message \<Rightarrow> queue_message" where
  "to_queue_message receipt m = \<lparr>qm_payload = im_payload m, qm_headers = im_headers m, qm_receipt = receipt\<rparr>"

section \<open>State\<close>

record subscription =
  sb_start :: nat
  sb_pos :: nat
  sb_held :: "queue_message option"
  sb_queue :: "queue_message list"
  sb_received :: "queue_message list"
  sb_open :: bool
  sb_running :: bool
  sb_lagged :: bool

record topic_channel =
  tc_log :: "internal_message list"
  tc_subs :: "subscription list"

record queue_state =
  qs_topics :: "string \<rightharpoonup> topic_channel"
  qs_dropped :: bool

definition queue_new :: queue_state where
  "queue_new = \<lparr>qs_topics = Map.empty, qs_dropped = False\<rparr>"

section \<open>Operations\<close>

definition queue_publish :: "string \<Rightarrow> string \<Rightarrow> (string \<times> string) list option \<Rightarrow> queue_state \<Rightarrow> queue_state" where
  "queue_publish topic payload headers q =
     (case qs_topics q topic of
        None \<Rightarrow> q
      | Some ch \<Rightarrow>
          let msg = \<lparr>im_payload = payload, im_headers = unwrap_or headers []\<rparr>
          in q\<lparr>qs_topics := (qs_topics q)(topic \<mapsto> ch\<lparr>tc_log := tc_log ch @ [msg]\<rparr>)\<rparr>)"

definition new_subscription :: "nat \<Rightarrow> subscription" where
  "new_subscription n =
     \<lparr>sb_start = n, sb_pos = n, sb_held = None, sb_queue = [], sb_received = [], sb_open = True, sb_running = True,
      sb_lagged = False\<rparr>"

definition queue_subscribe :: "string \<Rightarrow> queue_state \<Rightarrow> queue_state" where
  "queue_subscribe topic q =
     (let ch = unwrap_or (qs_topics q topic) \<lparr>tc_log = [], tc_subs = []\<rparr>
      in q\<lparr>qs_topics := (qs_topics q)(topic \<mapsto> ch\<lparr>tc_subs := tc_subs ch @ [new_subscription (length (tc_log ch))]\<rparr>)\<rparr>)"

definition queue_ack :: "string \<Rightarrow> queue_state \<Rightarrow> queue_state" where
  "queue_ack receipt q = q"

text \<open>One turn of the forwarding task: \<open>broadcast_rx.recv()\<close>, then \<open>mpsc_tx.send\<close>, which waits while the
  channel is full and fails once the consumer has dropped its end.  \<open>None\<close>: the task waits.\<close>

definition bridge_turn :: "nat \<Rightarrow> bool \<Rightarrow> internal_message list \<Rightarrow> string \<Rightarrow> subscription \<Rightarrow> subscription option" where
  "bridge_turn cap closed msgs fresh s =
     (if \<not> sb_running s then None
      else case sb_held s of
             Some m \<Rightarrow>
               if \<not> sb_open s then Some (s\<lparr>sb_running := False\<rparr>)
               else if length (sb_queue s) < QUEUE_CAPACITY
               then Some (s\<lparr>sb_held := None, sb_queue := sb_queue s @ [m]\<rparr>)
               else None
           | None \<Rightarrow>
               if sb_pos s = length msgs
               then (if closed then Some (s\<lparr>sb_running := False\<rparr>) else None)
               else if cap < length msgs - sb_pos s
               then Some (s\<lparr>sb_pos := length msgs - cap, sb_lagged := True\<rparr>)
               else Some (s\<lparr>sb_held := Some (to_queue_message fresh (msgs ! sb_pos s)), sb_pos := Suc (sb_pos s)\<rparr>))"

definition consumer_recv :: "subscription \<Rightarrow> subscription option" where
  "consumer_recv s =
     (case sb_queue s of
        [] \<Rightarrow> None
      | m # ms \<Rightarrow> if sb_open s then Some (s\<lparr>sb_queue := ms, sb_received := sb_received s @ [m]\<rparr>) else None)"

definition consumer_drop :: "subscription \<Rightarrow> subscription" where
  "consumer_drop s = s\<lparr>sb_open := False\<rparr>"

definition set_sub :: "string \<Rightarrow> nat \<Rightarrow> subscription \<Rightarrow> topic_channel \<Rightarrow> queue_state \<Rightarrow> queue_state" where
  "set_sub topic i s ch q = q\<lparr>qs_topics := (qs_topics q)(topic \<mapsto> ch\<lparr>tc_subs := (tc_subs ch)[i := s]\<rparr>)\<rparr>"

section \<open>Interleavings\<close>

inductive queue_step :: "nat \<Rightarrow> queue_state \<Rightarrow> queue_state \<Rightarrow> bool" for cap where
  publish: "\<not> qs_dropped q \<Longrightarrow> queue_step cap q (queue_publish topic payload headers q)"
| subscribe: "\<not> qs_dropped q \<Longrightarrow> queue_step cap q (queue_subscribe topic q)"
| ack: "queue_step cap q (queue_ack receipt q)"
| bridge: "qs_topics q topic = Some ch \<Longrightarrow> i < length (tc_subs ch) \<Longrightarrow>
    bridge_turn cap (qs_dropped q) (tc_log ch) fresh (tc_subs ch ! i) = Some s \<Longrightarrow>
    queue_step cap q (set_sub topic i s ch q)"
| recv: "qs_topics q topic = Some ch \<Longrightarrow> i < length (tc_subs ch) \<Longrightarrow> consumer_recv (tc_subs ch ! i) = Some s \<Longrightarrow>
    queue_step cap q (set_sub topic i s ch q)"
| close: "qs_topics q topic = Some ch \<Longrightarrow> i < length (tc_subs ch) \<Longrightarrow>
    queue_step cap q (set_sub topic i (consumer_drop (tc_subs ch ! i)) ch q)"
| drop_queue: "queue_step cap q (q\<lparr>qs_dropped := True\<rparr>)"

definition queue_reachable :: "nat \<Rightarrow> queue_state \<Rightarrow> bool" where
  "queue_reachable cap q \<longleftrightarrow> (queue_step cap)\<^sup>*\<^sup>* queue_new q"

section \<open>What a subscription holds\<close>

definition message_body :: "queue_message \<Rightarrow> internal_message" where
  "message_body m = \<lparr>im_payload = qm_payload m, im_headers = qm_headers m\<rparr>"

lemma message_body_of [simp]: "message_body (to_queue_message r m) = m"
  by (simp add: message_body_def to_queue_message_def)

definition taken :: "subscription \<Rightarrow> internal_message list" where
  "taken s = map message_body (sb_received s @ sb_queue s @ (case sb_held s of None \<Rightarrow> [] | Some m \<Rightarrow> [m]))"

definition passed :: "internal_message list \<Rightarrow> subscription \<Rightarrow> internal_message list" where
  "passed msgs s = take (sb_pos s - sb_start s) (drop (sb_start s) msgs)"

definition sub_ok :: "internal_message list \<Rightarrow> subscription \<Rightarrow> bool" where
  "sub_ok msgs s \<longleftrightarrow>
     sb_start s \<le> sb_pos s \<and> sb_pos s \<le> length msgs \<and> length (sb_queue s) \<le> QUEUE_CAPACITY
     \<and> subseq (taken s) (passed msgs s) \<and> (\<not> sb_lagged s \<longrightarrow> taken s = passed msgs s)"

lemma sub_ok_new: "sub_ok msgs (new_subscription (length msgs))"
  by (simp add: sub_ok_def new_subscription_def taken_def passed_def QUEUE_CAPACITY_def)

lemma passed_append: "sb_pos s \<le> length msgs \<Longrightarrow> sb_start s \<le> sb_pos s \<Longrightarrow> passed (msgs @ [m]) s = passed msgs s"
  by (simp add: passed_def)

lemma sub_ok_publish: "sub_ok msgs s \<Longrightarrow> sub_ok (msgs @ [m]) s"
  by (auto simp: sub_ok_def passed_append)

lemma passed_Suc:
  assumes "sb_start s \<le> sb_pos s" "sb_pos s < length msgs"
  shows "take (Suc (sb_pos s) - sb_start s) (drop (sb_start s) msgs) = passed msgs s @ [msgs ! sb_pos s]"
  using assms by (simp add: passed_def Suc_diff_le take_Suc_conv_app_nth)

lemma take_mono_subseq: "m \<le> n \<Longrightarrow> subseq (take m xs) (take n xs)"
  by (metis min.absorb1 prefix_imp_subseq take_is_prefix take_take)

lemma sub_ok_bridge:
  assumes "sub_ok msgs s" "bridge_turn cap closed msgs fresh s = Some s'"
  shows "sub_ok msgs s'"
proof (cases "sb_held s")
  case (Some m)
  with assms show ?thesis
    by (auto simp: bridge_turn_def sub_ok_def taken_def passed_def split: if_splits)
next
  case None
  note ok = assms(1) [unfolded sub_ok_def]
  consider "s' = s\<lparr>sb_running := False\<rparr>"
    | "cap < length msgs - sb_pos s" "s' = s\<lparr>sb_pos := length msgs - cap, sb_lagged := True\<rparr>"
    | "sb_pos s < length msgs" "s' = s\<lparr>sb_held := Some (to_queue_message fresh (msgs ! sb_pos s)), sb_pos := Suc (sb_pos s)\<rparr>"
    using assms(2) None ok by (auto simp: bridge_turn_def split: if_splits)
  then show ?thesis
  proof cases
    case 1
    with assms(1) show ?thesis by (simp add: sub_ok_def taken_def passed_def)
  next
    case 2
    have "subseq (passed msgs s) (take (length msgs - cap - sb_start s) (drop (sb_start s) msgs))"
      unfolding passed_def by (rule take_mono_subseq) (use 2(1) in simp)
    then have "subseq (taken s) (take (length msgs - cap - sb_start s) (drop (sb_start s) msgs))"
      using ok subseq_order.trans by blast
    moreover have "sb_start s \<le> length msgs - cap" using 2(1) ok by linarith
    ultimately show ?thesis using 2 ok by (simp add: sub_ok_def taken_def passed_def)
  next
    case 3
    have "taken s' = taken s @ [msgs ! sb_pos s]" using 3(2) None by (simp add: taken_def)
    moreover have "passed msgs s' = passed msgs s @ [msgs ! sb_pos s]"
      using passed_Suc [of s msgs] ok 3 by (simp add: passed_def)
    ultimately show ?thesis using ok 3 by (auto simp: sub_ok_def)
  qed
qed

lemma sub_ok_recv: "sub_ok msgs s \<Longrightarrow> consumer_recv s = Some s' \<Longrightarrow> sub_ok msgs s'"
  by (auto simp: consumer_recv_def sub_ok_def taken_def passed_def split: list.splits if_splits)

lemma sub_ok_drop: "sub_ok msgs s \<Longrightarrow> sub_ok msgs (consumer_drop s)"
  by (simp add: consumer_drop_def sub_ok_def taken_def passed_def)

definition queue_ok :: "queue_state \<Rightarrow> bool" where
  "queue_ok q \<longleftrightarrow> (\<forall>topic ch. qs_topics q topic = Some ch \<longrightarrow> list_all (sub_ok (tc_log ch)) (tc_subs ch))"

lemma queue_ok_set_sub:
  assumes "queue_ok q" "qs_topics q topic = Some ch" "sub_ok (tc_log ch) s"
  shows "queue_ok (set_sub topic i s ch q)"
proof -
  have "list_all (sub_ok (tc_log ch)) ((tc_subs ch)[i := s])"
    using assms by (auto simp: queue_ok_def list_all_iff dest: set_update_subset_insert [THEN subsetD])
  with assms(1) show ?thesis by (auto simp: queue_ok_def set_sub_def)
qed

lemma queue_ok_nth:
  "queue_ok q \<Longrightarrow> qs_topics q topic = Some ch \<Longrightarrow> i < length (tc_subs ch) \<Longrightarrow> sub_ok (tc_log ch) (tc_subs ch ! i)"
  by (simp add: queue_ok_def list_all_length)

lemma queue_ok_step: "queue_step cap q q' \<Longrightarrow> queue_ok q \<Longrightarrow> queue_ok q'"
proof (induction rule: queue_step.induct)
  case (publish q topic payload headers)
  then show ?case by (auto simp: queue_publish_def queue_ok_def list_all_iff Let_def intro: sub_ok_publish split: option.splits)
next
  case (subscribe q topic)
  then show ?case
    using sub_ok_new [of "[]"]
    by (cases "qs_topics q topic") (auto simp: queue_subscribe_def queue_ok_def Let_def sub_ok_new)
next
  case (bridge q topic ch i fresh s)
  then show ?case by (meson queue_ok_set_sub queue_ok_nth sub_ok_bridge)
next
  case (recv q topic ch i s)
  then show ?case by (meson queue_ok_set_sub queue_ok_nth sub_ok_recv)
next
  case (close q topic ch i)
  then show ?case by (meson queue_ok_set_sub queue_ok_nth sub_ok_drop)
qed (simp_all add: queue_ack_def queue_ok_def)

lemma queue_ok_reachable: "queue_reachable cap q \<Longrightarrow> queue_ok q"
  unfolding queue_reachable_def
  by (induction rule: rtranclp_induct) (simp_all add: queue_ok_step, simp add: queue_ok_def queue_new_def)

text \<open>
  (C26) Delivery of the in-memory queue. However publishers, forwarding tasks and consumers
  interleave, what a subscriber has received is in order and without duplicates what was published
  on its topic after it subscribed, with gaps only where its task fell behind by more than the ring
  holds; otherwise it is a prefix.
\<close>

theorem queue_delivery:
  assumes "queue_reachable cap q" "qs_topics q topic = Some ch" "s \<in> set (tc_subs ch)"
  shows "subseq (map message_body (sb_received s)) (drop (sb_start s) (tc_log ch))
    \<and> (\<not> sb_lagged s \<longrightarrow> prefix (map message_body (sb_received s)) (drop (sb_start s) (tc_log ch)))"
proof -
  have ok: "sub_ok (tc_log ch) s" using queue_ok_reachable [OF assms(1)] assms(2,3) by (auto simp: queue_ok_def list_all_iff)
  have p: "prefix (map message_body (sb_received s)) (taken s)" by (simp add: taken_def)
  have t: "prefix (passed (tc_log ch) s) (drop (sb_start s) (tc_log ch))" by (simp add: passed_def take_is_prefix)
  show ?thesis
    using ok p t prefix_order.trans subseq_order.trans prefix_imp_subseq unfolding sub_ok_def by metis
qed

text \<open>A lag needs a backlog of more than the ring: as long as what a subscription has taken is within
  the capacity of the ring of what was published, nothing is lost.\<close>

lemma no_lag_within_capacity:
  assumes "sub_ok msgs s" "\<not> sb_lagged s" "length msgs \<le> sb_start s + length (taken s) + cap"
    and "bridge_turn cap closed msgs fresh s = Some s'"
  shows "\<not> sb_lagged s'"
proof -
  have "length (taken s) = sb_pos s - sb_start s" using assms(1,2) by (auto simp: sub_ok_def passed_def min_def)
  then have "length msgs - sb_pos s \<le> cap" using assms(1,3) by (simp add: sub_ok_def)
  with assms(2,4) show ?thesis by (auto simp: bridge_turn_def split: if_splits option.splits)
qed

text \<open>A message published on a topic nobody has subscribed to is dropped, also for later subscribers.\<close>

lemma publish_without_topic:
  "qs_topics q topic = None \<Longrightarrow> queue_subscribe topic (queue_publish topic payload headers q) = queue_subscribe topic q"
  by (simp add: queue_publish_def)

definition demo_queue :: queue_state where
  "demo_queue = queue_publish ''t'' ''m'' None (queue_subscribe ''t'' queue_new)"

definition demo_sub :: subscription where
  "demo_sub = (new_subscription 0)\<lparr>sb_pos := 1, sb_received := [\<lparr>qm_payload = ''m'', qm_headers = [], qm_receipt = ''r''\<rparr>]\<rparr>"

definition demo_channel :: topic_channel where
  "demo_channel = \<lparr>tc_log = [\<lparr>im_payload = ''m'', im_headers = []\<rparr>], tc_subs = [demo_sub]\<rparr>"

lemma demo_queue_reachable: "queue_reachable 1024 (demo_queue\<lparr>qs_topics := [''t'' \<mapsto> demo_channel]\<rparr>)"
proof -
  let ?m = "\<lparr>qm_payload = ''m'', qm_headers = [], qm_receipt = ''r''\<rparr>"
  let ?ch = "\<lambda>s. \<lparr>tc_log = [\<lparr>im_payload = ''m'', im_headers = []\<rparr>], tc_subs = [s]\<rparr>"
  let ?q = "\<lambda>s. \<lparr>qs_topics = [''t'' \<mapsto> ?ch s], qs_dropped = False\<rparr>"
  let ?s0 = "new_subscription 0" and ?s1 = "(new_subscription 0)\<lparr>sb_pos := 1, sb_held := Some ?m\<rparr>"
  let ?s2 = "(new_subscription 0)\<lparr>sb_pos := 1, sb_queue := [?m]\<rparr>"
  have q0: "demo_queue = ?q ?s0"
    by (simp add: demo_queue_def queue_publish_def queue_subscribe_def queue_new_def)
  have "queue_step 1024 queue_new (queue_subscribe ''t'' queue_new)" by (rule queue_step.subscribe) (simp add: queue_new_def)
  moreover have "queue_step 1024 (queue_subscribe ''t'' queue_new) demo_queue" unfolding demo_queue_def
    by (rule queue_step.publish) (simp add: queue_subscribe_def queue_new_def Let_def)
  moreover have "queue_step 1024 (?q ?s0) (set_sub ''t'' 0 ?s1 (?ch ?s0) (?q ?s0))"
    by (rule queue_step.bridge [where fresh = "''r''"])
      (simp_all add: bridge_turn_def new_subscription_def to_queue_message_def)
  moreover have "queue_step 1024 (?q ?s1) (set_sub ''t'' 0 ?s2 (?ch ?s1) (?q ?s1))"
    by (rule queue_step.bridge [where fresh = "''r''"])
      (simp_all add: bridge_turn_def new_subscription_def QUEUE_CAPACITY_def)
  moreover have "queue_step 1024 (?q ?s2) (set_sub ''t'' 0 demo_sub (?ch ?s2) (?q ?s2))"
    by (rule queue_step.recv) (simp_all add: consumer_recv_def new_subscription_def demo_sub_def)
  ultimately show ?thesis
    unfolding queue_reachable_def q0 demo_channel_def
    by (simp add: set_sub_def)
qed

theorem queue_delivery_witness:
  "prefix (map message_body (sb_received demo_sub)) (tc_log demo_channel) \<and> sb_received demo_sub \<noteq> []"
  using queue_delivery [OF demo_queue_reachable, of "''t''" demo_channel demo_sub]
  by (simp add: demo_channel_def demo_sub_def new_subscription_def)

end
