(* ===== verification/Node_Plugins.thy ===== *)
theory Node_Plugins
  imports Engine Rust_Text
begin

text \<open>
  \<open>dylib.rs\<close>: nodes in shared libraries.  The code of a plugin is a parameter: what it does in a run is
  a sequence of calls to the engine's callbacks, each depending on the answers before, and a string
  it returns or a panic.  The trampolines behind the callbacks, the conversion of results, the loader
  and the scan of a directory are modelled.  A C string is the list of its bytes before the NUL; what
  a library returns also has an address, so that the calls of \<open>node_free\<close> can be counted.  A plugin
  runs on a thread of its own, which goes on after the node's timeout; what it does there is part of
  the model, with the fate of each message left to the scheduler.  The plugin
  of the crate \<open>test-echo-node\<close> is an example from the repository.
\<close>

section \<open>C strings and errors\<close>

datatype c_ptr = CNull | CStr nat string

fun nul_position :: "string \<Rightarrow> nat option" where
  "nul_position [] = None"
| "nul_position (c # s) = (if c = CHR 0x00 then Some 0 else map_option Suc (nul_position s))"

text \<open>\<open>CString::new\<close>.\<close>

definition c_string :: "string \<Rightarrow> (string, string) result" where
  "c_string s =
     (case nul_position s of
        None \<Rightarrow> Inr s
      | Some i \<Rightarrow> Inl (''nul byte found in provided data at position: '' @ show_nat i))"

datatype dylib_error =
    LoadFailed string string
  | SymbolNotFound string string
  | InvalidUtf8
  | NullPointer string
  | MetaParseFailed string
  | DylibPanic string string
  | ManifestError string string
  | DylibIo string

fun dylib_error_to_string :: "dylib_error \<Rightarrow> string" where
  "dylib_error_to_string (LoadFailed path source) = ''failed to load library at '' @ path @ '': '' @ source"
| "dylib_error_to_string (SymbolNotFound path symbol) =
     ''required symbol '' @ [CHR 0x27] @ symbol @ [CHR 0x27] @ '' not found in '' @ path"
| "dylib_error_to_string InvalidUtf8 = ''invalid UTF-8 in string returned by dylib''"
| "dylib_error_to_string (NullPointer function) = ''dylib returned null pointer from '' @ function"
| "dylib_error_to_string (MetaParseFailed source) = ''failed to parse node_meta JSON: '' @ source"
| "dylib_error_to_string (DylibPanic function e) = ''dylib panicked during '' @ function @ '': '' @ e"
| "dylib_error_to_string (ManifestError path e) = ''manifest error in '' @ path @ '': '' @ e"
| "dylib_error_to_string (DylibIo e) = ''IO error: '' @ e"

text \<open>\<open>serde_json\<close> at the types the engine reads and writes.\<close>

record plugin_json =
  pj_from_str :: "string \<Rightarrow> (string, json) result"
  pj_to_string :: "json \<Rightarrow> (string, string) result"
  pj_llm_request :: "string \<Rightarrow> (string, llm_request) result"
  pj_llm_response :: "string \<Rightarrow> (string, llm_response) result"
  pj_node_meta :: "string \<Rightarrow> (string, node_meta) result"
  pj_manifest :: "string \<Rightarrow> (string, string) result"

section \<open>The trampolines\<close>

definition emit_trampoline ::
  "plugin_json \<Rightarrow> 's node_ctx \<Rightarrow> string \<Rightarrow> string \<Rightarrow> ('s node_world, int) node_io" where
  "emit_trampoline pj ctx name data w =
     (if \<not> utf8_valid name \<or> \<not> utf8_valid data then (NOk (- 1), w)
      else case pj_from_str pj data of
             Inl _ \<Rightarrow> (NOk (- 1), w)
           | Inr v \<Rightarrow> (NOk 0, emit name v w))"

text \<open>The status of an operation of the context; a blocked one keeps the calling thread waiting.\<close>

fun status_of :: "'a node_res \<Rightarrow> int node_res" where
  "status_of (NOk _) = NOk 0"
| "status_of (NErr _) = NOk (- 1)"
| "status_of NBlocked = NBlocked"

definition record_llm_call_trampoline ::
  "plugin_json \<Rightarrow> 's node_ctx \<Rightarrow> datetime \<Rightarrow> string \<Rightarrow> string \<Rightarrow> ('s node_world, int) node_io" where
  "record_llm_call_trampoline pj ctx now request_json response_json w =
     (if \<not> utf8_valid request_json \<or> \<not> utf8_valid response_json then (NOk (- 1), w)
      else case pj_llm_request pj request_json of
             Inl _ \<Rightarrow> (NOk (- 1), w)
           | Inr request \<Rightarrow>
               (case pj_llm_response pj response_json of
                  Inl _ \<Rightarrow> (NOk (- 1), w)
                | Inr response \<Rightarrow>
                    (case ctx_record_llm_call ctx now request response w of (res, w1) \<Rightarrow> (status_of res, w1))))"

definition null_on_error :: "(string, string) result \<Rightarrow> string option" where
  "null_on_error r = (case r of Inl _ \<Rightarrow> None | Inr s \<Rightarrow> Some s)"

definition secret_get_trampoline ::
  "'s node_ctx \<Rightarrow> string \<Rightarrow> ('s node_world, string option) node_io" where
  "secret_get_trampoline ctx key w =
     (if \<not> utf8_valid key then (NOk None, w)
      else case ctx_secret ctx key w of
             (NOk v, w1) \<Rightarrow> (NOk (null_on_error (c_string v)), w1)
           | (NErr _, w1) \<Rightarrow> (NOk None, w1)
           | (NBlocked, w1) \<Rightarrow> (NBlocked, w1))"

definition state_get_trampoline ::
  "plugin_json \<Rightarrow> 's node_ctx \<Rightarrow> string \<Rightarrow> ('s node_world, string option) node_io" where
  "state_get_trampoline pj ctx key w =
     (if \<not> utf8_valid key then (NOk None, w)
      else case ctx_state_get ctx key w of
             (NOk (Some v), w1) \<Rightarrow> (NOk (null_on_error (and_then (pj_to_string pj v) c_string)), w1)
           | (NOk None, w1) \<Rightarrow> (NOk None, w1)
           | (NErr _, w1) \<Rightarrow> (NOk None, w1)
           | (NBlocked, w1) \<Rightarrow> (NBlocked, w1))"

definition state_set_trampoline ::
  "plugin_json \<Rightarrow> 's node_ctx \<Rightarrow> string \<Rightarrow> string \<Rightarrow> ('s node_world, int) node_io" where
  "state_set_trampoline pj ctx key value_json w =
     (if \<not> utf8_valid key \<or> \<not> utf8_valid value_json then (NOk (- 1), w)
      else case pj_from_str pj value_json of
             Inl _ \<Rightarrow> (NOk (- 1), w)
           | Inr v \<Rightarrow> (case ctx_state_set ctx key v w of (res, w1) \<Rightarrow> (status_of res, w1)))"

section \<open>Plugins\<close>

datatype plugin =
    PlReturn c_ptr
  | PlPanic string
  | PlEmit string string "int \<Rightarrow> plugin"
  | PlRecord string string "int \<Rightarrow> plugin"
  | PlSecretGet string "string option \<Rightarrow> plugin"
  | PlStateGet string "string option \<Rightarrow> plugin"
  | PlStateSet string string "int \<Rightarrow> plugin"

text \<open>A run of the plugin's code: a panic that \<open>catch_unwind\<close> stops, or the pointer it returns.  \<open>clock n\<close>
  is the time of the \<open>n\<close>-th record.\<close>

primrec plugin_exec ::
  "plugin_json \<Rightarrow> 's node_ctx \<Rightarrow> (nat \<Rightarrow> datetime) \<Rightarrow> plugin \<Rightarrow> nat \<Rightarrow> ('s node_world, (string, c_ptr) result) node_io" where
  "plugin_exec pj ctx clock (PlReturn ptr) n = nret (Inr ptr)"
| "plugin_exec pj ctx clock (PlPanic e) n = nret (Inl e)"
| "plugin_exec pj ctx clock (PlEmit name data k) n =
     nbind (emit_trampoline pj ctx name data) (\<lambda>c. plugin_exec pj ctx clock (k c) n)"
| "plugin_exec pj ctx clock (PlRecord request response k) n =
     nbind (record_llm_call_trampoline pj ctx (clock n) request response) (\<lambda>c. plugin_exec pj ctx clock (k c) (Suc n))"
| "plugin_exec pj ctx clock (PlSecretGet key k) n =
     nbind (secret_get_trampoline ctx key) (\<lambda>s. plugin_exec pj ctx clock (k s) n)"
| "plugin_exec pj ctx clock (PlStateGet key k) n =
     nbind (state_get_trampoline pj ctx key) (\<lambda>s. plugin_exec pj ctx clock (k s) n)"
| "plugin_exec pj ctx clock (PlStateSet key v k) n =
     nbind (state_set_trampoline pj ctx key v) (\<lambda>c. plugin_exec pj ctx clock (k c) n)"

section \<open>The handler\<close>

record dylib_handler =
  dh_meta :: node_meta
  dh_path :: string
  dh_run :: "string \<Rightarrow> string \<Rightarrow> plugin"
  dh_validate :: "(string \<Rightarrow> (string, c_ptr) result) option"

text \<open>An answer that says it is an error becomes one.  The second component lists the addresses that
  \<open>node_free\<close> is called for.\<close>

definition result_of_value :: "json \<Rightarrow> (node_error, json) result" where
  "result_of_value v =
     (if get_str v ''type'' = Some ''error''
      then let msg = unwrap_or (get_str v ''message'') ''unknown dylib error''
           in if unwrap_or (Option.bind (jget v ''retryable'') as_bool) False then Inl (Retryable msg)
              else Inl (Fatal msg)
      else Inr v)"

fun parse_run_result :: "plugin_json \<Rightarrow> c_ptr \<Rightarrow> (node_error, json) result \<times> nat list" where
  "parse_run_result pj CNull = (Inl (Fatal ''dylib node_run returned null''), [])"
| "parse_run_result pj (CStr a s) =
     (if \<not> utf8_valid s then (Inl (Fatal ''dylib returned invalid UTF-8''), [])
      else (and_then (map_err (\<lambda>e. Fatal (''failed to parse dylib result JSON: '' @ e)) (pj_from_str pj s)) result_of_value,
            [a]))"

definition run_argument :: "plugin_json \<Rightarrow> string \<Rightarrow> json \<Rightarrow> (node_error, string) result" where
  "run_argument pj what v =
     and_then (map_err (\<lambda>e. Fatal (''serialize '' @ what @ '': '' @ e)) (pj_to_string pj v))
       (\<lambda>s. map_err (\<lambda>e. Fatal (''CString '' @ what @ '': '' @ e)) (c_string s))"

definition callback_ctx :: "'s node_ctx \<Rightarrow> 's node_ctx" where
  "callback_ctx ctx =
     \<lparr>ctx_run_id = ctx_run_id ctx, ctx_node_instance_id = ctx_node_instance_id ctx, ctx_secrets = ctx_secrets ctx,
      ctx_state = ctx_state ctx, ctx_queue = ctx_queue ctx, ctx_tool_definitions = ctx_tool_definitions ctx,
      ctx_llm_providers = ctx_llm_providers ctx\<rparr>"

definition dylib_run ::
  "plugin_json \<Rightarrow> (nat \<Rightarrow> datetime) \<Rightarrow> dylib_handler \<Rightarrow> json \<Rightarrow> json \<Rightarrow> 's node_ctx \<Rightarrow> ('s node_world, json) node_io" where
  "dylib_run pj clock h inputs config ctx =
     nbind (nlift (run_argument pj ''inputs'' inputs)) (\<lambda>inputs_json.
     nbind (nlift (run_argument pj ''config'' config)) (\<lambda>config_json.
     nbind (plugin_exec pj (callback_ctx ctx) clock (dh_run h inputs_json config_json) 0) (\<lambda>r.
       case r of
         Inl e \<Rightarrow> nlift (Inl (Fatal (''dylib panicked during node_run: '' @ e)))
       | Inr ptr \<Rightarrow> nlift (fst (parse_run_result pj ptr)))))"

text \<open>The executor stops waiting when the node's timeout has passed, but the thread of
  \<open>spawn_blocking\<close> goes on: the executor then drains both channels, which lets a waiting record
  through, and drops the receivers at the end of the attempt.  What the plugin sends after the timeout
  is still counted in the attempt, is accepted and never read, or finds the channel closed; which of
  them is up to the scheduler.  \<open>dylib_run\<close> is what the executor awaits; \<open>dylib_attempt\<close> is the whole
  attempt, in which no other node uses the state store between the timeout and the end of the thread.\<close>

datatype late_send = Counted | Unread | Closed

text \<open>The plugin at the record for which there is no room, if it gets there.\<close>

primrec plugin_pending ::
  "plugin_json \<Rightarrow> 's node_ctx \<Rightarrow> (nat \<Rightarrow> datetime) \<Rightarrow> plugin \<Rightarrow> nat \<Rightarrow> 's node_world \<Rightarrow> (plugin \<times> nat \<times> 's node_world) option" where
  "plugin_pending pj ctx clock (PlReturn ptr) n w = None"
| "plugin_pending pj ctx clock (PlPanic e) n w = None"
| "plugin_pending pj ctx clock (PlEmit name data k) n w =
     (case emit_trampoline pj ctx name data w of
        (NOk c, w1) \<Rightarrow> plugin_pending pj ctx clock (k c) n w1
      | _ \<Rightarrow> None)"
| "plugin_pending pj ctx clock (PlRecord request response k) n w =
     (case record_llm_call_trampoline pj ctx (clock n) request response w of
        (NOk c, w1) \<Rightarrow> plugin_pending pj ctx clock (k c) (Suc n) w1
      | (NBlocked, w1) \<Rightarrow> Some (PlRecord request response k, n, w1)
      | _ \<Rightarrow> None)"
| "plugin_pending pj ctx clock (PlSecretGet key k) n w =
     (case secret_get_trampoline ctx key w of
        (NOk s, w1) \<Rightarrow> plugin_pending pj ctx clock (k s) n w1
      | _ \<Rightarrow> None)"
| "plugin_pending pj ctx clock (PlStateGet key k) n w =
     (case state_get_trampoline pj ctx key w of
        (NOk s, w1) \<Rightarrow> plugin_pending pj ctx clock (k s) n w1
      | _ \<Rightarrow> None)"
| "plugin_pending pj ctx clock (PlStateSet key v k) n w =
     (case state_set_trampoline pj ctx key v w of
        (NOk c, w1) \<Rightarrow> plugin_pending pj ctx clock (k c) n w1
      | _ \<Rightarrow> None)"

text \<open>A callback after the timeout works on channels with room; what it sent joins the attempt if it
  is still counted.\<close>

definition emptied :: "'s node_world \<Rightarrow> 's node_world" where
  "emptied w = w\<lparr>nw_events := [], nw_llm := []\<rparr>"

definition late_world :: "late_send \<Rightarrow> 's node_world \<Rightarrow> 's node_world \<Rightarrow> 's node_world" where
  "late_world f w w1 =
     w1\<lparr>nw_events := nw_events w @ (if f = Counted then nw_events w1 else []),
        nw_llm := nw_llm w @ (if f = Counted then nw_llm w1 else [])\<rparr>"

primrec plugin_detached ::
  "plugin_json \<Rightarrow> 's node_ctx \<Rightarrow> (nat \<Rightarrow> datetime) \<Rightarrow> (nat \<Rightarrow> late_send) \<Rightarrow> plugin \<Rightarrow> nat \<Rightarrow> nat \<Rightarrow> 's node_world \<Rightarrow> 's node_world" where
  "plugin_detached pj ctx clock fate (PlReturn ptr) n m w = w"
| "plugin_detached pj ctx clock fate (PlPanic e) n m w = w"
| "plugin_detached pj ctx clock fate (PlEmit name data k) n m w =
     (case emit_trampoline pj ctx name data (emptied w) of
        (NOk c, w1) \<Rightarrow> plugin_detached pj ctx clock fate (k c) n (Suc m) (late_world (fate m) w w1)
      | _ \<Rightarrow> w)"
| "plugin_detached pj ctx clock fate (PlRecord request response k) n m w =
     (case record_llm_call_trampoline pj ctx (clock n) request response (emptied w) of
        (NOk c, w1) \<Rightarrow>
          plugin_detached pj ctx clock fate (k (if fate m = Closed then - 1 else c)) (Suc n) (Suc m)
            (late_world (fate m) w w1)
      | _ \<Rightarrow> w)"
| "plugin_detached pj ctx clock fate (PlSecretGet key k) n m w =
     (case secret_get_trampoline ctx key w of
        (NOk s, w1) \<Rightarrow> plugin_detached pj ctx clock fate (k s) n m w1
      | _ \<Rightarrow> w)"
| "plugin_detached pj ctx clock fate (PlStateGet key k) n m w =
     (case state_get_trampoline pj ctx key w of
        (NOk s, w1) \<Rightarrow> plugin_detached pj ctx clock fate (k s) n m w1
      | _ \<Rightarrow> w)"
| "plugin_detached pj ctx clock fate (PlStateSet key v k) n m w =
     (case state_set_trampoline pj ctx key v w of
        (NOk c, w1) \<Rightarrow> plugin_detached pj ctx clock fate (k c) n m w1
      | _ \<Rightarrow> w)"

definition dylib_pending ::
  "plugin_json \<Rightarrow> (nat \<Rightarrow> datetime) \<Rightarrow> dylib_handler \<Rightarrow> json \<Rightarrow> json \<Rightarrow> 's node_ctx \<Rightarrow> 's node_world
     \<Rightarrow> (plugin \<times> nat \<times> 's node_world) option" where
  "dylib_pending pj clock h inputs config ctx w =
     (case (run_argument pj ''inputs'' inputs, run_argument pj ''config'' config) of
        (Inr inputs_json, Inr config_json) \<Rightarrow>
          plugin_pending pj (callback_ctx ctx) clock (dh_run h inputs_json config_json) 0 w
      | _ \<Rightarrow> None)"

definition dylib_attempt ::
  "plugin_json \<Rightarrow> (nat \<Rightarrow> datetime) \<Rightarrow> dylib_handler \<Rightarrow> json \<Rightarrow> json \<Rightarrow> 's node_ctx \<Rightarrow> (nat \<Rightarrow> late_send)
     \<Rightarrow> u64 \<Rightarrow> 's \<Rightarrow> attempt \<times> 's" where
  "dylib_attempt pj clock h inputs config ctx fate duration_ms s =
     (case run_attempt (dylib_run pj clock h inputs config ctx) duration_ms s of
        (att, s1) \<Rightarrow>
          (case dylib_pending pj clock h inputs config ctx (fresh_world s) of
             None \<Rightarrow> (att, s1)
           | Some (p, n, w) \<Rightarrow>
               let w1 = plugin_detached pj (callback_ctx ctx) clock fate p n 0 w
               in (att\<lparr>att_llm := nw_llm w1, att_events := nw_events w1\<rparr>, nw_state w1)))"

definition dylib_validate_config ::
  "plugin_json \<Rightarrow> dylib_handler \<Rightarrow> json \<Rightarrow> (string list, unit) result \<times> nat list" where
  "dylib_validate_config pj h config =
     (case dh_validate h of
        None \<Rightarrow> (Inr (), [])
      | Some validate \<Rightarrow>
          (case c_string (case pj_to_string pj config of Inl _ \<Rightarrow> [] | Inr s \<Rightarrow> s) of
             Inl e \<Rightarrow> (Inl [''CString error: '' @ e], [])
           | Inr config_json \<Rightarrow>
               (case validate config_json of
                  Inl e \<Rightarrow> (Inl [''dylib panicked during validate_config: '' @ e], [])
                | Inr CNull \<Rightarrow> (Inr (), [])
                | Inr (CStr a s) \<Rightarrow>
                    (Inl [if utf8_valid s then s else ''invalid UTF-8 in validation error''], [a]))))"

section \<open>Loading\<close>

text \<open>A shared library: its symbols, and what its functions do.\<close>

record plugin_library =
  lb_exports :: "string \<Rightarrow> bool"
  lb_meta :: "(string, c_ptr) result"
  lb_run :: "string \<Rightarrow> string \<Rightarrow> plugin"
  lb_validate :: "string \<Rightarrow> (string, c_ptr) result"

definition load_symbol :: "plugin_library \<Rightarrow> string \<Rightarrow> string \<Rightarrow> (dylib_error, unit) result" where
  "load_symbol lib path name = (if lb_exports lib name then Inr () else Inl (SymbolNotFound path name))"

definition cached_meta :: "plugin_json \<Rightarrow> plugin_library \<Rightarrow> (dylib_error, node_meta) result \<times> nat list" where
  "cached_meta pj lib =
     (case lb_meta lib of
        Inl e \<Rightarrow> (Inl (DylibPanic ''node_meta'' e), [])
      | Inr CNull \<Rightarrow> (Inl (NullPointer ''node_meta''), [])
      | Inr (CStr a s) \<Rightarrow>
          if \<not> utf8_valid s then (Inl InvalidUtf8, []) else (map_err MetaParseFailed (pj_node_meta pj s), [a]))"

definition dylib_load ::
  "plugin_json \<Rightarrow> (string \<Rightarrow> (string, plugin_library) result) \<Rightarrow> string \<Rightarrow> (dylib_error, dylib_handler) result" where
  "dylib_load pj open_library path =
     and_then (map_err (LoadFailed path) (open_library path)) (\<lambda>lib.
     and_then (load_symbol lib path ''node_meta'') (\<lambda>_.
     and_then (load_symbol lib path ''node_run'') (\<lambda>_.
     and_then (load_symbol lib path ''node_free'') (\<lambda>_.
     and_then (fst (cached_meta pj lib)) (\<lambda>meta.
       Inr \<lparr>dh_meta = meta, dh_path = path, dh_run = lb_run lib,
            dh_validate = (if lb_exports lib ''node_validate_config'' then Some (lb_validate lib) else None)\<rparr>)))))"

text \<open>The file system the loader sees; an entry of a directory may fail to be read.\<close>

record plugin_files =
  pf_read_dir :: "string \<Rightarrow> (string, (string, string) result list) result"
  pf_is_dir :: "string \<Rightarrow> bool"
  pf_exists :: "string \<Rightarrow> bool"
  pf_read_to_string :: "string \<Rightarrow> (string, string) result"
  pf_open_library :: "string \<Rightarrow> (string, plugin_library) result"

text \<open>\<open>Path::join\<close> on Unix.\<close>

definition path_join :: "string \<Rightarrow> string \<Rightarrow> string" where
  "path_join base p =
     (if take 1 p = ''/'' then p
      else if base = [] \<or> last base = CHR ''/'' then base @ p else base @ ''/'' @ p)"

definition load_from_manifest :: "plugin_json \<Rightarrow> plugin_files \<Rightarrow> string \<Rightarrow> (dylib_error, dylib_handler) result" where
  "load_from_manifest pj fs dir =
     (let manifest_path = path_join dir ''node.json''
      in and_then (map_err DylibIo (pf_read_to_string fs manifest_path)) (\<lambda>content.
         and_then (map_err (\<lambda>e. ManifestError manifest_path (''invalid JSON: '' @ e)) (pj_manifest pj content)) (\<lambda>lib.
           let library_path = path_join dir lib
           in if \<not> pf_exists fs library_path
              then Inl (ManifestError manifest_path (''library not found: '' @ library_path))
              else dylib_load pj (pf_open_library fs) library_path)))"

fun scan_entries ::
  "plugin_json \<Rightarrow> plugin_files \<Rightarrow> (string, string) result list \<Rightarrow> (dylib_error, dylib_handler list) result" where
  "scan_entries pj fs [] = Inr []"
| "scan_entries pj fs (Inl e # es) = Inl (DylibIo e)"
| "scan_entries pj fs (Inr path # es) =
     (if \<not> pf_is_dir fs path \<or> \<not> pf_exists fs (path_join path ''node.json'') then scan_entries pj fs es
      else case load_from_manifest pj fs path of
             Inl _ \<Rightarrow> scan_entries pj fs es
           | Inr h \<Rightarrow> and_then (scan_entries pj fs es) (\<lambda>hs. Inr (h # hs)))"

definition dylib_scan :: "plugin_json \<Rightarrow> plugin_files \<Rightarrow> string \<Rightarrow> (dylib_error, dylib_handler list) result" where
  "dylib_scan pj fs dir = and_then (map_err DylibIo (pf_read_dir fs dir)) (scan_entries pj fs)"

text \<open>What the builder of the engine sees of a directory.\<close>

definition plugin_scan_of :: "plugin_json \<Rightarrow> plugin_files \<Rightarrow> plugin_scan" where
  "plugin_scan_of pj fs dir =
     (if pf_exists fs dir
      then Some (and_then (map_err dylib_error_to_string (dylib_scan pj fs dir)) (\<lambda>hs. Inr (map dh_meta hs)))
      else None)"

section \<open>Memory\<close>

text \<open>A string that a plugin returns is freed once if it is valid UTF-8 and never otherwise: an error
  return comes before \<open>node_free\<close>.\<close>

theorem returned_strings_freed:
  "snd (parse_run_result pj (CStr a s)) = (if utf8_valid s then [a] else [])"
  "lb_meta lib = Inr (CStr a s) \<Longrightarrow> snd (cached_meta pj lib) = (if utf8_valid s then [a] else [])"
  by (simp_all add: cached_meta_def)

section \<open>Results\<close>

text \<open>The JSON value that a plugin returns for an outcome: the output, or an object of type \<open>error\<close> with
  the message, marked retryable or not.\<close>

fun stands_for :: "json \<Rightarrow> (node_error, json) result \<Rightarrow> bool" where
  "stands_for v (Inr out) \<longleftrightarrow> v = out \<and> get_str v ''type'' \<noteq> Some ''error''"
| "stands_for v (Inl (Retryable m)) \<longleftrightarrow>
     get_str v ''type'' = Some ''error'' \<and> get_str v ''message'' = Some m \<and> jget v ''retryable'' = Some (JBool True)"
| "stands_for v (Inl (Fatal m)) \<longleftrightarrow>
     get_str v ''type'' = Some ''error'' \<and> get_str v ''message'' = Some m \<and> jget v ''retryable'' \<noteq> Some (JBool True)"
| "stands_for v (Inl _) \<longleftrightarrow> False"

lemma stands_for_result: "stands_for v outcome \<Longrightarrow> result_of_value v = outcome"
proof (induction v outcome rule: stands_for.induct)
  case (3 v m)
  then show ?case by (cases "jget v ''retryable''"; cases "the (jget v ''retryable'')") (auto simp: result_of_value_def Let_def)
qed (simp_all add: result_of_value_def)

section \<open>A plugin that uses the callbacks\<close>

text \<open>What a node does with its context, as the calls of a plugin: every value is sent as its JSON
  text.\<close>

record plugin_texts =
  tx_value :: "json \<Rightarrow> string"
  tx_request :: "llm_request \<Rightarrow> string"
  tx_response :: "llm_response \<Rightarrow> string"

fun plugin_of :: "plugin_texts \<Rightarrow> ctx_cmd list \<Rightarrow> plugin \<Rightarrow> plugin" where
  "plugin_of tx [] p = p"
| "plugin_of tx (CmdEvent ev # cs) p = PlEmit (nev_name ev) (tx_value tx (nev_data ev)) (\<lambda>_. plugin_of tx cs p)"
| "plugin_of tx (CmdLlm now request response # cs) p =
     PlRecord (tx_request tx request) (tx_response tx response) (\<lambda>_. plugin_of tx cs p)"

definition c_text :: "string \<Rightarrow> bool" where
  "c_text s \<longleftrightarrow> utf8_valid s \<and> nul_position s = None"

text \<open>The engine reads back what the plugin writes; a plugin cannot mark its events as sensitive.\<close>

fun sendable :: "plugin_json \<Rightarrow> plugin_texts \<Rightarrow> ctx_cmd \<Rightarrow> bool" where
  "sendable pj tx (CmdEvent ev) \<longleftrightarrow>
     nev_sensitivity ev = SensNone \<and> c_text (nev_name ev) \<and> c_text (tx_value tx (nev_data ev))
     \<and> pj_from_str pj (tx_value tx (nev_data ev)) = Inr (nev_data ev)"
| "sendable pj tx (CmdLlm now request response) \<longleftrightarrow>
     c_text (tx_request tx request) \<and> pj_llm_request pj (tx_request tx request) = Inr request
     \<and> c_text (tx_response tx response) \<and> pj_llm_response pj (tx_response tx response) = Inr response"

fun record_times :: "ctx_cmd list \<Rightarrow> datetime list" where
  "record_times [] = []"
| "record_times (CmdEvent ev # cs) = record_times cs"
| "record_times (CmdLlm now request response # cs) = now # record_times cs"

lemma emit_event: "nev_sensitivity ev = SensNone \<Longrightarrow> emit (nev_name ev) (nev_data ev) w = try_send ev w"
  by (cases ev) (simp add: emit_def)

lemma ctx_record_cases:
  "ctx_record_llm_call ctx now request response w = (NOk (), w') \<or>
   ctx_record_llm_call ctx now request response w = (NBlocked, w)"
  if "w' = w\<lparr>nw_llm := nw_llm w @ [llm_record_for ctx now request response]\<rparr>"
  using that by (simp add: ctx_record_llm_call_def)

lemma plugin_of_exec:
  assumes "list_all (sendable pj tx) cs" "\<forall>i < length (record_times cs). clock (n + i) = record_times cs ! i"
  shows "plugin_exec pj ctx clock (plugin_of tx cs p) n w =
    nbind (ctx_cmds ctx cs) (\<lambda>_. plugin_exec pj ctx clock p (n + length (record_times cs))) w"
  using assms
proof (induction cs arbitrary: n w)
  case Nil
  show ?case by (simp add: nbind_def)
next
  case (Cons c cs)
  show ?case
  proof (cases c)
    case (CmdEvent ev)
    with Cons.prems Cons.IH [of n "try_send ev w"] show ?thesis
      by (simp add: nbind_def [of "emit_trampoline _ _ _ _"] emit_trampoline_def c_text_def emit_event)
        (simp add: nbind_def)
  next
    case (CmdLlm now request response)
    have now: "clock n = now" using Cons.prems(2) CmdLlm by (auto dest: spec [of _ 0])
    have later: "\<forall>i < length (record_times cs). clock (Suc n + i) = record_times cs ! i"
      using Cons.prems(2) CmdLlm by (auto dest: spec [of _ "Suc _"])
    let ?w = "w\<lparr>nw_llm := nw_llm w @ [llm_record_for ctx now request response]\<rparr>"
    from Cons.prems(1) CmdLlm Cons.IH [of "Suc n" ?w] later now ctx_record_cases [of ?w w ctx now request response]
    show ?thesis by (auto simp: nbind_def record_llm_call_trampoline_def c_text_def)
  qed
qed

lemma callback_ctx_same [simp]: "callback_ctx ctx = ctx"
  by (simp add: callback_ctx_def)

lemma plugin_of_pending:
  assumes "list_all (sendable pj tx) cs" "\<forall>i < length (record_times cs). clock (n + i) = record_times cs ! i"
    and "length (nw_llm w) + length (record_times cs) \<le> NODE_CHANNEL_CAPACITY"
  shows "\<exists>w1. plugin_pending pj ctx clock (plugin_of tx cs p) n w =
    plugin_pending pj ctx clock p (n + length (record_times cs)) w1"
  using assms
proof (induction cs arbitrary: n w)
  case Nil
  show ?case by auto
next
  case (Cons c cs)
  show ?case
  proof (cases c)
    case (CmdEvent ev)
    with Cons.prems Cons.IH [of n "try_send ev w"] show ?thesis
      by (simp add: emit_trampoline_def c_text_def emit_event)
  next
    case (CmdLlm now request response)
    have later: "\<forall>i < length (record_times cs). clock (Suc n + i) = record_times cs ! i"
      using Cons.prems(2) CmdLlm by (auto dest: spec [of _ "Suc _"])
    let ?w = "w\<lparr>nw_llm := nw_llm w @ [llm_record_for ctx (clock n) request response]\<rparr>"
    from Cons.prems(1,3) CmdLlm Cons.IH [of "Suc n" ?w] later show ?thesis
      by (simp add: record_llm_call_trampoline_def ctx_record_llm_call_def c_text_def)
  qed
qed

lemma record_times_records: "length (record_times cs) = length (cmd_records ctx cs)"
  by (induction cs rule: record_times.induct) simp_all

lemma commands_attempt:
  assumes "length (record_times cs) \<le> NODE_CHANNEL_CAPACITY"
  shows "run_attempt (nbind (ctx_cmds ctx cs) (\<lambda>_. nlift outcome)) d s =
      (\<lparr>att_result = (case outcome of Inr out \<Rightarrow> Returned out | Inl e \<Rightarrow> Raised e), att_duration_ms = d,
         att_llm = cmd_records ctx cs, att_events = take 1000 (cmd_events cs)\<rparr>, s)"
proof -
  have all: "reached 1000 cs = cs"
    using assms by (simp add: reached_all [of _ _ ctx] record_times_records [of _ ctx] NODE_CHANNEL_CAPACITY_def)
  obtain res w1 where run: "ctx_cmds ctx cs (fresh_world s) = (res, w1)" by force
  from ctx_cmds_channels [OF _ _ run, of 1000]
  have "res = NOk ()" "nw_events w1 = take 1000 (cmd_events cs)" "nw_llm w1 = cmd_records ctx cs" "nw_state w1 = s"
    by (simp_all add: all fresh_world_def NODE_CHANNEL_CAPACITY_def)
  then show ?thesis by (simp add: run_attempt_def nbind_def run nlift_def split: sum.split)
qed

lemma commands_block:
  assumes "\<not> length (cmd_records ctx cs) \<le> 1000"
  shows "fst (ctx_cmds ctx cs (fresh_world s)) = NBlocked"
proof -
  obtain res w1 where run: "ctx_cmds ctx cs (fresh_world s) = (res, w1)" by force
  from ctx_cmds_channels [OF _ _ run, of 1000] assms reached_all [of 1000 cs ctx] run show ?thesis
    by (simp add: fresh_world_def NODE_CHANNEL_CAPACITY_def)
qed

text \<open>
  (C39) A node in a shared library whose run is not cut off by its timeout behaves as a native one.
  Take a handler that emits events without a sensitivity and records LLM calls, no more than the
  thousand the channel has room for, and then returns a value or fails; and a plugin whose code makes
  the corresponding callbacks and returns the text of a JSON value that stands for that outcome: the
  output, which is not an object of type error, or such an object with the message of the failure,
  marked retryable or not. Then the attempt of the plugin is the one of
  the handler: the same outcome, the records in their order, the first thousand events, and no effect
  on the state. Callbacks for secrets and state are not covered, and a plugin that is cut off goes on
  where a native handler stops (\<open>timed_out_plugin_goes_on\<close>).
\<close>

theorem plugin_behaves_natively:
  assumes "list_all (sendable pj tx) cs" "\<forall>i < length (record_times cs). clock i = record_times cs ! i"
    and "length (record_times cs) \<le> NODE_CHANNEL_CAPACITY"
    and "run_argument pj ''inputs'' inputs = Inr input_text" "run_argument pj ''config'' config = Inr config_text"
    and "dh_run h input_text config_text = plugin_of tx cs (PlReturn (CStr a text_of_outcome))"
    and "utf8_valid text_of_outcome" "pj_from_str pj text_of_outcome = Inr v" "stands_for v outcome"
  shows "dylib_attempt pj clock h inputs config ctx fate d s =
      run_attempt (nbind (ctx_cmds ctx cs) (\<lambda>_. nlift outcome)) d s
    \<and> dylib_attempt pj clock h inputs config ctx fate d s =
      (\<lparr>att_result = (case outcome of Inr out \<Rightarrow> Returned out | Inl e \<Rightarrow> Raised e), att_duration_ms = d,
         att_llm = cmd_records ctx cs, att_events = take 1000 (cmd_events cs)\<rparr>, s)"
proof -
  have parsed: "fst (parse_run_result pj (CStr a text_of_outcome)) = outcome"
    using assms(7,8) stands_for_result [OF assms(9)] by simp
  then have run: "dylib_run pj clock h inputs config ctx w = nbind (ctx_cmds ctx cs) (\<lambda>_. nlift outcome) w" for w
    using plugin_of_exec [of pj tx cs clock 0, where w = w] assms(1,2,4-6)
    by (auto simp: dylib_run_def nbind_def nret_def nlift_def split: prod.splits node_res.splits sum.splits)
  have attempt: "run_attempt (dylib_run pj clock h inputs config ctx) d s =
      run_attempt (nbind (ctx_cmds ctx cs) (\<lambda>_. nlift outcome)) d s"
    by (simp add: run_attempt_def run)
  have "dylib_pending pj clock h inputs config ctx (fresh_world s) = None"
    using plugin_of_pending [of pj tx cs clock 0 "fresh_world s" ctx "PlReturn (CStr a text_of_outcome)"] assms(1-6)
    by (auto simp: dylib_pending_def fresh_world_def)
  then have same: "dylib_attempt pj clock h inputs config ctx fate d s =
      run_attempt (nbind (ctx_cmds ctx cs) (\<lambda>_. nlift outcome)) d s"
    by (simp add: dylib_attempt_def attempt split: prod.split)
  with commands_attempt [OF assms(3), of ctx outcome d s] show ?thesis by simp
qed

section \<open>A plugin that is cut off\<close>

lemma plugin_of_cut_off:
  assumes "list_all (sendable pj tx) cs" "\<forall>i < length (record_times cs). clock (n + i) = record_times cs ! i"
    and "length (nw_llm w) \<le> NODE_CHANNEL_CAPACITY"
    and "NODE_CHANNEL_CAPACITY < length (nw_llm w) + length (record_times cs)"
  shows "\<exists>rest n1 w1. plugin_pending pj ctx clock (plugin_of tx cs p) n w = Some (plugin_of tx rest p, n1, w1)
    \<and> list_all (sendable pj tx) rest \<and> (\<forall>i < length (record_times rest). clock (n1 + i) = record_times rest ! i)
    \<and> nw_state w1 = nw_state w \<and> nw_llm w1 @ cmd_records ctx rest = nw_llm w @ cmd_records ctx cs"
  using assms
proof (induction cs arbitrary: n w)
  case Nil
  then show ?case by simp
next
  case (Cons c cs)
  show ?case
  proof (cases c)
    case (CmdEvent ev)
    with Cons.prems Cons.IH [of n "try_send ev w"] show ?thesis
      by (simp add: emit_trampoline_def c_text_def emit_event)
  next
    case (CmdLlm now request response)
    have now: "clock n = now" using Cons.prems(2) CmdLlm by (auto dest: spec [of _ 0])
    have later: "\<forall>i < length (record_times cs). clock (Suc n + i) = record_times cs ! i"
      using Cons.prems(2) CmdLlm by (auto dest: spec [of _ "Suc _"])
    let ?w = "w\<lparr>nw_llm := nw_llm w @ [llm_record_for ctx now request response]\<rparr>"
    show ?thesis
    proof (cases "length (nw_llm w) < NODE_CHANNEL_CAPACITY")
      case True
      with Cons.prems(1,4) CmdLlm Cons.IH [of "Suc n" ?w] later now show ?thesis
        by (simp add: record_llm_call_trampoline_def ctx_record_llm_call_def c_text_def)
    next
      case False
      with Cons.prems(1,2) CmdLlm now show ?thesis
        by (intro exI [of _ "c # cs"] exI [of _ n] exI [of _ w])
          (simp add: record_llm_call_trampoline_def ctx_record_llm_call_def c_text_def)
    qed
  qed
qed

lemma plugin_of_detached:
  assumes "list_all (sendable pj tx) cs" "\<forall>i < length (record_times cs). clock (n + i) = record_times cs ! i"
  shows "\<exists>n1 m1 w1. plugin_detached pj ctx clock fate (plugin_of tx cs p) n m w =
      plugin_detached pj ctx clock fate p n1 m1 w1 \<and> nw_state w1 = nw_state w
      \<and> ((\<forall>i. fate i = Counted) \<longrightarrow> nw_llm w1 = nw_llm w @ cmd_records ctx cs)"
  using assms
proof (induction cs arbitrary: n m w)
  case Nil
  show ?case by auto
next
  case (Cons c cs)
  show ?case
  proof (cases c)
    case (CmdEvent ev)
    let ?w = "late_world (fate m) w (try_send ev (emptied w))"
    from Cons.prems CmdEvent Cons.IH [of n "Suc m" ?w] show ?thesis
      by (simp add: emit_trampoline_def c_text_def emit_event late_world_def emptied_def)
  next
    case (CmdLlm now request response)
    have now: "clock n = now" using Cons.prems(2) CmdLlm by (auto dest: spec [of _ 0])
    have later: "\<forall>i < length (record_times cs). clock (Suc n + i) = record_times cs ! i"
      using Cons.prems(2) CmdLlm by (auto dest: spec [of _ "Suc _"])
    let ?w = "late_world (fate m) w ((emptied w)\<lparr>nw_llm := [llm_record_for ctx now request response]\<rparr>)"
    from Cons.prems(1) CmdLlm now Cons.IH [of "Suc n" "Suc m" ?w] later show ?thesis
      by (simp add: record_llm_call_trampoline_def ctx_record_llm_call_def c_text_def late_world_def emptied_def
          NODE_CHANNEL_CAPACITY_def)
  qed
qed

text \<open>
  A plugin that records more than a thousand calls and then sets a key is cut off, as a native handler
  is; but only the native handler stops there. The plugin goes on when the executor drains the
  channel: it sets the key, and if what it sends is still counted the attempt has all its records.
\<close>

theorem timed_out_plugin_goes_on:
  assumes "list_all (sendable pj tx) cs" "\<forall>i < length (record_times cs). clock i = record_times cs ! i"
    and "NODE_CHANNEL_CAPACITY < length (record_times cs)"
    and "run_argument pj ''inputs'' inputs = Inr input_text" "run_argument pj ''config'' config = Inr config_text"
    and "dh_run h input_text config_text = plugin_of tx cs (PlStateSet key set_text (\<lambda>_. PlReturn ptr))"
    and "utf8_valid key" "utf8_valid set_text" "pj_from_str pj set_text = Inr v"
  shows "run_attempt (nbind (ctx_cmds ctx cs) (\<lambda>_. nbind (ctx_state_set ctx key v) (\<lambda>_. nret out))) d s =
      (\<lparr>att_result = Elapsed, att_duration_ms = d, att_llm = take 1000 (cmd_records ctx cs),
         att_events = take 1000 (cmd_events (reached 1000 cs))\<rparr>, s)"
    and "att_result (fst (dylib_attempt pj clock h inputs config ctx fate d s)) = Elapsed"
    and "snd (dylib_attempt pj clock h inputs config ctx fate d s) = snd (so_set (ctx_state ctx) (ctx_run_id ctx) key v SensNone s)"
    and "(\<And>i. fate i = Counted) \<Longrightarrow>
      att_llm (fst (dylib_attempt pj clock h inputs config ctx fate d s)) = cmd_records ctx cs"
proof -
  let ?set = "PlStateSet key set_text (\<lambda>_. PlReturn ptr)"
  let ?w = "fresh_world s"
  have many: "\<not> length (cmd_records ctx cs) \<le> 1000" using assms(3)
    by (simp add: record_times_records [of _ ctx] NODE_CHANNEL_CAPACITY_def)
  have blocked: "nbind (ctx_cmds ctx cs) f ?w = (NBlocked, snd (ctx_cmds ctx cs ?w))" for f :: "unit \<Rightarrow> ('a node_world, 'x) node_io"
    using commands_block [OF many, of s]
    by (cases "ctx_cmds ctx cs (fresh_world s)") (simp add: nbind_def)
  have cut: "run_attempt (nbind (ctx_cmds ctx cs) f) d s = run_attempt (nbind (ctx_cmds ctx cs) (\<lambda>_. nret JNull)) d s"
    for f :: "unit \<Rightarrow> ('a node_world, json) node_io"
    by (simp add: run_attempt_def blocked)
  from cut show "run_attempt (nbind (ctx_cmds ctx cs) (\<lambda>_. nbind (ctx_state_set ctx key v) (\<lambda>_. nret out))) d s =
      (\<lparr>att_result = Elapsed, att_duration_ms = d, att_llm = take 1000 (cmd_records ctx cs),
         att_events = take 1000 (cmd_events (reached 1000 cs))\<rparr>, s)"
    by (simp add: invocation_channels many)
  have "plugin_exec pj ctx clock (plugin_of tx cs ?set) 0 ?w = (NBlocked, snd (ctx_cmds ctx cs ?w))"
    using plugin_of_exec [of pj tx cs clock 0 ctx ?set ?w] assms(1,2) blocked by simp
  then have elapsed: "att_result (fst (run_attempt (dylib_run pj clock h inputs config ctx) d s)) = Elapsed"
    using assms(4-6) by (simp add: run_attempt_def dylib_run_def nbind_def nlift_def)
  obtain rest n1 w1 where pending: "dylib_pending pj clock h inputs config ctx ?w = Some (plugin_of tx rest ?set, n1, w1)"
      "list_all (sendable pj tx) rest" "\<forall>i < length (record_times rest). clock (n1 + i) = record_times rest ! i"
      "nw_state w1 = s" "nw_llm w1 @ cmd_records ctx rest = cmd_records ctx cs"
    using plugin_of_cut_off [of pj tx cs clock 0 ?w ctx ?set] assms(1-6)
    by (auto simp: dylib_pending_def fresh_world_def)
  obtain n2 m2 w2 where late: "plugin_detached pj ctx clock fate (plugin_of tx rest ?set) n1 0 w1 =
        plugin_detached pj ctx clock fate ?set n2 m2 w2" "nw_state w2 = s"
      "(\<forall>i. fate i = Counted) \<longrightarrow> nw_llm w2 = cmd_records ctx cs"
    using plugin_of_detached [of pj tx rest clock n1 ctx fate ?set 0 w1] pending(2-5) by auto
  from elapsed show "att_result (fst (dylib_attempt pj clock h inputs config ctx fate d s)) = Elapsed"
    by (simp add: dylib_attempt_def pending(1) Let_def case_prod_beta)
  have last: "nw_state (plugin_detached pj ctx clock fate ?set n2 m2 w2) = snd (so_set (ctx_state ctx) (ctx_run_id ctx) key v SensNone s)"
    "nw_llm (plugin_detached pj ctx clock fate ?set n2 m2 w2) = nw_llm w2"
    using assms(7-9) late(2)
    by (auto simp: state_set_trampoline_def ctx_state_set_def ctx_state_put_def split: prod.splits sum.splits)
  then show "snd (dylib_attempt pj clock h inputs config ctx fate d s) = snd (so_set (ctx_state ctx) (ctx_run_id ctx) key v SensNone s)"
    by (simp add: dylib_attempt_def pending(1) late(1) Let_def case_prod_beta)
  assume "\<And>i. fate i = Counted"
  with last late(3) show "att_llm (fst (dylib_attempt pj clock h inputs config ctx fate d s)) = cmd_records ctx cs"
    by (simp add: dylib_attempt_def pending(1) late(1) Let_def case_prod_beta)
qed

section \<open>The echo plugin (\<open>test-echo-node\<close>)\<close>

text \<open>\<open>node_run\<close>: the answer of the recording callback is ignored.\<close>

definition echo_request :: json where
  "echo_request = json_object
     [(''provider'', JString ''test''), (''model'', JString ''echo-v1''),
      (''messages'', JArray [json_object [(''role'', JString ''user''), (''content'', JString ''echo test'')]]),
      (''temperature'', JNumber (Float (Fin 0))), (''extra_params'', json_object [])]"

definition echo_response :: json where
  "echo_response = json_object
     [(''content'', JString ''echoed''), (''model_used'', JString ''echo-v1''), (''input_tokens'', json_of_nat 5),
      (''output_tokens'', json_of_nat 3), (''total_tokens'', json_of_nat 8), (''finish_reason'', JString ''stop''),
      (''latency_ms'', json_of_nat 1)]"

definition echo_run :: "(json \<Rightarrow> string) \<Rightarrow> string \<Rightarrow> string \<Rightarrow> plugin" where
  "echo_run to_string input_text config_text =
     PlRecord (to_string echo_request) (to_string echo_response)
       (\<lambda>_. PlReturn (CStr 0 (if utf8_valid input_text then input_text else ''{}'')))"

text \<open>A run of the echo plugin records one call and returns its inputs.\<close>

theorem echo_node_echoes:
  assumes "pj_to_string pj inputs = Inr input_text" "c_text input_text" "pj_from_str pj input_text = Inr inputs"
    and "get_str inputs ''type'' \<noteq> Some ''error''" "run_argument pj ''config'' config = Inr config_text"
    and "c_text (to_string echo_request)" "pj_llm_request pj (to_string echo_request) = Inr request"
    and "c_text (to_string echo_response)" "pj_llm_response pj (to_string echo_response) = Inr response"
    and "dh_run h = echo_run to_string"
  shows "run_attempt (dylib_run pj clock h inputs config ctx) d s =
    (\<lparr>att_result = Returned inputs, att_duration_ms = d,
      att_llm = [llm_record_for ctx (clock 0) request response], att_events = []\<rparr>, s)"
  using assms
  by (auto simp: run_attempt_def dylib_run_def echo_run_def run_argument_def c_string_def c_text_def nbind_def nret_def
      nlift_def record_llm_call_trampoline_def ctx_record_llm_call_def fresh_world_def NODE_CHANNEL_CAPACITY_def
      result_of_value_def)

section \<open>Scanning\<close>

text \<open>A plugin that does not load is skipped; only reading the directory can fail.\<close>

definition loaded :: "plugin_json \<Rightarrow> plugin_files \<Rightarrow> string \<Rightarrow> dylib_handler option" where
  "loaded pj fs path =
     (if pf_is_dir fs path \<and> pf_exists fs (path_join path ''node.json'')
      then (case load_from_manifest pj fs path of Inr h \<Rightarrow> Some h | Inl _ \<Rightarrow> None) else None)"

lemma scan_entries_readable: "scan_entries pj fs (map Inr paths) = Inr (List.map_filter (loaded pj fs) paths)"
  by (induction paths) (auto simp: loaded_def map_filter_simps split: sum.split)

lemma scan_entries_unreadable: "Inl e \<in> set es \<Longrightarrow> \<exists>e'. scan_entries pj fs es = Inl (DylibIo e')"
proof (induction es)
  case (Cons x es)
  then show ?case by (cases x) (auto split: sum.split)
qed simp

text \<open>
  (C40) The node registry with plugins. If the directories of the builder that exist can be read, the
  engine's handler of a type is the one given to the builder, else that of the first plugin with the
  type that loads, in the order of directories and entries, else the built-in node; plugins that do
  not load leave no trace.
\<close>

theorem plugins_registered:
  assumes "build_nodes (plugin_scan_of pj fs) b = Inr m"
    and "list_all (\<lambda>d. pf_exists fs d \<longrightarrow> pf_read_dir fs d = Inr (map Inr (entries d))) (eb_dylib_dirs b)"
  shows "bt_get ty m =
    (case bt_get ty (eb_nodes b) of
       Some h \<Rightarrow> Some h
     | None \<Rightarrow> List.find (\<lambda>h. meta_node_type h = ty)
         (concat (map (\<lambda>d. if pf_exists fs d then map dh_meta (List.map_filter (loaded pj fs) (entries d)) else [])
            (eb_dylib_dirs b)) @ builtins))"
proof -
  have "scanned (plugin_scan_of pj fs) dirs =
      concat (map (\<lambda>d. if pf_exists fs d then map dh_meta (List.map_filter (loaded pj fs) (entries d)) else []) dirs)"
    if "list_all (\<lambda>d. pf_exists fs d \<longrightarrow> pf_read_dir fs d = Inr (map Inr (entries d))) dirs" for dirs
    using that
    by (induction dirs) (auto simp: scanned_def plugin_scan_of_def dylib_scan_def scan_entries_readable)
  from this [OF assms(2)] show ?thesis unfolding build_nodes_get [OF assms(1)] by (rule arg_cong)
qed

definition demo_plugin_meta :: node_meta where
  "demo_plugin_meta = conditional_meta\<lparr>meta_node_type := ''test_echo''\<rparr>"

definition demo_plugin_json :: plugin_json where
  "demo_plugin_json =
     \<lparr>pj_from_str = (\<lambda>s. if s = ''null'' then Inr JNull else Inl ''bad''), pj_to_string = (\<lambda>_. Inr ''null''),
      pj_llm_request = (\<lambda>_. Inl ''bad''), pj_llm_response = (\<lambda>_. Inl ''bad''),
      pj_node_meta = (\<lambda>_. Inr demo_plugin_meta), pj_manifest = (\<lambda>_. Inr ''echo.so'')\<rparr>"

definition demo_texts :: plugin_texts where
  "demo_texts = \<lparr>tx_value = (\<lambda>_. ''null''), tx_request = (\<lambda>_. []), tx_response = (\<lambda>_. [])\<rparr>"

definition demo_commands :: "ctx_cmd list" where
  "demo_commands = [CmdEvent \<lparr>nev_name = ''e'', nev_data = JNull, nev_sensitivity = SensNone\<rparr>]"

definition demo_plugin :: "string \<Rightarrow> string \<Rightarrow> plugin" where
  "demo_plugin i c = plugin_of demo_texts demo_commands (PlReturn (CStr 1 ''null''))"

definition demo_handler :: dylib_handler where
  "demo_handler = \<lparr>dh_meta = demo_plugin_meta, dh_path = ''echo.so'', dh_run = demo_plugin, dh_validate = None\<rparr>"

theorem plugin_behaves_natively_witness:
  "\<forall>(ctx :: unit node_ctx) fate d s.
     dylib_attempt demo_plugin_json (\<lambda>_. 0) demo_handler JNull JNull ctx fate d s =
       (\<lparr>att_result = Returned JNull, att_duration_ms = d, att_llm = [],
          att_events = [\<lparr>nev_name = ''e'', nev_data = JNull, nev_sensitivity = SensNone\<rparr>]\<rparr>, s)"
proof (intro allI)
  fix ctx :: "unit node_ctx" and fate d s
  have texts: "c_text ''e''" "c_text ''null''" "utf8_valid ''null''"
    by (simp_all add: c_text_def ascii_utf8 del: utf8_valid.simps)
  let ?event = "\<lparr>nev_name = ''e'', nev_data = JNull, nev_sensitivity = SensNone\<rparr>"
  have commands: "list_all (sendable demo_plugin_json demo_texts) demo_commands" "record_times demo_commands = []"
    "cmd_records ctx demo_commands = []" "cmd_events demo_commands = [?event]"
    by (simp_all add: demo_commands_def demo_plugin_json_def demo_texts_def texts del: utf8_valid.simps)
  have argument: "run_argument demo_plugin_json what JNull = Inr ''null''" for what
    by (simp add: demo_plugin_json_def run_argument_def c_string_def)
  have code: "dh_run demo_handler i c = plugin_of demo_texts demo_commands (PlReturn (CStr 1 ''null''))" for i c
    by (simp add: demo_handler_def demo_plugin_def)
  have outcome: "pj_from_str demo_plugin_json ''null'' = Inr JNull" "stands_for JNull (Inr JNull)"
    by (simp_all add: demo_plugin_json_def get_str_def)
  have "dylib_attempt demo_plugin_json (\<lambda>_. 0) demo_handler JNull JNull ctx fate d s =
      (\<lparr>att_result = (case Inr JNull of Inr out \<Rightarrow> Returned out | Inl e \<Rightarrow> Raised e), att_duration_ms = d,
         att_llm = cmd_records ctx demo_commands, att_events = take 1000 (cmd_events demo_commands)\<rparr>, s)"
    by (rule plugin_behaves_natively [OF commands(1) _ _ argument argument code texts(3) outcome, THEN conjunct2])
      (simp_all add: commands(2))
  then show "dylib_attempt demo_plugin_json (\<lambda>_. 0) demo_handler JNull JNull ctx fate d s =
      (\<lparr>att_result = Returned JNull, att_duration_ms = d, att_llm = [], att_events = [?event]\<rparr>, s)"
    by (simp add: commands)
qed

theorem timed_out_plugin_goes_on_witness:
  "\<exists>pj h. \<forall>(ctx :: 's node_ctx) fate d s.
     att_result (fst (dylib_attempt pj (\<lambda>_. 0) h JNull JNull ctx fate d s)) = Elapsed
     \<and> snd (dylib_attempt pj (\<lambda>_. 0) h JNull JNull ctx fate d s) =
         snd (so_set (ctx_state ctx) (ctx_run_id ctx) ''k'' JNull SensNone s)"
proof -
  fix request response
  let ?pj = "demo_plugin_json\<lparr>pj_llm_request := \<lambda>_. Inr request, pj_llm_response := \<lambda>_. Inr response\<rparr>"
  let ?cs = "replicate 1001 (CmdLlm 0 request response)"
  let ?p = "plugin_of demo_texts ?cs (PlStateSet ''k'' ''null'' (\<lambda>_. PlReturn CNull))"
  let ?h = "demo_handler\<lparr>dh_run := \<lambda>_ _. ?p\<rparr>"
  have times: "record_times (replicate n (CmdLlm 0 request response)) = replicate n 0" for n
    by (induction n) simp_all
  have texts: "utf8_valid ''k''" "utf8_valid ''null''" by (simp_all add: ascii_utf8 del: utf8_valid.simps)
  have sent: "list_all (sendable ?pj demo_texts) ?cs" by (simp add: list_all_length demo_texts_def c_text_def)
  have many: "NODE_CHANNEL_CAPACITY < length (record_times ?cs)" by (simp add: times NODE_CHANNEL_CAPACITY_def)
  have clock: "\<forall>i < length (record_times ?cs). 0 = record_times ?cs ! i" by (simp add: times)
  have argument: "run_argument ?pj what JNull = Inr ''null''" for what
    by (simp add: demo_plugin_json_def run_argument_def c_string_def)
  have code: "dh_run ?h i c = ?p" for i c by simp
  have "pj_from_str ?pj ''null'' = Inr JNull" by (simp add: demo_plugin_json_def)
  note cut = timed_out_plugin_goes_on(2,3) [OF sent clock many argument argument code texts this]
  show ?thesis by (intro exI [of _ ?pj] exI [of _ ?h] allI conjI cut)
qed

definition demo_plugin_files :: plugin_files where
  "demo_plugin_files =
     \<lparr>pf_read_dir = (\<lambda>_. Inr [Inr ''p/broken'', Inr ''p/echo'']), pf_is_dir = (\<lambda>_. True), pf_exists = (\<lambda>_. True),
      pf_read_to_string = (\<lambda>f. if f = ''p/echo/node.json'' then Inr [] else Inl ''denied''),
      pf_open_library = (\<lambda>_. Inr \<lparr>lb_exports = (\<lambda>_. True), lb_meta = Inr (CStr 0 ''m''), lb_run = demo_plugin,
        lb_validate = (\<lambda>_. Inr CNull)\<rparr>)\<rparr>"

lemma demo_loaded:
  "loaded demo_plugin_json demo_plugin_files ''p/broken'' = None"
  "map_option dh_meta (loaded demo_plugin_json demo_plugin_files ''p/echo'') = Some demo_plugin_meta"
proof -
  have "utf8_valid ''m''" by (rule ascii_utf8) simp
  then show "loaded demo_plugin_json demo_plugin_files ''p/broken'' = None"
    "map_option dh_meta (loaded demo_plugin_json demo_plugin_files ''p/echo'') = Some demo_plugin_meta"
    by (simp_all add: loaded_def load_from_manifest_def demo_plugin_files_def demo_plugin_json_def path_join_def dylib_load_def
        load_symbol_def cached_meta_def Let_def)
qed

theorem plugins_registered_witness:
  "\<exists>m. build_nodes (plugin_scan_of demo_plugin_json demo_plugin_files)
         ((engine_builder_new :: (unit, unit, unit, unit) engine_builder)\<lparr>eb_dylib_dirs := [''p'']\<rparr>) = Inr m
     \<and> bt_get ''test_echo'' m = Some demo_plugin_meta"
proof -
  let ?b = "(engine_builder_new :: (unit, unit, unit, unit) engine_builder)\<lparr>eb_dylib_dirs := [''p'']\<rparr>"
  let ?entries = "\<lambda>_ :: string. [''p/broken'', ''p/echo'']"
  have dir: "pf_read_dir demo_plugin_files ''p'' = Inr (map Inr (?entries ''p''))" "pf_exists demo_plugin_files ''p''"
    by (simp_all add: demo_plugin_files_def)
  obtain m where m: "build_nodes (plugin_scan_of demo_plugin_json demo_plugin_files) ?b = Inr m"
    using dir scan_entries_readable [of demo_plugin_json demo_plugin_files "?entries ''p''"]
    by (auto simp: build_nodes_def plugin_scan_of_def dylib_scan_def)
  have ty: "meta_node_type demo_plugin_meta = ''test_echo''" by (simp add: demo_plugin_meta_def)
  obtain h where h: "loaded demo_plugin_json demo_plugin_files ''p/echo'' = Some h" "dh_meta h = demo_plugin_meta"
    using demo_loaded(2) by auto
  have "list_all (\<lambda>d. pf_exists demo_plugin_files d \<longrightarrow> pf_read_dir demo_plugin_files d = Inr (map Inr (?entries d))) (eb_dylib_dirs ?b)"
    using dir by simp
  from plugins_registered [OF m this, of "''test_echo''"] m show ?thesis
    by (simp add: engine_builder_new_def dir h demo_loaded(1) map_filter_simps ty)
qed

end
