(* ===== verification/Seaorm_Run_Store.thy ===== *)
theory Seaorm_Run_Store
  imports Engine
begin

text \<open>
  The run store of the crate \<open>cleargate-storage-oss\<close> (\<open>stores/seaorm_run_store.rs\<close>): events as rows of a
  table.  The table is a parameter: its three statements with what they are documented to do, and
  the JSON values of events.  Numbers are signed in the table, a batch is written row by row without
  a transaction, and a statement that fails may have taken effect.  When writes are
  retried, seven of its queries answer as those of the in-memory store; crash recovery has no effect on it.
\<close>

section \<open>The table\<close>

text \<open>\<open>models/run_event.rs\<close>; the identifier is chosen by the table.\<close>

record run_event_row =
  re_run_id :: string
  re_seq :: int
  re_event_type :: string
  re_payload :: json
  re_created_at :: datetime

text \<open>\<open>as i64\<close>.\<close>

definition as_i64 :: "u64 \<Rightarrow> int" where
  "as_i64 n = sint n"

text \<open>Insert unless run and number are taken; select the rows of a run by ascending number; select the
  runs.\<close>

record ('io, 'd) run_table =
  rt_insert :: "'io \<Rightarrow> run_event_row \<Rightarrow> 'd \<Rightarrow> (string, unit) result \<times> 'd"
  rt_select :: "'io \<Rightarrow> string \<Rightarrow> 'd \<Rightarrow> (string, run_event_row list) result"
  rt_run_ids :: "'io \<Rightarrow> 'd \<Rightarrow> (string, string list) result"

record event_json =
  ej_to_value :: "write_event \<Rightarrow> (string, json) result"
  ej_from_value :: "json \<Rightarrow> (string, write_event) result"

section \<open>The store\<close>

fun event_type_of :: "write_event \<Rightarrow> string" where
  "event_type_of (RunStarted _ _ _ _ _ _ _ _ _ _) = ''run_started''"
| "event_type_of (RunCompleted _ _ _ _ _ _ _) = ''run_completed''"
| "event_type_of (NodeStarted _ _ _ _ _ _ _ _) = ''node_started''"
| "event_type_of (NodeCompleted _ _ _ _ _ _ _ _) = ''node_completed''"
| "event_type_of (NodeFailed _ _ _ _ _ _ _ _) = ''node_failed''"
| "event_type_of (EdgeEvaluated _ _ _ _ _ _ _ _) = ''edge_evaluated''"
| "event_type_of (Checkpoint _ _ _ _ _ _) = ''checkpoint''"
| "event_type_of (LlmInvocation _ _ _ _ _ _ _) = ''llm_invocation''"
| "event_type_of (LlmStreamChunk _ _ _ _ _ _) = ''llm_stream_chunk''"
| "event_type_of (ToolInvocation _ _ _ _ _ _ _ _) = ''tool_invocation''"
| "event_type_of (StepRecorded _ _ _ _ _ _) = ''step_recorded''"
| "event_type_of (Custom _ _ _ _ _ _ _) = ''custom''"
| "event_type_of (TopologyHint _ _ _ _ _ _) = ''topology_hint''"

definition row_of_event :: "datetime \<Rightarrow> json \<Rightarrow> write_event \<Rightarrow> run_event_row" where
  "row_of_event now payload event =
     \<lparr>re_run_id = ev_run_id event, re_seq = as_i64 (ev_seq event), re_event_type = event_type_of event,
      re_payload = payload, re_created_at = now\<rparr>"

fun sea_from_models :: "event_json \<Rightarrow> run_event_row list \<Rightarrow> (run_store_error, write_event list) result" where
  "sea_from_models ej [] = Inr []"
| "sea_from_models ej (m # models) =
     and_then (map_err RunStoreError (ej_from_value ej (re_payload m))) (\<lambda>event.
     and_then (sea_from_models ej models) (\<lambda>events. Inr (event # events)))"

definition sea_read_events ::
  "event_json \<Rightarrow> ('io, 'd) run_table \<Rightarrow> 'io \<Rightarrow> 'd \<Rightarrow> string \<Rightarrow> (run_store_error, write_event list) result" where
  "sea_read_events ej T io d run_id =
     and_then (map_err RunStoreError (rt_select T io run_id d)) (sea_from_models ej)"

text \<open>\<open>io n\<close> and \<open>now n\<close> are the outcome and the time of the \<open>n\<close>-th insert of a batch.\<close>

fun sea_insert_all ::
  "event_json \<Rightarrow> ('io, 'd) run_table \<Rightarrow> (nat \<Rightarrow> 'io \<times> datetime) \<Rightarrow> nat \<Rightarrow> write_event list \<Rightarrow> 'd \<Rightarrow>
     (run_store_error, unit) result \<times> 'd" where
  "sea_insert_all ej T io n [] d = (Inr (), d)"
| "sea_insert_all ej T io n (event # events) d =
     (case ej_to_value ej event of
        Inl e \<Rightarrow> (Inl (RunStoreError e), d)
      | Inr payload \<Rightarrow>
          (case rt_insert T (fst (io n)) (row_of_event (snd (io n)) payload event) d of
             (Inl e, d1) \<Rightarrow> (Inl (RunStoreError e), d1)
           | (Inr _, d1) \<Rightarrow> sea_insert_all ej T io (Suc n) events d1))"

definition sea_write_batch ::
  "event_json \<Rightarrow> ('io, 'd) run_table \<Rightarrow> (nat \<Rightarrow> 'io \<times> datetime) \<Rightarrow> write_event list \<Rightarrow> 'd \<Rightarrow>
     (run_store_error, unit) result \<times> 'd" where
  "sea_write_batch ej T io events d = sea_insert_all ej T io 0 events d"

definition sea_get_run ::
  "event_json \<Rightarrow> ('io, 'd) run_table \<Rightarrow> 'io \<Rightarrow> 'd \<Rightarrow> string \<Rightarrow> (run_store_error, run_record option) result" where
  "sea_get_run ej T io d run_id =
     and_then (sea_read_events ej T io d run_id) (\<lambda>events. Inr (reconstruct_run run_id events))"

fun sea_records ::
  "event_json \<Rightarrow> ('io, 'd) run_table \<Rightarrow> (nat \<Rightarrow> 'io) \<Rightarrow> nat \<Rightarrow> 'd \<Rightarrow> string list \<Rightarrow>
     (run_store_error, run_record list) result" where
  "sea_records ej T io n d [] = Inr []"
| "sea_records ej T io n d (m # models) =
     and_then (sea_get_run ej T (io n) d m) (\<lambda>rec_opt.
     and_then (sea_records ej T io (Suc n) d models) (\<lambda>records.
       Inr (case rec_opt of None \<Rightarrow> records | Some record \<Rightarrow> record # records)))"

definition sea_list_runs ::
  "event_json \<Rightarrow> ('io, 'd) run_table \<Rightarrow> (nat \<Rightarrow> 'io) \<Rightarrow> 'd \<Rightarrow> run_filter \<Rightarrow> (run_store_error, run_page) result" where
  "sea_list_runs ej T io d flt =
     and_then (map_err RunStoreError (rt_run_ids T (io 0) d)) (\<lambda>models.
     and_then (sea_records ej T io 1 d models) (\<lambda>records.
       Inr (page_of flt (List.filter (filter_accepts flt) records))))"

definition sea_get_node_results ::
  "event_json \<Rightarrow> ('io, 'd) run_table \<Rightarrow> 'io \<Rightarrow> 'd \<Rightarrow> string \<Rightarrow> (run_store_error, node_run_result list) result" where
  "sea_get_node_results ej T io d run_id =
     and_then (sea_read_events ej T io d run_id) (\<lambda>events. Inr (extract_node_results events))"

definition sea_get_edge_results ::
  "event_json \<Rightarrow> ('io, 'd) run_table \<Rightarrow> 'io \<Rightarrow> 'd \<Rightarrow> string \<Rightarrow> (run_store_error, edge_run_result list) result" where
  "sea_get_edge_results ej T io d run_id =
     and_then (sea_read_events ej T io d run_id) (\<lambda>events. Inr (extract_edge_results events))"

definition sea_get_node_detail ::
  "event_json \<Rightarrow> ('io, 'd) run_table \<Rightarrow> 'io \<Rightarrow> 'd \<Rightarrow> string \<Rightarrow> string \<Rightarrow>
     (run_store_error, node_run_detail option) result" where
  "sea_get_node_detail ej T io d run_id node_id =
     and_then (sea_read_events ej T io d run_id) (\<lambda>events. Inr (extract_node_detail events node_id))"

definition sea_get_custom_events ::
  "event_json \<Rightarrow> ('io, 'd) run_table \<Rightarrow> 'io \<Rightarrow> 'd \<Rightarrow> string \<Rightarrow> (run_store_error, custom_event_record list) result" where
  "sea_get_custom_events ej T io d run_id =
     and_then (sea_read_events ej T io d run_id) (\<lambda>events. Inr (extract_custom_events events))"

definition sea_get_llm_invocations ::
  "event_json \<Rightarrow> ('io, 'd) run_table \<Rightarrow> 'io \<Rightarrow> 'd \<Rightarrow> string \<Rightarrow> (run_store_error, llm_invocation_record list) result" where
  "sea_get_llm_invocations ej T io d run_id =
     and_then (sea_read_events ej T io d run_id) (\<lambda>events. Inr (extract_llm_invocations events))"

definition sea_get_llm_invocations_for_node ::
  "event_json \<Rightarrow> ('io, 'd) run_table \<Rightarrow> 'io \<Rightarrow> 'd \<Rightarrow> string \<Rightarrow> string \<Rightarrow>
     (run_store_error, llm_invocation_record list) result" where
  "sea_get_llm_invocations_for_node ej T io d run_id node_id =
     and_then (sea_get_llm_invocations ej T io d run_id)
       (\<lambda>records. Inr (List.filter (\<lambda>r. li_node_id r = node_id) records))"

section \<open>What the table does\<close>

definition row_key :: "run_event_row \<Rightarrow> string \<times> int" where
  "row_key m = (re_run_id m, re_seq m)"

definition insert_row :: "run_event_row \<Rightarrow> run_event_row list \<Rightarrow> run_event_row list" where
  "insert_row row rows = (if row_key row \<in> row_key ` set rows then rows else rows @ [row])"

text \<open>\<open>rows\<close> are the rows by identifier.  A statement that reports an error may still have taken effect
  (the connection can break after it).\<close>

definition run_table_laws :: "('io, 'd) run_table \<Rightarrow> ('d \<Rightarrow> run_event_row list) \<Rightarrow> bool" where
  "run_table_laws T rows \<longleftrightarrow>
     (\<forall>io row d res d'. rt_insert T io row d = (res, d') \<longrightarrow>
        rows d' = insert_row row (rows d) \<or> res \<noteq> Inr () \<and> rows d' = rows d)
     \<and> (\<forall>io r d ms. rt_select T io r d = Inr ms \<longrightarrow>
        ms = sort_key re_seq (List.filter (\<lambda>m. re_run_id m = r) (rows d)))
     \<and> (\<forall>io d ids. rt_run_ids T io d = Inr ids \<longrightarrow> distinct ids \<and> set ids = re_run_id ` set (rows d))"

lemma insert_law:
  assumes "run_table_laws T rows" "rt_insert T io row d = (res, d')"
  shows "rows d' = insert_row row (rows d) \<or> res \<noteq> Inr () \<and> rows d' = rows d"
  using assms unfolding run_table_laws_def by blast

lemma select_law:
  "run_table_laws T rows \<Longrightarrow> rt_select T io r d = Inr ms \<Longrightarrow>
     ms = sort_key re_seq (List.filter (\<lambda>m. re_run_id m = r) (rows d))"
  unfolding run_table_laws_def by blast

lemma run_ids_law:
  "run_table_laws T rows \<Longrightarrow> rt_run_ids T io d = Inr ids \<Longrightarrow> distinct ids \<and> set ids = re_run_id ` set (rows d)"
  unfolding run_table_laws_def by blast

section \<open>Abstraction: the events in the order of their insertion\<close>

definition ev_key :: "write_event \<Rightarrow> string \<times> u64" where
  "ev_key e = (ev_run_id e, ev_seq e)"

definition add_event :: "write_event \<Rightarrow> write_event list \<Rightarrow> write_event list" where
  "add_event e es = (if ev_key e \<in> ev_key ` set es then es else es @ [e])"

definition row_stores :: "event_json \<Rightarrow> run_event_row \<Rightarrow> write_event \<Rightarrow> bool" where
  "row_stores ej m e \<longleftrightarrow>
     ej_from_value ej (re_payload m) = Inr e \<and> re_run_id m = ev_run_id e \<and> re_seq m = as_i64 (ev_seq e)"

definition sea_state :: "event_json \<Rightarrow> run_event_row list \<Rightarrow> write_event list \<Rightarrow> bool" where
  "sea_state ej ms es \<longleftrightarrow> list_all2 (row_stores ej) ms es \<and> distinct (map ev_key es)"

definition sea_ok :: "event_json \<Rightarrow> write_event \<Rightarrow> bool" where
  "sea_ok ej e \<longleftrightarrow> (case ej_to_value ej e of Inl _ \<Rightarrow> True | Inr j \<Rightarrow> ej_from_value ej j = Inr e)"

definition sea_log :: "write_event list \<Rightarrow> string \<Rightarrow> write_event list" where
  "sea_log es r = sort_key (\<lambda>e. as_i64 (ev_seq e)) (of_run r es)"

lemma as_i64_inj [simp]: "as_i64 a = as_i64 b \<longleftrightarrow> a = b"
  by (metis as_i64_def signed_word_eqI)

lemma row_stores_key: "list_all2 (row_stores ej) ms es \<Longrightarrow>
    row_key ` set ms = (\<lambda>(r, n). (r, as_i64 n)) ` ev_key ` set es"
  by (induction rule: list_all2_induct) (auto simp: row_stores_def row_key_def ev_key_def)

lemma row_of_event_stores:
  "ej_from_value ej payload = Inr e \<Longrightarrow> row_stores ej (row_of_event now payload e) e"
  by (simp add: row_stores_def row_of_event_def)

lemma sea_state_insert:
  assumes "sea_state ej ms es" "row_stores ej m e"
  shows "sea_state ej (insert_row m ms) (add_event e es)"
proof -
  have "row_key m = (\<lambda>(r, n). (r, as_i64 n)) (ev_key e)"
    using assms(2) by (simp add: row_stores_def row_key_def ev_key_def)
  moreover have "inj (\<lambda>(r :: string, n). (r, as_i64 n))" by (auto simp: inj_def)
  ultimately have "row_key m \<in> row_key ` set ms \<longleftrightarrow> ev_key e \<in> ev_key ` set es"
    using row_stores_key [of ej ms es] assms(1) by (simp add: sea_state_def inj_image_mem_iff)
  with assms show ?thesis
    by (auto simp: sea_state_def insert_row_def add_event_def list_all2_appendI)
qed

lemma sea_insert_all_state:
  assumes "run_table_laws T rows" "sea_state ej (rows d) es" "list_all (sea_ok ej) b"
    and "sea_insert_all ej T io n b d = (res, d')"
  shows "\<exists>p q. b = p @ q \<and> sea_state ej (rows d') (fold add_event p es) \<and> (res = Inr () \<longrightarrow> q = [])"
  using assms(2-4)
proof (induction b arbitrary: n d es)
  case (Cons e b)
  show ?case
  proof (cases "ej_to_value ej e")
    case (Inl err)
    with Cons.prems have "sea_state ej (rows d') (fold add_event [] es)" "res \<noteq> Inr ()" by auto
    then show ?thesis by (metis append_Nil)
  next
    case (Inr payload)
    let ?row = "row_of_event (snd (io n)) payload e"
    obtain res1 d1 where ins: "rt_insert T (fst (io n)) ?row d = (res1, d1)" by force
    have "row_stores ej ?row e"
      using Cons.prems(2) Inr by (simp add: sea_ok_def row_of_event_stores)
    then have new: "sea_state ej (insert_row ?row (rows d)) (add_event e es)"
      using Cons.prems(1) by (rule sea_state_insert [rotated])
    show ?thesis
    proof (cases res1)
      case (Inl err)
      with Cons.prems(3) Inr ins have "d' = d1" "res \<noteq> Inr ()" by auto
      with insert_law [OF assms(1) ins] new Cons.prems(1)
      have "sea_state ej (rows d') (fold add_event [] es) \<or> sea_state ej (rows d') (fold add_event [e] es)" by auto
      with \<open>res \<noteq> Inr ()\<close> show ?thesis by (metis append_Nil append_Cons)
    next
      case (Inr u)
      with insert_law [OF assms(1) ins] new have "sea_state ej (rows d1) (add_event e es)" by auto
      moreover have "sea_insert_all ej T io (Suc n) b d1 = (res, d')"
        using Cons.prems(3) \<open>ej_to_value ej e = Inr payload\<close> ins Inr by simp
      ultimately obtain p q where "b = p @ q" "sea_state ej (rows d') (fold add_event p (add_event e es))"
          "res = Inr () \<longrightarrow> q = []"
        using Cons.IH [of d1 "add_event e es" "Suc n"] Cons.prems(2) by auto
      then have "e # b = (e # p) @ q \<and> sea_state ej (rows d') (fold add_event (e # p) es) \<and> (res = Inr () \<longrightarrow> q = [])"
        by simp
      then show ?thesis by blast
    qed
  qed
qed auto

section \<open>Logs\<close>

definition small :: "write_event \<Rightarrow> bool" where
  "small e \<longleftrightarrow> ev_seq e < 2 ^ 63"

lemma as_i64_small: "a < 2 ^ 63 \<Longrightarrow> as_i64 a = uint a"
  unfolding as_i64_def sint_uint
  by (rule signed_take_bit_int_eq_self [OF order_trans [OF _ uint_ge_0]]) (simp_all add: word_less_def)

lemma as_i64_minus_one [simp]: "as_i64 (- 1) = - 1"
  by (simp add: as_i64_def)

lemma set_sea_log [simp]: "set (sea_log es r) = {e \<in> set es. ev_run_id e = r}"
  by (simp add: sea_log_def)

lemma distinct_of_run: "distinct (map ev_key es) \<Longrightarrow> distinct (map ev_seq (of_run r es))"
  by (auto simp: of_run_def distinct_map inj_on_def ev_key_def)

lemma distinct_sea_log: "distinct (map ev_key es) \<Longrightarrow> distinct (map ev_seq (sea_log es r))"
  using distinct_of_run [of es r] by (simp add: sea_log_def distinct_map)

lemma sorted_sea_log:
  assumes "list_all small es"
  shows "sorted (map ev_seq (sea_log es r))"
proof -
  have "sorted_wrt (\<lambda>x y. as_i64 (ev_seq x) \<le> as_i64 (ev_seq y)) (sea_log es r)"
    using sorted_sort_key [of "\<lambda>e. as_i64 (ev_seq e)" "of_run r es"] by (simp only: sea_log_def sorted_map)
  then have "sorted_wrt (\<lambda>x y. ev_seq x \<le> ev_seq y) (sea_log es r)"
    by (rule sorted_wrt_mono_rel [rotated 1])
       (use assms in \<open>simp add: small_def as_i64_small list_all_iff word_le_def\<close>)
  then show ?thesis by (simp add: sorted_map)
qed

lemma logs_equal:
  fixes xs ys :: "write_event list"
  assumes "sorted (map ev_seq xs)" "distinct (map ev_seq xs)" "sorted (map ev_seq ys)" "distinct (map ev_seq ys)"
    and "set xs = set ys"
  shows "xs = ys"
  using assms by (intro map_sorted_distinct_set_unique [of ev_seq]) (auto simp: distinct_map)

lemma set_fold_add:
  "distinct (map ev_key p) \<Longrightarrow>
     set (fold add_event p es) = set es \<union> {e \<in> set p. ev_key e \<notin> ev_key ` set es}"
proof (induction p arbitrary: es)
  case (Cons e p)
  then have "ev_key e \<notin> ev_key ` set p" by simp
  with Cons.IH [of "add_event e es"] Cons.prems show ?case by (auto simp: add_event_def) (metis imageI)
qed simp

lemma merge_of_state:
  assumes "distinct (map ev_key es)" "distinct (map ev_key es')" "list_all small es" "list_all small es'"
    and "distinct (map ev_key b)" "set es' = set es \<union> {e \<in> set b. ev_key e \<notin> ev_key ` set es}"
  shows "sea_log es' r = merge_events (sea_log es r) (of_run r b)"
proof (rule logs_equal)
  show "sorted (map ev_seq (sea_log es' r))" "distinct (map ev_seq (sea_log es' r))"
    using assms(2,4) by (simp_all add: sorted_sea_log distinct_sea_log)
  show "distinct (map ev_seq (merge_events (sea_log es r) (of_run r b)))"
    using assms(1,5) by (simp add: distinct_merge_events distinct_sea_log distinct_of_run)
  show "set (sea_log es' r) = set (merge_events (sea_log es r) (of_run r b))"
    unfolding set_merge_events using assms(6) by (auto simp: ev_key_def image_iff)
qed simp

section \<open>Reading\<close>

lemma sea_from_models_events:
  "list_all2 (row_stores ej) ms es \<Longrightarrow> sea_from_models ej ms = Inr es"
  by (induction rule: list_all2_induct) (auto simp: row_stores_def)

lemma insort_row:
  assumes "row_stores ej m e" "list_all2 (row_stores ej) ms es"
  shows "list_all2 (row_stores ej) (insort_key re_seq m ms) (insort_key (\<lambda>e. as_i64 (ev_seq e)) e es)"
  using assms(2,1) by (induction rule: list_all2_induct) (auto simp: row_stores_def)

lemma sort_rows:
  "list_all2 (row_stores ej) ms es \<Longrightarrow>
     list_all2 (row_stores ej) (sort_key re_seq ms) (sort_key (\<lambda>e. as_i64 (ev_seq e)) es)"
  by (induction rule: list_all2_induct) (simp_all add: insort_row)

lemma filter_rows:
  "list_all2 (row_stores ej) ms es \<Longrightarrow>
     list_all2 (row_stores ej) (List.filter (\<lambda>m. re_run_id m = r) ms) (of_run r es)"
  unfolding of_run_def by (induction rule: list_all2_induct) (auto simp: row_stores_def)

lemma sea_read_events_log:
  assumes "run_table_laws T rows" "sea_state ej (rows d) es" "sea_read_events ej T io d r = Inr evs"
  shows "evs = sea_log es r"
proof -
  obtain ms where ms: "rt_select T io r d = Inr ms" "sea_from_models ej ms = Inr evs"
    using assms(3) by (cases "rt_select T io r d") (auto simp: sea_read_events_def)
  have "list_all2 (row_stores ej) ms (sea_log es r)"
    unfolding select_law [OF assms(1) ms(1)] sea_log_def
    using assms(2) by (intro sort_rows filter_rows) (simp add: sea_state_def)
  from sea_from_models_events [OF this] ms(2) show ?thesis by simp
qed

section \<open>Writing with retries\<close>

lemma sea_write_batch_state:
  assumes "run_table_laws T rows" "sea_state ej (rows d) es" "list_all (sea_ok ej) b"
    and "sea_write_batch ej T io b d = (res, d')"
  shows "\<exists>p q. b = p @ q \<and> sea_state ej (rows d') (fold add_event p es) \<and> (res = Inr () \<longrightarrow> q = [])"
  using sea_insert_all_state [OF assms(1-3)] assms(4) by (simp add: sea_write_batch_def)

definition sea_attempts ::
  "event_json \<Rightarrow> ('io, 'd) run_table \<Rightarrow> (nat \<Rightarrow> 'io \<times> datetime) list \<Rightarrow> write_event list \<Rightarrow> 'd \<Rightarrow> 'd" where
  "sea_attempts ej T ios b d = fold (\<lambda>io d. snd (sea_write_batch ej T io b d)) ios d"

lemma sea_attempts_state:
  assumes "run_table_laws T rows" "sea_state ej (rows d) es" "list_all (sea_ok ej) b" "distinct (map ev_key b)"
  shows "\<exists>es'. sea_state ej (rows (sea_attempts ej T ios b d)) es' \<and> set es \<subseteq> set es'
    \<and> set es' \<subseteq> set es \<union> {e \<in> set b. ev_key e \<notin> ev_key ` set es}"
  using assms(2)
proof (induction ios arbitrary: d es)
  case (Cons io ios)
  obtain res d1 where w: "sea_write_batch ej T io b d = (res, d1)" by force
  obtain p q where p: "b = p @ q" "sea_state ej (rows d1) (fold add_event p es)"
    using sea_write_batch_state [OF assms(1) Cons.prems assms(3) w] by blast
  have new: "set (fold add_event p es) = set es \<union> {e \<in> set p. ev_key e \<notin> ev_key ` set es}"
    using assms(4) p(1) by (intro set_fold_add) simp
  obtain es' where es': "sea_state ej (rows (sea_attempts ej T ios b d1)) es'" "set (fold add_event p es) \<subseteq> set es'"
      "set es' \<subseteq> set (fold add_event p es) \<union> {e \<in> set b. ev_key e \<notin> ev_key ` set (fold add_event p es)}"
    using Cons.IH [OF p(2)] by blast
  have "set es' \<subseteq> set es \<union> {e \<in> set b. ev_key e \<notin> ev_key ` set es}"
    using es'(3) p(1) unfolding new by auto
  moreover have "set es \<subseteq> set es'" using es'(2) unfolding new by blast
  ultimately show ?case using es'(1) w by (auto simp: sea_attempts_def)
qed (auto simp: sea_attempts_def)

text \<open>However the attempts before it failed, a successful write adds exactly the new events.\<close>

lemma sea_retry_state:
  assumes "run_table_laws T rows" "sea_state ej (rows d) es" "list_all (sea_ok ej) b" "distinct (map ev_key b)"
    and "sea_write_batch ej T io b (sea_attempts ej T ios b d) = (Inr (), d')"
  shows "\<exists>es'. sea_state ej (rows d') es' \<and> set es' = set es \<union> {e \<in> set b. ev_key e \<notin> ev_key ` set es}"
proof -
  obtain es1 where es1: "sea_state ej (rows (sea_attempts ej T ios b d)) es1" "set es \<subseteq> set es1"
      "set es1 \<subseteq> set es \<union> {e \<in> set b. ev_key e \<notin> ev_key ` set es}"
    using sea_attempts_state [OF assms(1-4)] by blast
  have "sea_state ej (rows d') (fold add_event b es1)"
    using sea_write_batch_state [OF assms(1) es1(1) assms(3,5)] by auto
  moreover have "set (fold add_event b es1) = set es \<union> {e \<in> set b. ev_key e \<notin> ev_key ` set es}"
  proof -
    have "e = e'" if "e \<in> set b" "e' \<in> set b" "ev_key e = ev_key e'" for e e'
      using that assms(4) by (simp add: distinct_map inj_on_def)
    then show ?thesis
      unfolding set_fold_add [OF assms(4)] using es1(2,3) by (auto simp: image_iff) blast
  qed
  ultimately show ?thesis by blast
qed

type_synonym 'io delivery = "(nat \<Rightarrow> 'io \<times> datetime) list \<times> (nat \<Rightarrow> 'io \<times> datetime) \<times> write_event list"

text \<open>Batches that the flush loop delivers: each is written again until a write succeeds.\<close>

fun sea_deliver :: "event_json \<Rightarrow> ('io, 'd) run_table \<Rightarrow> 'io delivery list \<Rightarrow> 'd \<Rightarrow> 'd option" where
  "sea_deliver ej T [] d = Some d"
| "sea_deliver ej T ((ios, io, b) # hs) d =
     (case sea_write_batch ej T io b (sea_attempts ej T ios b d) of
        (Inr _, d1) \<Rightarrow> sea_deliver ej T hs d1
      | (Inl _, d1) \<Rightarrow> None)"

definition batch_ok :: "event_json \<Rightarrow> write_event list \<Rightarrow> bool" where
  "batch_ok ej b \<longleftrightarrow> list_all (\<lambda>e. sea_ok ej e \<and> small e) b \<and> distinct (map ev_key b)"

lemma sea_deliver_state:
  assumes "run_table_laws T rows" "sea_state ej (rows d) es" "list_all small es"
    and "list_all (batch_ok ej) (map (snd \<circ> snd) hs)" "sea_deliver ej T hs d = Some d'"
    and "mem_inv m" "\<And>r. mem_events m r = sea_log es r"
  shows "\<exists>es'. sea_state ej (rows d') es' \<and> list_all small es'
    \<and> (\<forall>r. mem_events (mem_writes (map (snd \<circ> snd) hs) m) r = sea_log es' r)"
  using assms(2-7)
proof (induction hs arbitrary: d es m)
  case (Cons h hs)
  obtain ios io b where h: "h = (ios, io, b)" by (cases h) auto
  with Cons.prems(3) have b: "list_all (sea_ok ej) b" "list_all small b" "distinct (map ev_key b)"
    by (auto simp: batch_ok_def list_all_iff)
  obtain d1 where d1: "sea_write_batch ej T io b (sea_attempts ej T ios b d) = (Inr (), d1)"
      "sea_deliver ej T hs d1 = Some d'"
    using Cons.prems(4) h by (auto split: prod.splits sum.splits)
  obtain es1 where es1: "sea_state ej (rows d1) es1"
      "set es1 = set es \<union> {e \<in> set b. ev_key e \<notin> ev_key ` set es}"
    using sea_retry_state [OF assms(1) Cons.prems(1) b(1,3) d1(1)] by blast
  have small: "list_all small es1" using es1(2) Cons.prems(2) b(2) by (auto simp: list_all_iff)
  have "distinct (map ev_key es)" "distinct (map ev_key es1)"
    using Cons.prems(1) es1(1) by (simp_all add: sea_state_def)
  then have log: "sea_log es1 r = merge_events (sea_log es r) (of_run r b)" for r
    using Cons.prems(2) small b(3) es1(2) by (rule merge_of_state)
  have m: "mem_inv (snd (mem_write_batch b m))" "mem_events (snd (mem_write_batch b m)) r = sea_log es1 r" for r
    using mem_write_batch_log [OF Cons.prems(5), of b r] by (simp_all add: Cons.prems(6) log)
  from Cons.IH [OF es1(1) small _ d1(2) m] Cons.prems(3) h show ?case by (simp add: mem_writes_def)
qed (auto simp: mem_writes_def)

section \<open>Agreement with the in-memory store\<close>

lemma sea_query:
  assumes "run_table_laws T rows" "sea_state ej (rows d) es"
    and "and_then (sea_read_events ej T io d r) (\<lambda>events. Inr (f events)) = Inr x"
  shows "x = f (sea_log es r)"
  using assms(3) sea_read_events_log [OF assms(1,2)] by auto

lemma mem_queries:
  "mem_get_node_results m r = extract_node_results (mem_events m r)"
  "mem_get_edge_results m r = extract_edge_results (mem_events m r)"
  "mem_get_custom_events m r = extract_custom_events (mem_events m r)"
  "mem_get_llm_invocations m r = extract_llm_invocations (mem_events m r)"
  by (simp_all add: mem_get_node_results_def mem_get_edge_results_def mem_get_custom_events_def
      mem_get_llm_invocations_def mem_events_def extract_node_results_def extract_edge_results_def
      extract_custom_events_def extract_llm_invocations_def map_filter_simps split: option.split)

lemma sea_records_logs:
  assumes "run_table_laws T rows" "sea_state ej (rows d) es" "sea_records ej T io n d ids = Inr records"
  shows "records = map (\<lambda>r. reconstruct_record r (sea_log es r)) (List.filter (\<lambda>r. sea_log es r \<noteq> []) ids)"
  using assms(3)
proof (induction ids arbitrary: n records)
  case (Cons r ids)
  from Cons.prems obtain x records' where x: "sea_get_run ej T (io n) d r = Inr x"
    "sea_records ej T io (Suc n) d ids = Inr records'"
    "records = (case x of None \<Rightarrow> records' | Some record \<Rightarrow> record # records')"
    by auto
  have "x = reconstruct_run r (sea_log es r)"
    using sea_query [OF assms(1,2)] x(1) by (simp add: sea_get_run_def)
  with Cons.IH [OF x(2)] x(3) show ?case by (simp add: reconstruct_run_def)
qed simp

lemma sea_log_empty: "sea_log es r = [] \<longleftrightarrow> r \<notin> ev_run_id ` set es"
  by (simp only: set_empty [symmetric] set_sea_log) auto

lemma sea_list_runs_logs:
  assumes "run_table_laws T rows" "sea_state ej (rows d) es" "sea_list_runs ej T io d flt = Inr page"
  shows "\<exists>ids. distinct ids \<and> set ids = {r. sea_log es r \<noteq> []}
    \<and> page = page_of flt (List.filter (filter_accepts flt) (map (\<lambda>r. reconstruct_record r (sea_log es r)) ids))"
proof -
  obtain ids records where ids: "rt_run_ids T (io 0) d = Inr ids" "sea_records ej T io 1 d ids = Inr records"
    "page = page_of flt (List.filter (filter_accepts flt) records)"
    using assms(3) by (auto simp: sea_list_runs_def map_err_Ok)
  have "fst ` row_key ` set (rows d) = ev_run_id ` set es"
    using row_stores_key [of ej "rows d" es] assms(2) by (force simp: sea_state_def ev_key_def image_iff)
  then have "re_run_id ` set (rows d) = ev_run_id ` set es" by (simp add: image_image row_key_def)
  then have set_ids: "distinct ids" "set ids = {r. sea_log es r \<noteq> []}"
    using run_ids_law [OF assms(1) ids(1)] by (auto simp: sea_log_empty)
  then have "List.filter (\<lambda>r. sea_log es r \<noteq> []) ids = ids" by (simp add: filter_id_conv)
  with sea_records_logs [OF assms(1,2) ids(2)] ids(3) set_ids show ?thesis by auto
qed

text \<open>The filter on flow and status alone, without paging.\<close>

definition run_query :: "string option \<Rightarrow> run_status option \<Rightarrow> run_filter" where
  "run_query flow status =
     \<lparr>rf_flow_id = flow, rf_status = status, rf_version_id = None, rf_parent_run_id = None, rf_limit = None,
      rf_offset = None\<rparr>"

lemma page_of_query: "page_runs (page_of (run_query f s) runs) = runs"
  by (simp add: page_of_def run_query_def)

lemma mem_listed_writes: "mem_listed m \<Longrightarrow> mem_listed (mem_writes bs m)"
  unfolding mem_writes_def by (induction bs arbitrary: m) (simp_all add: mem_listed_write)

lemma mem_listed_new: "mem_listed mem_new"
  by (simp add: mem_listed_def mem_inv_def mem_new_def)

lemma sea_list_mem:
  assumes "run_table_laws T rows" "sea_state ej (rows d) es" "sea_list_runs ej T io d (run_query f s) = Inr page"
    and "mem_listed m" "\<And>r. mem_events m r = sea_log es r"
  shows "mset (page_runs page) = mset (page_runs (mem_list_runs m (run_query f s)))"
proof -
  let ?rec = "\<lambda>r. reconstruct_record r (sea_log es r)" and ?keys = "map fst (mem_store.ms_runs m)"
  obtain ids where ids: "distinct ids" "set ids = {r. sea_log es r \<noteq> []}"
    "page = page_of (run_query f s) (List.filter (filter_accepts (run_query f s)) (map ?rec ids))"
    using sea_list_runs_logs [OF assms(1-3)] by blast
  have keys: "map snd (mem_store.ms_runs m) = map ?rec ?keys" "set ?keys = {r. sea_log es r \<noteq> []}"
    using mem_runs_eq [OF assms(4)] by (auto simp only: assms(5))
  have "distinct ?keys" using assms(4) sorted_wrt_less_distinct by (auto simp: mem_listed_def bt_wf_def)
  then have "mset ids = mset ?keys" using ids(1,2) keys(2) set_eq_iff_mset_eq_distinct by metis
  then have "mset (List.filter P (map ?rec ids)) = mset (List.filter P (map ?rec ?keys))" for P
    by (simp only: mset_filter mset_map)
  moreover have "filter_accepts (run_query f s) =
      (\<lambda>r. opt_matches (rf_flow_id (run_query f s)) (rr_flow_id r) \<and> opt_matches (rf_status (run_query f s)) (rr_status r))"
    by (simp add: fun_eq_iff filter_accepts_def run_query_def opt_matches_def)
  ultimately show ?thesis unfolding ids(3) mem_list_runs_def page_of_query keys(1) by simp
qed

text \<open>
  (C28) Seven queries of the database store answer as those of the in-memory store: the event log of a
  run, its record, its node results, edge results, custom events and LLM records, and the listing of
  runs by flow and status without paging. If every batch is written again until a write succeeds,
  whatever inserts failed before or after they took effect, then each of these queries, when it
  succeeds, answers as the in-memory store does after the batches, each written once; the listing has
  the same records, in some order. The events written are read back from their JSON values as they
  were, and their numbers are less than \<open>2 ^ 63\<close> and differ within a run's part of a batch. Not covered
  are the queries that the two stores answer differently: \<open>get_node_detail\<close> for a node that runs
  twice (\<open>node_detail_diverges_on_cycles\<close>), the filters on version and parent run, which the in-memory
  store ignores, and pages of a listing. Neither store counts runs by version.
\<close>

theorem sea_store_agrees_with_memory:
  assumes "run_table_laws T rows" "rows d = []" "list_all (batch_ok ej) (map (snd \<circ> snd) hs)"
    and "sea_deliver ej T hs d = Some d'" "m = mem_writes (map (snd \<circ> snd) hs) mem_new"
  shows "(sea_read_events ej T io d' r = Inr es \<longrightarrow> es = mem_events m r)
    \<and> (sea_get_run ej T io d' r = Inr x \<longrightarrow> mem_get_run m r = Inr x)
    \<and> (sea_get_node_results ej T io d' r = Inr nrs \<longrightarrow> nrs = mem_get_node_results m r)
    \<and> (sea_get_edge_results ej T io d' r = Inr ers \<longrightarrow> ers = mem_get_edge_results m r)
    \<and> (sea_get_custom_events ej T io d' r = Inr ces \<longrightarrow> ces = mem_get_custom_events m r)
    \<and> (sea_get_llm_invocations ej T io d' r = Inr lis \<longrightarrow> lis = mem_get_llm_invocations m r)
    \<and> (sea_list_runs ej T ios d' (run_query f s) = Inr page \<longrightarrow>
        mset (page_runs page) = mset (page_runs (mem_list_runs m (run_query f s))))"
proof -
  have "sea_state ej (rows d) []" using assms(2) by (simp add: sea_state_def)
  from sea_deliver_state [OF assms(1) this _ assms(3,4) mem_inv_new]
  obtain es' where es': "sea_state ej (rows d') es'" "\<forall>r. mem_events m r = sea_log es' r"
    using assms(5) by (auto simp: sea_log_def of_run_def)
  have "mem_listed m" using mem_listed_writes mem_listed_new assms(5) by simp
  then have "mem_get_run m r = Inr (reconstruct_run r (sea_log es' r))"
    using mem.get_ok [of m r] es'(2) by (simp add: mem_listed_def mem_get_run_def)
  with es'(2) sea_list_mem [OF assms(1) es'(1) _ \<open>mem_listed m\<close>] show ?thesis
    by (auto simp: mem_queries sea_get_run_def sea_get_node_results_def sea_get_edge_results_def
        sea_get_custom_events_def sea_get_llm_invocations_def dest!: sea_read_events_log [OF assms(1) es'(1)])
qed

section \<open>Crash recovery\<close>

text \<open>The number \<open>u64::MAX\<close> of the synthetic completion is \<open>- 1\<close> in the table, which sorts before every
  other event of the run.\<close>

definition sea_recovery ::
  "event_json \<Rightarrow> ('io, 'd) run_table \<Rightarrow> (nat \<Rightarrow> 'io) \<times> (nat \<Rightarrow> nat \<Rightarrow> 'io \<times> datetime) \<times> (nat \<Rightarrow> datetime) \<Rightarrow> 'd \<Rightarrow> 'd" where
  "sea_recovery ej T outcomes =
     (case outcomes of (io, ios, now) \<Rightarrow>
        crash_recovery (\<lambda>outcome. sea_list_runs ej T (fst outcome)) (\<lambda>outcome. sea_write_batch ej T (snd outcome)) (io, ios 0)
          (\<lambda>n. (io, ios n)) now)"

definition is_mark :: "write_event \<Rightarrow> bool" where
  "is_mark e \<longleftrightarrow> (\<exists>r t. e = interrupted_event r t)"

definition marked :: "event_json \<Rightarrow> write_event list \<Rightarrow> run_event_row list \<Rightarrow> bool" where
  "marked ej es ms \<longleftrightarrow> (\<exists>marks. sea_state ej ms (es @ marks) \<and> list_all is_mark marks)"

lemma marked_write:
  assumes "run_table_laws T rows" "\<And>r t. sea_ok ej (interrupted_event r t)" "marked ej es (rows d)"
  shows "marked ej es (rows (snd (sea_write_batch ej T io [interrupted_event r t] d)))"
proof -
  let ?e = "interrupted_event r t"
  obtain marks where m: "sea_state ej (rows d) (es @ marks)" "list_all is_mark marks"
    using assms(3) by (auto simp: marked_def)
  obtain res d' where w: "sea_write_batch ej T io [?e] d = (res, d')" by force
  from sea_write_batch_state [OF assms(1) m(1) _ w] assms(2)
  obtain p q where p: "[?e] = p @ q" "sea_state ej (rows d') (fold add_event p (es @ marks))" by auto
  then have "fold add_event p (es @ marks) \<in> {es @ marks, es @ marks @ [?e]}"
    by (cases p) (auto simp: add_event_def)
  with p(2) have "sea_state ej (rows d') (es @ marks) \<or> sea_state ej (rows d') (es @ marks @ [?e])" by auto
  moreover have "list_all is_mark (marks @ [?e])" using m(2) by (auto simp: is_mark_def)
  ultimately have "marked ej es (rows d')" using m(2) unfolding marked_def by blast
  with w show ?thesis by simp
qed

lemma marked_recovery:
  assumes "run_table_laws T rows" "\<And>r t. sea_ok ej (interrupted_event r t)" "marked ej es (rows d)"
  shows "marked ej es (rows (fold (sea_recovery ej T) recoveries d))"
proof -
  have runs: "marked ej es (rows (mark_runs (\<lambda>outcome. sea_write_batch ej T (snd outcome)) ios now n runs d))"
    if "marked ej es (rows d)" for ios :: "nat \<Rightarrow> (nat \<Rightarrow> 'a) \<times> (nat \<Rightarrow> 'a \<times> datetime)" and now n runs d
    using that
    by (induction runs arbitrary: n d) (auto simp: mark_interrupted_def intro: marked_write [OF assms(1,2)])
  have "marked ej es (rows (sea_recovery ej T outcomes d))" if "marked ej es (rows d)" for outcomes d
    using that by (auto simp: sea_recovery_def crash_recovery_def runs split: prod.split sum.split)
  with assms(3) show ?thesis by (induction recoveries arbitrary: d) auto
qed

lemma marks_first:
  assumes "distinct (map ev_key (es @ marks))" "list_all small es" "list_all is_mark marks"
  shows "sea_log (es @ marks) r = of_run r marks @ sea_log es r"
proof (rule map_sorted_distinct_set_unique [of "\<lambda>e. as_i64 (ev_seq e)"])
  have m: "as_i64 (ev_seq e) = - 1" "ev_seq e = - 1" if "e \<in> set marks" for e
    using that assms(3) by (auto simp: list_all_iff is_mark_def)
  have s: "0 \<le> as_i64 (ev_seq e)" if "e \<in> set es" for e
    using that assms(2) by (simp add: small_def as_i64_small list_all_iff)
  have d: "distinct (map ev_seq (sea_log (es @ marks) r))"
    "distinct (map ev_seq (sea_log es r))" "distinct (map ev_seq (of_run r marks))"
    using assms(1) by (simp_all add: distinct_sea_log distinct_of_run)
  have inj: "distinct (map (\<lambda>e. as_i64 (ev_seq e)) xs)" if "distinct (map ev_seq xs)" for xs
    using that by (auto simp: distinct_map inj_on_def)
  show "sorted (map (\<lambda>e. as_i64 (ev_seq e)) (sea_log (es @ marks) r))" by (simp add: sea_log_def)
  show "distinct (map (\<lambda>e. as_i64 (ev_seq e)) (sea_log (es @ marks) r))" using d by (simp add: inj)
  have "map (\<lambda>e. as_i64 (ev_seq e)) (of_run r marks) = replicate (length (of_run r marks)) (- 1)"
    by (rule replicate_eqI) (auto simp: m(1))
  then show "sorted (map (\<lambda>e. as_i64 (ev_seq e)) (of_run r marks @ sea_log es r))"
    using m s by (force simp: sorted_append sea_log_def)
  show "distinct (map (\<lambda>e. as_i64 (ev_seq e)) (of_run r marks @ sea_log es r))"
    using inj [OF d(2)] inj [OF d(3)] m s by (fastforce simp del: as_i64_inj)
  show "inj_on (\<lambda>e. as_i64 (ev_seq e)) (set (sea_log (es @ marks) r) \<union> set (of_run r marks @ sea_log es r))"
    using d(1) by (auto simp: distinct_map inj_on_def)
qed auto

lemma status_cong:
  "rr_status x = rr_status y \<Longrightarrow> rr_status (fold apply_run_event es x) = rr_status (fold apply_run_event es y)"
proof (induction es arbitrary: x y)
  case (Cons e es)
  have "rr_status (apply_run_event e x) = rr_status (apply_run_event e y)" using Cons.prems by (cases e) simp_all
  from Cons.IH [OF this] show ?case by simp
qed simp

text \<open>A start resets the status, so what is before it does not count.\<close>

lemma status_from_start:
  "\<exists>e \<in> set es. event_type_of e = ''run_started'' \<Longrightarrow>
     rr_status (fold apply_run_event es x) = rr_status (fold apply_run_event es y)"
proof (induction es arbitrary: x y)
  case (Cons e es)
  show ?case
  proof (cases "event_type_of e = ''run_started''")
    case True
    then have "rr_status (apply_run_event e x) = rr_status (apply_run_event e y)" by (cases e) simp_all
    from status_cong [OF this] show ?thesis by simp
  next
    case False
    with Cons.prems have "\<exists>e \<in> set es. event_type_of e = ''run_started''" by auto
    from Cons.IH [OF this] show ?thesis by simp
  qed
qed simp

text \<open>
  (C27) Crash recovery does nothing on the database store: however often the engine recovers, whatever
  statements fail, a run that has been started keeps the status it had, so that a running run is
  reported as running after every recovery.
\<close>

theorem sea_recovery_keeps_status:
  assumes "run_table_laws T rows" "sea_state ej (rows d) es" "list_all small es"
    and "\<And>r t. sea_ok ej (interrupted_event r t)"
    and "\<exists>e \<in> set es. ev_run_id e = r \<and> event_type_of e = ''run_started''"
    and "sea_get_run ej T io (fold (sea_recovery ej T) recoveries d) r = Inr x"
  shows "\<exists>record. x = Some record \<and> rr_status record = rr_status (reconstruct_record r (sea_log es r))"
proof -
  have "marked ej es (rows d)" using assms(2) by (auto simp: marked_def intro!: exI [of _ "[]"])
  from marked_recovery [OF assms(1,4) this, of recoveries]
  obtain marks where m: "sea_state ej (rows (fold (sea_recovery ej T) recoveries d)) (es @ marks)" "list_all is_mark marks"
    by (auto simp: marked_def)
  have "x = reconstruct_run r (sea_log (es @ marks) r)"
    using assms(6) sea_read_events_log [OF assms(1) m(1)] by (auto simp: sea_get_run_def)
  also have "sea_log (es @ marks) r = of_run r marks @ sea_log es r"
    using m assms(3) by (intro marks_first) (simp_all add: sea_state_def)
  finally have "x = Some (reconstruct_record r (of_run r marks @ sea_log es r))"
    using assms(5) by (auto simp: reconstruct_run_def sea_log_empty)
  moreover have "rr_status (reconstruct_record r (of_run r marks @ sea_log es r)) = rr_status (reconstruct_record r (sea_log es r))"
    unfolding reconstruct_record_def fold_append comp_def using assms(5) by (intro status_from_start) auto
  ultimately show ?thesis by blast
qed

section \<open>Witnesses\<close>

text \<open>A table that is its rows, with statements that fail on demand, and the JSON values of two kinds of
  events.\<close>

definition demo_run_table :: "(bool, run_event_row list) run_table" where
  "demo_run_table =
     \<lparr>rt_insert = (\<lambda>fails row d. if fails then (Inl ''down'', d) else (Inr (), insert_row row d)),
      rt_select = (\<lambda>fails r d. if fails then Inl ''down''
        else Inr (sort_key re_seq (List.filter (\<lambda>m. re_run_id m = r) d))),
      rt_run_ids = (\<lambda>fails d. if fails then Inl ''down'' else Inr (remdups (map re_run_id d)))\<rparr>"

fun demo_encode :: "write_event \<Rightarrow> (string, json) result" where
  "demo_encode (RunCompleted s v r st dur summary t) =
     (if RunCompleted s v r st dur summary t = interrupted_event r t
      then Inr (JArray [JString r, JBool (0 \<le> t), JArray (replicate (nat \<bar>t\<bar>) JNull)]) else Inl ''unsupported'')"
| "demo_encode e = (if e = log_demo_started then Inr (JString ''start'') else Inl ''unsupported'')"

fun demo_decode :: "json \<Rightarrow> (string, write_event) result" where
  "demo_decode (JArray [JString r, JBool b, JArray ts]) =
     Inr (interrupted_event r (if b then int (length ts) else - int (length ts)))"
| "demo_decode (JString s) = Inr log_demo_started"
| "demo_decode _ = Inl ''unsupported''"

definition demo_event_json :: event_json where
  "demo_event_json = \<lparr>ej_to_value = demo_encode, ej_from_value = demo_decode\<rparr>"

definition demo_rows :: "run_event_row list" where
  "demo_rows = [row_of_event 4 (JString ''start'') log_demo_started]"

lemma demo_run_table_laws: "run_table_laws demo_run_table (\<lambda>d. d)"
  by (auto simp: run_table_laws_def demo_run_table_def)

lemma demo_marks_ok: "sea_ok demo_event_json (interrupted_event r t)"
  by (simp add: sea_ok_def demo_event_json_def interrupted_event_def)

lemma demo_started: "small log_demo_started" "sea_ok demo_event_json log_demo_started"
  "ev_run_id log_demo_started = ''r''" "event_type_of log_demo_started = ''run_started''"
  by (simp_all add: small_def sea_ok_def demo_event_json_def log_demo_started_def)

lemma demo_rows_state: "sea_state demo_event_json demo_rows [log_demo_started]"
  by (simp add: sea_state_def demo_rows_def row_stores_def row_of_event_def demo_event_json_def)

theorem sea_recovery_keeps_status_witness:
  "\<exists>record. sea_get_run demo_event_json demo_run_table False
       (sea_recovery demo_event_json demo_run_table (\<lambda>_. False, \<lambda>_ _. (False, 6), \<lambda>_. 6) demo_rows) ''r'' = Inr (Some record)
     \<and> rr_status record = Running"
proof -
  let ?d = "fold (sea_recovery demo_event_json demo_run_table) [(\<lambda>_. False, \<lambda>_ _. (False, 6), \<lambda>_. 6)] demo_rows"
  have "\<not> isl (sea_get_run demo_event_json demo_run_table False ?d ''r'')" by code_simp
  then obtain x where x: "sea_get_run demo_event_json demo_run_table False ?d ''r'' = Inr x"
    by (auto simp: isl_def) (metis sum.exhaust)
  have "\<exists>record. x = Some record \<and> rr_status record = rr_status (reconstruct_record ''r'' (sea_log [log_demo_started] ''r''))"
    by (rule sea_recovery_keeps_status [OF demo_run_table_laws demo_rows_state _ demo_marks_ok _ x])
       (simp_all add: demo_started)
  moreover have "rr_status (reconstruct_record ''r'' (sea_log [log_demo_started] ''r'')) = Running" by code_simp
  ultimately show ?thesis using x by auto
qed

theorem sea_store_agrees_with_memory_witness:
  "\<exists>d'. sea_deliver demo_event_json demo_run_table [([\<lambda>_. (True, 3)], \<lambda>_. (False, 4), [log_demo_started])] [] = Some d'
     \<and> sea_read_events demo_event_json demo_run_table False d' ''r'' =
         Inr (mem_events (mem_writes [[log_demo_started]] mem_new) ''r'')"
proof -
  let ?hs = "[([\<lambda>_. (True, 3)], \<lambda>_. (False, 4), [log_demo_started])]"
  have d: "sea_deliver demo_event_json demo_run_table ?hs [] = Some demo_rows" by code_simp
  have "\<not> isl (sea_read_events demo_event_json demo_run_table False demo_rows ''r'')" by code_simp
  then obtain es where es: "sea_read_events demo_event_json demo_run_table False demo_rows ''r'' = Inr es"
    by (auto simp: isl_def) (metis sum.exhaust)
  have "list_all (batch_ok demo_event_json) (map (snd \<circ> snd) ?hs)" by (simp add: batch_ok_def demo_started)
  from sea_store_agrees_with_memory [OF demo_run_table_laws _ this d refl, of False "''r''" es] es d
  show ?thesis by simp
qed

text \<open>A batch is not written as a whole: when its second insert fails, the first event is stored.\<close>

theorem sea_batch_partial:
  "sea_write_batch demo_event_json demo_run_table (\<lambda>n. (n = 1, 4)) [log_demo_started, interrupted_event ''r'' 6] [] =
     (Inl (RunStoreError ''down''), demo_rows)"
  by code_simp

end
