(* ===== verification/Seaorm_Flow_Store.thy ===== *)
theory Seaorm_Flow_Store
  imports Tag_Store "HOL-Library.Product_Lexorder"
begin

text \<open>
  The flow store and the tag store of the crate \<open>cleargate-storage-oss\<close> (\<open>stores/seaorm_flow_store.rs\<close>,
  \<open>stores/seaorm_tag_store.rs\<close>).  The tables are parameters: their statements with what they are
  documented to do, the precision in which their columns keep a time, and the JSON values of graphs.  The
  stores keep the contracts that the file stores keep (locales \<open>flow_store\<close> and \<open>tag_store\<close>), so that what
  is proved from the contracts holds of them, and a page of the history of a flow is the one the file store
  gives, up to that precision.
\<close>

section \<open>The tables\<close>

text \<open>\<open>models/flow_version.rs\<close>.  The rows of the tables \<open>flow_head\<close> and \<open>flow_tag\<close> have the fields of
  \<open>FlowHead\<close> and \<open>FlowTag\<close>.  A time is stored without its zone, which is always UTC.\<close>

record version_row =
  vr_version_id :: string
  vr_flow_id :: string
  vr_graph :: json
  vr_created_at :: datetime
  vr_created_by :: "string option"
  vr_message :: "string option"

text \<open>Insert unless the version exists; insert or overwrite; find by primary key; a page of the versions of
  a flow, newest first; all heads.\<close>

record ('io, 'd) flow_tables =
  tb_insert_version :: "'io \<Rightarrow> version_row \<Rightarrow> 'd \<Rightarrow> (string, unit) result \<times> 'd"
  tb_upsert_head :: "'io \<Rightarrow> flow_head \<Rightarrow> 'd \<Rightarrow> (string, unit) result \<times> 'd"
  tb_find_head :: "'io \<Rightarrow> string \<Rightarrow> 'd \<Rightarrow> (string, flow_head option) result"
  tb_find_version :: "'io \<Rightarrow> string \<Rightarrow> 'd \<Rightarrow> (string, version_row option) result"
  tb_select_versions :: "'io \<Rightarrow> string \<Rightarrow> nat \<Rightarrow> nat \<Rightarrow> 'd \<Rightarrow> (string, version_row list) result"
  tb_all_heads :: "'io \<Rightarrow> 'd \<Rightarrow> (string, flow_head list) result"

record graph_json =
  gj_to_value :: "graph_def \<Rightarrow> (string, json) result"
  gj_from_value :: "json \<Rightarrow> (string, graph_def) result"

section \<open>The flow store\<close>

definition model_to_head :: "flow_head \<Rightarrow> flow_head" where
  "model_to_head m =
     \<lparr>fh_flow_id = fh_flow_id m, fh_name = fh_name m, fh_current_version_id = fh_current_version_id m,
      fh_updated_at = fh_updated_at m\<rparr>"

definition model_to_version :: "graph_json \<Rightarrow> version_row \<Rightarrow> (flow_store_error, flow_version) result" where
  "model_to_version gj m =
     and_then (map_err FlowStoreError (gj_from_value gj (vr_graph m))) (\<lambda>graph.
       Inr \<lparr>fv_version_id = vr_version_id m, fv_flow_id = vr_flow_id m, fv_graph = graph,
            fv_created_at = vr_created_at m, fv_created_by = vr_created_by m, fv_message = vr_message m\<rparr>)"

definition version_model :: "json \<Rightarrow> flow_version \<Rightarrow> version_row" where
  "version_model graph_json version =
     \<lparr>vr_version_id = fv_version_id version, vr_flow_id = fv_flow_id version, vr_graph = graph_json,
      vr_created_at = fv_created_at version, vr_created_by = fv_created_by version, vr_message = fv_message version\<rparr>"

definition sea_put_version ::
  "graph_json \<Rightarrow> ('io, 'd) flow_tables \<Rightarrow> 'io \<Rightarrow> flow_version \<Rightarrow> 'd \<Rightarrow> (flow_store_error, unit) result \<times> 'd" where
  "sea_put_version gj T io version d =
     (case gj_to_value gj (fv_graph version) of
        Inl e \<Rightarrow> (Inl (FlowStoreError e), d)
      | Inr graph \<Rightarrow>
          (case tb_insert_version T io (version_model graph version) d of (res, d1) \<Rightarrow> (map_err FlowStoreError res, d1)))"

definition sea_put_head ::
  "('io, 'd) flow_tables \<Rightarrow> 'io \<Rightarrow> flow_head \<Rightarrow> 'd \<Rightarrow> (flow_store_error, unit) result \<times> 'd" where
  "sea_put_head T io head d = (case tb_upsert_head T io head d of (res, d1) \<Rightarrow> (map_err FlowStoreError res, d1))"

definition sea_get_head ::
  "('io, 'd) flow_tables \<Rightarrow> 'io \<Rightarrow> string \<Rightarrow> 'd \<Rightarrow> (flow_store_error, flow_head option) result" where
  "sea_get_head T io flow_id d =
     and_then (map_err FlowStoreError (tb_find_head T io flow_id d)) (\<lambda>m. Inr (map_option model_to_head m))"

definition sea_get_version ::
  "graph_json \<Rightarrow> ('io, 'd) flow_tables \<Rightarrow> 'io \<Rightarrow> string \<Rightarrow> 'd \<Rightarrow> (flow_store_error, flow_version option) result" where
  "sea_get_version gj T io version_id d =
     and_then (map_err FlowStoreError (tb_find_version T io version_id d)) (\<lambda>m.
       case m of None \<Rightarrow> Inr None | Some m \<Rightarrow> and_then (model_to_version gj m) (\<lambda>v. Inr (Some v)))"

fun models_to_versions :: "graph_json \<Rightarrow> version_row list \<Rightarrow> (flow_store_error, flow_version list) result" where
  "models_to_versions gj [] = Inr []"
| "models_to_versions gj (m # models) =
     and_then (model_to_version gj m) (\<lambda>v. and_then (models_to_versions gj models) (\<lambda>vs. Inr (v # vs)))"

definition sea_list_versions ::
  "graph_json \<Rightarrow> ('io, 'd) flow_tables \<Rightarrow> 'io \<Rightarrow> string \<Rightarrow> nat \<Rightarrow> nat \<Rightarrow> 'd \<Rightarrow> (flow_store_error, flow_version list) result" where
  "sea_list_versions gj T io flow_id limit offset d =
     and_then (map_err FlowStoreError (tb_select_versions T io flow_id offset limit d)) (models_to_versions gj)"

definition sea_list_flows :: "('io, 'd) flow_tables \<Rightarrow> 'io \<Rightarrow> 'd \<Rightarrow> (flow_store_error, flow_head list) result" where
  "sea_list_flows T io d =
     and_then (map_err FlowStoreError (tb_all_heads T io d)) (\<lambda>models. Inr (map model_to_head models))"

text \<open>The two reads have their own outcomes.\<close>

definition sea_get_versions_for_diff ::
  "graph_json \<Rightarrow> ('io, 'd) flow_tables \<Rightarrow> 'io \<Rightarrow> 'io \<Rightarrow> string \<Rightarrow> string \<Rightarrow> 'd \<Rightarrow>
     (flow_store_error, flow_version \<times> flow_version) result" where
  "sea_get_versions_for_diff gj T io1 io2 a b d =
     and_then (sea_get_version gj T io1 a d) (\<lambda>oa.
     and_then (ok_or oa (FlowNotFoundErr a)) (\<lambda>va.
     and_then (sea_get_version gj T io2 b d) (\<lambda>ob.
     and_then (ok_or ob (FlowNotFoundErr b)) (\<lambda>vb. Inr (va, vb)))))"

text \<open>The outcomes of one call of a service of \<open>versioning.rs\<close>, by the statement they belong to.\<close>

record 'io flow_io =
  fi_find_version :: 'io
  fi_insert_version :: 'io
  fi_upsert_head :: 'io
  fi_find_head :: 'io
  fi_list_versions :: 'io

definition sea_flow_store :: "graph_json \<Rightarrow> ('io, 'd) flow_tables \<Rightarrow> ('io flow_io, 'd) flow_store_ops" where
  "sea_flow_store gj T =
     \<lparr>fso_put_version = (\<lambda>io. sea_put_version gj T (fi_insert_version io)),
      fso_put_head = (\<lambda>io. sea_put_head T (fi_upsert_head io)),
      fso_get_head = (\<lambda>io. sea_get_head T (fi_find_head io)),
      fso_get_version = (\<lambda>io. sea_get_version gj T (fi_find_version io)),
      fso_list_versions = (\<lambda>io. sea_list_versions gj T (fi_list_versions io))\<rparr>"

section \<open>What the flow tables do\<close>

text \<open>
  The versions and the heads by primary key.  A statement that reports an error may still have taken
  effect.  A column keeps a time as \<open>rnd\<close> gives it (microseconds in Postgres, where the clock and the files
  have nanoseconds); rounding keeps the order of times, but may identify them.  Version ids are
  hexadecimal digests, which every collation orders as the bytes do.
\<close>

definition row_age :: "version_row \<Rightarrow> datetime \<times> string" where
  "row_age m = (vr_created_at m, vr_version_id m)"

definition at_row :: "(datetime \<Rightarrow> datetime) \<Rightarrow> version_row \<Rightarrow> version_row" where
  "at_row rnd m = m\<lparr>vr_created_at := rnd (vr_created_at m)\<rparr>"

definition at_version :: "(datetime \<Rightarrow> datetime) \<Rightarrow> flow_version \<Rightarrow> flow_version" where
  "at_version rnd v = v\<lparr>fv_created_at := rnd (fv_created_at v)\<rparr>"

definition at_head :: "(datetime \<Rightarrow> datetime) \<Rightarrow> flow_head \<Rightarrow> flow_head" where
  "at_head rnd h = h\<lparr>fh_updated_at := rnd (fh_updated_at h)\<rparr>"

definition insert_version_law ::
  "(datetime \<Rightarrow> datetime) \<Rightarrow> ('io, 'd) flow_tables \<Rightarrow> ('d \<Rightarrow> string \<Rightarrow> version_row option) \<Rightarrow> ('d \<Rightarrow> 'h) \<Rightarrow> bool" where
  "insert_version_law rnd T vs hs \<longleftrightarrow> (\<forall>io m d res d'. tb_insert_version T io m d = (res, d') \<longrightarrow> hs d' = hs d \<and>
     (vs d' = (if vs d (vr_version_id m) = None then (vs d)(vr_version_id m \<mapsto> at_row rnd m) else vs d)
      \<or> res \<noteq> Inr () \<and> vs d' = vs d))"

definition upsert_head_law ::
  "(datetime \<Rightarrow> datetime) \<Rightarrow> ('io, 'd) flow_tables \<Rightarrow> ('d \<Rightarrow> 'v) \<Rightarrow> ('d \<Rightarrow> string \<Rightarrow> flow_head option) \<Rightarrow> bool" where
  "upsert_head_law rnd T vs hs \<longleftrightarrow> (\<forall>io h d res d'. tb_upsert_head T io h d = (res, d') \<longrightarrow> vs d' = vs d \<and>
     (hs d' = (hs d)(fh_flow_id h \<mapsto> at_head rnd h) \<or> res \<noteq> Inr () \<and> hs d' = hs d))"

definition select_versions_law :: "('io, 'd) flow_tables \<Rightarrow> ('d \<Rightarrow> string \<Rightarrow> version_row option) \<Rightarrow> bool" where
  "select_versions_law T vs \<longleftrightarrow> (\<forall>io f offset limit d ms. tb_select_versions T io f offset limit d = Inr ms \<longrightarrow>
     (\<exists>L. distinct L \<and> set L = {m \<in> ran (vs d). vr_flow_id m = f} \<and> sorted (rev (map row_age L))
        \<and> ms = take limit (drop offset L)))"

definition flow_table_laws ::
  "(datetime \<Rightarrow> datetime) \<Rightarrow> ('io, 'd) flow_tables \<Rightarrow> ('d \<Rightarrow> string \<Rightarrow> version_row option)
   \<Rightarrow> ('d \<Rightarrow> string \<Rightarrow> flow_head option) \<Rightarrow> bool" where
  "flow_table_laws rnd T vs hs \<longleftrightarrow> mono rnd
     \<and> (\<forall>d k m. vs d k = Some m \<longrightarrow> vr_version_id m = k)
     \<and> insert_version_law rnd T vs hs \<and> upsert_head_law rnd T vs hs \<and> select_versions_law T vs
     \<and> (\<forall>io k d x. tb_find_version T io k d = Inr x \<longrightarrow> vs d k = x)
     \<and> (\<forall>io k d y. tb_find_head T io k d = Inr y \<longrightarrow> hs d k = y)
     \<and> (\<forall>io d ms. tb_all_heads T io d = Inr ms \<longrightarrow> distinct ms \<and> set ms = ran (hs d))"

lemma find_laws:
  assumes "flow_table_laws rnd T vs hs"
  shows "mono rnd"
    and "tb_find_version T io k d = Inr x \<Longrightarrow> vs d k = x"
    and "tb_find_head T io k d = Inr y \<Longrightarrow> hs d k = y"
    and "vs d k = Some m \<Longrightarrow> vr_version_id m = k"
  using assms by (simp_all add: flow_table_laws_def)

lemma insert_version_effect:
  "flow_table_laws rnd T vs hs \<Longrightarrow> tb_insert_version T io m d = (res, d') \<Longrightarrow> hs d' = hs d \<and>
     (vs d' = (if vs d (vr_version_id m) = None then (vs d)(vr_version_id m \<mapsto> at_row rnd m) else vs d)
      \<or> res \<noteq> Inr () \<and> vs d' = vs d)"
  unfolding flow_table_laws_def insert_version_law_def [of rnd T vs hs] by blast

lemma upsert_head_effect:
  "flow_table_laws rnd T vs hs \<Longrightarrow> tb_upsert_head T io h d = (res, d') \<Longrightarrow> vs d' = vs d \<and>
     (hs d' = (hs d)(fh_flow_id h \<mapsto> at_head rnd h) \<or> res \<noteq> Inr () \<and> hs d' = hs d)"
  unfolding flow_table_laws_def upsert_head_law_def [of rnd T vs hs] by blast

lemma select_versions_rows:
  "flow_table_laws rnd T vs hs \<Longrightarrow> tb_select_versions T io f offset limit d = Inr ms \<Longrightarrow>
     \<exists>L. distinct L \<and> set L = {m \<in> ran (vs d). vr_flow_id m = f} \<and> sorted (rev (map row_age L)) \<and> ms = take limit (drop offset L)"
  unfolding flow_table_laws_def select_versions_law_def [of T vs] by blast

section \<open>The contract of a flow store\<close>

definition graph_ok :: "graph_json \<Rightarrow> flow_version \<Rightarrow> bool" where
  "graph_ok gj v \<longleftrightarrow>
     (case gj_to_value gj (fv_graph v) of Inl _ \<Rightarrow> True | Inr j \<Rightarrow> gj_from_value gj j = Inr (fv_graph v))"

definition row_version :: "graph_json \<Rightarrow> version_row \<Rightarrow> flow_version option" where
  "row_version gj m = (case model_to_version gj m of Inl _ \<Rightarrow> None | Inr v \<Rightarrow> Some v)"

definition sea_versions :: "graph_json \<Rightarrow> (string \<Rightarrow> version_row option) \<Rightarrow> string \<Rightarrow> flow_version option" where
  "sea_versions gj ms k = Option.bind (ms k) (row_version gj)"

definition rows_parse :: "graph_json \<Rightarrow> (string \<Rightarrow> version_row option) \<Rightarrow> bool" where
  "rows_parse gj ms \<longleftrightarrow> (\<forall>m \<in> ran ms. row_version gj m \<noteq> None)"

lemma model_to_version_model:
  "gj_from_value gj j = Inr (fv_graph v) \<Longrightarrow> model_to_version gj (version_model j v) = Inr v"
  by (cases v) (simp add: model_to_version_def version_model_def)

lemma model_to_head_same [simp]: "model_to_head h = h"
  by (cases h) (simp add: model_to_head_def)

lemma sea_versions_put:
  assumes "rows_parse gj ms" "row_version gj m = Some v"
  shows "rows_parse gj (ms(k \<mapsto> m))" "sea_versions gj (ms(k \<mapsto> m)) = (sea_versions gj ms)(k \<mapsto> v)"
  using assms by (auto simp: rows_parse_def sea_versions_def ran_def)

lemma sea_versions_free: "rows_parse gj ms \<Longrightarrow> sea_versions gj ms k = None \<longleftrightarrow> ms k = None"
  by (cases "ms k") (auto simp: rows_parse_def sea_versions_def ran_def)

lemma row_version_at: "row_version gj m = Some v \<Longrightarrow> row_version gj (at_row rnd m) = Some (at_version rnd v)"
  by (auto simp: row_version_def model_to_version_def at_row_def at_version_def split: sum.splits)

lemma at_simps [simp]:
  "fv_version_id (at_version rnd v) = fv_version_id v" "fv_graph (at_version rnd v) = fv_graph v"
  "fv_flow_id (at_version rnd v) = fv_flow_id v" "fv_created_at (at_version rnd v) = rnd (fv_created_at v)"
  "fh_flow_id (at_head rnd h) = fh_flow_id h" "fh_current_version_id (at_head rnd h) = fh_current_version_id h"
  by (simp_all add: at_version_def at_head_def)

lemma sea_put_version_effect:
  assumes "flow_table_laws rnd T vs hs" "rows_parse gj (vs d)" "graph_ok gj v"
    and "sea_put_version gj T io v d = (res, d')"
  shows "rows_parse gj (vs d') \<and> hs d' = hs d
    \<and> sea_versions gj (vs d') \<in> {sea_versions gj (vs d), (sea_versions gj (vs d))(fv_version_id v \<mapsto> at_version rnd v)}
    \<and> (res = Inr () \<longrightarrow> sea_versions gj (vs d') (fv_version_id v) \<noteq> None)"
proof (cases "gj_to_value gj (fv_graph v)")
  case (Inl e)
  with assms(2,4) show ?thesis by (auto simp: sea_put_version_def)
next
  case (Inr j)
  let ?m = "version_model j v"
  have id: "vr_version_id ?m = fv_version_id v" by (simp add: version_model_def)
  have row: "row_version gj (at_row rnd ?m) = Some (at_version rnd v)"
    using assms(3) Inr by (intro row_version_at) (simp add: graph_ok_def row_version_def model_to_version_model)
  obtain r where r: "tb_insert_version T io ?m d = (r, d')" "res = map_err FlowStoreError r"
    using assms(4) Inr by (auto simp: sea_put_version_def split: prod.splits)
  from insert_version_effect [OF assms(1) r(1)] id
  have "hs d' = hs d" and "vs d' = (vs d)(fv_version_id v \<mapsto> at_row rnd ?m) \<or> vs d' = vs d \<and> vs d (fv_version_id v) \<noteq> None
      \<or> r \<noteq> Inr () \<and> vs d' = vs d"
    by (auto split: if_splits)
  with sea_versions_put [OF assms(2) row, of "fv_version_id v"] sea_versions_free [OF assms(2), of "fv_version_id v"]
    assms(2) r(2)
  show ?thesis by (cases r) auto
qed

text \<open>The database keeps the contract of a flow store, if its JSON values of graphs read back.\<close>

lemma sea_flow_contract:
  assumes "flow_table_laws rnd T vs hs"
  shows "flow_store (sea_flow_store gj T) (\<lambda>d. rows_parse gj (vs d)) (graph_ok gj) (\<lambda>_. True)
    (\<lambda>d. sea_versions gj (vs d)) hs (\<lambda>_. True) (at_version rnd) (at_head rnd)"
proof -
  have head: "rows_parse gj (vs d') \<and> sea_versions gj (vs d') = sea_versions gj (vs d) \<and>
      (hs d' = (hs d)(fh_flow_id h \<mapsto> at_head rnd h) \<or> res \<noteq> Inr () \<and> hs d' = hs d)"
    if parse: "rows_parse gj (vs d)" and put: "sea_put_head T io h d = (res, d')" for d io h res d'
  proof -
    obtain r where r: "tb_upsert_head T io h d = (r, d')" "res = map_err FlowStoreError r"
      using put by (auto simp: sea_put_head_def split: prod.splits)
    from upsert_head_effect [OF assms r(1)] r(2) parse show ?thesis by (cases r) auto
  qed
  have read: "sea_versions gj (vs d) k = x" if "sea_get_version gj T io k d = Inr x" for io k d x
    using that by (auto simp: sea_get_version_def sea_versions_def row_version_def map_err_Ok
        dest!: find_laws(2) [OF assms] split: option.splits)
  have read_head: "hs d k = y" if "sea_get_head T io k d = Inr y" for io k d y
    using that by (cases y) (auto simp: sea_get_head_def map_err_Ok dest!: find_laws(3) [OF assms])
  show ?thesis
  proof (rule flow_store.intro, goal_cases)
    case (5 d v io res d')
    then show ?case by (intro sea_put_version_effect [OF assms]) (simp_all add: sea_flow_store_def)
  next
    case (6 d h io res d')
    then show ?case by (intro head) (simp_all add: sea_flow_store_def)
  qed (simp_all add: sea_flow_store_def read read_head)
qed

section \<open>Histories\<close>

text \<open>Two stable sorts sort by both keys.\<close>

lemma insort_by_keys:
  assumes "sorted (map (\<lambda>x. (f x, g x)) xs)" "\<forall>x \<in> set xs. g y \<le> g x"
  shows "sorted (map (\<lambda>x. (f x, g x)) (insort_key f y xs))"
  using assms by (induction xs) (auto simp: less_eq_prod_simp set_insort_key intro: less_imp_le)

lemma sort_by_keys: "sorted (map g xs) \<Longrightarrow> sorted (map (\<lambda>x. (f x, g x)) (sort_key f xs))"
  by (induction xs) (auto intro: insort_by_keys)

definition version_age :: "flow_version \<Rightarrow> datetime \<times> string" where
  "version_age v = (fv_created_at v, fv_version_id v)"

lemma newest_first_sorted: "sorted (rev (map version_age (newest_first vs)))"
  unfolding newest_first_def version_age_def rev_map [symmetric] rev_rev_ident by (rule sort_by_keys) simp

lemma newest_first_set [simp]: "set (newest_first vs) = set vs" "mset (newest_first vs) = mset vs"
  by (simp_all add: newest_first_def)

lemma newest_first_unique:
  assumes "distinct (map fv_version_id vs)" "distinct (map fv_version_id L)" "set L = set vs" "sorted (rev (map version_age L))"
  shows "newest_first vs = L"
proof -
  have inj: "inj_on version_age (set L)" and d: "distinct (map version_age L)"
    using assms(2) by (auto simp: distinct_map inj_on_def version_age_def)
  have "mset (map fv_version_id (newest_first vs)) = mset (map fv_version_id vs)" by simp
  then have "distinct (map fv_version_id (newest_first vs))" using assms(1) by (metis mset_eq_imp_distinct_iff)
  then have d': "distinct (map version_age (newest_first vs))"
    by (auto simp: distinct_map inj_on_def version_age_def)
  have "rev (newest_first vs) = rev L"
    using inj d d' newest_first_sorted [of vs] assms(3,4)
    by (intro map_sorted_distinct_set_unique [of version_age]) (auto simp: rev_map [symmetric])
  then show ?thesis by simp
qed

lemma models_to_versions_map:
  "models_to_versions gj ms = Inr vs \<Longrightarrow> map (row_version gj) ms = map Some vs"
  by (induction ms arbitrary: vs) (auto simp: row_version_def)

lemma row_version_fields:
  "row_version gj m = Some v \<Longrightarrow> fv_version_id v = vr_version_id m \<and> fv_flow_id v = vr_flow_id m \<and> version_age v = row_age m"
  by (auto simp: row_version_def model_to_version_def version_age_def row_age_def split: sum.splits)

text \<open>A page of the history is cut from the versions of the flow, newest first.\<close>

lemma sea_list_versions_page:
  assumes "flow_table_laws rnd T vs hs" "rows_parse gj (vs d)" "sea_list_versions gj T io f limit offset d = Inr page"
    and "distinct (map fv_version_id all)" "set all = {v \<in> ran (sea_versions gj (vs d)). fv_flow_id v = f}"
  shows "page = take limit (drop offset (newest_first all))"
proof -
  obtain ms where ms: "tb_select_versions T io f offset limit d = Inr ms" "models_to_versions gj ms = Inr page"
    using assms(3) by (auto simp: sea_list_versions_def map_err_Ok)
  obtain L where L: "distinct L" "set L = {m \<in> ran (vs d). vr_flow_id m = f}" "sorted (rev (map row_age L))"
      "ms = take limit (drop offset L)"
    using select_versions_rows [OF assms(1) ms(1)] by blast
  let ?v = "\<lambda>m. the (row_version gj m)"
  have row: "row_version gj m = Some (?v m)" if "m \<in> set L" for m
    using that L(2) assms(2) by (auto simp: rows_parse_def)
  have key: "vs d (vr_version_id m) = Some m" if "m \<in> set L" for m
    using that L(2) find_laws(4) [OF assms(1)] by (auto simp: ran_def)
  have "map the (map (row_version gj) ms) = map the (map Some page)" using models_to_versions_map [OF ms(2)] by simp
  then have "page = map ?v ms" by (simp add: comp_def)
  then have page: "page = take limit (drop offset (map ?v L))" by (simp add: L(4) take_map drop_map)
  have "map fv_version_id (map ?v L) = map vr_version_id L" "map version_age (map ?v L) = map row_age L"
    using row_version_fields [OF row] by auto
  moreover have "inj_on vr_version_id (set L)"
    by (rule inj_on_inverseI [where g = "\<lambda>k. the (vs d k)"]) (simp add: key)
  then have "distinct (map vr_version_id L)" using L(1) by (simp add: distinct_map)
  moreover have "set (map ?v L) = set all"
  proof (intro set_eqI iffI)
    fix v
    assume "v \<in> set (map ?v L)"
    then obtain m where m: "m \<in> set L" "v = ?v m" by auto
    then have "sea_versions gj (vs d) (vr_version_id m) = Some v" using key row by (simp add: sea_versions_def)
    with m row_version_fields [OF row [OF m(1)]] L(2) show "v \<in> set all" unfolding assms(5) by (auto intro: ranI)
  next
    fix v
    assume "v \<in> set all"
    then obtain k m where m: "vs d k = Some m" "row_version gj m = Some v" "fv_flow_id v = f"
      unfolding assms(5) by (auto simp: ran_def sea_versions_def Option.bind_eq_Some_conv)
    with row_version_fields [OF m(2)] have "m \<in> set L" unfolding L(2) by (auto intro: ranI)
    with m(2) show "v \<in> set (map ?v L)" by (force intro: image_eqI)
  qed
  ultimately have "newest_first all = map ?v L"
    using assms(4) L(3) by (intro newest_first_unique) (simp_all only:)
  with page show ?thesis by simp
qed

section \<open>Interchangeable stores\<close>

text \<open>What a successful save does to versions and heads, in whatever form a store keeps them.\<close>

fun save_spec ::
  "(flow_version \<Rightarrow> flow_version) \<Rightarrow> (flow_head \<Rightarrow> flow_head) \<Rightarrow> 'h hash_lib \<Rightarrow> 'io save_request
   \<Rightarrow> (string \<Rightarrow> flow_version option) \<times> (string \<Rightarrow> flow_head option)
   \<Rightarrow> (string \<Rightarrow> flow_version option) \<times> (string \<Rightarrow> flow_head option)" where
  "save_spec kv kh lib rq (V, H) =
     (if V (compute_version_id lib (rq_graph rq)) = None
      then (V(compute_version_id lib (rq_graph rq) \<mapsto> kv (version_of lib rq)), H(rq_flow_id rq \<mapsto> kh (head_of lib rq)))
      else (V, H))"

fun saves_ok :: "'h hash_lib \<Rightarrow> ('io, 's) flow_store_ops \<Rightarrow> 'io save_request list \<Rightarrow> 's \<Rightarrow> 's option" where
  "saves_ok lib ops [] s = Some s"
| "saves_ok lib ops (rq # rqs) s =
     (case save_with lib ops rq s of (Inr _, s1) \<Rightarrow> saves_ok lib ops rqs s1 | (Inl _, _) \<Rightarrow> None)"

lemma saves_ok_fold: "saves_ok lib ops rqs s = Some s' \<Longrightarrow> s' = fold (\<lambda>rq s. snd (save_with lib ops rq s)) rqs s"
  by (induction rqs arbitrary: s) (auto split: prod.splits sum.splits)

context flow_store
begin

lemma save_refines_spec:
  assumes "inv s" "okv (version_of lib rq)" "okh (head_of lib rq)" "truthful (rq_io rq)"
    and "save_with lib ops rq s = (Inr v, s')"
  shows "inv s' \<and> (vers s', heads s') = save_spec keepv keeph lib rq (vers s, heads s)"
  using save_effect [OF assms(1) _ _ assms(5) [unfolded save_with_def]] assms(2,3)
    no_version [OF assms(1,4), of "compute_version_id lib (rq_graph rq)"]
  unfolding version_of_def [symmetric] head_of_def [symmetric] by auto

lemma saves_refine_spec:
  assumes "list_all (\<lambda>rq. okv (version_of lib rq) \<and> okh (head_of lib rq) \<and> truthful (rq_io rq)) rqs" "inv s"
    and "saves_ok lib ops rqs s = Some s'"
  shows "inv s' \<and> (vers s', heads s') = fold (save_spec keepv keeph lib) rqs (vers s, heads s)"
  using assms
proof (induction rqs arbitrary: s)
  case (Cons rq rqs)
  obtain v s1 where s1: "save_with lib ops rq s = (Inr v, s1)" "saves_ok lib ops rqs s1 = Some s'"
    using Cons.prems(3) by (auto split: prod.splits sum.splits)
  have "inv s1 \<and> (vers s1, heads s1) = save_spec keepv keeph lib rq (vers s, heads s)"
    using save_refines_spec [OF Cons.prems(2) _ _ _ s1(1)] Cons.prems(1) by simp
  with Cons.IH [OF _ _ s1(2)] Cons.prems(1) show ?case by simp
qed simp

end

text \<open>The specification does not depend on the outcomes of calls, commutes with the form in which versions and
  heads are kept, and stores the versions of the requests.\<close>

definition request_data ::
  "'io save_request \<Rightarrow> (datetime \<times> datetime) \<times> string \<times> string \<times> graph_def \<times> string option \<times> string option" where
  "request_data rq =
     ((rq_now1 rq, rq_now2 rq), rq_flow_id rq, rq_name rq, rq_graph rq, rq_created_by rq, rq_message rq)"

definition kept_maps ::
  "(flow_version \<Rightarrow> flow_version) \<Rightarrow> (flow_head \<Rightarrow> flow_head)
   \<Rightarrow> (string \<Rightarrow> flow_version option) \<times> (string \<Rightarrow> flow_head option)
   \<Rightarrow> (string \<Rightarrow> flow_version option) \<times> (string \<Rightarrow> flow_head option)" where
  "kept_maps kv kh VH = (map_option kv \<circ> fst VH, map_option kh \<circ> snd VH)"

lemma save_spec_kept:
  "request_data rq = request_data rq' \<Longrightarrow>
     save_spec kv kh lib rq' (kept_maps kv kh VH) = kept_maps kv kh (save_spec (\<lambda>v. v) (\<lambda>h. h) lib rq VH)"
  by (cases VH) (auto simp: kept_maps_def request_data_def version_of_def head_of_def fun_eq_iff)

lemma saves_spec_kept:
  "map request_data rqs = map request_data rqs' \<Longrightarrow>
     fold (save_spec kv kh lib) rqs' (kept_maps kv kh VH) = kept_maps kv kh (fold (save_spec (\<lambda>v. v) (\<lambda>h. h) lib) rqs VH)"
proof (induction rqs arbitrary: rqs' VH)
  case (Cons rq rqs)
  then obtain rq' rest where "rqs' = rq' # rest" "request_data rq = request_data rq'" "map request_data rqs = map request_data rest"
    by (cases rqs') auto
  with Cons.IH [of rest] save_spec_kept [of rq rq' kv kh lib VH] show ?case by simp
qed simp

lemma saves_spec_created:
  "fst (fold (save_spec (\<lambda>v. v) kh lib) rqs VH) k = Some v \<Longrightarrow>
     fst VH k = Some v \<or> fv_created_at v \<in> rq_now1 ` set rqs"
proof (induction rqs arbitrary: VH)
  case (Cons rq rqs)
  have "fst (save_spec (\<lambda>v. v) kh lib rq VH) k = Some v \<Longrightarrow> fst VH k = Some v \<or> fv_created_at v = rq_now1 rq"
    by (cases VH) (auto simp: version_of_def new_version_def split: if_splits)
  with Cons.IH [of "save_spec (\<lambda>v. v) kh lib rq VH"] Cons.prems show ?case by auto
qed simp

text \<open>Rounding keeps the order of versions whose times it does not identify.\<close>

lemma newest_first_at:
  assumes "distinct (map fv_version_id all)" "mono rnd" "inj_on rnd (fv_created_at ` set all)"
  shows "newest_first (map (at_version rnd) all) = map (at_version rnd) (newest_first all)"
proof (rule newest_first_unique)
  show "distinct (map fv_version_id (map (at_version rnd) all))" using assms(1) by (simp add: comp_def)
  have "distinct (map fv_version_id (newest_first all))"
    using assms(1) by (metis mset_eq_imp_distinct_iff mset_map newest_first_set(2))
  then show "distinct (map fv_version_id (map (at_version rnd) (newest_first all)))" by (simp add: comp_def)
  have less: "rnd (fv_created_at v) < rnd (fv_created_at w)"
    if "v \<in> set all" "w \<in> set all" "fv_created_at v < fv_created_at w" for v w
  proof -
    have "rnd (fv_created_at v) \<le> rnd (fv_created_at w)" using assms(2) that(3) by (simp add: mono_def)
    moreover have "rnd (fv_created_at v) \<noteq> rnd (fv_created_at w)"
      using inj_onD [OF assms(3), of "fv_created_at v" "fv_created_at w"] that by auto
    ultimately show ?thesis by simp
  qed
  have "sorted_wrt (\<lambda>v w. version_age w \<le> version_age v) (newest_first all)"
    using newest_first_sorted [of all] by (simp add: sorted_wrt_rev sorted_wrt_map)
  then have "sorted_wrt (\<lambda>v w. version_age (at_version rnd w) \<le> version_age (at_version rnd v)) (newest_first all)"
  proof (rule sorted_wrt_mono_rel [rotated])
    fix v w
    assume "v \<in> set (newest_first all)" "w \<in> set (newest_first all)" "version_age w \<le> version_age v"
    then show "version_age (at_version rnd w) \<le> version_age (at_version rnd v)"
      using less [of w v] by (cases "fv_created_at w = fv_created_at v") (auto simp: version_age_def less_eq_prod_simp)
  qed
  then show "sorted (rev (map version_age (map (at_version rnd) (newest_first all))))"
    by (simp add: sorted_wrt_rev sorted_wrt_map comp_def)
qed simp

text \<open>The files of the file store have distinct names, none of them empty, so that its listing has every
  version once.\<close>

definition names_ok :: "(string \<times> 'b) list \<Rightarrow> bool" where
  "names_ok m \<longleftrightarrow> distinct (map fst m) \<and> [] \<notin> set (map fst m)"

lemma doc_put_names: "names_ok m \<Longrightarrow> name \<noteq> [] \<Longrightarrow> names_ok (doc_put name data m)"
  using doc_put_keys [of m name data] bt_get_None_iff [of "[]" m] bt_get_None_iff [of "[]" "doc_put name data m"]
  by (simp add: names_ok_def)

lemma atomic_write_names:
  "atomic_write io dir name data m = (res, m') \<Longrightarrow> names_ok m \<Longrightarrow> name \<noteq> [] \<Longrightarrow> names_ok m'"
  by (auto simp: atomic_write_def doc_put_names split: sum.splits)

lemma save_names:
  assumes "save_with lib (file_flow_store vc hc) rq ff = (res, ff')" "names_ok (ff_versions ff)"
    and "compute_version_id lib (rq_graph rq) \<noteq> []"
  shows "names_ok (ff_versions ff')"
  using assms
  by (auto simp: save_with_def versioning_save_def file_flow_store_def file_put_version_def file_put_head_def Let_def
      new_version_def split: sum.splits option.splits prod.splits dest: atomic_write_names)

lemma saves_names:
  "saves_ok lib (file_flow_store vc hc) rqs ff = Some ff' \<Longrightarrow> names_ok (ff_versions ff) \<Longrightarrow>
     list_all (\<lambda>rq. compute_version_id lib (rq_graph rq) \<noteq> []) rqs \<Longrightarrow> names_ok (ff_versions ff')"
  by (induction rqs arbitrary: ff) (auto split: prod.splits sum.splits dest: save_names)

lemma read_docs_all:
  "read_docs io dir msg c m = Inr xs \<Longrightarrow> list_all (\<lambda>e. fst e \<noteq> [] \<and> (\<exists>x. dec c (snd e) = Inr x)) m \<Longrightarrow>
     xs = map (\<lambda>e. projr (dec c (snd e))) m"
  by (induction m arbitrary: xs) auto

lemma file_list_versions_page:
  assumes "ff_inv vc hc ff" "file_flows.addressed vc hc lib ff" "names_ok (ff_versions ff)"
    and "file_list_versions vc io f limit offset ff = Inr page"
  shows "\<exists>all. distinct (map fv_version_id all) \<and> set all = {v \<in> ran (docs vc (ff_versions ff)). fv_flow_id v = f}
    \<and> page = take limit (drop offset (newest_first all))"
proof -
  let ?m = "ff_versions ff" and ?v = "\<lambda>e. projr (dec vc (snd e))"
  have get: "bt_get (fst e) ?m = Some (snd e)" if "e \<in> set ?m" for e
    using assms(3) that by (simp add: bt_get_distinct names_ok_def)
  have doc: "docs vc ?m (fst e) = Some (?v e)" "\<exists>x. dec vc (snd e) = Inr x" if "e \<in> set ?m" for e
    using get [OF that] assms(1) unfolding ff_inv_def docs_ok_def docs_def by force+
  have id: "fv_version_id (?v e) = fst e" if "e \<in> set ?m" for e
    using doc(1) [OF that] assms(2) by (simp add: file_flows.addressed_def)
  obtain xs where xs: "read_docs io VersionsDir ''failed to read version file: '' vc ?m = Inr xs"
      "page = take limit (drop offset (newest_first (filter (\<lambda>v. fv_flow_id v = f) xs)))"
    using assms(4) by (auto simp: file_list_versions_def)
  have xs_eq: "xs = map ?v ?m" using read_docs_all [OF xs(1)] doc(2) assms(3) by (force simp: list_all_iff names_ok_def)
  have "map fv_version_id xs = map fst ?m" unfolding xs_eq using id by simp
  then have "distinct (map fv_version_id (filter (\<lambda>v. fv_flow_id v = f) xs))"
    using assms(3) by (simp add: distinct_map_filter names_ok_def)
  moreover have "set xs = ran (docs vc ?m)"
  proof (intro set_eqI iffI)
    fix v
    assume "v \<in> set xs"
    then show "v \<in> ran (docs vc ?m)" unfolding xs_eq using doc(1) by (auto intro: ranI)
  next
    fix v
    assume "v \<in> ran (docs vc ?m)"
    then obtain k where k: "docs vc ?m k = Some v" by (auto simp: ran_def)
    then obtain data where "bt_get k ?m = Some data" by (auto simp: docs_def Option.bind_eq_Some_conv)
    then have "(k, data) \<in> set ?m" by (rule bt_get_Some_mem)
    with doc(1) [of "(k, data)"] k show "v \<in> set xs" unfolding xs_eq by (auto intro!: image_eqI [of _ _ "(k, data)"])
  qed
  ultimately show ?thesis using xs(2) by (intro exI [of _ "filter (\<lambda>v. fv_flow_id v = f) xs"]) auto
qed

text \<open>
  (C29) The file store and the database store are interchangeable under the versioning service, up to the
  precision in which the database keeps times: after the same saves, successful on both from an empty
  store, every read of a current version or of a version that succeeds on both gives the same version,
  with the creation time rounded in the database; and so does a page of the history, in the same order,
  when the rounding does not identify two creation times.  The stat calls of the file store succeed, and
  its ids are single components of a path.
\<close>

theorem flow_stores_agree:
  assumes "list_all (request_ok lib vc hc) rqs" "saves_ok lib (file_flow_store vc hc) rqs empty_files = Some ff"
    and "list_all (\<lambda>rq. path_name (rq_flow_id rq) \<and> path_name (compute_version_id lib (rq_graph rq))) rqs"
    and "list_all (\<lambda>rq. file_stats_ok (rq_io rq)) rqs" "file_stats_ok io" "path_name f" "path_name k"
    and "flow_table_laws rnd T vs hs" "vs d = (\<lambda>_. None)" "hs d = (\<lambda>_. None)"
    and "list_all (\<lambda>rq. graph_ok gj (version_of lib rq)) rqs'" "saves_ok lib (sea_flow_store gj T) rqs' d = Some d'"
    and "map request_data rqs = map request_data rqs'"
  shows "(versioning_get_current (file_flow_store vc hc) io f ff = Inr x
        \<and> versioning_get_current (sea_flow_store gj T) io' f d' = Inr y \<longrightarrow> y = map_option (at_version rnd) x)
    \<and> (versioning_get_at_version (file_flow_store vc hc) io k ff = Inr v
        \<and> versioning_get_at_version (sea_flow_store gj T) io' k d' = Inr w \<longrightarrow> w = map_option (at_version rnd) v)
    \<and> (versioning_history (file_flow_store vc hc) io f limit offset ff = Inr page
        \<and> versioning_history (sea_flow_store gj T) io' f limit offset d' = Inr page'
        \<and> inj_on rnd (rq_now1 ` set rqs) \<longrightarrow> page' = map (at_version rnd) page)"
proof -
  let ?file = "file_flow_store vc hc" and ?sea = "sea_flow_store gj T"
  let ?none = "(\<lambda>_. None, \<lambda>_. None) :: (string \<Rightarrow> flow_version option) \<times> (string \<Rightarrow> flow_head option)"
  note sea = sea_flow_contract [OF assms(8), of gj]
  have file_reqs: "list_all (\<lambda>rq. doc_ok vc (version_of lib rq) \<and> doc_ok hc (head_of lib rq) \<and> file_stats_ok (rq_io rq)) rqs"
    using assms(1,4) by (simp add: request_ok_def list_all_iff)
  have files: "ff_inv vc hc ff \<and> (docs vc (ff_versions ff), docs hc (ff_flows ff)) = fold (save_spec (\<lambda>v. v) (\<lambda>h. h) lib) rqs ?none"
    using file_flows.saves_refine_spec [OF file_reqs empty_files_ok [THEN conjunct1] assms(2)]
    by (simp add: empty_files_def docs_def [abs_def])
  have db_reqs: "list_all (\<lambda>rq. graph_ok gj (version_of lib rq) \<and> True \<and> True) rqs'" using assms(11) by simp
  have parse: "rows_parse gj (vs d)" "(sea_versions gj (vs d), hs d) = kept_maps (at_version rnd) (at_head rnd) ?none"
    using assms(9,10) by (simp_all add: rows_parse_def sea_versions_def [abs_def] kept_maps_def comp_def)
  have db: "rows_parse gj (vs d') \<and> (sea_versions gj (vs d'), hs d') =
      kept_maps (at_version rnd) (at_head rnd) (docs vc (ff_versions ff), docs hc (ff_flows ff))"
    using flow_store.saves_refine_spec [OF sea db_reqs parse(1) assms(12)]
    unfolding parse(2) saves_spec_kept [OF assms(13)] files [THEN conjunct2] .
  then have same: "sea_versions gj (vs d') k = map_option (at_version rnd) (docs vc (ff_versions ff) k)"
    "hs d' k = map_option (at_head rnd) (docs hc (ff_flows ff) k)" for k
    by (simp_all add: kept_maps_def)
  have addressed: "file_flows.addressed vc hc lib ff"
    using save_all_addressed [OF assms(1) empty_files_ok [THEN conjunct1] empty_files_ok [THEN conjunct2]]
      saves_ok_fold [OF assms(2)] by (simp add: save_all_def save_one_def)
  have "list_all (\<lambda>rq. compute_version_id lib (rq_graph rq) \<noteq> []) rqs" using assms(3) by (auto simp: list_all_iff)
  then have names: "names_ok (ff_versions ff)"
    using saves_names [OF assms(2)] by (simp add: empty_files_def names_ok_def)
  have version: "b = map_option (at_version rnd) a"
    if "fso_get_version ?file io k ff = Inr a" "fso_get_version ?sea io' k d' = Inr b" for k a b
    using file_flows.version_read [OF files [THEN conjunct1] assms(5) that(1)]
      flow_store.version_read [OF sea db [THEN conjunct1] TrueI that(2)] same(1) by simp
  have head: "b = map_option (at_head rnd) a"
    if "fso_get_head ?file io k ff = Inr a" "fso_get_head ?sea io' k d' = Inr b" for k a b
    using file_flows.head_read [OF files [THEN conjunct1] assms(5) that(1)]
      flow_store.head_read [OF sea db [THEN conjunct1] TrueI that(2)] same(2) by simp
  have current: "y = map_option (at_version rnd) x"
    if cur: "versioning_get_current ?file io f ff = Inr x" "versioning_get_current ?sea io' f d' = Inr y"
  proof -
    obtain a where a: "fso_get_head ?file io f ff = Inr a"
        "(case a of None \<Rightarrow> Inr None | Some h \<Rightarrow> fso_get_version ?file io (fh_current_version_id h) ff) = Inr x"
      using cur(1) unfolding versioning_get_current_def and_then_Ok by blast
    obtain b where b: "fso_get_head ?sea io' f d' = Inr b"
        "(case b of None \<Rightarrow> Inr None | Some h \<Rightarrow> fso_get_version ?sea io' (fh_current_version_id h) d') = Inr y"
      using cur(2) unfolding versioning_get_current_def and_then_Ok by blast
    note h = head [OF a(1) b(1)]
    show ?thesis
    proof (cases a)
      case None
      with h a(2) b(2) show ?thesis by simp
    next
      case (Some head)
      with h a(2) b(2) show ?thesis
        by (simp only: option.map option.case at_simps) (rule version [of "fh_current_version_id head"])
    qed
  qed
  have history: "page' = map (at_version rnd) page"
    if pages: "file_list_versions vc io f limit offset ff = Inr page"
      "sea_list_versions gj T (fi_list_versions io') f limit offset d' = Inr page'" and inj: "inj_on rnd (rq_now1 ` set rqs)"
  proof -
    obtain all where all: "distinct (map fv_version_id all)"
      "set all = {v \<in> ran (docs vc (ff_versions ff)). fv_flow_id v = f}"
      "page = take limit (drop offset (newest_first all))"
      using file_list_versions_page [OF files [THEN conjunct1] addressed names pages(1)] by auto
    have "set (map (at_version rnd) all) = {v \<in> ran (sea_versions gj (vs d')). fv_flow_id v = f}"
      using all(2) by (force simp: ran_def same)
    with sea_list_versions_page [OF assms(8) db [THEN conjunct1] pages(2)] all(1)
    have page': "page' = take limit (drop offset (newest_first (map (at_version rnd) all)))" by (simp add: comp_def)
    have "fv_created_at ` set all \<subseteq> rq_now1 ` set rqs"
      using all(2) saves_spec_created [of "\<lambda>h. h" lib rqs ?none] files [THEN conjunct2, symmetric]
      by (fastforce simp: ran_def)
    with newest_first_at [OF all(1) find_laws(1) [OF assms(8)]] inj
    have "newest_first (map (at_version rnd) all) = map (at_version rnd) (newest_first all)"
      by (blast intro: inj_on_subset)
    with page' all(3) show ?thesis by (simp add: take_map drop_map)
  qed
  from current version history show ?thesis
    unfolding versioning_get_at_version_def versioning_history_def
    by (auto simp: file_flow_store_def sea_flow_store_def)
qed

text \<open>Tables that are lists of rows, without failures, with times to the thousand; graphs that are their
  names.\<close>

definition demo_at :: "datetime \<Rightarrow> datetime" where
  "demo_at t = t div 1000 * 1000"

type_synonym demo_rows = "version_row list \<times> flow_head list"

definition demo_version :: "demo_rows \<Rightarrow> string \<Rightarrow> version_row option" where
  "demo_version d k = List.find (\<lambda>m. vr_version_id m = k) (fst d)"

definition demo_head :: "demo_rows \<Rightarrow> string \<Rightarrow> flow_head option" where
  "demo_head d k = List.find (\<lambda>h. fh_flow_id h = k) (snd d)"

definition demo_flow_tables :: "(unit, demo_rows) flow_tables" where
  "demo_flow_tables =
     \<lparr>tb_insert_version = (\<lambda>_ m d. (Inr (), if demo_version d (vr_version_id m) = None then (fst d @ [at_row demo_at m], snd d) else d)),
      tb_upsert_head = (\<lambda>_ h d. (Inr (), (fst d, at_head demo_at h # snd d))),
      tb_find_head = (\<lambda>_ k d. Inr (demo_head d k)), tb_find_version = (\<lambda>_ k d. Inr (demo_version d k)),
      tb_select_versions = (\<lambda>_ f offset limit d. Inr (take limit (drop offset (rev (sort_key row_age
        (List.filter (\<lambda>m. demo_version d (vr_version_id m) = Some m \<and> vr_flow_id m = f) (remdups (fst d)))))))),
      tb_all_heads = (\<lambda>_ d. Inr (List.filter (\<lambda>h. demo_head d (fh_flow_id h) = Some h) (remdups (snd d))))\<rparr>"

lemma find_key: "List.find (\<lambda>x. f x = k) xs = Some x \<Longrightarrow> f x = k \<and> x \<in> set xs"
  by (induction xs) (auto split: if_splits)

lemma find_append_key: "List.find P (xs @ [x]) = (case List.find P xs of None \<Rightarrow> if P x then Some x else None | Some y \<Rightarrow> Some y)"
  by (induction xs) auto

lemma demo_at_mono: "mono demo_at"
  by (auto simp: mono_def demo_at_def intro: zdiv_mono1)

lemma demo_flow_laws: "flow_table_laws demo_at demo_flow_tables demo_version demo_head"
proof -
  have id: "vr_version_id (at_row demo_at m) = vr_version_id m" for m by (simp add: at_row_def)
  have "demo_version (ms @ [at_row demo_at m], hs) = (demo_version (ms, hs))(vr_version_id m \<mapsto> at_row demo_at m)"
    if "demo_version (ms, hs) (vr_version_id m) = None" for ms m hs
    using that by (auto simp: demo_version_def find_append_key id fun_eq_iff split: option.split)
  then have "insert_version_law demo_at demo_flow_tables demo_version demo_head"
    unfolding insert_version_law_def by (auto simp: demo_flow_tables_def demo_head_def [abs_def])
  moreover have "upsert_head_law demo_at demo_flow_tables demo_version demo_head"
    unfolding upsert_head_law_def by (auto simp: demo_flow_tables_def demo_head_def [abs_def] demo_version_def [abs_def] fun_eq_iff)
  moreover have "select_versions_law demo_flow_tables demo_version"
    unfolding select_versions_law_def
  proof (intro allI impI, goal_cases)
    case (1 io f offset limit d ms)
    let ?L = "rev (sort_key row_age
      (List.filter (\<lambda>m. demo_version d (vr_version_id m) = Some m \<and> vr_flow_id m = f) (remdups (fst d))))"
    have "set ?L = {m \<in> ran (demo_version d). vr_flow_id m = f}"
      by (auto simp: ran_def demo_version_def dest: find_key)
    with 1 show ?case by (intro exI [of _ ?L]) (simp add: demo_flow_tables_def rev_map [symmetric])
  qed
  moreover have "set (List.filter (\<lambda>h. demo_head d (fh_flow_id h) = Some h) (remdups (snd d))) = ran (demo_head d)" for d
    by (auto simp: ran_def demo_head_def dest: find_key)
  ultimately show ?thesis
    unfolding flow_table_laws_def using demo_at_mono
    by (auto simp: demo_flow_tables_def demo_version_def demo_head_def dest: find_key)
qed

definition demo_graph_json :: graph_json where
  "demo_graph_json =
     \<lparr>gj_to_value = (\<lambda>g. Inr (JString (graph_id g))),
      gj_from_value = (\<lambda>j. case j of JString s \<Rightarrow> Inr (named_graph s []) | _ \<Rightarrow> Inl ''bad'')\<rparr>"

text \<open>The same two saves on both stores, the second one later.\<close>

definition demo_saves :: "file_io save_request list" where
  "demo_saves = [demo_request ''a'', (demo_request ''b'')\<lparr>rq_now1 := 2001\<rparr>]"

definition demo_db_io :: "unit flow_io" where
  "demo_db_io =
     \<lparr>fi_find_version = (), fi_insert_version = (), fi_upsert_head = (), fi_find_head = (), fi_list_versions = ()\<rparr>"

definition demo_db_saves :: "unit flow_io save_request list" where
  "demo_db_saves = map (\<lambda>rq. \<lparr>rq_io = demo_db_io, rq_now1 = rq_now1 rq, rq_now2 = rq_now2 rq, rq_flow_id = rq_flow_id rq,
     rq_name = rq_name rq, rq_graph = rq_graph rq, rq_created_by = rq_created_by rq, rq_message = rq_message rq\<rparr>) demo_saves"

theorem flow_stores_agree_witness:
  "\<exists>ff d' page.
     saves_ok demo_lib (file_flow_store demo_vc demo_hc) demo_saves empty_files = Some ff
     \<and> saves_ok demo_lib (sea_flow_store demo_graph_json demo_flow_tables) demo_db_saves ([], []) = Some d'
     \<and> versioning_history (file_flow_store demo_vc demo_hc) (\<lambda>_. None) ''f'' 2 0 ff = Inr page
     \<and> versioning_history (sea_flow_store demo_graph_json demo_flow_tables) demo_db_io ''f'' 2 0 d'
         = Inr (map (at_version demo_at) page)
     \<and> map fv_version_id page = [''b'', ''a'']"
proof -
  let ?file = "file_flow_store demo_vc demo_hc" and ?sea = "sea_flow_store demo_graph_json demo_flow_tables"
  let ?ff = "the (saves_ok demo_lib ?file demo_saves empty_files)" and ?d = "the (saves_ok demo_lib ?sea demo_db_saves ([], []))"
  have "saves_ok demo_lib ?file demo_saves empty_files \<noteq> None" "saves_ok demo_lib ?sea demo_db_saves ([], []) \<noteq> None"
    by code_simp+
  then have runs: "saves_ok demo_lib ?file demo_saves empty_files = Some ?ff" "saves_ok demo_lib ?sea demo_db_saves ([], []) = Some ?d"
    by simp_all
  have "case versioning_history ?file (\<lambda>_. None) ''f'' 2 0 ?ff of
      Inr page \<Rightarrow> map fv_version_id page = [''b'', ''a''] | Inl _ \<Rightarrow> False" by code_simp
  then obtain page where page: "versioning_history ?file (\<lambda>_. None) ''f'' 2 0 ?ff = Inr page"
      "map fv_version_id page = [''b'', ''a'']"
    by (auto split: sum.splits)
  have "case versioning_history ?sea demo_db_io ''f'' 2 0 ?d of Inr _ \<Rightarrow> True | Inl _ \<Rightarrow> False" by code_simp
  then obtain page' where page': "versioning_history ?sea demo_db_io ''f'' 2 0 ?d = Inr page'" by (auto split: sum.splits)
  have reqs: "list_all (request_ok demo_lib demo_vc demo_hc) demo_saves" by (simp add: demo_request_ok list_all_iff)
  have named: "list_all (\<lambda>rq. path_name (rq_flow_id rq) \<and> path_name (compute_version_id demo_lib (rq_graph rq))) demo_saves"
    by (simp add: path_name_def demo_saves_def demo_request_def compute_version_id_def demo_lib_def named_graph_def)
  have stats: "list_all (\<lambda>rq. file_stats_ok (rq_io rq)) demo_saves" by (simp add: demo_saves_def demo_request_def)
  have f: "path_name ''f''" by (simp add: path_name_def)
  have empty: "demo_version ([], []) = (\<lambda>_. None)" "demo_head ([], []) = (\<lambda>_. None)"
    by (simp_all add: demo_version_def demo_head_def fun_eq_iff)
  have graphs: "list_all (\<lambda>rq. graph_ok demo_graph_json (version_of demo_lib rq)) demo_db_saves"
    by (simp add: graph_ok_def version_of_def new_version_def demo_graph_json_def demo_db_saves_def demo_saves_def
        demo_request_def named_graph_def)
  have data: "map request_data demo_saves = map request_data demo_db_saves"
    by (simp add: request_data_def demo_db_saves_def)
  have "inj_on demo_at (rq_now1 ` set demo_saves)" by (simp add: demo_saves_def demo_request_def demo_at_def)
  with flow_stores_agree [OF reqs runs(1) named stats _ f f demo_flow_laws empty graphs runs(2) data, of "\<lambda>_. None"] page page'
  have "page' = map (at_version demo_at) page" by auto
  with page' have "versioning_history ?sea demo_db_io ''f'' 2 0 ?d = Inr (map (at_version demo_at) page)" by simp
  with runs page show ?thesis by (intro exI [of _ ?ff] exI [of _ ?d] exI [of _ page] conjI)
qed

section \<open>The tag store\<close>

text \<open>Insert or overwrite; find; the tags of a flow and of a version by ascending name; delete, with the number
  of rows.\<close>

record ('io, 'd) tag_table =
  tt_upsert :: "'io \<Rightarrow> flow_tag \<Rightarrow> 'd \<Rightarrow> (string, unit) result \<times> 'd"
  tt_find :: "'io \<Rightarrow> string \<Rightarrow> string \<Rightarrow> 'd \<Rightarrow> (string, flow_tag option) result"
  tt_select_flow :: "'io \<Rightarrow> string \<Rightarrow> 'd \<Rightarrow> (string, flow_tag list) result"
  tt_select_version :: "'io \<Rightarrow> string \<Rightarrow> 'd \<Rightarrow> (string, flow_tag list) result"
  tt_delete :: "'io \<Rightarrow> string \<Rightarrow> string \<Rightarrow> 'd \<Rightarrow> (string, nat) result \<times> 'd"

definition model_to_tag :: "flow_tag \<Rightarrow> flow_tag" where
  "model_to_tag m =
     \<lparr>ft_flow_id = ft_flow_id m, ft_tag = ft_tag m, ft_version_id = ft_version_id m, ft_updated_at = ft_updated_at m\<rparr>"

definition sea_set_tag ::
  "('io, 'd) tag_table \<Rightarrow> 'io \<Rightarrow> datetime \<Rightarrow> string \<Rightarrow> string \<Rightarrow> string \<Rightarrow> 'd \<Rightarrow> (flow_store_error, unit) result \<times> 'd" where
  "sea_set_tag T io now flow_id tag version_id d =
     (case tt_upsert T io \<lparr>ft_flow_id = flow_id, ft_tag = tag, ft_version_id = version_id, ft_updated_at = now\<rparr> d of
        (res, d1) \<Rightarrow> (map_err FlowStoreError res, d1))"

definition sea_get_tag ::
  "('io, 'd) tag_table \<Rightarrow> 'io \<Rightarrow> string \<Rightarrow> string \<Rightarrow> 'd \<Rightarrow> (flow_store_error, string option) result" where
  "sea_get_tag T io flow_id tag d =
     and_then (map_err FlowStoreError (tt_find T io flow_id tag d)) (\<lambda>m. Inr (map_option ft_version_id m))"

definition sea_list_tags :: "('io, 'd) tag_table \<Rightarrow> 'io \<Rightarrow> string \<Rightarrow> 'd \<Rightarrow> (flow_store_error, flow_tag list) result" where
  "sea_list_tags T io flow_id d =
     and_then (map_err FlowStoreError (tt_select_flow T io flow_id d)) (\<lambda>models. Inr (map model_to_tag models))"

definition sea_delete_tag ::
  "('io, 'd) tag_table \<Rightarrow> 'io \<Rightarrow> string \<Rightarrow> string \<Rightarrow> 'd \<Rightarrow> (flow_store_error, bool) result \<times> 'd" where
  "sea_delete_tag T io flow_id tag d =
     (case tt_delete T io flow_id tag d of
        (res, d1) \<Rightarrow> (and_then (map_err FlowStoreError res) (\<lambda>rows. Inr (rows > 0)), d1))"

definition sea_tags_for_version :: "('io, 'd) tag_table \<Rightarrow> 'io \<Rightarrow> string \<Rightarrow> 'd \<Rightarrow> (flow_store_error, string list) result" where
  "sea_tags_for_version T io version_id d =
     and_then (map_err FlowStoreError (tt_select_version T io version_id d)) (\<lambda>models. Inr (map ft_tag models))"

text \<open>The rows by primary key, flow and tag, with times as the column keeps them; here a statement that reports
  an error has had no effect, and the collation of the database orders the tags as their bytes do.\<close>

definition upsert_tag_law :: "(datetime \<Rightarrow> datetime) \<Rightarrow> ('io, 'd) tag_table \<Rightarrow> ('d \<Rightarrow> string \<times> string \<Rightarrow> flow_tag option) \<Rightarrow> bool" where
  "upsert_tag_law rnd T rows \<longleftrightarrow> (\<forall>io m d res d'. tt_upsert T io m d = (res, d') \<longrightarrow>
     rows d' = (if res = Inr () then (rows d)((ft_flow_id m, ft_tag m) \<mapsto> m\<lparr>ft_updated_at := rnd (ft_updated_at m)\<rparr>)
       else rows d))"

definition delete_tag_law :: "('io, 'd) tag_table \<Rightarrow> ('d \<Rightarrow> string \<times> string \<Rightarrow> flow_tag option) \<Rightarrow> bool" where
  "delete_tag_law T rows \<longleftrightarrow> (\<forall>io f t d res d'. tt_delete T io f t d = (res, d') \<longrightarrow>
     (case res of Inl _ \<Rightarrow> rows d' = rows d
      | Inr n \<Rightarrow> n = (if rows d (f, t) = None then 0 else 1) \<and> rows d' = (rows d)((f, t) := None)))"

definition select_tags_law :: "('io, 'd) tag_table \<Rightarrow> ('d \<Rightarrow> string \<times> string \<Rightarrow> flow_tag option) \<Rightarrow> bool" where
  "select_tags_law T rows \<longleftrightarrow>
     (\<forall>io f d ms. tt_select_flow T io f d = Inr ms \<longrightarrow>
        distinct ms \<and> sorted (map ft_tag ms) \<and> set ms = {m \<in> ran (rows d). ft_flow_id m = f})
     \<and> (\<forall>io v d ms. tt_select_version T io v d = Inr ms \<longrightarrow>
        distinct ms \<and> sorted (map ft_tag ms) \<and> set ms = {m \<in> ran (rows d). ft_version_id m = v})"

definition tag_table_laws ::
  "(datetime \<Rightarrow> datetime) \<Rightarrow> ('io, 'd) tag_table \<Rightarrow> ('d \<Rightarrow> string \<times> string \<Rightarrow> flow_tag option) \<Rightarrow> bool" where
  "tag_table_laws rnd T rows \<longleftrightarrow>
     (\<forall>d f t m. rows d (f, t) = Some m \<longrightarrow> ft_flow_id m = f \<and> ft_tag m = t)
     \<and> (\<forall>io f t d x. tt_find T io f t d = Inr x \<longrightarrow> rows d (f, t) = x)
     \<and> upsert_tag_law rnd T rows \<and> delete_tag_law T rows \<and> select_tags_law T rows"

definition sea_tags :: "(string \<times> string \<Rightarrow> flow_tag option) \<Rightarrow> string \<times> string \<Rightarrow> string option" where
  "sea_tags rows ft = map_option ft_version_id (rows ft)"

lemma tag_laws:
  assumes "tag_table_laws rnd T rows"
  shows "rows d (f, t) = Some m \<Longrightarrow> ft_flow_id m = f \<and> ft_tag m = t"
    and "tt_find T io f t d = Inr x \<Longrightarrow> rows d (f, t) = x"
    and "upsert_tag_law rnd T rows" "delete_tag_law T rows" "select_tags_law T rows"
  using assms by (simp_all add: tag_table_laws_def)

text \<open>The database keeps the contract of a tag store.\<close>

lemma sea_tag_contract:
  assumes "tag_table_laws rnd T rows"
  shows "tag_store (\<lambda>_. True) (\<lambda>_ _ _ _. True) (\<lambda>d. sea_tags (rows d)) (sea_set_tag T) (sea_delete_tag T) (\<lambda>_. True)"
proof (rule tag_store.intro, goal_cases)
  case (1 d now f t v io res d')
  then obtain r where r: "tt_upsert T io \<lparr>ft_flow_id = f, ft_tag = t, ft_version_id = v, ft_updated_at = now\<rparr> d = (r, d')"
      "res = map_err FlowStoreError r"
    by (auto simp: sea_set_tag_def split: prod.splits)
  have "rows d' = (if r = Inr () then (rows d)((f, t) \<mapsto>
      \<lparr>ft_flow_id = f, ft_tag = t, ft_version_id = v, ft_updated_at = rnd now\<rparr>) else rows d)"
    using tag_laws(3) [OF assms] r(1) unfolding upsert_tag_law_def by fastforce
  with r(2) show ?case by (cases r) (auto simp: sea_tags_def fun_eq_iff)
next
  case (2 d io f t res d')
  then obtain r where r: "tt_delete T io f t d = (r, d')" "res = and_then (map_err FlowStoreError r) (\<lambda>rows. Inr (rows > 0))"
    by (auto simp: sea_delete_tag_def split: prod.splits)
  have "case r of Inl _ \<Rightarrow> rows d' = rows d
      | Inr n \<Rightarrow> n = (if rows d (f, t) = None then 0 else 1) \<and> rows d' = (rows d)((f, t) := None)"
    using tag_laws(4) [OF assms] r(1) unfolding delete_tag_law_def by blast
  with r(2) show ?case by (cases r) (auto simp: sea_tags_def fun_eq_iff)
qed

text \<open>
  The database tag store is the map that the file tag store is: after any history of calls that set and
  delete tags, reading a tag gives what the successful calls left there, the listing of a flow its
  tags by name, and the tags of a version are, sorted, the names that some flow maps to it.
\<close>

theorem sea_tag_store_refines_map:
  assumes "tag_table_laws rnd T rows" "rows d = (\<lambda>_. None)"
    and "tag_run (sea_set_tag T) (sea_delete_tag T) cs d (\<lambda>_. None) = (d', m)"
  shows "(sea_get_tag T io f t d' = Inr x \<longrightarrow> x = m (f, t))
    \<and> (sea_list_tags T io f d' = Inr tags \<longrightarrow>
        sorted (map ft_tag tags) \<and> {(ft_tag t, ft_version_id t) |t. t \<in> set tags} = {(t, v). m (f, t) = Some v})
    \<and> (sea_tags_for_version T io v d' = Inr ts \<longrightarrow> sorted ts \<and> set ts = {t. \<exists>f. m (f, t) = Some v})"
proof -
  have "cmd_ok (\<lambda>_ _ _ _. True) c" for c :: "'a tag_cmd"
    by (cases "(\<lambda>(_ :: datetime) (_ :: string) (_ :: string) (_ :: string). True, c)" rule: cmd_ok.cases) simp_all
  then have "list_all (cmd_ok (\<lambda>_ _ _ _. True)) cs" by (simp add: list_all_iff)
  from tag_store.run_refines [OF sea_tag_contract [OF assms(1)] _ this, of d] assms(2,3)
  have m: "m = sea_tags (rows d')" by (simp add: sea_tags_def [abs_def])
  have row: "r \<in> ran (rows d') \<longleftrightarrow> rows d' (ft_flow_id r, ft_tag r) = Some r" for r
    using tag_laws(1) [OF assms(1), of d'] by (auto simp: ran_def)
  have same: "map model_to_tag rs = rs" for rs by (rule map_idI) (simp add: model_to_tag_def)
  have flow: "sorted (map ft_tag tags) \<and> {(ft_tag t, ft_version_id t) |t. t \<in> set tags} = {(t, v). m (f, t) = Some v}"
    if "sea_list_tags T io f d' = Inr tags"
  proof -
    have "tt_select_flow T io f d' = Inr tags"
      using that by (auto simp: sea_list_tags_def map_err_Ok same)
    then have "sorted (map ft_tag tags)" "set tags = {r \<in> ran (rows d'). ft_flow_id r = f}"
      using tag_laws(5) [OF assms(1)] unfolding select_tags_law_def by blast+
    then show ?thesis
      using tag_laws(1) [OF assms(1), of d' f] unfolding m row by (auto simp: sea_tags_def)
  qed
  have version: "sorted ts \<and> set ts = {t. \<exists>f. m (f, t) = Some v}" if found: "sea_tags_for_version T io v d' = Inr ts"
  proof -
    obtain ms where ms: "tt_select_version T io v d' = Inr ms" "ts = map ft_tag ms"
      using found by (auto simp: sea_tags_for_version_def map_err_Ok)
    have "sorted (map ft_tag ms)" "set ms = {r \<in> ran (rows d'). ft_version_id r = v}"
      using ms(1) tag_laws(5) [OF assms(1)] unfolding select_tags_law_def by blast+
    then show ?thesis
      using tag_laws(1) [OF assms(1), of d'] ms(2) unfolding m row by (auto simp: sea_tags_def image_iff) (metis)+
  qed
  have "x = m (f, t)" if "sea_get_tag T io f t d' = Inr x"
    using that tag_laws(2) [OF assms(1)] by (auto simp: sea_get_tag_def m sea_tags_def map_err_Ok)
  with flow version show ?thesis by blast
qed

end
