(* ===== verification/Session_Bindings.thy ===== *)
theory Session_Bindings
  imports Framework_Adapters Flow_Executor
begin

text \<open>
  The language bindings of observer and adapter sessions.  This theory holds what the three of them
  repeat (the conversion of requests and responses, the choice of a store, the frameworks) and the
  session objects of the Python and Node bindings; \<open>Dotnet_Binding\<close> holds the C interface.  A session
  object is a locked slot with a session, which \<open>finish\<close> empties.  A call that records reads the
  address of the slot, releases the lock and goes on with the address: the two halves are two
  operations here, and the second has no result when the slot has been emptied in between.
  Databases, Python values and what the stores answer at a call are parameters.
\<close>

section \<open>Requests, responses and status\<close>

definition json_to_llm_request :: "json \<Rightarrow> llm_request" where
  "json_to_llm_request raw =
     \<lparr>lq_provider = unwrap_or (Option.bind (jget raw ''provider'') as_str) ''unknown'',
      lq_model = unwrap_or (Option.bind (jget raw ''model'') as_str) ''unknown'',
      lq_messages = unwrap_or (jget raw ''messages'') (JArray []),
      lq_tools = Option.bind (jget raw ''tools'') as_array,
      lq_temperature = Option.bind (jget raw ''temperature'') as_f64,
      lq_top_p = Option.bind (jget raw ''top_p'') as_f64,
      lq_max_tokens = map_option ucast (Option.bind (jget raw ''max_tokens'') as_u64),
      lq_stop_sequences = None, lq_response_format = jget raw ''response_format'',
      lq_seed = Option.bind (jget raw ''seed'') as_u64, lq_extra_params = []\<rparr>"

definition json_to_llm_response :: "json \<Rightarrow> llm_response" where
  "json_to_llm_response raw =
     \<lparr>lr_content = unwrap_or (jget raw ''content'') (JString []), lr_tool_calls = None,
      lr_model_used = unwrap_or (Option.bind (jget raw ''model'') as_str) ''unknown'',
      lr_input_tokens = map_option ucast (Option.bind (jget raw ''input_tokens'') as_u64),
      lr_output_tokens = map_option ucast (Option.bind (jget raw ''output_tokens'') as_u64),
      lr_total_tokens = map_option ucast (Option.bind (jget raw ''total_tokens'') as_u64),
      lr_finish_reason = unwrap_or (Option.bind (jget raw ''finish_reason'') as_str) ''stop'',
      lr_latency_ms = unwrap_or (Option.bind (jget raw ''latency_ms'') as_u64) 0,
      lr_provider_request_id = None, lr_cost = None\<rparr>"

definition status_from_str :: "string \<Rightarrow> run_status" where
  "status_from_str s =
     (if s = ''completed'' then Completed else if s = ''failed'' then Failed
      else if s = ''cancelled'' then Cancelled else Completed)"

definition parse_status :: "string option \<Rightarrow> run_status" where
  "parse_status status =
     (let s = unwrap_or status ''completed'' in
      if s = ''failed'' then Failed else if s = ''cancelled'' then Cancelled else Completed)"

lemma parse_status_eq: "parse_status status = status_from_str (unwrap_or status ''completed'')"
  by (simp add: parse_status_def status_from_str_def Let_def)

text \<open>The request reader is a copy of the adapters'; the response reader is not: it ignores \<open>usage\<close>.\<close>

lemma json_to_llm_request_eq: "json_to_llm_request = parse_llm_request"
  by (rule ext) (simp add: json_to_llm_request_def parse_llm_request_def str_or_def get_str_def get_u32_def)

section \<open>Stores and frameworks\<close>

fun run_store_error_to_string :: "run_store_error \<Rightarrow> string" where
  "run_store_error_to_string (RunNotFound run) = ''run not found: '' @ run"
| "run_store_error_to_string (RunStoreError e) = ''run store error: '' @ e"

text \<open>A reference to a store: the \<open>n\<close>-th in-memory store of the process, or the store on a connection.\<close>

datatype 'db store_ref = MemRef nat | DbRef 'db

record 'db database =
  db_connect :: "string \<Rightarrow> (string, 'db) result"
  db_migrate :: "'db \<Rightarrow> (string, unit) result"

definition open_store :: "'db database \<Rightarrow> nat \<Rightarrow> string option \<Rightarrow> (string, 'db store_ref) result" where
  "open_store db n store_path =
     (case store_path of
        None \<Rightarrow> Inr (MemRef n)
      | Some url \<Rightarrow>
          and_then (map_err (\<lambda>e. ''DB connect failed: '' @ e) (db_connect db url)) (\<lambda>conn.
          and_then (map_err (\<lambda>e. ''DB migration failed: '' @ e) (db_migrate db conn)) (\<lambda>_. Inr (DbRef conn))))"

definition binding_config :: "'r \<Rightarrow> 'r observer_config" where
  "binding_config store = \<lparr>oc_run_store = Some store, oc_redactor = None, oc_metadata = []\<rparr>"

definition framework_adapter :: "string \<Rightarrow> adapter option" where
  "framework_adapter framework =
     (if framework = ''langchain'' then Some langchain_adapter
      else if framework = ''langgraph'' then Some langgraph_adapter
      else if framework = ''semantic_kernel'' then Some kernel_adapter else None)"

text \<open>What the stores answer at a call.\<close>

record 'r store_reads =
  sr_get_run :: "'r \<Rightarrow> string \<Rightarrow> (run_store_error, run_record option) result"
  sr_events :: "'r \<Rightarrow> string \<Rightarrow> (run_store_error, write_event list) result"

section \<open>Sessions\<close>

text \<open>What a call meets: whether the write channel is closed, the room of the advisory channel, the
  clock when it is read first, second and third, the identifier drawn at a start, and what the
  \<open>n\<close>-th translated event meets.\<close>

record call_env =
  en_gone :: bool
  en_chan :: chan
  en_now :: datetime
  en_ended :: datetime
  en_completed :: datetime
  en_id :: execution_id
  en_events :: "nat \<Rightarrow> bool \<times> datetime"

definition start_observer :: "call_env \<Rightarrow> string \<Rightarrow> 'db store_ref \<Rightarrow> (session_error, observer) result" where
  "start_observer env name store =
     observer_start name (binding_config store) (en_id env) (en_now env) (en_gone env)"

definition start_adapter ::
  "call_env \<Rightarrow> string \<Rightarrow> adapter \<Rightarrow> 'db store_ref \<Rightarrow> (session_error, adapter_session) result" where
  "start_adapter env name ad store =
     adapter_start name ad (binding_config store) (en_id env) (en_now env) (en_gone env)"

definition observer_run_id :: "observer \<Rightarrow> string" where
  "observer_run_id ob = exec_run_id (se_id (ob_inner ob))"

definition finish_observer ::
  "call_env \<Rightarrow> run_status \<Rightarrow> observer \<Rightarrow> (session_error, unit) result \<times> session" where
  "finish_observer env status ob =
     observer_finish (en_chan env) (en_gone env) (en_now env) (en_ended env) (en_completed env) status ob"

definition finish_adapter ::
  "call_env \<Rightarrow> run_status \<Rightarrow> adapter_session \<Rightarrow> (session_error, unit) result \<times> session" where
  "finish_adapter env status s =
     adapter_finish (en_chan env) (en_gone env) (en_now env) (en_ended env) (en_completed env) status s"

definition callback_event :: "call_env \<Rightarrow> json \<Rightarrow> adapter_session \<Rightarrow> (session_error, unit) result \<times> adapter_session" where
  "callback_event env event s = on_event (en_now env) (en_events env) event s"

section \<open>Session objects (\<open>cleargate-python\<close>, \<open>cleargate-node\<close>)\<close>

record ('s, 'r) session_object =
  so_inner :: "'s option"
  so_finished :: bool
  so_run_id :: string
  so_store :: 'r

definition already_finished :: string where
  "already_finished = ''session already finished''"

text \<open>The address of the session, the use of an address, and both without anything in between.\<close>

definition session_ptr :: "('s, 'r) session_object \<Rightarrow> (string, unit) result" where
  "session_ptr obj =
     (if so_finished obj then Inl already_finished
      else case so_inner obj of None \<Rightarrow> Inl already_finished | Some _ \<Rightarrow> Inr ())"

definition use_ptr ::
  "string \<Rightarrow> ('s \<Rightarrow> (session_error, unit) result \<times> 's) \<Rightarrow> ('s, 'r) session_object \<Rightarrow>
     ((string, unit) result \<times> ('s, 'r) session_object) option" where
  "use_ptr what f obj =
     (case so_inner obj of
        None \<Rightarrow> None
      | Some s \<Rightarrow> (case f s of (r, s') \<Rightarrow>
          Some (map_err (\<lambda>e. what @ '' failed: '' @ session_error_to_string e) r, obj\<lparr>so_inner := Some s'\<rparr>)))"

definition with_session ::
  "string \<Rightarrow> ('s \<Rightarrow> (session_error, unit) result \<times> 's) \<Rightarrow> ('s, 'r) session_object \<Rightarrow>
     ((string, unit) result \<times> ('s, 'r) session_object) option" where
  "with_session what f obj =
     (case session_ptr obj of Inl e \<Rightarrow> Some (Inl e, obj) | Inr _ \<Rightarrow> use_ptr what f obj)"

definition new_object :: "'s \<Rightarrow> string \<Rightarrow> 'r \<Rightarrow> ('s, 'r) session_object" where
  "new_object s run_id store = \<lparr>so_inner = Some s, so_finished = False, so_run_id = run_id, so_store = store\<rparr>"

text \<open>\<open>finish\<close> sets the flag, then takes the session; the third part of the answer is the session that
  the call consumed.\<close>

definition object_finish ::
  "('s \<Rightarrow> (session_error, unit) result \<times> session) \<Rightarrow> ('s, 'r) session_object \<Rightarrow>
     (string, unit) result \<times> ('s, 'r) session_object \<times> session option" where
  "object_finish fin obj =
     (let obj1 = obj\<lparr>so_finished := True\<rparr> in
      case so_inner obj1 of
        None \<Rightarrow> (Inl already_finished, obj1, None)
      | Some s \<Rightarrow> (case fin s of (r, se) \<Rightarrow>
          (map_err (\<lambda>e. ''finish failed: '' @ session_error_to_string e) r, obj1\<lparr>so_inner := None\<rparr>, Some se)))"

definition object_run_record :: "'r store_reads \<Rightarrow> ('s, 'r) session_object \<Rightarrow> (string, run_record) result" where
  "object_run_record rs obj =
     and_then (map_err (\<lambda>e. ''get_run failed: '' @ run_store_error_to_string e) (sr_get_run rs (so_store obj) (so_run_id obj)))
       (\<lambda>found. case found of None \<Rightarrow> Inl ''run not found'' | Some record \<Rightarrow> Inr record)"

definition object_event_log :: "'r store_reads \<Rightarrow> ('s, 'r) session_object \<Rightarrow> (string, write_event list) result" where
  "object_event_log rs obj =
     map_err (\<lambda>e. ''events failed: '' @ run_store_error_to_string e) (sr_events rs (so_store obj) (so_run_id obj))"

definition start_object ::
  "'db database \<Rightarrow> nat \<Rightarrow> string option \<Rightarrow> string \<Rightarrow> ('s \<Rightarrow> string) \<Rightarrow>
     ('db store_ref \<Rightarrow> (session_error, 's) result) \<Rightarrow> (string, ('s, 'db store_ref) session_object) result" where
  "start_object db n store_path failed run_id_of start =
     and_then (open_store db n store_path) (\<lambda>store.
     and_then (map_err (\<lambda>e. failed @ session_error_to_string e) (start store)) (\<lambda>s.
       Inr (new_object s (run_id_of s) store)))"

subsection \<open>Python\<close>

text \<open>Python's \<open>json\<close> module on its objects, the JSON reader of Rust, and the writers of records and events;
  errors are the messages of exceptions.\<close>

record 'o python =
  py_dumps :: "'o \<Rightarrow> (string, string) result"
  py_loads :: "string \<Rightarrow> (string, 'o) result"
  py_parse :: "string \<Rightarrow> (string, json) result"
  py_record_text :: "run_record \<Rightarrow> (string, string) result"
  py_events_text :: "write_event list \<Rightarrow> (string, string) result"

definition py_to_json :: "'o python \<Rightarrow> 'o \<Rightarrow> (string, json) result" where
  "py_to_json py obj =
     and_then (py_dumps py obj) (\<lambda>json_str. map_err (\<lambda>e. ''JSON parse error: '' @ e) (py_parse py json_str))"

type_synonym 'r observer_object = "(observer, 'r) session_object"
type_synonym 'r adapter_object = "(adapter_session, 'r) session_object"

definition py_observer_start ::
  "'db database \<Rightarrow> call_env \<Rightarrow> nat \<Rightarrow> string \<Rightarrow> string option \<Rightarrow> (string, 'db store_ref observer_object) result" where
  "py_observer_start db env n name store_path =
     start_object db n store_path ''failed to start session: '' observer_run_id (start_observer env name)"

text \<open>A call that fails before it has read the address leaves the object as it is.\<close>

definition or_raise ::
  "(string, 'a) result \<Rightarrow> 'c \<Rightarrow> ('a \<Rightarrow> ((string, unit) result \<times> 'c) option) \<Rightarrow>
     ((string, unit) result \<times> 'c) option" where
  "or_raise r obj k = (case r of Inl e \<Rightarrow> Some (Inl e, obj) | Inr x \<Rightarrow> k x)"

definition py_record_llm_call ::
  "'o python \<Rightarrow> call_env \<Rightarrow> string \<Rightarrow> 'o \<Rightarrow> 'o \<Rightarrow> 'r observer_object \<Rightarrow>
     ((string, unit) result \<times> 'r observer_object) option" where
  "py_record_llm_call py env node_id request response obj =
     or_raise (py_to_json py request) obj (\<lambda>req_json.
     or_raise (py_to_json py response) obj (\<lambda>resp_json.
       with_session ''record'' (observer_llm_call_for_node (en_gone env) (en_now env) node_id
         (json_to_llm_request req_json) (json_to_llm_response resp_json)) obj))"

definition py_record_tool_call ::
  "'o python \<Rightarrow> call_env \<Rightarrow> string \<Rightarrow> 'o \<Rightarrow> 'o \<Rightarrow> u64 \<Rightarrow> 'r observer_object \<Rightarrow>
     ((string, unit) result \<times> 'r observer_object) option" where
  "py_record_tool_call py env tool inputs outputs duration_ms obj =
     or_raise (py_to_json py inputs) obj (\<lambda>inputs_json.
     or_raise (py_to_json py outputs) obj (\<lambda>outputs_json.
       with_session ''record'' (observer_tool_call (en_gone env) (en_now env) tool inputs_json outputs_json duration_ms) obj))"

definition py_record_step ::
  "'o python \<Rightarrow> call_env \<Rightarrow> string \<Rightarrow> 'o \<Rightarrow> 'r observer_object \<Rightarrow>
     ((string, unit) result \<times> 'r observer_object) option" where
  "py_record_step py env step_name data obj =
     or_raise (py_to_json py data) obj (\<lambda>data_json.
       with_session ''record'' (observer_step (en_gone env) (en_now env) step_name data_json) obj)"

definition py_observer_finish ::
  "call_env \<Rightarrow> string \<Rightarrow> 'r observer_object \<Rightarrow> (string, unit) result \<times> 'r observer_object \<times> session option" where
  "py_observer_finish env status obj = object_finish (finish_observer env (status_from_str status)) obj"

definition py_get_run_data :: "'o python \<Rightarrow> 'r store_reads \<Rightarrow> ('s, 'r) session_object \<Rightarrow> (string, 'o) result" where
  "py_get_run_data py rs obj =
     and_then (object_run_record rs obj) (\<lambda>record.
     and_then (map_err (\<lambda>e. ''serialize failed: '' @ e) (py_record_text py record)) (py_loads py))"

definition py_get_events :: "'o python \<Rightarrow> 'r store_reads \<Rightarrow> ('s, 'r) session_object \<Rightarrow> (string, 'o) result" where
  "py_get_events py rs obj =
     and_then (object_event_log rs obj) (\<lambda>events.
     and_then (map_err (\<lambda>e. ''serialize failed: '' @ e) (py_events_text py events)) (py_loads py))"

text \<open>Leaving a \<open>with\<close> block; the answer \<open>False\<close> lets an exception of the block pass.\<close>

definition exit_status :: "bool \<Rightarrow> string" where
  "exit_status has_exception = (if has_exception then ''failed'' else ''completed'')"

definition py_observer_exit ::
  "call_env \<Rightarrow> bool \<Rightarrow> 'r observer_object \<Rightarrow> (string, bool) result \<times> 'r observer_object \<times> session option" where
  "py_observer_exit env has_exception obj =
     (case py_observer_finish env (exit_status has_exception) obj of
        (r, rest) \<Rightarrow> (and_then r (\<lambda>_. Inr False), rest))"

definition unknown_framework :: "string \<Rightarrow> string" where
  "unknown_framework other =
     ''unknown framework: '' @ other @ ''. Supported: langchain, langgraph, semantic_kernel''"

definition py_adapter_start ::
  "'db database \<Rightarrow> call_env \<Rightarrow> nat \<Rightarrow> string \<Rightarrow> string option \<Rightarrow> string option \<Rightarrow>
     (string, 'db store_ref adapter_object) result" where
  "py_adapter_start db env n framework name store_path =
     (case framework_adapter framework of
        None \<Rightarrow> Inl (unknown_framework framework)
      | Some ad \<Rightarrow>
          start_object db n store_path ''failed to start: '' (\<lambda>s. observer_run_id (as_observer s))
            (start_adapter env (unwrap_or name framework) ad))"

text \<open>\<open>on_event\<close> looks at the flag before it converts the event.\<close>

definition py_on_event ::
  "'o python \<Rightarrow> call_env \<Rightarrow> 'o \<Rightarrow> 'r adapter_object \<Rightarrow> ((string, unit) result \<times> 'r adapter_object) option" where
  "py_on_event py env event obj =
     (if so_finished obj then Some (Inl already_finished, obj)
      else or_raise (py_to_json py event) obj (\<lambda>json.
             with_session ''event processing'' (callback_event env json) obj))"

definition py_adapter_finish ::
  "call_env \<Rightarrow> string \<Rightarrow> 'r adapter_object \<Rightarrow> (string, unit) result \<times> 'r adapter_object \<times> session option" where
  "py_adapter_finish env status obj = object_finish (finish_adapter env (status_from_str status)) obj"

definition py_adapter_exit ::
  "call_env \<Rightarrow> bool \<Rightarrow> 'r adapter_object \<Rightarrow> (string, bool) result \<times> 'r adapter_object \<times> session option" where
  "py_adapter_exit env has_exception obj =
     (case py_adapter_finish env (exit_status has_exception) obj of
        (r, rest) \<Rightarrow> (and_then r (\<lambda>_. Inr False), rest))"

subsection \<open>Node\<close>

text \<open>Values arrive as JSON, and the duration of a tool call as 32 bits.\<close>

definition node_observer_start ::
  "'db database \<Rightarrow> call_env \<Rightarrow> nat \<Rightarrow> string \<Rightarrow> string option \<Rightarrow> (string, 'db store_ref observer_object) result" where
  "node_observer_start db env n name store_url =
     start_object db n store_url ''failed to start session: '' observer_run_id (start_observer env name)"

definition node_record_llm_call ::
  "call_env \<Rightarrow> string \<Rightarrow> json \<Rightarrow> json \<Rightarrow> 'r observer_object \<Rightarrow> ((string, unit) result \<times> 'r observer_object) option" where
  "node_record_llm_call env node_id request response obj =
     with_session ''record'' (observer_llm_call_for_node (en_gone env) (en_now env) node_id
       (json_to_llm_request request) (json_to_llm_response response)) obj"

definition node_record_tool_call ::
  "call_env \<Rightarrow> string \<Rightarrow> json \<Rightarrow> json \<Rightarrow> u32 \<Rightarrow> 'r observer_object \<Rightarrow>
     ((string, unit) result \<times> 'r observer_object) option" where
  "node_record_tool_call env tool inputs outputs duration_ms obj =
     with_session ''record''
       (observer_tool_call (en_gone env) (en_now env) tool inputs outputs (ucast duration_ms)) obj"

definition node_record_step ::
  "call_env \<Rightarrow> string \<Rightarrow> json \<Rightarrow> 'r observer_object \<Rightarrow> ((string, unit) result \<times> 'r observer_object) option" where
  "node_record_step env step_name data obj =
     with_session ''record'' (observer_step (en_gone env) (en_now env) step_name data) obj"

definition node_observer_finish ::
  "call_env \<Rightarrow> string option \<Rightarrow> 'r observer_object \<Rightarrow>
     (string, unit) result \<times> 'r observer_object \<times> session option" where
  "node_observer_finish env status obj = object_finish (finish_observer env (parse_status status)) obj"

definition node_adapter_start ::
  "'db database \<Rightarrow> call_env \<Rightarrow> nat \<Rightarrow> string \<Rightarrow> string option \<Rightarrow> string option \<Rightarrow>
     (string, 'db store_ref adapter_object) result" where
  "node_adapter_start db env n framework name store_url =
     (case framework_adapter framework of
        None \<Rightarrow> Inl (unknown_framework framework)
      | Some ad \<Rightarrow>
          start_object db n store_url ''failed to start: '' (\<lambda>s. observer_run_id (as_observer s))
            (start_adapter env (unwrap_or name framework) ad))"

definition node_on_event ::
  "call_env \<Rightarrow> json \<Rightarrow> 'r adapter_object \<Rightarrow> ((string, unit) result \<times> 'r adapter_object) option" where
  "node_on_event env event obj = with_session ''event processing'' (callback_event env event) obj"

definition node_adapter_finish ::
  "call_env \<Rightarrow> string option \<Rightarrow> 'r adapter_object \<Rightarrow> (string, unit) result \<times> 'r adapter_object \<times> session option" where
  "node_adapter_finish env status obj = object_finish (finish_adapter env (parse_status status)) obj"

definition node_get_run_data ::
  "(run_record \<Rightarrow> (string, json) result) \<Rightarrow> 'r store_reads \<Rightarrow> ('s, 'r) session_object \<Rightarrow> (string, json) result" where
  "node_get_run_data to_value rs obj =
     and_then (object_run_record rs obj) (\<lambda>record. map_err (\<lambda>e. ''serialize failed: '' @ e) (to_value record))"

definition node_get_events ::
  "(write_event list \<Rightarrow> (string, json) result) \<Rightarrow> 'r store_reads \<Rightarrow> ('s, 'r) session_object \<Rightarrow> (string, json) result" where
  "node_get_events to_value rs obj =
     and_then (object_event_log rs obj) (\<lambda>events. map_err (\<lambda>e. ''serialize failed: '' @ e) (to_value events))"

section \<open>What a binding owes its users\<close>

text \<open>A request to record, as the user of any binding states it, and the operation of the observer it stands for.\<close>

datatype request = RqLlm string json json | RqTool string json json u64 | RqStep string json

fun request_op :: "call_env \<Rightarrow> request \<Rightarrow> observer_op" where
  "request_op env (RqLlm node_id request response) =
     ObLlmFor (en_gone env) (en_now env) node_id (json_to_llm_request request) (json_to_llm_response response)"
| "request_op env (RqTool tool inputs outputs duration_ms) =
     ObTool (en_gone env) (en_now env) tool inputs outputs duration_ms"
| "request_op env (RqStep step_name data) = ObStep (en_gone env) (en_now env) step_name data"

fun observer_answers :: "(call_env \<times> request) list \<Rightarrow> observer \<Rightarrow> bool list \<times> observer" where
  "observer_answers [] ob = ([], ob)"
| "observer_answers ((env, rq) # rqs) ob =
     (case observer_apply (request_op env rq) ob of (r, ob1) \<Rightarrow>
        case observer_answers rqs ob1 of (oks, ob2) \<Rightarrow> ((\<not> isl r) # oks, ob2))"

fun record_all ::
  "(call_env \<Rightarrow> request \<Rightarrow> 'c \<Rightarrow> (bool \<times> 'c) option) \<Rightarrow> (call_env \<times> request) list \<Rightarrow> 'c \<Rightarrow> (bool list \<times> 'c) option" where
  "record_all record_on [] c = Some ([], c)"
| "record_all record_on ((env, rq) # rqs) c =
     Option.bind (record_on env rq c) (\<lambda>(b, c1).
     Option.bind (record_all record_on rqs c1) (\<lambda>(bs, c2). Some (b # bs, c2)))"

text \<open>A use of a session: requests, a finish, further requests.  The outcome is which requests succeeded,
  whether the finish did, and the session it consumed.\<close>

definition binding_trace ::
  "(call_env \<Rightarrow> request \<Rightarrow> 'c \<Rightarrow> (bool \<times> 'c) option) \<Rightarrow> (call_env \<Rightarrow> string \<Rightarrow> 'c \<Rightarrow> bool \<times> 'c \<times> session option) \<Rightarrow>
     (call_env \<times> request) list \<Rightarrow> call_env \<Rightarrow> string \<Rightarrow> (call_env \<times> request) list \<Rightarrow> 'c \<Rightarrow>
     (bool list \<times> bool \<times> session option \<times> bool list) option" where
  "binding_trace record_on finish_on rqs env status later c =
     Option.bind (record_all record_on rqs c) (\<lambda>(bs, c1).
       case finish_on env status c1 of (b, c2, se) \<Rightarrow>
         Option.bind (record_all record_on later c2) (\<lambda>(bs', c3). Some (bs, b, se, bs')))"

definition observer_trace ::
  "(call_env \<times> request) list \<Rightarrow> call_env \<Rightarrow> string \<Rightarrow> (call_env \<times> request) list \<Rightarrow> observer \<Rightarrow>
     bool list \<times> bool \<times> session option \<times> bool list" where
  "observer_trace rqs env status later ob =
     (case observer_answers rqs ob of (oks, ob1) \<Rightarrow>
        case finish_observer env (status_from_str status) ob1 of (r, se) \<Rightarrow>
          (oks, \<not> isl r, Some se, replicate (length later) False))"

locale session_binding =
  fixes inv :: "'c \<Rightarrow> bool"
    and held :: "'c \<Rightarrow> observer option"
    and fits :: "request \<Rightarrow> bool"
    and record_on :: "call_env \<Rightarrow> request \<Rightarrow> 'c \<Rightarrow> (bool \<times> 'c) option"
    and finish_on :: "call_env \<Rightarrow> string \<Rightarrow> 'c \<Rightarrow> bool \<times> 'c \<times> session option"
  assumes record_held: "\<lbrakk>inv c; held c = Some ob; fits rq; observer_apply (request_op env rq) ob = (r, ob')\<rbrakk> \<Longrightarrow>
      \<exists>c'. record_on env rq c = Some (\<not> isl r, c') \<and> inv c' \<and> held c' = Some ob'"
    and record_gone: "\<lbrakk>inv c; held c = None; fits rq\<rbrakk> \<Longrightarrow>
      \<exists>c'. record_on env rq c = Some (False, c') \<and> inv c' \<and> held c' = None"
    and finish_held: "\<lbrakk>inv c; held c = Some ob; finish_observer env (status_from_str status) ob = (r, se)\<rbrakk> \<Longrightarrow>
      \<exists>c'. finish_on env status c = (\<not> isl r, c', Some se) \<and> inv c' \<and> held c' = None"
    and finish_gone: "\<lbrakk>inv c; held c = None\<rbrakk> \<Longrightarrow>
      \<exists>c'. finish_on env status c = (False, c', None) \<and> inv c' \<and> held c' = None"
begin

lemma records_held:
  "\<lbrakk>inv c; held c = Some ob; list_all (\<lambda>(_, rq). fits rq) rqs\<rbrakk> \<Longrightarrow>
     \<exists>c'. record_all record_on rqs c = Some (fst (observer_answers rqs ob), c') \<and> inv c'
       \<and> held c' = Some (snd (observer_answers rqs ob))"
proof (induction rqs arbitrary: c ob)
  case (Cons q rqs)
  obtain env rq r ob1 where q: "q = (env, rq)" "observer_apply (request_op env rq) ob = (r, ob1)" by force
  with Cons.prems record_held [of c ob rq env r ob1] obtain c1 where c1: "record_on env rq c = Some (\<not> isl r, c1)"
    "inv c1" "held c1 = Some ob1" by auto
  from Cons.IH [OF c1(2,3)] Cons.prems(3) q c1(1) show ?case
    by (cases "observer_answers rqs ob1") auto
qed simp

lemma records_gone:
  "\<lbrakk>inv c; held c = None; list_all (\<lambda>(_, rq). fits rq) rqs\<rbrakk> \<Longrightarrow>
     \<exists>c'. record_all record_on rqs c = Some (replicate (length rqs) False, c')"
proof (induction rqs arbitrary: c)
  case (Cons q rqs)
  obtain env rq where q: "q = (env, rq)" by force
  with Cons.prems record_gone [of c rq env] obtain c1 where "record_on env rq c = Some (False, c1)" "inv c1" "held c1 = None"
    by auto
  with Cons.IH [of c1] Cons.prems(3) q show ?case by auto
qed simp

lemma trace_held:
  assumes "inv c" "held c = Some ob" "list_all (\<lambda>(_, rq). fits rq) (rqs @ later)"
  shows "binding_trace record_on finish_on rqs env status later c = Some (observer_trace rqs env status later ob)"
proof -
  obtain oks ob1 r se where a: "observer_answers rqs ob = (oks, ob1)"
    "finish_observer env (status_from_str status) ob1 = (r, se)" by (metis surj_pair)
  from assms records_held [of c ob rqs] a(1) obtain c1 where c1: "record_all record_on rqs c = Some (oks, c1)"
    "inv c1" "held c1 = Some ob1" by auto
  from finish_held [OF c1(2,3) a(2)] obtain c2 where c2: "finish_on env status c1 = (\<not> isl r, c2, Some se)"
    "inv c2" "held c2 = None" by auto
  from assms(3) records_gone [OF c2(2,3), of later] a c1(1) c2(1) show ?thesis
    by (auto simp: binding_trace_def observer_trace_def)
qed

lemma finish_once:
  assumes "inv c" "held c = None"
  shows "\<exists>c'. finish_on env status c = (False, c', None) \<and> held c' = None"
  using finish_gone [OF assms] by blast

end

section \<open>Python and Node keep the contract\<close>

definition object_inv :: "('s, 'r) session_object \<Rightarrow> bool" where
  "object_inv obj \<longleftrightarrow> (so_finished obj \<longleftrightarrow> so_inner obj = None)"

definition node_record :: "call_env \<Rightarrow> request \<Rightarrow> 'r observer_object \<Rightarrow> (bool \<times> 'r observer_object) option" where
  "node_record env rq obj = map_option (map_prod (\<lambda>r. \<not> isl r) id)
     (case rq of
        RqLlm node_id request response \<Rightarrow> node_record_llm_call env node_id request response obj
      | RqTool tool inputs outputs duration_ms \<Rightarrow> node_record_tool_call env tool inputs outputs (ucast duration_ms) obj
      | RqStep step_name data \<Rightarrow> node_record_step env step_name data obj)"

text \<open>The requests Node can state: 32 bits of duration.\<close>

fun node_fits :: "request \<Rightarrow> bool" where
  "node_fits (RqTool _ _ _ duration_ms) \<longleftrightarrow> unat duration_ms < 2 ^ 32"
| "node_fits _ \<longleftrightarrow> True"

definition node_finish :: "call_env \<Rightarrow> string \<Rightarrow> 'r observer_object \<Rightarrow> bool \<times> 'r observer_object \<times> session option" where
  "node_finish env status obj = map_prod (\<lambda>r. \<not> isl r) id (node_observer_finish env (Some status) obj)"

definition py_record ::
  "'o python \<Rightarrow> (json \<Rightarrow> 'o) \<Rightarrow> call_env \<Rightarrow> request \<Rightarrow> 'r observer_object \<Rightarrow> (bool \<times> 'r observer_object) option" where
  "py_record py val env rq obj = map_option (map_prod (\<lambda>r. \<not> isl r) id)
     (case rq of
        RqLlm node_id request response \<Rightarrow> py_record_llm_call py env node_id (val request) (val response) obj
      | RqTool tool inputs outputs duration_ms \<Rightarrow>
          py_record_tool_call py env tool (val inputs) (val outputs) duration_ms obj
      | RqStep step_name data \<Rightarrow> py_record_step py env step_name (val data) obj)"

fun request_values :: "request \<Rightarrow> json list" where
  "request_values (RqLlm _ request response) = [request, response]"
| "request_values (RqTool _ inputs outputs _) = [inputs, outputs]"
| "request_values (RqStep _ data) = [data]"

definition py_fits :: "'o python \<Rightarrow> (json \<Rightarrow> 'o) \<Rightarrow> request \<Rightarrow> bool" where
  "py_fits py val rq \<longleftrightarrow> list_all (\<lambda>v. py_to_json py (val v) = Inr v) (request_values rq)"

definition py_finish :: "call_env \<Rightarrow> string \<Rightarrow> 'r observer_object \<Rightarrow> bool \<times> 'r observer_object \<times> session option" where
  "py_finish env status obj = map_prod (\<lambda>r. \<not> isl r) id (py_observer_finish env status obj)"

lemma isl_map_err [simp]: "isl (map_err f r) \<longleftrightarrow> isl r"
  by (cases r) simp_all

lemma ucast_small: "unat (n :: u64) < 2 ^ 32 \<Longrightarrow> ucast (ucast n :: u32) = n"
  by (simp add: word_unat_eq_iff unsigned_ucast_eq unsigned_take_bit_eq take_bit_nat_eq_self)

lemma with_session_held:
  "\<lbrakk>object_inv obj; so_inner obj \<noteq> None\<rbrakk> \<Longrightarrow> with_session what f obj =
     Some (map_err (\<lambda>e. what @ '' failed: '' @ session_error_to_string e) (fst (f (the (so_inner obj)))),
       obj\<lparr>so_inner := Some (snd (f (the (so_inner obj))))\<rparr>)"
  by (auto simp: with_session_def session_ptr_def use_ptr_def object_inv_def split: prod.split)

lemma object_inv_set: "\<lbrakk>object_inv obj; so_inner obj = Some s\<rbrakk> \<Longrightarrow> object_inv (obj\<lparr>so_inner := Some s'\<rparr>)"
  by (simp add: object_inv_def)

lemma with_session_gone:
  "\<lbrakk>object_inv obj; so_inner obj = None\<rbrakk> \<Longrightarrow> with_session what f obj = Some (Inl already_finished, obj)"
  by (simp add: with_session_def session_ptr_def object_inv_def)

lemma object_finish_held:
  "\<lbrakk>so_inner obj = Some s; fin s = (r, se)\<rbrakk> \<Longrightarrow>
     \<exists>obj'. map_prod (\<lambda>r. \<not> isl r) id (object_finish fin obj) = (\<not> isl r, obj', Some se) \<and> object_inv obj' \<and> so_inner obj' = None"
  by (simp add: object_finish_def object_inv_def)

lemma object_finish_gone:
  "so_inner obj = None \<Longrightarrow>
     \<exists>obj'. map_prod (\<lambda>r. \<not> isl r) id (object_finish fin obj) = (False, obj', None) \<and> object_inv obj' \<and> so_inner obj' = None"
  by (simp add: object_finish_def object_inv_def)

lemma observer_apply_fun:
  "observer_apply (ObLlmFor gone now node_id request response) = observer_llm_call_for_node gone now node_id request response"
  "observer_apply (ObTool gone now tool inputs outputs duration_ms) = observer_tool_call gone now tool inputs outputs duration_ms"
  "observer_apply (ObStep gone now step_name data) = observer_step gone now step_name data"
  by (rule ext, simp)+

lemma node_record_eq:
  "node_fits rq \<Longrightarrow> node_record env rq obj =
     map_option (map_prod (\<lambda>r. \<not> isl r) id) (with_session ''record'' (observer_apply (request_op env rq)) obj)"
  by (cases rq) (simp_all add: node_record_def node_record_llm_call_def node_record_tool_call_def node_record_step_def
      observer_apply_fun ucast_small)

lemma py_record_eq:
  "py_fits py val rq \<Longrightarrow> py_record py val env rq obj =
     map_option (map_prod (\<lambda>r. \<not> isl r) id) (with_session ''record'' (observer_apply (request_op env rq)) obj)"
  by (cases rq) (simp_all add: py_record_def py_record_llm_call_def py_record_tool_call_def py_record_step_def
      py_fits_def or_raise_def observer_apply_fun)

interpretation node: session_binding object_inv so_inner node_fits node_record node_finish
  by unfold_locales
    (simp_all add: node_record_eq with_session_held object_inv_set with_session_gone node_finish_def node_observer_finish_def
      parse_status_eq object_finish_held object_finish_gone)

interpretation python: session_binding object_inv so_inner "py_fits py val" "py_record py val" py_finish
  for py :: "'o python" and val
  by unfold_locales
    (simp_all add: py_record_eq with_session_held object_inv_set with_session_gone py_finish_def py_observer_finish_def
      object_finish_held object_finish_gone)

section \<open>What the readers miss\<close>

text \<open>
  A request or a response that arrives as a text, as after an extra \<open>json.dumps\<close>, is recorded with nothing of
  its content.
\<close>

theorem text_arguments_unread:
  "json_to_llm_request (JString s) = json_to_llm_request JNull \<and> json_to_llm_response (JString s) = json_to_llm_response JNull
   \<and> lq_model (json_to_llm_request (JString s)) = ''unknown'' \<and> lq_messages (json_to_llm_request (JString s)) = JArray []
   \<and> lr_content (json_to_llm_response (JString s)) = JString []"
  by (simp add: json_to_llm_request_def json_to_llm_response_def)

text \<open>
  The token counts of the same response are read at different places: an observer session of a binding
  finds them only beside \<open>content\<close>, an adapter session only under \<open>usage\<close>.
\<close>

theorem token_counts_disagree:
  fixes n :: u64
  defines "raw \<equiv> \<lambda>v. json_object [(''content'', JString ''hi''), (''usage'', json_object [(''input_tokens'', v)])]"
  assumes "as_u64 v = Some n"
  shows "lr_input_tokens (json_to_llm_response (raw v)) = None"
    "lr_input_tokens (parse_llm_response (raw v) 0) = Some (ucast n)"
  using assms by (simp_all add: json_to_llm_response_def parse_llm_response_def usage_u32_def json_object_def bt_of_list_def)

text \<open>
  In Python another thread may finish a session while a call that has read its address has released the
  interpreter: going on with the address is then undefined.
\<close>

theorem object_finish_invalidates:
  "session_ptr obj = Inr () \<Longrightarrow>
     use_ptr what f (fst (snd (object_finish fin obj))) = None
     \<and> session_ptr (fst (snd (object_finish fin obj))) = Inl already_finished"
  by (auto simp: session_ptr_def use_ptr_def object_finish_def split: if_splits option.splits prod.split)

text \<open>A session finished inside its own \<open>with\<close> block makes the block's end raise.\<close>

theorem exit_after_finish_raises:
  "fst (py_observer_exit env exc (fst (snd (py_observer_finish env' status obj)))) = Inl already_finished"
  by (simp add: py_observer_exit_def py_observer_finish_def object_finish_def Let_def split: option.split prod.split)

end
