(* ===== verification/Dotnet_Binding.thy ===== *)
theory Dotnet_Binding
  imports Session_Bindings Node_Plugins
begin

text \<open>
  The C interface of the .NET binding (\<open>cleargate-dotnet/src/lib.rs\<close>): sessions behind 64-bit handles in two
  locked hash tables, an error text per thread, return codes and strings the caller frees.  A function that
  records takes the address of a session out of the table, releases the lock and uses the address
  afterwards.  The two halves are two steps here, so that a schedule of several threads is a list of
  steps; an address is good as long as the table has not been reallocated and the session has not been
  taken out.  A function is given its thread, what the session meets (\<open>call_env\<close>) and, for an insert,
  whether the table is reallocated.
\<close>

section \<open>Tables of handles\<close>

record ('s, 'r) wrapper =
  wr_session :: "'s option"
  wr_store :: 'r
  wr_run_id :: string

record ('s, 'r) handle_table =
  ht_wrappers :: "u64 \<Rightarrow> ('s, 'r) wrapper option"
  ht_moves :: nat

type_synonym pointer = "nat \<times> u64"

definition table_new :: "('s, 'r) handle_table" where
  "table_new = \<lparr>ht_wrappers = \<lambda>_. None, ht_moves = 0\<rparr>"

definition session_at :: "u64 \<Rightarrow> ('s, 'r) handle_table \<Rightarrow> 's option" where
  "session_at h T = Option.bind (ht_wrappers T h) wr_session"

definition acquire :: "u64 \<Rightarrow> ('s, 'r) handle_table \<Rightarrow> pointer option" where
  "acquire h T = map_option (\<lambda>_. (ht_moves T, h)) (session_at h T)"

definition deref :: "pointer \<Rightarrow> ('s, 'r) handle_table \<Rightarrow> 's option" where
  "deref p T = (if fst p = ht_moves T then session_at (snd p) T else None)"

definition set_session :: "u64 \<Rightarrow> 's option \<Rightarrow> ('s, 'r) handle_table \<Rightarrow> ('s, 'r) handle_table" where
  "set_session h s T =
     T\<lparr>ht_wrappers := (ht_wrappers T)(h := map_option (\<lambda>w. w\<lparr>wr_session := s\<rparr>) (ht_wrappers T h))\<rparr>"

definition table_insert :: "bool \<Rightarrow> u64 \<Rightarrow> ('s, 'r) wrapper \<Rightarrow> ('s, 'r) handle_table \<Rightarrow> ('s, 'r) handle_table" where
  "table_insert moved h w T =
     T\<lparr>ht_wrappers := (ht_wrappers T)(h := Some w), ht_moves := (if moved then Suc (ht_moves T) else ht_moves T)\<rparr>"

definition table_remove :: "u64 \<Rightarrow> ('s, 'r) handle_table \<Rightarrow> ('s, 'r) handle_table" where
  "table_remove h T = T\<lparr>ht_wrappers := (ht_wrappers T)(h := None)\<rparr>"

section \<open>The library\<close>

text \<open>\<open>nt_next\<close> is \<open>NEXT_HANDLE\<close>; \<open>nt_stores\<close> counts the in-memory stores; \<open>nt_live\<close> are the addresses of the strings
  handed out and not yet freed, \<open>nt_addr\<close> the next one.\<close>

record 'db native =
  nt_next :: u64
  nt_observers :: "(observer, 'db store_ref) handle_table"
  nt_adapters :: "(adapter_session, 'db store_ref) handle_table"
  nt_errors :: "nat \<Rightarrow> string option"
  nt_stores :: nat
  nt_addr :: nat
  nt_live :: "nat list"

definition native_init :: "'db native" where
  "native_init =
     \<lparr>nt_next = 1, nt_observers = table_new, nt_adapters = table_new, nt_errors = \<lambda>_. None, nt_stores = 0,
      nt_addr = 0, nt_live = []\<rparr>"

definition set_last_error :: "nat \<Rightarrow> string \<Rightarrow> 'db native \<Rightarrow> 'db native" where
  "set_last_error t msg st = st\<lparr>nt_errors := (nt_errors st)(t := Some msg)\<rparr>"

definition string_to_c :: "string \<Rightarrow> 'db native \<Rightarrow> c_ptr \<times> 'db native" where
  "string_to_c s st =
     (case c_string s of
        Inl _ \<Rightarrow> (CNull, st)
      | Inr cs \<Rightarrow> (CStr (nt_addr st) cs, st\<lparr>nt_addr := Suc (nt_addr st), nt_live := nt_addr st # nt_live st\<rparr>))"

definition cleargate_last_error :: "nat \<Rightarrow> 'db native \<Rightarrow> c_ptr \<times> 'db native" where
  "cleargate_last_error t st =
     (case nt_errors st t of
        None \<Rightarrow> (CNull, st)
      | Some msg \<Rightarrow> string_to_c msg (st\<lparr>nt_errors := (nt_errors st)(t := None)\<rparr>))"

text \<open>Freeing a string that is not live has no result.\<close>

fun cleargate_free_string :: "c_ptr \<Rightarrow> 'db native \<Rightarrow> 'db native option" where
  "cleargate_free_string CNull st = Some st"
| "cleargate_free_string (CStr a s) st =
     (if a \<in> set (nt_live st) then Some (st\<lparr>nt_live := remove1 a (nt_live st)\<rparr>) else None)"

fun cstr_to_str :: "c_ptr \<Rightarrow> string option" where
  "cstr_to_str CNull = None"
| "cstr_to_str (CStr a s) = (if utf8_valid s then Some s else None)"

text \<open>The JSON reader (its errors are dropped) and writers.\<close>

record c_json =
  cj_parse :: "string \<Rightarrow> json option"
  cj_record_text :: "run_record \<Rightarrow> (string, string) result"
  cj_events_text :: "write_event list \<Rightarrow> (string, string) result"

definition count_store :: "'db store_ref \<Rightarrow> 'db native \<Rightarrow> 'db native" where
  "count_store store st = (case store of MemRef n \<Rightarrow> st\<lparr>nt_stores := Suc (nt_stores st)\<rparr> | DbRef conn \<Rightarrow> st)"

definition drop_observer :: "call_env \<Rightarrow> observer \<Rightarrow> session" where
  "drop_observer env ob = session_drop (en_chan env) (en_ended env) (en_completed env) (ob_inner ob)"

definition drop_adapter :: "call_env \<Rightarrow> adapter_session \<Rightarrow> session" where
  "drop_adapter env s = drop_observer env (as_observer s)"

subsection \<open>Observers\<close>

text \<open>The third part of an answer is the session the call consumed: for a start the one whose handle it
  overwrites.\<close>

definition cleargate_observer_start ::
  "'db database \<Rightarrow> call_env \<Rightarrow> nat \<Rightarrow> bool \<Rightarrow> c_ptr \<Rightarrow> c_ptr \<Rightarrow> 'db native \<Rightarrow> u64 \<times> 'db native \<times> session option" where
  "cleargate_observer_start db env t moved name store_path st =
     (case cstr_to_str name of
        None \<Rightarrow> (0, st, None)
      | Some name_str \<Rightarrow>
          (case open_store db (nt_stores st) (cstr_to_str store_path) of
             Inl e \<Rightarrow> (0, set_last_error t e st, None)
           | Inr store \<Rightarrow>
               let st1 = count_store store st in
               (case start_observer env name_str store of
                  Inl e \<Rightarrow> (0, set_last_error t (''observer start failed: '' @ session_error_to_string e) st1, None)
                | Inr ob \<Rightarrow>
                    let handle = nt_next st1;
                        w = \<lparr>wr_session = Some ob, wr_store = store, wr_run_id = observer_run_id ob\<rparr>
                    in (handle,
                        st1\<lparr>nt_next := handle + 1, nt_observers := table_insert moved handle w (nt_observers st1)\<rparr>,
                        map_option (drop_observer env) (session_at handle (nt_observers st1))))))"

text \<open>The first half of a recording function: \<open>None\<close> is the return code $-1$.\<close>

datatype 'op pending = Pending pointer string 'op

definition pend :: "('s, 'r) handle_table \<Rightarrow> u64 \<Rightarrow> string \<Rightarrow> 'op \<Rightarrow> 'op pending option" where
  "pend T h what rec_op = map_option (\<lambda>p. Pending p what rec_op) (acquire h T)"

definition json_arg :: "c_json \<Rightarrow> c_ptr \<Rightarrow> json option" where
  "json_arg cj p = Option.bind (cstr_to_str p) (cj_parse cj)"

definition cleargate_observer_record_llm_call ::
  "c_json \<Rightarrow> call_env \<Rightarrow> u64 \<Rightarrow> c_ptr \<Rightarrow> c_ptr \<Rightarrow> c_ptr \<Rightarrow> 'db native \<Rightarrow> observer_op pending option" where
  "cleargate_observer_record_llm_call cj env h node_id request_json response_json st =
     Option.bind (cstr_to_str node_id) (\<lambda>node_id_str.
     Option.bind (json_arg cj request_json) (\<lambda>req_val.
     Option.bind (json_arg cj response_json) (\<lambda>resp_val.
       pend (nt_observers st) h ''record_llm_call''
         (ObLlmFor (en_gone env) (en_now env) node_id_str (json_to_llm_request req_val) (json_to_llm_response resp_val)))))"

definition cleargate_observer_record_tool_call ::
  "c_json \<Rightarrow> call_env \<Rightarrow> u64 \<Rightarrow> c_ptr \<Rightarrow> c_ptr \<Rightarrow> c_ptr \<Rightarrow> u64 \<Rightarrow> 'db native \<Rightarrow> observer_op pending option" where
  "cleargate_observer_record_tool_call cj env h tool inputs_json outputs_json duration_ms st =
     Option.bind (cstr_to_str tool) (\<lambda>tool_str.
     Option.bind (json_arg cj inputs_json) (\<lambda>inputs_val.
     Option.bind (json_arg cj outputs_json) (\<lambda>outputs_val.
       pend (nt_observers st) h ''record_tool_call''
         (ObTool (en_gone env) (en_now env) tool_str inputs_val outputs_val duration_ms))))"

definition cleargate_observer_record_step ::
  "c_json \<Rightarrow> call_env \<Rightarrow> u64 \<Rightarrow> c_ptr \<Rightarrow> c_ptr \<Rightarrow> 'db native \<Rightarrow> observer_op pending option" where
  "cleargate_observer_record_step cj env h step_name data_json st =
     Option.bind (cstr_to_str step_name) (\<lambda>step_str.
     Option.bind (json_arg cj data_json) (\<lambda>data_val.
       pend (nt_observers st) h ''record_step'' (ObStep (en_gone env) (en_now env) step_str data_val)))"

text \<open>The second half, and a whole call that nothing interrupts.\<close>

definition return_code :: "nat \<Rightarrow> string \<Rightarrow> (session_error, unit) result \<Rightarrow> 'db native \<Rightarrow> int \<times> 'db native" where
  "return_code t what r st =
     (case r of
        Inr _ \<Rightarrow> (0, st)
      | Inl e \<Rightarrow> (- 1, set_last_error t (what @ '' failed: '' @ session_error_to_string e) st))"

fun use_observer :: "nat \<Rightarrow> observer_op pending \<Rightarrow> 'db native \<Rightarrow> (int \<times> 'db native) option" where
  "use_observer t (Pending p what rec_op) st =
     (case deref p (nt_observers st) of
        None \<Rightarrow> None
      | Some ob \<Rightarrow> (case observer_apply rec_op ob of (r, ob') \<Rightarrow>
          Some (return_code t what r (st\<lparr>nt_observers := set_session (snd p) (Some ob') (nt_observers st)\<rparr>))))"

definition record_call ::
  "(nat \<Rightarrow> 'op pending \<Rightarrow> 'db native \<Rightarrow> (int \<times> 'db native) option) \<Rightarrow> nat \<Rightarrow> 'op pending option \<Rightarrow> 'db native \<Rightarrow>
     (int \<times> 'db native) option" where
  "record_call use t pending st = (case pending of None \<Rightarrow> Some (- 1, st) | Some p \<Rightarrow> use t p st)"

definition cleargate_observer_finish ::
  "call_env \<Rightarrow> nat \<Rightarrow> u64 \<Rightarrow> c_ptr \<Rightarrow> 'db native \<Rightarrow> int \<times> 'db native \<times> session option" where
  "cleargate_observer_finish env t h status st =
     (let run_status = status_from_str (unwrap_or (cstr_to_str status) ''completed'') in
      case session_at h (nt_observers st) of
        None \<Rightarrow> (- 1, st, None)
      | Some ob \<Rightarrow> (case finish_observer env run_status ob of (r, se) \<Rightarrow>
          case return_code t ''observer finish'' r (st\<lparr>nt_observers := set_session h None (nt_observers st)\<rparr>) of
            (code, st1) \<Rightarrow> (code, st1, Some se)))"

definition wrapper_run_data ::
  "c_json \<Rightarrow> 'db store_ref store_reads \<Rightarrow> ('s, 'db store_ref) wrapper option \<Rightarrow> 'db native \<Rightarrow> c_ptr \<times> 'db native" where
  "wrapper_run_data cj rs wrapper st =
     (case wrapper of
        None \<Rightarrow> (CNull, st)
      | Some w \<Rightarrow>
          (case sr_get_run rs (wr_store w) (wr_run_id w) of
             Inr (Some record) \<Rightarrow>
               (case cj_record_text cj record of Inl _ \<Rightarrow> (CNull, st) | Inr json_str \<Rightarrow> string_to_c json_str st)
           | _ \<Rightarrow> (CNull, st)))"

definition wrapper_run_id :: "('s, 'db store_ref) wrapper option \<Rightarrow> 'db native \<Rightarrow> c_ptr \<times> 'db native" where
  "wrapper_run_id wrapper st = (case wrapper of None \<Rightarrow> (CNull, st) | Some w \<Rightarrow> string_to_c (wr_run_id w) st)"

definition wrapper_events ::
  "c_json \<Rightarrow> 'db store_ref store_reads \<Rightarrow> nat \<Rightarrow> string \<Rightarrow> ('s, 'db store_ref) wrapper option \<Rightarrow> 'db native \<Rightarrow>
     c_ptr \<times> 'db native" where
  "wrapper_events cj rs t kind wrapper st =
     (case wrapper of
        None \<Rightarrow> (CNull, set_last_error t (''invalid '' @ kind @ '' handle'') st)
      | Some w \<Rightarrow>
          (case sr_events rs (wr_store w) (wr_run_id w) of
             Inl e \<Rightarrow> (CNull, set_last_error t (''events failed: '' @ run_store_error_to_string e) st)
           | Inr events \<Rightarrow>
               (case cj_events_text cj events of
                  Inl e \<Rightarrow> (CNull, set_last_error t (''serialize failed: '' @ e) st)
                | Inr s \<Rightarrow> string_to_c s st)))"

definition cleargate_observer_get_run_data ::
  "c_json \<Rightarrow> 'db store_ref store_reads \<Rightarrow> u64 \<Rightarrow> 'db native \<Rightarrow> c_ptr \<times> 'db native" where
  "cleargate_observer_get_run_data cj rs h st = wrapper_run_data cj rs (ht_wrappers (nt_observers st) h) st"

definition cleargate_observer_get_run_id :: "u64 \<Rightarrow> 'db native \<Rightarrow> c_ptr \<times> 'db native" where
  "cleargate_observer_get_run_id h st = wrapper_run_id (ht_wrappers (nt_observers st) h) st"

definition cleargate_observer_get_events ::
  "c_json \<Rightarrow> 'db store_ref store_reads \<Rightarrow> nat \<Rightarrow> u64 \<Rightarrow> 'db native \<Rightarrow> c_ptr \<times> 'db native" where
  "cleargate_observer_get_events cj rs t h st =
     wrapper_events cj rs t ''observer'' (ht_wrappers (nt_observers st) h) st"

definition cleargate_observer_destroy :: "call_env \<Rightarrow> u64 \<Rightarrow> 'db native \<Rightarrow> 'db native \<times> session option" where
  "cleargate_observer_destroy env h st =
     (st\<lparr>nt_observers := table_remove h (nt_observers st)\<rparr>,
      map_option (drop_observer env) (session_at h (nt_observers st)))"

subsection \<open>Adapters\<close>

definition cleargate_adapter_start ::
  "'db database \<Rightarrow> call_env \<Rightarrow> nat \<Rightarrow> bool \<Rightarrow> c_ptr \<Rightarrow> c_ptr \<Rightarrow> c_ptr \<Rightarrow> 'db native \<Rightarrow>
     u64 \<times> 'db native \<times> session option" where
  "cleargate_adapter_start db env t moved framework name store_path st =
     (case cstr_to_str framework of
        None \<Rightarrow> (0, st, None)
      | Some fw_str \<Rightarrow>
          (case framework_adapter fw_str of
             None \<Rightarrow> (0, st, None)
           | Some ad \<Rightarrow>
               let session_name = unwrap_or (cstr_to_str name) fw_str in
               (case open_store db (nt_stores st) (cstr_to_str store_path) of
                  Inl e \<Rightarrow> (0, set_last_error t e st, None)
                | Inr store \<Rightarrow>
                    let st1 = count_store store st in
                    (case start_adapter env session_name ad store of
                       Inl e \<Rightarrow> (0, set_last_error t (''adapter start failed: '' @ session_error_to_string e) st1, None)
                     | Inr s \<Rightarrow>
                         let handle = nt_next st1;
                             w = \<lparr>wr_session = Some s, wr_store = store, wr_run_id = observer_run_id (as_observer s)\<rparr>
                         in (handle,
                             st1\<lparr>nt_next := handle + 1, nt_adapters := table_insert moved handle w (nt_adapters st1)\<rparr>,
                             map_option (drop_adapter env) (session_at handle (nt_adapters st1)))))))"

definition cleargate_adapter_on_event ::
  "c_json \<Rightarrow> call_env \<Rightarrow> u64 \<Rightarrow> c_ptr \<Rightarrow> 'db native \<Rightarrow> (call_env \<times> json) pending option" where
  "cleargate_adapter_on_event cj env h event_json st =
     Option.bind (json_arg cj event_json) (\<lambda>json_val. pend (nt_adapters st) h ''on_event'' (env, json_val))"

fun use_adapter :: "nat \<Rightarrow> (call_env \<times> json) pending \<Rightarrow> 'db native \<Rightarrow> (int \<times> 'db native) option" where
  "use_adapter t (Pending p what (env, event)) st =
     (case deref p (nt_adapters st) of
        None \<Rightarrow> None
      | Some s \<Rightarrow> (case callback_event env event s of (r, s') \<Rightarrow>
          Some (return_code t what r (st\<lparr>nt_adapters := set_session (snd p) (Some s') (nt_adapters st)\<rparr>))))"

definition cleargate_adapter_finish ::
  "call_env \<Rightarrow> nat \<Rightarrow> u64 \<Rightarrow> c_ptr \<Rightarrow> 'db native \<Rightarrow> int \<times> 'db native \<times> session option" where
  "cleargate_adapter_finish env t h status st =
     (let run_status = status_from_str (unwrap_or (cstr_to_str status) ''completed'') in
      case session_at h (nt_adapters st) of
        None \<Rightarrow> (- 1, st, None)
      | Some s \<Rightarrow> (case finish_adapter env run_status s of (r, se) \<Rightarrow>
          case return_code t ''adapter finish'' r (st\<lparr>nt_adapters := set_session h None (nt_adapters st)\<rparr>) of
            (code, st1) \<Rightarrow> (code, st1, Some se)))"

definition cleargate_adapter_get_run_data ::
  "c_json \<Rightarrow> 'db store_ref store_reads \<Rightarrow> u64 \<Rightarrow> 'db native \<Rightarrow> c_ptr \<times> 'db native" where
  "cleargate_adapter_get_run_data cj rs h st = wrapper_run_data cj rs (ht_wrappers (nt_adapters st) h) st"

definition cleargate_adapter_get_run_id :: "u64 \<Rightarrow> 'db native \<Rightarrow> c_ptr \<times> 'db native" where
  "cleargate_adapter_get_run_id h st = wrapper_run_id (ht_wrappers (nt_adapters st) h) st"

definition cleargate_adapter_get_events ::
  "c_json \<Rightarrow> 'db store_ref store_reads \<Rightarrow> nat \<Rightarrow> u64 \<Rightarrow> 'db native \<Rightarrow> c_ptr \<times> 'db native" where
  "cleargate_adapter_get_events cj rs t h st =
     wrapper_events cj rs t ''adapter'' (ht_wrappers (nt_adapters st) h) st"

definition cleargate_adapter_destroy :: "call_env \<Rightarrow> u64 \<Rightarrow> 'db native \<Rightarrow> 'db native \<times> session option" where
  "cleargate_adapter_destroy env h st =
     (st\<lparr>nt_adapters := table_remove h (nt_adapters st)\<rparr>,
      map_option (drop_adapter env) (session_at h (nt_adapters st)))"

section \<open>The C interface keeps the contract\<close>

definition c_record ::
  "c_json \<Rightarrow> (json \<Rightarrow> string) \<Rightarrow> nat \<Rightarrow> u64 \<Rightarrow> call_env \<Rightarrow> request \<Rightarrow> 'db native \<Rightarrow> (bool \<times> 'db native) option" where
  "c_record cj render t h env rq st = map_option (map_prod (\<lambda>code. code = 0) id) (record_call use_observer t
     (case rq of
        RqLlm node_id request response \<Rightarrow>
          cleargate_observer_record_llm_call cj env h (CStr 0 node_id) (CStr 0 (render request)) (CStr 0 (render response)) st
      | RqTool tool inputs outputs duration_ms \<Rightarrow>
          cleargate_observer_record_tool_call cj env h (CStr 0 tool) (CStr 0 (render inputs)) (CStr 0 (render outputs))
            duration_ms st
      | RqStep step_name data \<Rightarrow>
          cleargate_observer_record_step cj env h (CStr 0 step_name) (CStr 0 (render data)) st) st)"

fun request_name :: "request \<Rightarrow> string" where
  "request_name (RqLlm node_id _ _) = node_id"
| "request_name (RqTool tool _ _ _) = tool"
| "request_name (RqStep step_name _) = step_name"

definition c_fits :: "c_json \<Rightarrow> (json \<Rightarrow> string) \<Rightarrow> request \<Rightarrow> bool" where
  "c_fits cj render rq \<longleftrightarrow> c_text (request_name rq)
     \<and> list_all (\<lambda>v. c_text (render v) \<and> cj_parse cj (render v) = Some v) (request_values rq)"

definition c_finish :: "nat \<Rightarrow> u64 \<Rightarrow> call_env \<Rightarrow> string \<Rightarrow> 'db native \<Rightarrow> bool \<times> 'db native \<times> session option" where
  "c_finish t h env status st = map_prod (\<lambda>code. code = 0) id (cleargate_observer_finish env t h (CStr 0 status) st)"

lemma session_at_set [simp]:
  "session_at h' (set_session h s T) = (if h' = h then (if ht_wrappers T h = None then None else s) else session_at h' T)"
  by (auto simp: session_at_def set_session_def)

lemma moves_set [simp]: "ht_moves (set_session h s T) = ht_moves T"
  by (simp add: set_session_def)

lemma wrapper_of_session: "session_at h T = Some s \<Longrightarrow> ht_wrappers T h \<noteq> None"
  by (cases "ht_wrappers T h") (simp_all add: session_at_def)

lemma deref_acquire: "acquire h T = Some p \<Longrightarrow> p = (ht_moves T, h) \<and> deref p T = session_at h T"
  by (auto simp: acquire_def deref_def)

lemma return_code_simps [simp]:
  "fst (return_code t what r st) = (if isl r then - 1 else 0)"
  "nt_observers (snd (return_code t what r st)) = nt_observers st"
  "nt_adapters (snd (return_code t what r st)) = nt_adapters st"
  "nt_next (snd (return_code t what r st)) = nt_next st"
  by (cases r; simp add: return_code_def set_last_error_def)+

lemma record_call_pend:
  "record_call use_observer t (pend (nt_observers st) h what rec_op) st =
     Some (case session_at h (nt_observers st) of
        None \<Rightarrow> (- 1, st)
      | Some ob \<Rightarrow> return_code t what (fst (observer_apply rec_op ob))
          (st\<lparr>nt_observers := set_session h (Some (snd (observer_apply rec_op ob))) (nt_observers st)\<rparr>))"
  by (auto simp: record_call_def pend_def acquire_def deref_def split: option.split prod.split)

lemma c_record_eq:
  assumes "c_fits cj render rq"
  shows "\<exists>what. c_record cj render t h env rq st =
    map_option (map_prod (\<lambda>code. code = 0) id)
      (record_call use_observer t (pend (nt_observers st) h what (request_op env rq)) st)"
  using assms
  by (cases rq) (auto simp: c_record_def c_fits_def c_text_def json_arg_def cleargate_observer_record_llm_call_def
      cleargate_observer_record_tool_call_def cleargate_observer_record_step_def)

lemma c_record_held:
  assumes "c_fits cj render rq" "session_at h (nt_observers st) = Some ob"
  shows "\<exists>st'. c_record cj render t h env rq st = Some (\<not> isl (fst (observer_apply (request_op env rq) ob)), st')
    \<and> session_at h (nt_observers st') = Some (snd (observer_apply (request_op env rq) ob))"
  using c_record_eq [OF assms(1), of t h env st] assms(2) wrapper_of_session [OF assms(2)]
  by (auto simp: record_call_pend map_prod_def split_beta)

lemma c_record_gone:
  assumes "c_fits cj render rq" "session_at h (nt_observers st) = None"
  shows "c_record cj render t h env rq st = Some (False, st)"
  using c_record_eq [OF assms(1), of t h env st] assms(2) by (auto simp: record_call_pend)

lemma status_texts: "utf8_valid ''completed''" "utf8_valid ''failed''" "utf8_valid ''cancelled''"
  by code_simp+

lemma status_invalid: "\<not> utf8_valid status \<Longrightarrow> status_from_str status = Completed"
  using status_texts unfolding status_from_str_def by metis

lemma c_status: "status_from_str (unwrap_or (cstr_to_str (CStr a status)) ''completed'') = status_from_str status"
  by (cases "utf8_valid status") (simp_all add: status_invalid, simp add: status_from_str_def)

lemma observer_finish_none:
  "session_at h (nt_observers st) = None \<Longrightarrow> cleargate_observer_finish env t h status st = (- 1, st, None)"
  by (simp add: cleargate_observer_finish_def Let_def)

lemma observer_finish_some:
  assumes "session_at h (nt_observers st) = Some ob"
  shows "cleargate_observer_finish env t h (CStr a status) st =
    (let (r, se) = finish_observer env (status_from_str status) ob;
         st1 = return_code t ''observer finish'' r (st\<lparr>nt_observers := set_session h None (nt_observers st)\<rparr>)
     in (fst st1, snd st1, Some se))"
  using assms unfolding cleargate_observer_finish_def c_status by (simp add: Let_def split_beta)

interpretation dotnet: session_binding "\<lambda>_ :: 'db native. True" "\<lambda>st. session_at h (nt_observers st)" "c_fits cj render"
    "c_record cj render t h" "c_finish t h"
  for cj render t h
proof
  fix c :: "'db native" and ob rq env r ob'
  assume "session_at h (nt_observers c) = Some ob" "c_fits cj render rq" "observer_apply (request_op env rq) ob = (r, ob')"
  then show "\<exists>c'. c_record cj render t h env rq c = Some (\<not> isl r, c') \<and> True \<and> session_at h (nt_observers c') = Some ob'"
    using c_record_held [of cj render rq h c ob t env] by simp
next
  fix c :: "'db native" and rq env
  assume "session_at h (nt_observers c) = None" "c_fits cj render rq"
  then show "\<exists>c'. c_record cj render t h env rq c = Some (False, c') \<and> True \<and> session_at h (nt_observers c') = None"
    by (simp add: c_record_gone)
next
  fix c :: "'db native" and ob env status r se
  assume "session_at h (nt_observers c) = Some ob" "finish_observer env (status_from_str status) ob = (r, se)"
  then show "\<exists>c'. c_finish t h env status c = (\<not> isl r, c', Some se) \<and> True \<and> session_at h (nt_observers c') = None"
    by (auto simp: c_finish_def observer_finish_some Let_def)
next
  fix c :: "'db native" and env status
  assume "session_at h (nt_observers c) = None"
  then show "\<exists>c'. c_finish t h env status c = (False, c', None) \<and> True \<and> session_at h (nt_observers c') = None"
    by (simp add: c_finish_def observer_finish_none)
qed

section \<open>Schedules\<close>

text \<open>The steps of the threads of a process, in the order they happen.  The first half of a recording function
  changes nothing and is not a step.\<close>

datatype 'db native_call =
    ObserverStart call_env nat bool c_ptr c_ptr
  | ObserverUse nat "observer_op pending"
  | ObserverFinish call_env nat u64 c_ptr
  | ObserverDestroy call_env u64
  | ObserverRunData "'db store_ref store_reads" u64
  | ObserverRunId u64
  | ObserverEvents "'db store_ref store_reads" nat u64
  | AdapterStart call_env nat bool c_ptr c_ptr c_ptr
  | AdapterUse nat "(call_env \<times> json) pending"
  | AdapterFinish call_env nat u64 c_ptr
  | AdapterDestroy call_env u64
  | AdapterRunData "'db store_ref store_reads" u64
  | AdapterRunId u64
  | AdapterEvents "'db store_ref store_reads" nat u64
  | LastError nat
  | FreeString c_ptr

datatype reply = RHandle u64 | RCode int | RText c_ptr | RDone

fun native_apply ::
  "'db database \<Rightarrow> c_json \<Rightarrow> 'db native_call \<Rightarrow> 'db native \<Rightarrow> (reply \<times> 'db native) option" where
  "native_apply db cj (ObserverStart env t moved name store_path) st =
     (case cleargate_observer_start db env t moved name store_path st of (h, st1, _) \<Rightarrow> Some (RHandle h, st1))"
| "native_apply db cj (ObserverUse t p) st = map_option (map_prod RCode id) (use_observer t p st)"
| "native_apply db cj (ObserverFinish env t h status) st =
     (case cleargate_observer_finish env t h status st of (code, st1, _) \<Rightarrow> Some (RCode code, st1))"
| "native_apply db cj (ObserverDestroy env h) st = Some (RDone, fst (cleargate_observer_destroy env h st))"
| "native_apply db cj (ObserverRunData rs h) st = Some (map_prod RText id (cleargate_observer_get_run_data cj rs h st))"
| "native_apply db cj (ObserverRunId h) st = Some (map_prod RText id (cleargate_observer_get_run_id h st))"
| "native_apply db cj (ObserverEvents rs t h) st = Some (map_prod RText id (cleargate_observer_get_events cj rs t h st))"
| "native_apply db cj (AdapterStart env t moved framework name store_path) st =
     (case cleargate_adapter_start db env t moved framework name store_path st of (h, st1, _) \<Rightarrow> Some (RHandle h, st1))"
| "native_apply db cj (AdapterUse t p) st = map_option (map_prod RCode id) (use_adapter t p st)"
| "native_apply db cj (AdapterFinish env t h status) st =
     (case cleargate_adapter_finish env t h status st of (code, st1, _) \<Rightarrow> Some (RCode code, st1))"
| "native_apply db cj (AdapterDestroy env h) st = Some (RDone, fst (cleargate_adapter_destroy env h st))"
| "native_apply db cj (AdapterRunData rs h) st = Some (map_prod RText id (cleargate_adapter_get_run_data cj rs h st))"
| "native_apply db cj (AdapterRunId h) st = Some (map_prod RText id (cleargate_adapter_get_run_id h st))"
| "native_apply db cj (AdapterEvents rs t h) st = Some (map_prod RText id (cleargate_adapter_get_events cj rs t h st))"
| "native_apply db cj (LastError t) st = Some (map_prod RText id (cleargate_last_error t st))"
| "native_apply db cj (FreeString p) st = map_option (\<lambda>st1. (RDone, st1)) (cleargate_free_string p st)"

fun native_run ::
  "'db database \<Rightarrow> c_json \<Rightarrow> 'db native_call list \<Rightarrow> 'db native \<Rightarrow> (reply list \<times> 'db native) option" where
  "native_run db cj [] st = Some ([], st)"
| "native_run db cj (c # cs) st =
     Option.bind (native_apply db cj c st) (\<lambda>(r, st1).
     Option.bind (native_run db cj cs st1) (\<lambda>(rs, st2). Some (r # rs, st2)))"

text \<open>The tables a step can see; strings, errors and counted stores are the rest.\<close>

definition same_tables :: "'db native \<Rightarrow> 'db native \<Rightarrow> bool" where
  "same_tables st st' \<longleftrightarrow>
     nt_next st' = nt_next st \<and> nt_observers st' = nt_observers st \<and> nt_adapters st' = nt_adapters st"

lemma same_tables_intros [simp]:
  "same_tables st st"
  "same_tables st (set_last_error t msg st)"
  "same_tables st (snd (return_code t what r st))"
  "same_tables st (snd (string_to_c s st))"
  "same_tables st (count_store store st)"
  "same_tables st (snd (cleargate_last_error t st))"
  by (auto simp: same_tables_def set_last_error_def return_code_def string_to_c_def count_store_def
      cleargate_last_error_def split: sum.split option.split store_ref.split)

lemma same_tables_reads [simp]:
  "same_tables st (snd (wrapper_run_data cj rs w st))" "same_tables st (snd (wrapper_run_id w st))"
  "same_tables st (snd (wrapper_events cj rs t kind w st))"
  by (simp_all add: wrapper_run_data_def wrapper_run_id_def wrapper_events_def split: option.split sum.split)

lemma same_tables_free: "cleargate_free_string p st = Some st' \<Longrightarrow> same_tables st st'"
  by (cases p) (auto simp: same_tables_def split: if_splits)

lemma same_tables_simps:
  "same_tables st st' \<Longrightarrow> nt_next st' = nt_next st"
  "same_tables st st' \<Longrightarrow> nt_observers st' = nt_observers st"
  "same_tables st st' \<Longrightarrow> nt_adapters st' = nt_adapters st"
  by (simp_all add: same_tables_def)

text \<open>What a step does to one observer: it ends it, or runs an operation on it, or neither; and whether it
  may reallocate the table.\<close>

fun ends_observer :: "u64 \<Rightarrow> 'db native_call \<Rightarrow> bool" where
  "ends_observer h (ObserverFinish _ _ h' _) \<longleftrightarrow> h' = h"
| "ends_observer h (ObserverDestroy _ h') \<longleftrightarrow> h' = h"
| "ends_observer h _ \<longleftrightarrow> False"

fun moves_observers :: "'db native_call \<Rightarrow> bool" where
  "moves_observers (ObserverStart _ _ moved _ _) \<longleftrightarrow> moved"
| "moves_observers _ \<longleftrightarrow> False"

fun used_on :: "u64 \<Rightarrow> 'db native_call \<Rightarrow> observer_op option" where
  "used_on h (ObserverUse _ (Pending p _ rec_op)) = (if snd p = h then Some rec_op else None)"
| "used_on h _ = None"

definition observer_effect :: "u64 \<Rightarrow> 'db native_call \<Rightarrow> observer option \<Rightarrow> observer option" where
  "observer_effect h c s =
     (if ends_observer h c then None
      else map_option (\<lambda>ob. case used_on h c of None \<Rightarrow> ob | Some rec_op \<Rightarrow> snd (observer_apply rec_op ob)) s)"

lemma observer_start_cases:
  obtains (failed) "fst (cleargate_observer_start db env t moved name store_path st) = 0"
      "same_tables st (fst (snd (cleargate_observer_start db env t moved name store_path st)))"
  | (started) w ob where "fst (cleargate_observer_start db env t moved name store_path st) = nt_next st"
      "nt_next (fst (snd (cleargate_observer_start db env t moved name store_path st))) = nt_next st + 1"
      "nt_observers (fst (snd (cleargate_observer_start db env t moved name store_path st))) =
         table_insert moved (nt_next st) w (nt_observers st)"
      "nt_adapters (fst (snd (cleargate_observer_start db env t moved name store_path st))) = nt_adapters st"
      "wr_session w = Some ob"
proof -
  have "nt_next (count_store store st) = nt_next st \<and> nt_observers (count_store store st) = nt_observers st
      \<and> nt_adapters (count_store store st) = nt_adapters st" for store
    using same_tables_intros(5) [of st store] by (simp only: same_tables_def)
  then show ?thesis
    by (cases "cstr_to_str name"; cases "open_store db (nt_stores st) (cstr_to_str store_path)";
        cases "start_observer env (the (cstr_to_str name)) (projr (open_store db (nt_stores st) (cstr_to_str store_path)))")
      (use that in \<open>auto simp: cleargate_observer_start_def Let_def same_tables_def set_last_error_def\<close>)
qed

lemma adapter_start_cases:
  obtains (failed) "fst (cleargate_adapter_start db env t moved framework name store_path st) = 0"
      "same_tables st (fst (snd (cleargate_adapter_start db env t moved framework name store_path st)))"
  | (started) w s where "fst (cleargate_adapter_start db env t moved framework name store_path st) = nt_next st"
      "nt_next (fst (snd (cleargate_adapter_start db env t moved framework name store_path st))) = nt_next st + 1"
      "nt_adapters (fst (snd (cleargate_adapter_start db env t moved framework name store_path st))) =
         table_insert moved (nt_next st) w (nt_adapters st)"
      "nt_observers (fst (snd (cleargate_adapter_start db env t moved framework name store_path st))) = nt_observers st"
      "wr_session w = Some s"
proof -
  have "nt_next (count_store store st) = nt_next st \<and> nt_observers (count_store store st) = nt_observers st
      \<and> nt_adapters (count_store store st) = nt_adapters st" for store
    using same_tables_intros(5) [of st store] by (simp only: same_tables_def)
  then show ?thesis
    by (cases "cstr_to_str framework"; cases "framework_adapter (the (cstr_to_str framework))";
        cases "open_store db (nt_stores st) (cstr_to_str store_path)";
        cases "start_adapter env (unwrap_or (cstr_to_str name) (the (cstr_to_str framework)))
          (the (framework_adapter (the (cstr_to_str framework))))
          (projr (open_store db (nt_stores st) (cstr_to_str store_path)))")
      (use that in \<open>auto simp: cleargate_adapter_start_def Let_def same_tables_def set_last_error_def\<close>)
qed

lemma session_at_insert [simp]:
  "session_at h' (table_insert moved h w T) = (if h' = h then wr_session w else session_at h' T)"
  "ht_moves (table_insert moved h w T) = (if moved then Suc (ht_moves T) else ht_moves T)"
  by (simp_all add: session_at_def table_insert_def)

lemma session_at_remove [simp]:
  "session_at h' (table_remove h T) = (if h' = h then None else session_at h' T)"
  "ht_moves (table_remove h T) = ht_moves T"
  by (simp_all add: session_at_def table_remove_def)

lemmas read_defs =
  cleargate_observer_get_run_data_def cleargate_observer_get_run_id_def cleargate_observer_get_events_def
  cleargate_adapter_get_run_data_def cleargate_adapter_get_run_id_def cleargate_adapter_get_events_def

text \<open>Steps that leave the tables alone.\<close>

fun reads_only :: "'db native_call \<Rightarrow> bool" where
  "reads_only (ObserverRunData _ _) \<longleftrightarrow> True"
| "reads_only (ObserverRunId _) \<longleftrightarrow> True"
| "reads_only (ObserverEvents _ _ _) \<longleftrightarrow> True"
| "reads_only (AdapterRunData _ _) \<longleftrightarrow> True"
| "reads_only (AdapterRunId _) \<longleftrightarrow> True"
| "reads_only (AdapterEvents _ _ _) \<longleftrightarrow> True"
| "reads_only (LastError _) \<longleftrightarrow> True"
| "reads_only (FreeString _) \<longleftrightarrow> True"
| "reads_only _ \<longleftrightarrow> False"

lemma reads_keep:
  assumes "native_apply db cj c st = Some (r, st')" "reads_only c"
  shows "same_tables st st'" "r \<noteq> RHandle h" "\<not> ends_observer h c" "used_on h c = None"
proof -
  show "same_tables st st'"
    using assms by (cases c) (auto simp: read_defs prod_eq_iff dest: same_tables_free)
  show "r \<noteq> RHandle h" "\<not> ends_observer h c" "used_on h c = None"
    using assms by (cases c; force simp: prod_eq_iff)+
qed

lemma use_observer_Some:
  assumes "use_observer t (Pending p what rec_op) st = Some (code, st')"
  obtains ob where "session_at (snd p) (nt_observers st) = Some ob"
    "nt_observers st' = set_session (snd p) (Some (snd (observer_apply rec_op ob))) (nt_observers st)"
    "nt_adapters st' = nt_adapters st" "nt_next st' = nt_next st"
  using assms by (cases "deref p (nt_observers st)")
    (auto simp: deref_def split_beta prod_eq_iff split: if_splits dest!: arg_cong [where f = nt_observers])

lemma observer_finish_snd:
  "nt_observers (fst (snd (cleargate_observer_finish env t h status st))) =
     (if session_at h (nt_observers st) = None then nt_observers st else set_session h None (nt_observers st))"
  "nt_adapters (fst (snd (cleargate_observer_finish env t h status st))) = nt_adapters st"
  "nt_next (fst (snd (cleargate_observer_finish env t h status st))) = nt_next st"
  by (auto simp: cleargate_observer_finish_def Let_def split_beta split: option.split)

lemma adapter_finish_snd:
  "nt_observers (fst (snd (cleargate_adapter_finish env t h status st))) = nt_observers st"
  "nt_adapters (fst (snd (cleargate_adapter_finish env t h status st))) =
     (if session_at h (nt_adapters st) = None then nt_adapters st else set_session h None (nt_adapters st))"
  "nt_next (fst (snd (cleargate_adapter_finish env t h status st))) = nt_next st"
  by (auto simp: cleargate_adapter_finish_def Let_def split_beta split: option.split)

lemma use_adapter_Some:
  assumes "use_adapter t p st = Some (code, st')"
  obtains h s where "nt_adapters st' = set_session h s (nt_adapters st)"
    "nt_observers st' = nt_observers st" "nt_next st' = nt_next st"
proof -
  obtain q what env event where p: "p = Pending q what (env, event)" by (metis pending.exhaust surj_pair)
  with assms that show ?thesis
    by (cases "deref q (nt_adapters st)") (auto simp: split_beta prod_eq_iff dest!: arg_cong [where f = nt_adapters])
qed

lemma observer_step_effect:
  assumes "native_apply db cj c st = Some (r, st')" "h \<noteq> nt_next st"
  shows "session_at h (nt_observers st') = observer_effect h c (session_at h (nt_observers st))"
    "\<not> moves_observers c \<Longrightarrow> ht_moves (nt_observers st') = ht_moves (nt_observers st)"
proof -
  have "session_at h (nt_observers st') = observer_effect h c (session_at h (nt_observers st))
    \<and> (\<not> moves_observers c \<longrightarrow> ht_moves (nt_observers st') = ht_moves (nt_observers st))"
  proof (cases "reads_only c")
    case True
    with reads_keep [OF assms(1)] show ?thesis by (simp add: observer_effect_def option.map_ident same_tables_simps)
  next
    case False
    then show ?thesis
    proof (cases c)
      case (ObserverStart env t moved name store_path)
      with assms show ?thesis
        by (cases rule: observer_start_cases [of db env t moved name store_path st])
          (auto simp: observer_effect_def split_beta option.map_ident same_tables_simps)
    next
      case (AdapterStart env t moved framework name store_path)
      with assms show ?thesis
        by (cases rule: adapter_start_cases [of db env t moved framework name store_path st])
          (auto simp: observer_effect_def split_beta option.map_ident same_tables_simps)
    next
      case (ObserverUse t p)
      obtain q what rec_op where p: "p = Pending q what rec_op" by (cases p)
      from assms(1) ObserverUse p obtain code where "use_observer t (Pending q what rec_op) st = Some (code, st')" by auto
      then show ?thesis
        by (rule use_observer_Some) (auto simp: ObserverUse p observer_effect_def option.map_ident dest: wrapper_of_session)
    next
      case (AdapterUse t p)
      with assms(1) obtain code where "use_adapter t p st = Some (code, st')" by auto
      then show ?thesis
        by (rule use_adapter_Some) (simp add: AdapterUse observer_effect_def option.map_ident)
    next
      case (ObserverFinish env t h' status)
      with assms observer_finish_snd [of env t h' status st] show ?thesis
        by (auto simp: observer_effect_def option.map_ident split_beta)
    next
      case (AdapterFinish env t h' status)
      with assms adapter_finish_snd [of env t h' status st] show ?thesis
        by (auto simp: observer_effect_def option.map_ident split_beta)
    qed (use assms in \<open>auto simp: observer_effect_def option.map_ident cleargate_observer_destroy_def
        cleargate_adapter_destroy_def\<close>)
  qed
  then show "session_at h (nt_observers st') = observer_effect h c (session_at h (nt_observers st))"
    "\<not> moves_observers c \<Longrightarrow> ht_moves (nt_observers st') = ht_moves (nt_observers st)" by simp_all
qed

lemma dom_tables [simp]:
  "dom (ht_wrappers (set_session h s T)) = dom (ht_wrappers T)"
  "dom (ht_wrappers (table_insert moved h w T)) = insert h (dom (ht_wrappers T))"
  "dom (ht_wrappers (table_remove h T)) = dom (ht_wrappers T) - {h}"
  by (auto simp: set_session_def table_insert_def table_remove_def split: if_splits)

definition observer_handles :: "'db native \<Rightarrow> u64 set" where
  "observer_handles st = dom (ht_wrappers (nt_observers st))"

definition adapter_handles :: "'db native \<Rightarrow> u64 set" where
  "adapter_handles st = dom (ht_wrappers (nt_adapters st))"

lemmas handles_defs = observer_handles_def adapter_handles_def

text \<open>Either no handle is drawn, or the next one, which then stands in one of the tables.\<close>

definition draws_none :: "reply \<Rightarrow> 'db native \<Rightarrow> 'db native \<Rightarrow> bool" where
  "draws_none r st st' \<longleftrightarrow> nt_next st' = nt_next st \<and> (\<forall>h. r = RHandle h \<longrightarrow> h = 0)
     \<and> observer_handles st' \<subseteq> observer_handles st \<and> adapter_handles st' \<subseteq> adapter_handles st"

definition draws_next :: "reply \<Rightarrow> 'db native \<Rightarrow> 'db native \<Rightarrow> bool" where
  "draws_next r st st' \<longleftrightarrow> nt_next st' = nt_next st + 1 \<and> r = RHandle (nt_next st)
     \<and> (observer_handles st' = insert (nt_next st) (observer_handles st) \<and> adapter_handles st' = adapter_handles st
        \<or> observer_handles st' = observer_handles st \<and> adapter_handles st' = insert (nt_next st) (adapter_handles st))"

lemma counter_effect:
  assumes "native_apply db cj c st = Some (r, st')"
  shows "draws_none r st st' \<or> draws_next r st st'"
proof (cases "reads_only c")
  case True
  with reads_keep [OF assms] show ?thesis by (simp add: draws_none_def handles_defs same_tables_simps)
next
  case False
  then show ?thesis
  proof (cases c)
    case (ObserverStart env t moved name store_path)
    with assms show ?thesis
      by (cases rule: observer_start_cases [of db env t moved name store_path st])
        (auto simp: draws_none_def draws_next_def handles_defs split_beta same_tables_simps)
  next
    case (AdapterStart env t moved framework name store_path)
    with assms show ?thesis
      by (cases rule: adapter_start_cases [of db env t moved framework name store_path st])
        (auto simp: draws_none_def draws_next_def handles_defs split_beta same_tables_simps)
  next
    case (ObserverUse t p)
    obtain q what rec_op where p: "p = Pending q what rec_op" by (cases p)
    from assms(1) ObserverUse p obtain code where u: "use_observer t (Pending q what rec_op) st = Some (code, st')"
      and "r = RCode code" by auto
    then show ?thesis by (rule_tac use_observer_Some [OF u]) (simp add: draws_none_def handles_defs)
  next
    case (AdapterUse t p)
    with assms(1) obtain code where u: "use_adapter t p st = Some (code, st')" and "r = RCode code" by auto
    then show ?thesis by (rule_tac use_adapter_Some [OF u]) (simp add: draws_none_def handles_defs)
  next
    case (ObserverFinish env t h' status)
    with assms observer_finish_snd [of env t h' status st] show ?thesis
      by (auto simp: draws_none_def handles_defs split_beta)
  next
    case (AdapterFinish env t h' status)
    with assms adapter_finish_snd [of env t h' status st] show ?thesis
      by (auto simp: draws_none_def handles_defs split_beta)
  next
    case (ObserverDestroy env h)
    with assms have "r = RDone" "st' = st\<lparr>nt_observers := table_remove h (nt_observers st)\<rparr>"
      by (simp_all add: cleargate_observer_destroy_def)
    then have "draws_none r st st'" by (simp only: draws_none_def handles_defs) (simp add: Diff_subset)
    then show ?thesis ..
  next
    case (AdapterDestroy env h)
    with assms have "r = RDone" "st' = st\<lparr>nt_adapters := table_remove h (nt_adapters st)\<rparr>"
      by (simp_all add: cleargate_adapter_destroy_def)
    then have "draws_none r st st'" by (simp only: draws_none_def handles_defs) (simp add: Diff_subset)
    then show ?thesis ..
  qed simp_all
qed

fun started :: "reply list \<Rightarrow> u64 list" where
  "started [] = []"
| "started (r # rs) = (case r of RHandle h \<Rightarrow> if h = 0 then started rs else h # started rs | _ \<Rightarrow> started rs)"

text \<open>The tables hold disjoint handles, all of them drawn before.\<close>

definition handles_ok :: "'db native \<Rightarrow> bool" where
  "handles_ok st \<longleftrightarrow> 0 < unat (nt_next st)
     \<and> (\<forall>h \<in> observer_handles st \<union> adapter_handles st. unat h < unat (nt_next st))
     \<and> observer_handles st \<inter> adapter_handles st = {}"

lemma handles_ok_init: "handles_ok native_init"
  by (simp add: handles_ok_def native_init_def table_new_def handles_defs)

lemma unat_next: "unat (n :: u64) + 1 < 2 ^ 64 \<Longrightarrow> unat (n + 1) = unat n + 1"
  by (simp add: unat_word_ariths)

lemma handles_ok_step:
  assumes "handles_ok st" "native_apply db cj c st = Some (r, st')" "unat (nt_next st) + 1 < 2 ^ 64"
  shows "handles_ok st'" "unat (nt_next st') \<le> unat (nt_next st) + 1" "unat (nt_next st) \<le> unat (nt_next st')"
    "observer_handles st' \<union> adapter_handles st' \<subseteq> observer_handles st \<union> adapter_handles st \<union> set (started [r])"
    "set (started [r]) \<subseteq> {h. unat (nt_next st) \<le> unat h \<and> unat h < unat (nt_next st')}"
proof -
  note up = unat_next [OF assms(3)]
  have "handles_ok st' \<and> unat (nt_next st') \<le> unat (nt_next st) + 1 \<and> unat (nt_next st) \<le> unat (nt_next st')
    \<and> observer_handles st' \<union> adapter_handles st' \<subseteq> observer_handles st \<union> adapter_handles st \<union> set (started [r])
    \<and> set (started [r]) \<subseteq> {h. unat (nt_next st) \<le> unat h \<and> unat h < unat (nt_next st')}"
  proof (cases "draws_none r st st'")
    case True
    then have "set (started [r]) = {}" by (auto simp: draws_none_def split: reply.split)
    with True assms(1) show ?thesis unfolding draws_none_def handles_ok_def by auto
  next
    case False
    with counter_effect [OF assms(2)] have new: "draws_next r st st'" by blast
    moreover have "nt_next st \<noteq> 0" using assms(1) by (auto simp: handles_ok_def)
    moreover from this new have "set (started [r]) = {nt_next st}" by (simp add: draws_next_def)
    moreover have "nt_next st \<notin> observer_handles st \<union> adapter_handles st" using assms(1) by (auto simp: handles_ok_def)
    ultimately show ?thesis using assms(1) up unfolding draws_next_def handles_ok_def by (auto intro: less_SucI)
  qed
  then show "handles_ok st'" "unat (nt_next st') \<le> unat (nt_next st) + 1" "unat (nt_next st) \<le> unat (nt_next st')"
    "observer_handles st' \<union> adapter_handles st' \<subseteq> observer_handles st \<union> adapter_handles st \<union> set (started [r])"
    "set (started [r]) \<subseteq> {h. unat (nt_next st) \<le> unat h \<and> unat h < unat (nt_next st')}" by blast+
qed

lemma started_Cons: "started (r # rs) = started [r] @ started rs"
  by (simp split: reply.split)

lemma distinct_started_single: "distinct (started [r])"
  by (simp split: reply.split)

lemma run_handles:
  assumes "native_run db cj cs st = Some (rs, st')" "handles_ok st" "unat (nt_next st) + length cs < 2 ^ 64"
  shows "handles_ok st' \<and> unat (nt_next st) \<le> unat (nt_next st') \<and> unat (nt_next st') \<le> unat (nt_next st) + length cs
    \<and> distinct (started rs) \<and> set (started rs) \<subseteq> {h. unat (nt_next st) \<le> unat h \<and> unat h < unat (nt_next st')}
    \<and> observer_handles st' \<union> adapter_handles st' \<subseteq> observer_handles st \<union> adapter_handles st \<union> set (started rs)"
  using assms
proof (induction cs arbitrary: st rs)
  case (Cons c cs)
  from Cons.prems(1) obtain r st1 rs1 where run: "native_apply db cj c st = Some (r, st1)"
    "native_run db cj cs st1 = Some (rs1, st')" "rs = r # rs1"
    by (auto simp: bind_eq_Some_conv)
  have "unat (nt_next st) + 1 < 2 ^ 64" using Cons.prems(3) by simp
  note step = handles_ok_step [OF Cons.prems(2) run(1) this]
  have "unat (nt_next st1) + length cs < 2 ^ 64" using step(2) Cons.prems(3) by simp
  note later = Cons.IH [OF run(2) step(1) this]
  have "set (started [r]) \<inter> set (started rs1) = {}" using step(5) later by force
  with distinct_started_single [of r] later have "distinct (started rs)"
    by (simp only: run(3) started_Cons [of r rs1] distinct_append)
  moreover have "set (started rs) = set (started [r]) \<union> set (started rs1)"
    by (simp only: run(3) started_Cons [of r rs1] set_append)
  ultimately show ?case using step(2-5) later by (auto intro: le_trans less_le_trans)
qed simp

lemma run_effect:
  assumes "native_run db cj cs st = Some (rs, st')" "handles_ok st" "unat (nt_next st) + length cs < 2 ^ 64"
    and "unat h < unat (nt_next st)"
  shows "session_at h (nt_observers st') = fold (observer_effect h) cs (session_at h (nt_observers st))
    \<and> (list_all (\<lambda>c. \<not> moves_observers c) cs \<longrightarrow> ht_moves (nt_observers st') = ht_moves (nt_observers st))"
  using assms
proof (induction cs arbitrary: st rs)
  case (Cons c cs)
  from Cons.prems(1) obtain r st1 rs1 where run: "native_apply db cj c st = Some (r, st1)"
    "native_run db cj cs st1 = Some (rs1, st')"
    by (auto simp: bind_eq_Some_conv)
  have "unat (nt_next st) + 1 < 2 ^ 64" using Cons.prems(3) by simp
  note step = handles_ok_step [OF Cons.prems(2) run(1) this]
  have "unat (nt_next st1) + length cs < 2 ^ 64" "unat h < unat (nt_next st1)"
    using step(2,3) Cons.prems(3,4) by simp_all
  note later = Cons.IH [OF run(2) step(1) this]
  have "h \<noteq> nt_next st" using Cons.prems(4) by auto
  from observer_step_effect [OF run(1) this] later show ?case by simp
qed simp

lemma effect_None [simp]: "fold (observer_effect h) cs None = None"
  by (induction cs) (simp_all add: observer_effect_def)

definition uses_on :: "u64 \<Rightarrow> 'db native_call list \<Rightarrow> observer_op list" where
  "uses_on h cs = List.map_filter (used_on h) cs"

lemma uses_on_Cons:
  "uses_on h (c # cs) = (case used_on h c of None \<Rightarrow> uses_on h cs | Some rec_op \<Rightarrow> rec_op # uses_on h cs)"
  by (simp add: uses_on_def map_filter_def split: option.split)

lemma effect_uses:
  "list_all (\<lambda>c. \<not> ends_observer h c) cs \<Longrightarrow>
     fold (observer_effect h) cs (Some ob) = Some (observer_run (uses_on h cs) ob)"
  by (induction cs arbitrary: ob)
    (auto simp: observer_effect_def observer_run_def uses_on_Cons uses_on_def map_filter_def split: option.split)

lemma effect_ended: "list_ex (ends_observer h) cs \<Longrightarrow> fold (observer_effect h) cs s = None"
  by (induction cs arbitrary: s) (auto simp: observer_effect_def)

section \<open>Properties\<close>

definition demo_env :: call_env where
  "demo_env = \<lparr>en_gone = False, en_chan = ChOpen, en_now = 7, en_ended = 8, en_completed = 9, en_id = demo_id,
     en_events = \<lambda>_. (False, 9)\<rparr>"

definition demo_db :: "unit database" where
  "demo_db = \<lparr>db_connect = \<lambda>_. Inl ''no database'', db_migrate = \<lambda>_. Inr ()\<rparr>"

definition demo_c_json :: c_json where
  "demo_c_json = \<lparr>cj_parse = \<lambda>_. Some JNull, cj_record_text = \<lambda>_. Inr ''{}'', cj_events_text = \<lambda>_. Inr ''[]''\<rparr>"

definition demo_start :: "bool \<Rightarrow> unit native_call" where
  "demo_start moved = ObserverStart demo_env 0 moved (CStr 0 ''a'') CNull"

lemma utf8_demo: "utf8_valid ''a''"
  by code_simp

lemma demo_start_apply:
  obtains ob where "\<And>moved st. native_apply demo_db demo_c_json (demo_start moved) st =
    Some (RHandle (nt_next st), st\<lparr>nt_stores := Suc (nt_stores st), nt_next := nt_next st + 1,
      nt_observers := table_insert moved (nt_next st)
        \<lparr>wr_session = Some ob, wr_store = MemRef (nt_stores st), wr_run_id = observer_run_id ob\<rparr> (nt_observers st)\<rparr>)"
proof -
  have same: "start_observer demo_env ''a'' store = start_observer demo_env ''a'' (MemRef 0)" for store :: "unit store_ref"
    by (simp add: start_observer_def observer_start_def session_start_def handle_write_def session_next_def binding_config_def
        observer_builder_def builder_config_def run_started_event_def with_run_store_def with_triggered_by_def
        with_session_name_def builder_new_def Let_def)
  obtain ob where "start_observer demo_env ''a'' (MemRef 0 :: unit store_ref) = Inr ob"
    by (simp add: start_observer_def observer_start_def session_start_def handle_write_def session_next_def demo_env_def
        Let_def)
  with same have "start_observer demo_env ''a'' store = Inr ob" for store :: "unit store_ref" by metis
  then have "native_apply demo_db demo_c_json (demo_start moved) st =
    Some (RHandle (nt_next st), st\<lparr>nt_stores := Suc (nt_stores st), nt_next := nt_next st + 1,
      nt_observers := table_insert moved (nt_next st)
        \<lparr>wr_session = Some ob, wr_store = MemRef (nt_stores st), wr_run_id = observer_run_id ob\<rparr> (nt_observers st)\<rparr>)"
    for moved st
    by (simp add: demo_start_def cleargate_observer_start_def utf8_demo open_store_def count_store_def Let_def
        del: utf8_valid.simps)
  then show ?thesis by (rule that)
qed

text \<open>
  (C38) Handles name sessions without confusion. In a process that has made fewer than $2^{64} - 1$ steps of any
  kind, in any order, the starts that succeeded returned pairwise different handles other than 0, a
  start that failed returned 0, every handle in one of the two tables was returned by a start, and no
  handle is in both.
\<close>

theorem handles_unique:
  assumes "native_run db cj cs native_init = Some (rs, st)" "length cs < 2 ^ 64 - 1"
  shows "distinct (started rs) \<and> 0 \<notin> set (started rs)
    \<and> observer_handles st \<union> adapter_handles st \<subseteq> set (started rs) \<and> observer_handles st \<inter> adapter_handles st = {}"
proof -
  have "unat (nt_next native_init) + length cs < 2 ^ 64" using assms(2) by (simp add: native_init_def)
  from run_handles [OF assms(1) handles_ok_init this]
  have "handles_ok st" "distinct (started rs)" "set (started rs) \<subseteq> {h. 1 \<le> unat h \<and> unat h < unat (nt_next st)}"
    "observer_handles st \<union> adapter_handles st \<subseteq> set (started rs)"
    by (simp_all add: native_init_def table_new_def handles_defs)
  then show ?thesis by (auto simp: handles_ok_def)
qed

theorem handles_unique_witness:
  "\<exists>rs st. native_run demo_db demo_c_json [demo_start False, demo_start True] native_init = Some (rs, st)
     \<and> rs = [RHandle 1, RHandle 2] \<and> distinct (started rs) \<and> observer_handles st \<inter> adapter_handles st = {}"
proof -
  obtain rs st where run: "native_run demo_db demo_c_json [demo_start False, demo_start True] native_init = Some (rs, st)"
    and rs: "rs = [RHandle 1, RHandle 2]"
    by (rule demo_start_apply) (simp add: native_init_def)
  from handles_unique [OF run] run rs show ?thesis by simp
qed

text \<open>
  (C36) When an address may be used. A recording function has read the address of the session of handle
  \<open>h\<close> and released the lock; any steps follow, of any threads. If none of them finishes or destroys \<open>h\<close>
  or inserts with a reallocation, the address still leads to the session, in the state the observer
  operations used on it have left. If one of them finishes or destroys \<open>h\<close>, going on with the
  address is undefined.
\<close>

theorem observer_addresses:
  assumes "native_run db cj before native_init = Some (rs0, st0)" "native_run db cj cs st0 = Some (rs, st)"
    and "length before + length cs < 2 ^ 64 - 1"
    and "acquire h (nt_observers st0) = Some p" "session_at h (nt_observers st0) = Some ob"
  shows "(list_all (\<lambda>c. \<not> ends_observer h c \<and> \<not> moves_observers c) cs \<longrightarrow>
      deref p (nt_observers st) = Some (observer_run (uses_on h cs) ob))
    \<and> (list_ex (ends_observer h) cs \<longrightarrow> use_observer t (Pending p what rec_op) st = None)"
proof -
  have "unat (nt_next native_init) + length before < 2 ^ 64" using assms(3) by (simp add: native_init_def)
  note first = run_handles [OF assms(1) handles_ok_init this]
  have "unat (nt_next st0) + length cs < 2 ^ 64" using first assms(3) by (simp add: native_init_def)
  moreover have "h \<in> observer_handles st0"
    using wrapper_of_session [OF assms(5)] by (simp add: observer_handles_def domIff)
  ultimately have "session_at h (nt_observers st) = fold (observer_effect h) cs (Some ob)
      \<and> (list_all (\<lambda>c. \<not> moves_observers c) cs \<longrightarrow> ht_moves (nt_observers st) = ht_moves (nt_observers st0))"
    using run_effect [OF assms(2), of h] first assms(5) by (simp add: handles_ok_def)
  moreover have "p = (ht_moves (nt_observers st0), h)" using deref_acquire [OF assms(4)] by simp
  ultimately show ?thesis
    using effect_uses [of h cs ob] effect_ended [of h cs "Some ob"]
    by (auto simp: deref_def list_all_iff)
qed

theorem observer_addresses_witness:
  "\<exists>st0 rs1 st1 st2 p. native_run demo_db demo_c_json [demo_start False] native_init = Some ([RHandle 1], st0)
     \<and> acquire 1 (nt_observers st0) = Some p
     \<and> native_run demo_db demo_c_json [ObserverFinish demo_env 0 1 CNull] st0 = Some (rs1, st1)
     \<and> use_observer 0 (Pending p ''record_step'' (ObStep False 8 ''s'' JNull)) st1 = None
     \<and> native_run demo_db demo_c_json [demo_start True] st0 = Some ([RHandle 2], st2)
     \<and> use_observer 0 (Pending p ''record_step'' (ObStep False 8 ''s'' JNull)) st2 = None"
proof -
  obtain ob where start: "\<And>moved st. native_apply demo_db demo_c_json (demo_start moved) st =
    Some (RHandle (nt_next st), st\<lparr>nt_stores := Suc (nt_stores st), nt_next := nt_next st + 1,
      nt_observers := table_insert moved (nt_next st)
        \<lparr>wr_session = Some ob, wr_store = MemRef (nt_stores st), wr_run_id = observer_run_id ob\<rparr> (nt_observers st)\<rparr>)"
    by (rule demo_start_apply) blast
  then obtain st0 where st0: "native_run demo_db demo_c_json [demo_start False] native_init = Some ([RHandle 1], st0)"
    and ob: "session_at 1 (nt_observers st0) = Some ob" and counters: "nt_next st0 = 2" "ht_moves (nt_observers st0) = 0"
    by (simp add: native_init_def table_new_def)
  have p: "acquire 1 (nt_observers st0) = Some (0, 1)" using ob counters by (simp add: acquire_def)
  obtain rs1 st1 where st1: "native_run demo_db demo_c_json [ObserverFinish demo_env 0 1 CNull] st0 = Some (rs1, st1)"
    by (cases "cleargate_observer_finish demo_env 0 1 CNull st0") simp
  obtain st2 where "native_run demo_db demo_c_json [demo_start True] st0 = Some ([RHandle 2], st2)"
    "use_observer 0 (Pending (0, 1) ''record_step'' (ObStep False 8 ''s'' JNull)) st2 = None"
    using start [of True st0] counters by (simp add: deref_def)
  with observer_addresses [OF st0 st1 _ p ob, of 0 "''record_step''" "ObStep False 8 ''s'' JNull"] st0 st1 p
  show ?thesis by auto
qed

text \<open>
  (C37) The three bindings record the same. Three sessions in the same state, behind a handle, in a Python
  object and in a Node object, are given the same requests, a finish and further requests: the same
  requests succeed, the finish consumes the same session and has the same outcome, and every later
  request fails. Node states at most 32 bits of duration; texts are valid UTF-8 without NUL.
\<close>

theorem bindings_agree:
  assumes "session_at h (nt_observers st) = Some ob" "so_inner pobj = Some ob" "so_inner nobj = Some ob"
    and "\<not> so_finished pobj" "\<not> so_finished nobj"
    and "list_all (\<lambda>(_, rq). c_fits cj render rq \<and> py_fits py val rq \<and> node_fits rq) (rqs @ later)"
  shows "binding_trace (c_record cj render t h) (c_finish t h) rqs env status later st =
      Some (observer_trace rqs env status later ob)
    \<and> binding_trace (py_record py val) py_finish rqs env status later pobj = Some (observer_trace rqs env status later ob)
    \<and> binding_trace node_record node_finish rqs env status later nobj = Some (observer_trace rqs env status later ob)"
proof -
  have "list_all (\<lambda>(_, rq). c_fits cj render rq) (rqs @ later)" "list_all (\<lambda>(_, rq). py_fits py val rq) (rqs @ later)"
    "list_all (\<lambda>(_, rq). node_fits rq) (rqs @ later)"
    using assms(6) by (auto simp: list_all_iff)
  moreover have "object_inv pobj" "object_inv nobj" using assms(2-5) by (simp_all add: object_inv_def)
  ultimately show ?thesis
    using dotnet.trace_held [OF TrueI assms(1)] python.trace_held [OF _ assms(2)] node.trace_held [OF _ assms(3)] by blast
qed

definition demo_python :: "unit python" where
  "demo_python = \<lparr>py_dumps = \<lambda>_. Inr ''null'', py_loads = \<lambda>_. Inr (), py_parse = \<lambda>_. Inr JNull,
     py_record_text = \<lambda>_. Inr ''{}'', py_events_text = \<lambda>_. Inr ''[]''\<rparr>"

theorem bindings_agree_witness:
  "\<exists>ob st. session_at 1 (nt_observers (st :: unit native)) = Some ob
     \<and> binding_trace (c_record demo_c_json (\<lambda>_. ''a'') 0 1) (c_finish 0 1) [(demo_env, RqStep ''a'' JNull)] demo_env ''failed''
         [(demo_env, RqStep ''a'' JNull)] st
       = binding_trace (py_record demo_python (\<lambda>_. ())) py_finish [(demo_env, RqStep ''a'' JNull)] demo_env ''failed''
         [(demo_env, RqStep ''a'' JNull)] (new_object ob ''run'' ())
     \<and> binding_trace node_record node_finish [(demo_env, RqStep ''a'' JNull)] demo_env ''failed''
         [(demo_env, RqStep ''a'' JNull)] (new_object ob ''run'' ())
       = Some (observer_trace [(demo_env, RqStep ''a'' JNull)] demo_env ''failed'' [(demo_env, RqStep ''a'' JNull)] ob)"
proof -
  obtain ob where start: "\<And>moved st. native_apply demo_db demo_c_json (demo_start moved) st =
    Some (RHandle (nt_next st), st\<lparr>nt_stores := Suc (nt_stores st), nt_next := nt_next st + 1,
      nt_observers := table_insert moved (nt_next st)
        \<lparr>wr_session = Some ob, wr_store = MemRef (nt_stores st), wr_run_id = observer_run_id ob\<rparr> (nt_observers st)\<rparr>)"
    by (rule demo_start_apply) blast
  then obtain st :: "unit native" where "session_at 1 (nt_observers st) = Some ob"
    by (rule_tac that [of "snd (the (native_apply demo_db demo_c_json (demo_start False) native_init))"])
      (simp add: native_init_def)
  moreover have "c_fits demo_c_json (\<lambda>_. ''a'') (RqStep ''a'' JNull)" "py_fits demo_python (\<lambda>_. ()) (RqStep ''a'' JNull)"
    by (simp_all add: c_fits_def c_text_def utf8_demo demo_c_json_def py_fits_def py_to_json_def demo_python_def
        del: utf8_valid.simps)
  ultimately show ?thesis
    using bindings_agree [of 1 st ob "new_object ob ''run'' ()" "new_object ob ''run'' ()" demo_c_json "\<lambda>_. ''a''"
        demo_python "\<lambda>_. ()" "[(demo_env, RqStep ''a'' JNull)]" "[(demo_env, RqStep ''a'' JNull)]" 0 demo_env "''failed''"]
    by (intro exI [of _ ob] exI [of _ st]) (simp add: new_object_def)
qed

end
