(* ===== verification/Spec2Isabelle.thy ===== *)
theory Spec2Isabelle
  imports Write_Pipeline Tag_Store Engine Framework_Adapters Providers Message_Queue Node_Plugins
    Seaorm_Run_Store Seaorm_Flow_Store Dotnet_Binding
begin

text \<open>
  A verification library for the ClearGate flow engine (crate \<open>cleargate-flow-engine\<close>, under
  \<open>src/crates/cleargate-flow-engine/src\<close>; file names below are relative to it), and of the crates beside
  it that call model providers, record other frameworks, store runs and flows in a database, and bind
  sessions to other languages.

  \<^bold>\<open>The program.\<close>  A flow is a graph of nodes whose edges carry conditions.  The engine checks a graph,
  stores its versions under the hash of their content, and executes it: the run loop starts the
  entry nodes as concurrent tasks, retries and times them out, evaluates the conditions of the
  outgoing edges on every result, fans out over arrays and in again, and lets back-edges form
  bounded cycles.  Everything that happens is an event.  A session numbers the events of its run and
  hands them to a write pipeline of two channels, critical and advisory, whose flush task redacts
  and batches them into a run store, from which run records and node results are rebuilt.  Nodes see
  the engine through a context: secrets, a state store, human input, LLM providers and two channels
  for what they report.

  \<^bold>\<open>The theories\<close>, each with the sources it models and what it shows:

  \<^item> \<open>Flow_Prelude\<close>, \<open>F64\<close>, \<open>Json\<close>: the vocabulary.  Results and the \<open>?\<close> operator, ordered maps
    (\<open>BTreeMap\<close>) and association lists (\<open>HashMap\<close>, of whose order nothing depends), machine words,
    \<open>f64\<close> as correctly rounded rationals with infinities and NaN (one zero), and \<open>serde_json::Value\<close>.
  \<^item> \<open>Flow_Types\<close> (\<open>types/\<close>, \<open>errors.rs\<close>, structs of \<open>traits.rs\<close>) and \<open>Write_Events\<close>
    (\<open>write_event.rs\<close>): records and datatypes with the fields and variants of the source.
  \<^item> \<open>Expression_Eval\<close> (\<open>expression.rs\<close>): tokenizer and parser-evaluator of edge conditions; they accept
    exactly the grammar in the comments of the functions (where \<open>!\<close> negates a whole comparison, against
    the heading of the parser) and compute the truth value, and spelled expressions round-trip.
  \<^item> \<open>Flow_Graph\<close> (\<open>executor/edges.rs\<close>, \<open>validate.rs\<close>): the depth-first search for back-edges (the graph
    without them is acyclic where it was searched), validation, entry nodes and input resolution.
  \<^item> \<open>Node_Exec\<close> (\<open>executor/node.rs\<close>): the retry loop of a node over any handler, with its trace.
  \<^item> \<open>Executor\<close> (\<open>executor/run.rs\<close>, \<open>edges.rs\<close>, \<open>fanout.rs\<close>): the run loop as a step relation over
    all schedulings: termination, bounded traversals, what a node waits for after a success and after a
    failure, order-independent fan-in.
  \<^item> \<open>Redaction\<close>, \<open>Write_Pipeline\<close> (\<open>write_pipeline.rs\<close>, \<open>write_handle.rs\<close>, \<open>defaults/redactor.rs\<close>): the
    flush loop interleaved with its writers; numbering, no loss of critical events while it runs,
    shutdown, and exactly what redaction reveals.
  \<^item> \<open>Run_Store\<close>, \<open>File_Run_Store\<close> (\<open>defaults/reconstruct.rs\<close>, \<open>in_memory_run_store.rs\<close>,
    \<open>file_run_store.rs\<close>): the locale \<open>run_store\<close> states what a store promises; both stores are
    interpretations, the file store for every failure of its system calls but \<open>stat\<close>, which \<open>exists()\<close>
    takes for an absent file.
  \<^item> \<open>Session\<close> (\<open>runtime/\<close>, \<open>observer/session.rs\<close>): builder, recording session and observer.
  \<^item> \<open>Versioning\<close>, \<open>Tag_Store\<close> (\<open>versioning.rs\<close>, \<open>defaults/file_flow_store.rs\<close>,
    \<open>file_tag_store.rs\<close>): hashes, the versioning service over the locale \<open>flow_store\<close>, and the tag store
    as a refinement of a map (locale \<open>tag_store\<close>).  Every system call may fail; both locales say which
    outcomes a failing \<open>stat\<close> spoils, and lemmas show the damage it does.
  \<^item> \<open>State_Store\<close>, \<open>Node_Context\<close>, \<open>Human_Input\<close> (\<open>defaults/in_memory_state.rs\<close>, \<open>env_secrets.rs\<close>,
    \<open>node_ctx.rs\<close>, \<open>nodes/human_in_loop.rs\<close>): the locale \<open>state_store\<close> with recovery from checkpoints,
    the operations of a handler, the bounds of its channels, and the delivery of human input.
  \<^item> \<open>Llm_Node\<close>, \<open>Tool_Nodes\<close> (the other files of \<open>nodes/\<close>): the handler that keeps a conversation
    across a cycle, proved over the contract of the state store, and the nodes that route and
    answer tool calls.
  \<^item> \<open>Flow_Executor\<close> (\<open>executor/mod.rs\<close>): \<open>execute\<close> composes versioning, session and run loop; what the
    run record says of an executed flow is proved from end to end.
  \<^item> \<open>Triggers\<close>, \<open>Engine\<close> (\<open>triggers/\<close>, \<open>engine/\<close>): the cron, flow and HTTP triggers, the dispatcher with
    its idempotency keys, and the engine: builder, registry, dispatch loop and crash recovery without
    failing system calls, the last over the locale \<open>run_listing\<close> that extends \<open>run_store\<close> for both stores.
  \<^item> \<open>Seaorm_Run_Store\<close>, \<open>Seaorm_Flow_Store\<close> (crate \<open>cleargate-storage-oss\<close>): the stores over a database,
    whose statements are parameters with laws and whose times have the precision of a column.  The flow
    and tag stores keep the contracts \<open>flow_store\<close> and \<open>tag_store\<close>; seven queries of the run store agree
    with the in-memory store when writes are retried, but crash recovery has no effect on it.
  \<^item> \<open>Node_Plugins\<close> (\<open>dylib.rs\<close>, crate \<open>test-echo-node\<close>): the C interface of nodes in shared libraries, against
    native handlers, the thread of a plugin that its timeout does not stop, and the loader with the
    registry of the engine.
  \<^item> \<open>Message_Queue\<close> (\<open>defaults/in_memory_queue.rs\<close>): publishers, forwarding tasks and consumers as an
    interleaving; order, no duplicates, and gaps only on a lag.
  \<^item> \<open>Rust_Text\<close>: the text operations of the standard library; UTF-8 as the invariant of \<open>String\<close>.
  \<^item> \<open>Provider_Stream\<close>, \<open>Providers\<close> (crate \<open>cleargate-providers\<close>): the streamed answers of the five HTTP
    providers, which share the locale \<open>line_protocol\<close>, against the lines of the whole text; requests,
    answers, errors and panics; pricing and the mock provider.
  \<^item> \<open>Framework_Adapters\<close> (crate \<open>cleargate-adapters\<close>): LangChain, LangGraph and Semantic Kernel callbacks
    and the session that records them, against a reference that pairs starts with ends; the locale
    \<open>call_keys\<close> says what identifies a call, with an interpretation for each framework.
  \<^item> \<open>Session_Bindings\<close>, \<open>Dotnet_Binding\<close> (crates \<open>cleargate-python\<close>, \<open>cleargate-node\<close>, \<open>cleargate-dotnet\<close>): sessions
    of the observer and the adapters as objects of Python and Node and as handles of a C interface; the
    locale \<open>session_binding\<close> says what a binding owes its users and holds of all three.  Functions that
    use an address after they have released a lock are split there, so that schedules show when the
    address is good.
  \<^item> This theory: from the events of a node execution to the node results of a store, and from the
    write pipeline to the run store.

  \<^bold>\<open>How it is modelled.\<close>  Pure functions are HOL functions; a component with state is a record that its
  operations pass along; concurrency (run loop, pipeline, human input, executor, queue) is an \<open>inductive\<close> step
  relation and its invariants are proved by rule induction.  Errors and panics are values.  Code outside the
  repository (SHA-256, the text of JSON, the CSV reader, jq, HTTP and its servers, cron schedules,
  file-system calls, SQL, shared libraries, values of other languages, clocks, Unicode case mapping) is a
  parameter, so every statement holds for all its behaviours; where a property needs something of it (a codec that reads back what it wrote, fresh random ids),
  that is a hypothesis with a witness.  Machine integers keep their width: sequence numbers and token
  totals wrap at 64 and 32 bits, and the statements bound the number of writes where it matters.  No
  definition uses fuel: loops recurse structurally or have a termination proof, and the run loop, whose
  length depends on the schedule, is shown to be well-founded.

  \<^bold>\<open>Not modelled.\<close>  The SDKs in C sharp, TypeScript and Python around the bindings are in other languages;
  \<open>otel_provider.rs\<close> and \<open>schema.rs\<close> only call libraries.  Tracing output and sleeping are left out
  everywhere.
\<close>

section \<open>From a node execution to the results of the run store\<close>

definition running_result :: "node_env \<Rightarrow> u32 \<Rightarrow> node_run_result" where
  "running_result env a =
     (new_node_result (env_node_id env))\<lparr>nr_inputs := env_inputs env, nr_attempts := a\<rparr>"

text \<open>What the results hold before attempt \<open>j\<close>: nothing, or the attempts so far.\<close>

definition results_before :: "node_env \<Rightarrow> nat \<Rightarrow> (string \<times> node_run_result) list" where
  "results_before env j = (if j \<le> 1 then [] else [(env_node_id env, running_result env (of_nat (j - 1)))])"

lemma max_attempt_numbers: "j < 2 ^ 32 \<Longrightarrow> max (of_nat (j - 1)) (of_nat j :: u32) = of_nat j"
  by (simp add: max_def word_le_nat_alt unat_of_nat_u32)

lemma results_started:
  assumes "1 \<le> j" "j < 2 ^ 32"
  shows "node_result_step (started_event env (of_nat j)) (results_before env j) =
    [(env_node_id env, running_result env (of_nat j))]"
  using assms max_attempt_numbers [OF assms(2)]
  by (simp add: results_before_def started_event_def hm_entry_def running_result_def new_node_result_def)

lemma results_retried:
  assumes "retried env h (of_nat j)" "1 \<le> j" "j < 2 ^ 32"
  shows "fold node_result_step (emitted (attempt_trace env h (of_nat j))) (results_before env j)
    = results_before env (Suc j)"
proof -
  obtain m where "emitted (attempt_trace env h (of_nat j))
      = [started_event env (of_nat j), failed_event env (of_nat j) m True]"
    using emitted_retried [OF assms(1)] by blast
  with results_started [OF assms(2,3)] assms(2) show ?thesis
    by (simp add: failed_event_def) (simp add: results_before_def)
qed

lemma results_retries:
  assumes "\<forall>j \<in> {1..<k}. retried env h (of_nat j)" "k < 2 ^ 32" "1 \<le> k"
  shows "fold node_result_step (concat (map (\<lambda>j. emitted (attempt_trace env h (of_nat j))) [1..<k])) []
    = results_before env k"
  using assms
proof (induction k)
  case (Suc k)
  show ?case
  proof (cases "k = 0")
    case True
    then show ?thesis by (simp add: results_before_def)
  next
    case False
    with Suc results_retried [of env h k] show ?thesis by simp
  qed
qed simp

fun outcome_result :: "node_outcome \<Rightarrow> node_run_result \<Rightarrow> bool" where
  "outcome_result (NodeSuccess outputs) r \<longleftrightarrow>
     nr_status r = ''completed'' \<and> nr_outputs r = Some outputs \<and> nr_error r = None"
| "outcome_result (NodeFail err) r \<longleftrightarrow>
     nr_status r = ''failed'' \<and> nr_outputs r = None \<and> nr_error r = Some err \<and> nr_duration_ms r = None"

lemma results_final:
  assumes "\<not> retried env h (of_nat k)" "1 \<le> k" "k < 2 ^ 32"
  shows "\<exists>r. fold node_result_step (emitted (attempt_trace env h (of_nat k))) (results_before env k)
      = [(env_node_id env, r)] \<and> nr_node_id r = env_node_id env \<and> nr_inputs r = env_inputs env
      \<and> nr_attempts r = of_nat k \<and> outcome_result (outcome_of env (att_result (h (of_nat k)))) r"
  unfolding emitted_final [OF assms(1)] using results_started [OF assms(2,3), of env]
  by (cases "att_result (h (of_nat k))")
     (simp_all add: completed_event_def checkpoint_event_def failed_event_def running_result_def
        new_node_result_def)

text \<open>
  (C10) The run store reports what the executor did: for every handler and retry policy, the node
  results rebuilt from the events of one node execution are a single entry with the node's
  inputs, the number of attempts that were started, and the outcome the executor continued with
  (completed with exactly its outputs, or failed with exactly its error message); failures that
  were retried leave no trace in it.
\<close>

theorem node_results_report_outcome:
  "\<exists>r. extract_node_results (emitted (snd (execute_node env h))) = [r]
     \<and> nr_node_id r = env_node_id env \<and> nr_inputs r = env_inputs env
     \<and> outcome_result (res_outcome (fst (execute_node env h))) r
     \<and> unat (nr_attempts r) = length (List.map_filter started_attempt (emitted (snd (execute_node env h))))"
proof -
  obtain k where k: "1 \<le> k" "k \<le> unat (max_attempts_of env)"
    and r: "\<forall>j \<in> {1..<k}. retried env h (of_nat j)" and s: "\<not> retried env h (of_nat k)"
    and ev: "emitted (snd (execute_node env h)) =
       concat (map (\<lambda>j. emitted (attempt_trace env h (of_nat j))) [1..<k])
       @ emitted (attempt_trace env h (of_nat k))"
    and out: "res_outcome (fst (execute_node env h)) = outcome_of env (att_result (h (of_nat k)))"
    by (rule execute_node_events)
  have "unat (max_attempts_of env) < 2 ^ 32" using unsigned_less [of "max_attempts_of env"] by simp
  with k have small: "k < 2 ^ 32" by linarith
  have started: "length (List.map_filter started_attempt (emitted (snd (execute_node env h)))) = k"
    using started_attempts [OF k(1) r s] unfolding ev by simp
  from results_final [OF s k(1) small] results_retries [OF r small k(1)] show ?thesis
    unfolding extract_node_results_def ev fold_append comp_def
    using out started ev small by (auto simp: unat_of_nat_u32)
qed

section \<open>From the write pipeline to the run store\<close>

lemma mset_merge_fresh:
  assumes "\<forall>e \<in> set b. ev_seq e \<notin> ev_seq ` set es"
  shows "mset (merge_events es b) = mset es + mset b"
proof -
  have "List.filter (\<lambda>e. ev_seq e \<notin> set (map ev_seq es)) b = b"
    using assms by (auto simp: filter_id_conv)
  then show ?thesis by (simp only: merge_events_def Let_def mset_sort mset_append)
qed

lemma mset_merge_batches:
  assumes "distinct (map ev_seq (es @ concat bs))"
  shows "mset (fold (\<lambda>b es. merge_events es (of_run r b)) bs es) = mset es + mset (of_run r (concat bs))"
  using assms
proof (induction bs arbitrary: es)
  case (Cons b bs)
  have fresh: "\<forall>e \<in> set (of_run r b). ev_seq e \<notin> ev_seq ` set es"
    using Cons.prems by (auto simp: image_iff)
  have "distinct (map ev_seq (merge_events es (of_run r b) @ concat bs))"
  proof -
    have "mset (map ev_seq (merge_events es (of_run r b) @ concat bs)) \<subseteq># mset (map ev_seq (es @ concat (b # bs)))"
      using mset_merge_fresh [OF fresh]
      by (simp add: of_run_def image_mset_subseteq_mono)
    with Cons.prems show ?thesis
      by (metis seqs_def seqs_distinct)
  qed
  from Cons.IH [OF this] mset_merge_fresh [OF fresh] show ?case by (simp add: of_run_def)
qed (simp add: of_run_def)

text \<open>
  (C8) End to end, from \<open>write\<close> to the stored log: feed the batches that the pipeline's store calls
  accepted, in any reachable state of the pipeline (any interleaving of writers, redaction,
  failures and retries), into the in-memory store.  Then the log of every run holds exactly the
  accepted events of that run, each once, in strictly increasing sequence order, and every one
  of them carries the number of an event given to the write handle.
\<close>

theorem pipeline_fills_store:
  assumes "pipe_ok ctx" and "pipe_reachable ctx st" and "issued_count st < 2 ^ 64"
  shows "mset (mem_events (mem_writes (ps_written st) mem_new) r) = mset (of_run r (concat (ps_written st)))
    \<and> sorted_wrt (<) (map ev_seq (mem_events (mem_writes (ps_written st) mem_new) r))
    \<and> ev_seq ` set (mem_events (mem_writes (ps_written st) mem_new) r)
        \<subseteq> ev_seq ` set (ps_issued st @ ps_try_issued st)"
proof -
  let ?log = "mem_events (mem_writes (ps_written st) mem_new) r"
  note inv = pipe_invariants [OF assms(1,2)]
  have sub: "seqs (concat (ps_written st)) \<subseteq># seqs (ps_issued st @ ps_try_issued st)"
    by (rule written_seqs [OF inv(2)])
  then have d: "distinct (map ev_seq (concat (ps_written st)))"
    using issued_distinct [OF inv(1) assms(3)] by (rule seqs_distinct)
  have log: "?log = fold (\<lambda>b es. merge_events es (of_run r b)) (ps_written st) []"
    by (simp add: mem_writes_log)
  have m: "mset ?log = mset (of_run r (concat (ps_written st)))"
    using mset_merge_batches [of "[]" "ps_written st" r] d unfolding log by simp
  then have "distinct (map ev_seq ?log)"
    using d by (metis distinct_map_filter mset_eq_imp_distinct_iff mset_map of_run_def)
  moreover have "sorted (map ev_seq ?log)"
    using merged_log_spec [of "[]" r "ps_written st"] unfolding log by simp
  ultimately have "sorted_wrt (<) (map ev_seq ?log)" by (simp add: strict_sorted_iff)
  moreover have "ev_seq ` set ?log \<subseteq> ev_seq ` set (ps_issued st @ ps_try_issued st)"
  proof -
    have "set ?log \<subseteq> set (concat (ps_written st))"
      using m [THEN mset_eq_setD] by auto
    moreover have "ev_seq ` set (concat (ps_written st)) \<subseteq> ev_seq ` set (ps_issued st @ ps_try_issued st)"
      using set_mset_mono [OF sub] by (simp add: seqs_def image_Un)
    ultimately show ?thesis by blast
  qed
  ultimately show ?thesis using m by simp
qed

theorem pipeline_fills_store_witness:
  "mset (mem_events (mem_writes (ps_written (select_step (demo_pipe True) (demo_pipe_mid True))) mem_new) ''r'')
     = {#ev_set_seq 1 demo_event#}"
proof -
  let ?st = "select_step (demo_pipe True) (demo_pipe_mid True)"
  have reach: "pipe_reachable (demo_pipe True) ?st"
    by (rule pipe_reachable.step [OF demo_pipe_mid_reachable pipe_step.do_select])
       (simp add: demo_pipe_mid_simps)
  have "those (map (pc_redact (demo_pipe True)) [ev_set_seq 1 demo_event]) = Some [ev_set_seq 1 demo_event]"
    by (simp add: demo_pipe_def default_r.redact_event_no_meta)
  then have st: "ps_written ?st = [[ev_set_seq 1 demo_event]]" "issued_count ?st = 1"
    by (simp_all add: select_step_def on_shutdown_def stop_def flush_nonempty_def flush_batch_def
        drain_critical_def drain_advisory_def demo_pipe_mid_simps issued_count_def demo_pipe_ok_store)
  from pipeline_fills_store [OF demo_pipe_ok reach, of "''r''"] show ?thesis
    by (simp add: st) (simp add: of_run_def demo_event_def)
qed

end
